(* ===== verification/Prelude.thy ===== *)
theory Prelude
  imports Main "HOL-Library.Word"
begin

unbundle bit_operations_syntax

text \<open>
  The prelude of the development: the names of the machine integer types, the error and
  state discipline in which the C functions are written, the notion of an invariant and of
  a simulation for such computations, and the generic facts about bit lists that the
  encoder and the decoder share.

  A C function that returns a value or a negative error code and mutates a struct becomes
  a function from the struct to a result (a sum, the error on the left) and the new
  struct; the struct is returned on errors too, since the callers go on using it.
\<close>

section \<open>Machine integers\<close>

type_synonym u8 = "8 word"
type_synonym u16 = "16 word"
type_synonym u32 = "32 word"
type_synonym u64 = "64 word"

section \<open>Computations with state and errors\<close>

named_theorems comp_simps \<open>equations that run a computation one step\<close>
named_theorems inv_intros \<open>rules that show an invariant of a computation piecewise\<close>
named_theorems sim_intros \<open>rules that show a simulation between computations piecewise\<close>

type_synonym ('s, 'e, 'a) comp = "'s \<Rightarrow> ('e + 'a) \<times> 's"

definition retS :: "'a \<Rightarrow> ('s, 'e, 'a) comp" where
  "retS x = (\<lambda>s. (Inr x, s))"

definition throwS :: "'e \<Rightarrow> ('s, 'e, 'a) comp" where
  "throwS e = (\<lambda>s. (Inl e, s))"

definition bindS :: "('s, 'e, 'a) comp \<Rightarrow> ('a \<Rightarrow> ('s, 'e, 'b) comp) \<Rightarrow> ('s, 'e, 'b) comp" where
  "bindS m f = (\<lambda>s. case m s of (Inl e, s') \<Rightarrow> (Inl e, s') | (Inr x, s') \<Rightarrow> f x s')"

definition thenS :: "('s, 'e, 'a) comp \<Rightarrow> ('s, 'e, 'b) comp \<Rightarrow> ('s, 'e, 'b) comp" where
  "thenS m k = bindS m (\<lambda>_. k)"

definition readS :: "('s \<Rightarrow> 'a) \<Rightarrow> ('s, 'e, 'a) comp" where
  "readS f = (\<lambda>s. (Inr (f s), s))"

definition modS :: "('s \<Rightarrow> 's) \<Rightarrow> ('s, 'e, unit) comp" where
  "modS f = (\<lambda>s. (Inr (), f s))"

definition liftS :: "'e + 'a \<Rightarrow> ('s, 'e, 'a) comp" where
  "liftS r = (\<lambda>s. (r, s))"

definition whenS :: "bool \<Rightarrow> ('s, 'e, unit) comp \<Rightarrow> ('s, 'e, unit) comp" where
  "whenS b m = (if b then m else retS ())"

definition ensureS :: "'e \<Rightarrow> bool \<Rightarrow> ('s, 'e, unit) comp" where
  "ensureS e b = (if b then retS () else throwS e)"

text \<open>Sequencing of results without state, for the loops over a fixed buffer.\<close>

definition bindR :: "'e + 'a \<Rightarrow> ('a \<Rightarrow> 'e + 'b) \<Rightarrow> 'e + 'b" where
  "bindR r f = (case r of Inl e \<Rightarrow> Inl e | Inr x \<Rightarrow> f x)"

lemma bindR_simps [simp]: "bindR (Inl e) f = Inl e" "bindR (Inr x) f = f x"
  by (simp_all add: bindR_def)

lemma bindR_eq_Inr [simp]: "bindR r f = Inr y \<longleftrightarrow> (\<exists>x. r = Inr x \<and> f x = Inr y)"
  by (cases r) auto

lemma retS_run [comp_simps]: "retS x s = (Inr x, s)"
  by (simp add: retS_def)

lemma throwS_run [comp_simps]: "throwS e s = (Inl e, s)"
  by (simp add: throwS_def)

lemma readS_run [comp_simps]: "readS f s = (Inr (f s), s)"
  by (simp add: readS_def)

lemma modS_run [comp_simps]: "modS f s = (Inr (), f s)"
  by (simp add: modS_def)

lemma liftS_run [comp_simps]: "liftS r s = (r, s)"
  by (simp add: liftS_def)

lemma whenS_run [comp_simps]:
  "whenS True m = m" "whenS False m s = (Inr (), s)"
  by (simp_all add: whenS_def retS_def)

lemma ensureS_run [comp_simps]:
  "ensureS e True s = (Inr (), s)" "ensureS e False s = (Inl e, s)"
  by (simp_all add: ensureS_def retS_def throwS_def)

lemma bindS_Inr [comp_simps]: "m s = (Inr x, s') \<Longrightarrow> bindS m f s = f x s'"
  by (simp add: bindS_def)

lemma bindS_Inl [comp_simps]: "m s = (Inl e, s') \<Longrightarrow> bindS m f s = (Inl e, s')"
  by (simp add: bindS_def)

lemma thenS_Inr [comp_simps]: "m s = (Inr x, s') \<Longrightarrow> thenS m k s = k s'"
  by (simp add: thenS_def bindS_def)

lemma thenS_Inl [comp_simps]: "m s = (Inl e, s') \<Longrightarrow> thenS m k s = (Inl e, s')"
  by (simp add: thenS_def bindS_def)

lemma bindS_eq_InrE:
  assumes "bindS m f s = (Inr y, t)"
  obtains x s' where "m s = (Inr x, s')" "f x s' = (Inr y, t)"
  using assms by (auto simp: bindS_def split: prod.splits sum.splits)

lemma thenS_eq_InrE:
  assumes "thenS m k s = (Inr y, t)"
  obtains x s' where "m s = (Inr x, s')" "k s' = (Inr y, t)"
  using assms by (auto simp: thenS_def elim: bindS_eq_InrE)

subsection \<open>Invariants\<close>

text \<open>
  \<open>keeps I E m\<close>: run from a state in \<open>I\<close>, \<open>m\<close> ends in a state in \<open>I\<close>, with an
  error only of the kind \<open>E\<close>.
\<close>

definition keeps :: "('s \<Rightarrow> bool) \<Rightarrow> ('e \<Rightarrow> bool) \<Rightarrow> ('s, 'e, 'a) comp \<Rightarrow> bool" where
  "keeps I E m \<longleftrightarrow> (\<forall>s. I s \<longrightarrow> I (snd (m s)) \<and> (\<forall>e. fst (m s) = Inl e \<longrightarrow> E e))"

lemma keepsI [intro?]:
  "(\<And>s. I s \<Longrightarrow> I (snd (m s)) \<and> (\<forall>e. fst (m s) = Inl e \<longrightarrow> E e)) \<Longrightarrow> keeps I E m"
  by (simp add: keeps_def)

lemma keepsD_state: "keeps I E m \<Longrightarrow> I s \<Longrightarrow> m s = (r, t) \<Longrightarrow> I t"
  by (metis keeps_def snd_conv)

lemma keepsD_error: "keeps I E m \<Longrightarrow> I s \<Longrightarrow> m s = (Inl e, t) \<Longrightarrow> E e"
  by (metis keeps_def fst_conv)

lemma keeps_bindS [inv_intros]:
  assumes "keeps I E m" and "\<And>x. keeps I E (f x)"
  shows "keeps I E (bindS m f)"
proof
  fix s assume I: "I s"
  show "I (snd (bindS m f s)) \<and> (\<forall>e. fst (bindS m f s) = Inl e \<longrightarrow> E e)"
  proof (cases "m s")
    case (Pair r t)
    have It: "I t" using assms(1) I Pair by (rule keepsD_state)
    show ?thesis
    proof (cases r)
      case (Inl e)
      with Pair It assms(1) I show ?thesis
        by (auto simp: bindS_def dest: keepsD_error)
    next
      case (Inr x)
      with Pair It assms(2)[of x] show ?thesis
        by (auto simp: bindS_def keeps_def)
    qed
  qed
qed

lemma keeps_thenS [inv_intros]: "keeps I E m \<Longrightarrow> keeps I E k \<Longrightarrow> keeps I E (thenS m k)"
  unfolding thenS_def by (rule keeps_bindS)

lemma keeps_retS [inv_intros]: "keeps I E (retS x)"
  by (simp add: keeps_def retS_def)

lemma keeps_readS [inv_intros]: "keeps I E (readS f)"
  by (simp add: keeps_def readS_def)

lemma keeps_throwS [inv_intros]: "E e \<Longrightarrow> keeps I E (throwS e)"
  by (simp add: keeps_def throwS_def)

lemma keeps_modS [inv_intros]: "(\<And>s. I s \<Longrightarrow> I (f s)) \<Longrightarrow> keeps I E (modS f)"
  by (simp add: keeps_def modS_def)

lemma keeps_whenS [inv_intros]: "(b \<Longrightarrow> keeps I E m) \<Longrightarrow> keeps I E (whenS b m)"
  by (simp add: whenS_def keeps_retS)

lemma keeps_ensureS [inv_intros]: "(\<not> b \<Longrightarrow> E e) \<Longrightarrow> keeps I E (ensureS e b)"
  by (simp add: ensureS_def keeps_retS keeps_throwS)

lemma keeps_if [inv_intros]:
  "(b \<Longrightarrow> keeps I E m) \<Longrightarrow> (\<not> b \<Longrightarrow> keeps I E k) \<Longrightarrow> keeps I E (if b then m else k)"
  by simp

subsection \<open>Triples\<close>

text \<open>
  \<open>triple P m Q E\<close>: run from a state in \<open>P\<close>, \<open>m\<close> returns a value and a state in \<open>Q\<close>, or
  stops with an error and a state in \<open>E\<close>.
\<close>

definition triple ::
  "('s \<Rightarrow> bool) \<Rightarrow> ('s, 'e, 'a) comp \<Rightarrow> ('a \<Rightarrow> 's \<Rightarrow> bool) \<Rightarrow> ('e \<Rightarrow> 's \<Rightarrow> bool) \<Rightarrow> bool" where
  "triple P m Q E \<longleftrightarrow>
     (\<forall>s. P s \<longrightarrow> (case m s of (Inl e, t) \<Rightarrow> E e t | (Inr x, t) \<Rightarrow> Q x t))"

lemma tripleI [intro?]:
  "(\<And>s. P s \<Longrightarrow> (case m s of (Inl e, t) \<Rightarrow> E e t | (Inr x, t) \<Rightarrow> Q x t)) \<Longrightarrow> triple P m Q E"
  by (simp add: triple_def)

lemma tripleD: "triple P m Q E \<Longrightarrow> P s \<Longrightarrow> m s = (Inr x, t) \<Longrightarrow> Q x t"
  by (force simp: triple_def)

lemma tripleD_error: "triple P m Q E \<Longrightarrow> P s \<Longrightarrow> m s = (Inl e, t) \<Longrightarrow> E e t"
  by (force simp: triple_def)

lemma triple_conseq:
  assumes "triple P' m Q' E'" and "\<And>s. P s \<Longrightarrow> P' s" and "\<And>x s. Q' x s \<Longrightarrow> Q x s"
    and "\<And>e s. E' e s \<Longrightarrow> E e s"
  shows "triple P m Q E"
  using assms unfolding triple_def by (fastforce split: prod.splits sum.splits)

lemma triple_keeps:
  "keeps I F m \<Longrightarrow> triple I m (\<lambda>_. I) (\<lambda>e s. F e \<and> I s)"
  by (fastforce simp: triple_def keeps_def split: prod.splits sum.splits)

lemma triple_bindS:
  "triple P m R E \<Longrightarrow> (\<And>x. triple (R x) (f x) Q E) \<Longrightarrow> triple P (bindS m f) Q E"
  unfolding triple_def bindS_def by (fastforce split: prod.splits sum.splits)

lemma triple_thenS:
  "triple P m (\<lambda>_. R) E \<Longrightarrow> triple R k Q E \<Longrightarrow> triple P (thenS m k) Q E"
  unfolding thenS_def by (rule triple_bindS)

lemma triple_read:
  "(\<And>x. triple (\<lambda>s. P s \<and> f s = x) (g x) Q E) \<Longrightarrow> triple P (bindS (readS f) g) Q E"
  by (simp add: triple_def bindS_def readS_def)

lemma triple_retS: "(\<And>s. P s \<Longrightarrow> Q x s) \<Longrightarrow> triple P (retS x) Q E"
  by (simp add: triple_def retS_def)

lemma triple_throwS: "(\<And>s. P s \<Longrightarrow> E e s) \<Longrightarrow> triple P (throwS e) Q E"
  by (simp add: triple_def throwS_def)

lemma triple_modS: "(\<And>s. P s \<Longrightarrow> Q () (f s)) \<Longrightarrow> triple P (modS f) Q E"
  by (simp add: triple_def modS_def)

lemma triple_ensureS:
  "(\<And>s. P s \<Longrightarrow> b \<Longrightarrow> Q () s) \<Longrightarrow> (\<And>s. P s \<Longrightarrow> \<not> b \<Longrightarrow> E e s) \<Longrightarrow> triple P (ensureS e b) Q E"
  by (simp add: ensureS_def triple_retS triple_throwS)

lemma triple_if:
  "(b \<Longrightarrow> triple P m Q E) \<Longrightarrow> (\<not> b \<Longrightarrow> triple P k Q E) \<Longrightarrow> triple P (if b then m else k) Q E"
  by simp

lemma triple_whenS:
  "(b \<Longrightarrow> triple P m Q E) \<Longrightarrow> (\<And>s. P s \<Longrightarrow> \<not> b \<Longrightarrow> Q () s) \<Longrightarrow> triple P (whenS b m) Q E"
  by (simp add: whenS_def triple_retS)

subsection \<open>Simulations\<close>

text \<open>
  \<open>simul T R m m'\<close>: from states related by \<open>R\<close>, unless \<open>m\<close> stops with an error in
  \<open>T\<close>, both give the same result and end in related states.
\<close>

definition simul ::
  "('e \<Rightarrow> bool) \<Rightarrow> ('s \<Rightarrow> 't \<Rightarrow> bool) \<Rightarrow> ('s, 'e, 'a) comp \<Rightarrow> ('t, 'e, 'a) comp \<Rightarrow> bool" where
  "simul T R m m' \<longleftrightarrow> (\<forall>s t. R s t \<longrightarrow>
     (\<exists>e. fst (m s) = Inl e \<and> T e) \<or> (fst (m s) = fst (m' t) \<and> R (snd (m s)) (snd (m' t))))"

lemma simulI [intro?]:
  "(\<And>s t. R s t \<Longrightarrow> (\<exists>e. fst (m s) = Inl e \<and> T e) \<or>
      (fst (m s) = fst (m' t) \<and> R (snd (m s)) (snd (m' t)))) \<Longrightarrow> simul T R m m'"
  by (simp add: simul_def)

lemma simulD:
  assumes "simul T R m m'" and "R s t" and "m s = (r, s')"
  shows "(\<exists>e. r = Inl e \<and> T e) \<or> (\<exists>t'. m' t = (r, t') \<and> R s' t')"
  using assms unfolding simul_def by (metis fst_conv snd_conv surj_pair)

lemma simul_bindS [sim_intros]:
  assumes m: "simul T R m m'" and f: "\<And>x. simul T R (f x) (f' x)"
  shows "simul T R (bindS m f) (bindS m' f')"
proof
  fix s t assume R: "R s t"
  obtain r s' where ms: "m s = (r, s')" by fastforce
  from simulD [OF m R ms]
  show "(\<exists>e. fst (bindS m f s) = Inl e \<and> T e) \<or>
      (fst (bindS m f s) = fst (bindS m' f' t) \<and> R (snd (bindS m f s)) (snd (bindS m' f' t)))"
  proof (elim disjE exE conjE)
    fix e assume "r = Inl e" "T e"
    then show ?thesis by (simp add: bindS_def ms)
  next
    fix t' assume m't: "m' t = (r, t')" and R': "R s' t'"
    show ?thesis
    proof (cases r)
      case Inl
      then show ?thesis by (simp add: bindS_def ms m't R')
    next
      case (Inr x)
      from f [of x] R' show ?thesis by (simp add: bindS_def ms m't Inr simul_def)
    qed
  qed
qed

lemma simul_thenS [sim_intros]:
  "simul T R m m' \<Longrightarrow> simul T R k k' \<Longrightarrow> simul T R (thenS m k) (thenS m' k')"
  unfolding thenS_def by (rule simul_bindS)

lemma simul_retS [sim_intros]: "simul T R (retS x) (retS x)"
  by (simp add: simul_def retS_def)

lemma simul_throwS [sim_intros]: "simul T R (throwS e) (throwS e)"
  by (simp add: simul_def throwS_def)

lemma simul_readS [sim_intros]:
  "(\<And>s t. R s t \<Longrightarrow> f s = g t) \<Longrightarrow> simul T R (readS f) (readS g)"
  by (simp add: simul_def readS_def)

lemma simul_modS [sim_intros]:
  "(\<And>s t. R s t \<Longrightarrow> R (f s) (g t)) \<Longrightarrow> simul T R (modS f) (modS g)"
  by (simp add: simul_def modS_def)

lemma simul_whenS [sim_intros]:
  "(b \<Longrightarrow> simul T R m m') \<Longrightarrow> simul T R (whenS b m) (whenS b m')"
  by (simp add: whenS_def simul_retS)

lemma simul_ensureS [sim_intros]: "simul T R (ensureS e b) (ensureS e b)"
  by (simp add: ensureS_def simul_retS simul_throwS)

lemma simul_if [sim_intros]:
  "simul T R m m' \<Longrightarrow> simul T R k k' \<Longrightarrow> simul T R (if b then m else k) (if b then m' else k')"
  by simp

section \<open>Bit lists\<close>

text \<open>
  Bit strings are lists of truth values, least significant bit first. \<open>bits_of n v\<close> are
  the low \<open>n\<close> bits of \<open>v\<close>, \<open>of_bits\<close> reads a bit string as a word (bits past the
  width are dropped).
\<close>

definition bits_of :: "nat \<Rightarrow> 'a::len word \<Rightarrow> bool list" where
  "bits_of n v = map (bit v) [0..<n]"

definition of_bits :: "bool list \<Rightarrow> 'a::len word" where
  "of_bits bs = horner_sum of_bool 2 bs"

definition zeros :: "nat \<Rightarrow> bool list" where
  "zeros n = replicate n False"

lemma length_bits_of [simp]: "length (bits_of n v) = n"
  by (simp add: bits_of_def)

lemma length_zeros [simp]: "length (zeros n) = n"
  by (simp add: zeros_def)

lemma zeros_0 [simp]: "zeros 0 = []"
  by (simp add: zeros_def)

lemma bits_of_0 [simp]: "bits_of 0 v = []"
  by (simp add: bits_of_def)

lemma nth_bits_of [simp]: "i < n \<Longrightarrow> bits_of n v ! i = bit v i"
  by (simp add: bits_of_def)

lemma bit_of_bits:
  "bit (of_bits bs :: 'a::len word) i \<longleftrightarrow> i < LENGTH('a) \<and> i < length bs \<and> bs ! i"
  by (auto simp: of_bits_def bit_horner_sum_bit_word_iff)

lemma of_bits_append_zeros [simp]: "of_bits (bs @ zeros n) = of_bits bs"
  by (rule bit_word_eqI) (auto simp: bit_of_bits nth_append zeros_def)

lemma of_bits_zeros [simp]: "of_bits (zeros n) = 0"
  using of_bits_append_zeros [of "[]" n] by (simp add: of_bits_def)

lemma of_bits_Nil [simp]: "of_bits [] = 0"
  by (simp add: of_bits_def)

lemma of_bits_bits_of [simp]: "of_bits (bits_of n v) = take_bit n v"
  by (rule bit_word_eqI) (auto simp: bit_of_bits bit_take_bit_iff)

lemma take_bits_of: "take k (bits_of n v) = bits_of (min k n) v"
  by (auto simp: bits_of_def take_map min_def)

lemma drop_bits_of: "drop k (bits_of n v) = bits_of (n - k) (drop_bit k v)"
  by (rule nth_equalityI) (auto simp: bit_drop_bit_eq)

lemma bits_of_take_bit: "n \<le> m \<Longrightarrow> bits_of n (take_bit m v) = bits_of n v"
  by (rule nth_equalityI) (auto simp: bit_take_bit_iff)

lemma bits_of_add: "bits_of (m + n) v = bits_of m v @ bits_of n (drop_bit m v)"
  by (rule nth_equalityI) (auto simp: nth_append bit_drop_bit_eq)

end
