(* ===== verification/Errors.thy ===== *)
theory Errors
  imports Prelude
begin

text \<open>
  The error codes of \<^verbatim>\<open>include/libnexus-rv/error.h\<close>, their order and their names, and the
  faults of the model: an error code returned to the caller, a failed \<^verbatim>\<open>assert\<close> and an
  operation whose behaviour C leaves undefined (an access outside a buffer, a shift by the
  width of the operand or more).
\<close>

datatype nexus_error =
    nexus_ok
  | nexus_no_mem
  | nexus_buffer_too_small
  | nexus_hwcfg_invalid
  | nexus_stream_bad_mseo
  | nexus_stream_truncate
  | nexus_stream_read_failed
  | nexus_msg_invalid
  | nexus_msg_missing_field
  | nexus_msg_unsupported
  | nexus_trace_eof
  | nexus_trace_not_synced
  | nexus_trace_hist_overflow
  | nexus_trace_icnt_overflow
  | nexus_trace_retstack_empty
  | nexus_trace_mismatch

text \<open>The value of each enumerator, in the order of the declaration.\<close>

fun err_code :: "nexus_error \<Rightarrow> int" where
  "err_code nexus_ok = 0"
| "err_code nexus_no_mem = 1"
| "err_code nexus_buffer_too_small = 2"
| "err_code nexus_hwcfg_invalid = 3"
| "err_code nexus_stream_bad_mseo = 4"
| "err_code nexus_stream_truncate = 5"
| "err_code nexus_stream_read_failed = 6"
| "err_code nexus_msg_invalid = 7"
| "err_code nexus_msg_missing_field = 8"
| "err_code nexus_msg_unsupported = 9"
| "err_code nexus_trace_eof = 10"
| "err_code nexus_trace_not_synced = 11"
| "err_code nexus_trace_hist_overflow = 12"
| "err_code nexus_trace_icnt_overflow = 13"
| "err_code nexus_trace_retstack_empty = 14"
| "err_code nexus_trace_mismatch = 15"

definition str_nexus_error :: "int \<Rightarrow> string" where
  "str_nexus_error err =
     (if err = err_code nexus_ok then ''nexus_ok''
      else if err = err_code nexus_no_mem then ''nexus_no_mem''
      else if err = err_code nexus_hwcfg_invalid then ''nexus_hwcfg_invalid''
      else if err = err_code nexus_buffer_too_small then ''nexus_buffer_too_small''
      else if err = err_code nexus_stream_bad_mseo then ''nexus_stream_bad_mseo''
      else if err = err_code nexus_stream_truncate then ''nexus_stream_truncate''
      else if err = err_code nexus_stream_read_failed then ''nexus_stream_read_failed''
      else if err = err_code nexus_msg_invalid then ''nexus_msg_invalid''
      else if err = err_code nexus_msg_missing_field then ''nexus_msg_missing_field''
      else if err = err_code nexus_msg_unsupported then ''nexus_msg_unsupported''
      else if err = err_code nexus_trace_eof then ''nexus_trace_eof''
      else if err = err_code nexus_trace_not_synced then ''nexus_trace_not_synced''
      else if err = err_code nexus_trace_hist_overflow then ''nexus_trace_hist_overflow''
      else if err = err_code nexus_trace_icnt_overflow then ''nexus_trace_icnt_overflow''
      else if err = err_code nexus_trace_retstack_empty then ''nexus_trace_retstack_empty''
      else if err = err_code nexus_trace_mismatch then ''nexus_trace_mismatch''
      else ''(unknown)'')"

text \<open>The enumeration is ordered as C orders its values.\<close>

lemma err_code_inject [simp]: "err_code a = err_code b \<longleftrightarrow> a = b"
  by (cases a; cases b) simp_all

instantiation nexus_error :: linorder
begin

definition less_eq_nexus_error :: "nexus_error \<Rightarrow> nexus_error \<Rightarrow> bool" where
  "less_eq_nexus_error a b \<longleftrightarrow> err_code a \<le> err_code b"

definition less_nexus_error :: "nexus_error \<Rightarrow> nexus_error \<Rightarrow> bool" where
  "less_nexus_error a b \<longleftrightarrow> err_code a < err_code b"

instance
  by standard (auto simp: less_eq_nexus_error_def less_nexus_error_def)

end

datatype fault =
    Code nexus_error  \<comment> \<open>the function returns the negated error code\<close>
  | Abort             \<comment> \<open>a failed assertion stops the program\<close>
  | Undef             \<comment> \<open>undefined behaviour: out of bounds, bad shift\<close>

type_synonym 'a result = "fault + 'a"
type_synonym ('s, 'a) proc = "('s, fault, 'a) comp"

definition assertS :: "bool \<Rightarrow> ('s, unit) proc" where
  "assertS b = ensureS Abort b"

lemma assertS_run [comp_simps]:
  "assertS True s = (Inr (), s)" "assertS False s = (Inl Abort, s)"
  by (simp_all add: assertS_def comp_simps)

lemma keeps_assertS [inv_intros]: "(\<not> b \<Longrightarrow> E Abort) \<Longrightarrow> keeps I E (assertS b)"
  by (simp add: assertS_def keeps_ensureS)

lemma simul_assertS [sim_intros]: "simul T R (assertS b) (assertS b)"
  by (simp add: assertS_def simul_ensureS)

text \<open>A clean fault is an error code: neither a failed assertion nor undefined behaviour.\<close>

definition clean :: "fault \<Rightarrow> bool" where
  "clean e \<longleftrightarrow> (\<exists>c. e = Code c)"

lemma clean_simps [simp]: "clean (Code c)" "\<not> clean Abort" "\<not> clean Undef"
  by (simp_all add: clean_def)

text \<open>Reading and writing a buffer; outside of it the behaviour is undefined.\<close>

definition buf_read :: "u8 list \<Rightarrow> nat \<Rightarrow> u8 result" where
  "buf_read buf i = (if i < length buf then Inr (buf ! i) else Inl Undef)"

definition buf_write :: "u8 list \<Rightarrow> nat \<Rightarrow> u8 \<Rightarrow> (u8 list) result" where
  "buf_write buf i b = (if i < length buf then Inr (buf[i := b]) else Inl Undef)"

lemma buf_read_in [simp]: "i < length buf \<Longrightarrow> buf_read buf i = Inr (buf ! i)"
  by (simp add: buf_read_def)

lemma buf_write_in [simp]: "i < length buf \<Longrightarrow> buf_write buf i b = Inr (buf[i := b])"
  by (simp add: buf_write_def)

end
