(* ===== verification/MsgTypes.thy ===== *)
theory MsgTypes
  imports Errors
begin

text \<open>
  The message of \<^verbatim>\<open>include/libnexus-rv/msg-types.h\<close> with its predicates, and the hardware
  configuration of \<^verbatim>\<open>include/libnexus-rv/msg-decoder.h\<close>.

  The C struct overlays several fields in unions. The record keeps one field per storage
  cell, and every name of the struct is a reader and a writer of its cell:
  \<open>tagbits\<close> is the byte of the first union (bit-fields are allocated from the least
  significant bit, as the ABIs of the supported hosts do), \<open>word0\<close> is the word of
  \<^verbatim>\<open>icnt\<close>, \<^verbatim>\<open>error_code\<close> and \<^verbatim>\<open>res_data\<close>, \<open>hist\<close> and \<open>hrepeat\<close> are the low and the high
  half of \<^verbatim>\<open>ckdata0\<close>, and \<open>dword1\<close> is the double word of \<^verbatim>\<open>xaddr\<close>, \<^verbatim>\<open>context\<close>, \<^verbatim>\<open>dqdata\<close> and
  \<^verbatim>\<open>ckdata1\<close>. Writers take the 64-bit value that is assigned and truncate it to the field.
\<close>

section \<open>The hardware configuration\<close>

record nexusrv_hw_cfg =
  src_bits :: u32
  ts_bits :: u32
  addr_bits :: u32
  max_stack :: u32
  timer_freq :: u64
  HTM :: bool
  VAO :: bool
  quirk_sifive :: bool

section \<open>Field widths and message codes\<close>

definition NEXUS_RV_BITS_TCODE :: nat where "NEXUS_RV_BITS_TCODE = 6"
definition NEXUS_RV_BITS_ETYPE :: nat where "NEXUS_RV_BITS_ETYPE = 4"
definition NEXUS_RV_BITS_RCODE :: nat where "NEXUS_RV_BITS_RCODE = 4"
definition NEXUS_RV_BITS_EVCODE :: nat where "NEXUS_RV_BITS_EVCODE = 4"
definition NEXUS_RV_BITS_CDF :: nat where "NEXUS_RV_BITS_CDF = 2"
definition NEXUS_RV_BITS_ADDR_SYNC :: nat where "NEXUS_RV_BITS_ADDR_SYNC = 4"
definition NEXUS_RV_BITS_ADDR_BTYPE :: nat where "NEXUS_RV_BITS_ADDR_BTYPE = 2"
definition NEXUS_RV_BITS_OWNERSHIP_FMT :: nat where "NEXUS_RV_BITS_OWNERSHIP_FMT = 2"
definition NEXUS_RV_BITS_OWNERSHIP_PRV :: nat where "NEXUS_RV_BITS_OWNERSHIP_PRV = 2"
definition NEXUS_RV_BITS_OWNERSHIP_V :: nat where "NEXUS_RV_BITS_OWNERSHIP_V = 1"
definition NEXUS_RV_BITS_CKSRC :: nat where "NEXUS_RV_BITS_CKSRC = 4"
definition NEXUS_RV_BITS_CKDF :: nat where "NEXUS_RV_BITS_CKDF = 2"

lemmas field_widths =
  NEXUS_RV_BITS_TCODE_def NEXUS_RV_BITS_ETYPE_def NEXUS_RV_BITS_RCODE_def
  NEXUS_RV_BITS_EVCODE_def NEXUS_RV_BITS_CDF_def NEXUS_RV_BITS_ADDR_SYNC_def
  NEXUS_RV_BITS_ADDR_BTYPE_def NEXUS_RV_BITS_OWNERSHIP_FMT_def NEXUS_RV_BITS_OWNERSHIP_PRV_def
  NEXUS_RV_BITS_OWNERSHIP_V_def NEXUS_RV_BITS_CKSRC_def NEXUS_RV_BITS_CKDF_def

text \<open>The enumerators of \<^verbatim>\<open>nexusrv_tcodes\<close>, as abbreviations so that they match literals.\<close>

abbreviation (input) TCODE_Ownership :: u8 where "TCODE_Ownership \<equiv> 2"
abbreviation (input) TCODE_DirectBranch :: u8 where "TCODE_DirectBranch \<equiv> 3"
abbreviation (input) TCODE_IndirectBranch :: u8 where "TCODE_IndirectBranch \<equiv> 4"
abbreviation (input) TCODE_DataAcquisition :: u8 where "TCODE_DataAcquisition \<equiv> 7"
abbreviation (input) TCODE_Error :: u8 where "TCODE_Error \<equiv> 8"
abbreviation (input) TCODE_ProgTraceSync :: u8 where "TCODE_ProgTraceSync \<equiv> 9"
abbreviation (input) TCODE_DirectBranchSync :: u8 where "TCODE_DirectBranchSync \<equiv> 11"
abbreviation (input) TCODE_IndirectBranchSync :: u8 where "TCODE_IndirectBranchSync \<equiv> 12"
abbreviation (input) TCODE_ResourceFull :: u8 where "TCODE_ResourceFull \<equiv> 27"
abbreviation (input) TCODE_IndirectBranchHist :: u8 where "TCODE_IndirectBranchHist \<equiv> 28"
abbreviation (input) TCODE_IndirectBranchHistSync :: u8 where "TCODE_IndirectBranchHistSync \<equiv> 29"
abbreviation (input) TCODE_RepeatBranch :: u8 where "TCODE_RepeatBranch \<equiv> 30"
abbreviation (input) TCODE_ProgTraceCorrelation :: u8 where "TCODE_ProgTraceCorrelation \<equiv> 33"
abbreviation (input) TCODE_ICT :: u8 where "TCODE_ICT \<equiv> 34"
abbreviation (input) TCODE_Idle :: u8 where "TCODE_Idle \<equiv> 63"

definition nexusrv_tcode_str :: "u8 \<Rightarrow> string" where
  "nexusrv_tcode_str c =
     (if c = TCODE_Ownership then ''Ownership''
      else if c = TCODE_DirectBranch then ''DirectBranch''
      else if c = TCODE_IndirectBranch then ''IndirectBranch''
      else if c = TCODE_Error then ''Error''
      else if c = TCODE_DataAcquisition then ''DataAcquisition''
      else if c = TCODE_ProgTraceSync then ''ProgTraceSync''
      else if c = TCODE_DirectBranchSync then ''DirectBranchSync''
      else if c = TCODE_IndirectBranchSync then ''IndirectBranchSync''
      else if c = TCODE_ResourceFull then ''ResourceFull''
      else if c = TCODE_IndirectBranchHist then ''IndirectBranchHist''
      else if c = TCODE_IndirectBranchHistSync then ''IndirectBranchHistSync''
      else if c = TCODE_RepeatBranch then ''RepeatBranch''
      else if c = TCODE_ICT then ''ICT''
      else if c = TCODE_ProgTraceCorrelation then ''ProgTraceCorrelation''
      else if c = TCODE_Idle then ''Idle''
      else ''Unknown'')"

section \<open>The message\<close>

record nexusrv_msg =
  timestamp :: u64
  src :: u16
  tcode :: u8
  tagbits :: u8
  word0 :: u32
  hist :: u32
  hrepeat :: u32
  dword1 :: u64

text \<open>A bit-field of \<open>n\<close> bits at bit \<open>i\<close> of a byte: reading it, and assigning to it.\<close>

definition bf_get :: "nat \<Rightarrow> nat \<Rightarrow> u8 \<Rightarrow> u8" where
  "bf_get i n b = take_bit n (drop_bit i b)"

definition bf_set :: "nat \<Rightarrow> nat \<Rightarrow> u64 \<Rightarrow> u8 \<Rightarrow> u8" where
  "bf_set i n v b =
     (b AND NOT (push_bit i (mask n))) OR push_bit i (take_bit n (ucast v))"

lemma bit_bf_set:
  "bit (bf_set i n v b) k \<longleftrightarrow>
     k < 8 \<and> (if i \<le> k \<and> k < i + n then bit v (k - i) else bit b k)"
  by (auto simp: bf_set_def bit_simps not_less)

lemma bf_get_set_same:
  assumes "i + n \<le> 8"
  shows "bf_get i n (bf_set i n v b) = take_bit n (ucast v)"
proof (rule bit_word_eqI)
  fix k assume "k < LENGTH(8)"
  with assms show "bit (bf_get i n (bf_set i n v b)) k = bit (take_bit n (ucast v) :: u8) k"
    by (auto simp: bf_get_def bit_take_bit_iff bit_drop_bit_eq bit_bf_set bit_ucast_iff)
qed

lemma bf_get_set_other:
  assumes "i + n \<le> j \<or> j + m \<le> i"
  shows "bf_get j m (bf_set i n v b) = bf_get j m b"
proof (rule bit_word_eqI)
  fix k assume "k < LENGTH(8)"
  with assms show "bit (bf_get j m (bf_set i n v b)) k = bit (bf_get j m b) k"
    by (auto simp: bf_get_def bit_take_bit_iff bit_drop_bit_eq bit_bf_set
        dest: bit_imp_le_length)
qed

text \<open>Readers of the overlaid fields.\<close>

definition sync_type :: "nexusrv_msg \<Rightarrow> u8" where "sync_type m = bf_get 0 4 (tagbits m)"
definition branch_type :: "nexusrv_msg \<Rightarrow> u8" where "branch_type m = bf_get 4 2 (tagbits m)"
definition error_type :: "nexusrv_msg \<Rightarrow> u8" where "error_type m = bf_get 0 4 (tagbits m)"
definition res_code :: "nexusrv_msg \<Rightarrow> u8" where "res_code m = bf_get 0 4 (tagbits m)"
definition stop_code :: "nexusrv_msg \<Rightarrow> u8" where "stop_code m = bf_get 0 4 (tagbits m)"
definition cdf :: "nexusrv_msg \<Rightarrow> u8" where "cdf m = bf_get 4 2 (tagbits m)"
definition ownership_fmt :: "nexusrv_msg \<Rightarrow> u8" where "ownership_fmt m = bf_get 0 2 (tagbits m)"
definition ownership_priv :: "nexusrv_msg \<Rightarrow> u8" where "ownership_priv m = bf_get 2 2 (tagbits m)"
definition ownership_v :: "nexusrv_msg \<Rightarrow> u8" where "ownership_v m = bf_get 4 1 (tagbits m)"
definition idtag :: "nexusrv_msg \<Rightarrow> u8" where "idtag m = bf_get 0 3 (tagbits m)"
definition cksrc :: "nexusrv_msg \<Rightarrow> u8" where "cksrc m = bf_get 0 4 (tagbits m)"
definition ckdf :: "nexusrv_msg \<Rightarrow> u8" where "ckdf m = bf_get 4 2 (tagbits m)"
definition icnt :: "nexusrv_msg \<Rightarrow> u32" where "icnt m = word0 m"
definition error_code :: "nexusrv_msg \<Rightarrow> u32" where "error_code m = word0 m"
definition res_data :: "nexusrv_msg \<Rightarrow> u32" where "res_data m = word0 m"
definition ckdata0 :: "nexusrv_msg \<Rightarrow> u64" where
  "ckdata0 m = ucast (hist m) OR push_bit 32 (ucast (hrepeat m))"
definition xaddr :: "nexusrv_msg \<Rightarrow> u64" where "xaddr m = dword1 m"
definition context_field :: "nexusrv_msg \<Rightarrow> u64" where "context_field m = dword1 m"
definition dqdata :: "nexusrv_msg \<Rightarrow> u64" where "dqdata m = dword1 m"
definition ckdata1 :: "nexusrv_msg \<Rightarrow> u64" where "ckdata1 m = dword1 m"

lemmas field_readers =
  sync_type_def branch_type_def error_type_def res_code_def stop_code_def cdf_def
  ownership_fmt_def ownership_priv_def ownership_v_def idtag_def cksrc_def ckdf_def
  icnt_def error_code_def res_data_def ckdata0_def xaddr_def context_field_def
  dqdata_def ckdata1_def

text \<open>Writers: assignment of a 64-bit value to a field.\<close>

definition set_timestamp :: "u64 \<Rightarrow> nexusrv_msg \<Rightarrow> nexusrv_msg" where
  "set_timestamp v m = m\<lparr>timestamp := v\<rparr>"
definition set_src :: "u64 \<Rightarrow> nexusrv_msg \<Rightarrow> nexusrv_msg" where
  "set_src v m = m\<lparr>src := ucast v\<rparr>"
definition set_tcode :: "u64 \<Rightarrow> nexusrv_msg \<Rightarrow> nexusrv_msg" where
  "set_tcode v m = m\<lparr>tcode := ucast v\<rparr>"
definition set_bits :: "nat \<Rightarrow> nat \<Rightarrow> u64 \<Rightarrow> nexusrv_msg \<Rightarrow> nexusrv_msg" where
  "set_bits i n v m = m\<lparr>tagbits := bf_set i n v (tagbits m)\<rparr>"
definition set_word0 :: "u64 \<Rightarrow> nexusrv_msg \<Rightarrow> nexusrv_msg" where
  "set_word0 v m = m\<lparr>word0 := ucast v\<rparr>"
definition set_hist :: "u64 \<Rightarrow> nexusrv_msg \<Rightarrow> nexusrv_msg" where
  "set_hist v m = m\<lparr>hist := ucast v\<rparr>"
definition set_hrepeat :: "u64 \<Rightarrow> nexusrv_msg \<Rightarrow> nexusrv_msg" where
  "set_hrepeat v m = m\<lparr>hrepeat := ucast v\<rparr>"
definition set_ckdata0 :: "u64 \<Rightarrow> nexusrv_msg \<Rightarrow> nexusrv_msg" where
  "set_ckdata0 v m = m\<lparr>hist := ucast v, hrepeat := ucast (drop_bit 32 v)\<rparr>"
definition set_dword1 :: "u64 \<Rightarrow> nexusrv_msg \<Rightarrow> nexusrv_msg" where
  "set_dword1 v m = m\<lparr>dword1 := v\<rparr>"

lemmas field_writers =
  set_timestamp_def set_src_def set_tcode_def set_bits_def set_word0_def set_hist_def
  set_hrepeat_def set_ckdata0_def set_dword1_def

text \<open>The names by which the code assigns to the bit-fields and the overlaid words.\<close>

abbreviation set_sync_type :: "u64 \<Rightarrow> nexusrv_msg \<Rightarrow> nexusrv_msg" where "set_sync_type \<equiv> set_bits 0 4"
abbreviation set_branch_type :: "u64 \<Rightarrow> nexusrv_msg \<Rightarrow> nexusrv_msg" where "set_branch_type \<equiv> set_bits 4 2"
abbreviation set_error_type :: "u64 \<Rightarrow> nexusrv_msg \<Rightarrow> nexusrv_msg" where "set_error_type \<equiv> set_bits 0 4"
abbreviation set_res_code :: "u64 \<Rightarrow> nexusrv_msg \<Rightarrow> nexusrv_msg" where "set_res_code \<equiv> set_bits 0 4"
abbreviation set_stop_code :: "u64 \<Rightarrow> nexusrv_msg \<Rightarrow> nexusrv_msg" where "set_stop_code \<equiv> set_bits 0 4"
abbreviation set_cdf :: "u64 \<Rightarrow> nexusrv_msg \<Rightarrow> nexusrv_msg" where "set_cdf \<equiv> set_bits 4 2"
abbreviation set_ownership_fmt :: "u64 \<Rightarrow> nexusrv_msg \<Rightarrow> nexusrv_msg" where "set_ownership_fmt \<equiv> set_bits 0 2"
abbreviation set_ownership_priv :: "u64 \<Rightarrow> nexusrv_msg \<Rightarrow> nexusrv_msg" where "set_ownership_priv \<equiv> set_bits 2 2"
abbreviation set_ownership_v :: "u64 \<Rightarrow> nexusrv_msg \<Rightarrow> nexusrv_msg" where "set_ownership_v \<equiv> set_bits 4 1"
abbreviation set_idtag :: "u64 \<Rightarrow> nexusrv_msg \<Rightarrow> nexusrv_msg" where "set_idtag \<equiv> set_bits 0 3"
abbreviation set_cksrc :: "u64 \<Rightarrow> nexusrv_msg \<Rightarrow> nexusrv_msg" where "set_cksrc \<equiv> set_bits 0 4"
abbreviation set_ckdf :: "u64 \<Rightarrow> nexusrv_msg \<Rightarrow> nexusrv_msg" where "set_ckdf \<equiv> set_bits 4 2"
abbreviation set_icnt :: "u64 \<Rightarrow> nexusrv_msg \<Rightarrow> nexusrv_msg" where "set_icnt \<equiv> set_word0"
abbreviation set_error_code :: "u64 \<Rightarrow> nexusrv_msg \<Rightarrow> nexusrv_msg" where "set_error_code \<equiv> set_word0"
abbreviation set_res_data :: "u64 \<Rightarrow> nexusrv_msg \<Rightarrow> nexusrv_msg" where "set_res_data \<equiv> set_word0"
abbreviation set_xaddr :: "u64 \<Rightarrow> nexusrv_msg \<Rightarrow> nexusrv_msg" where "set_xaddr \<equiv> set_dword1"
abbreviation set_context :: "u64 \<Rightarrow> nexusrv_msg \<Rightarrow> nexusrv_msg" where "set_context \<equiv> set_dword1"
abbreviation set_dqdata :: "u64 \<Rightarrow> nexusrv_msg \<Rightarrow> nexusrv_msg" where "set_dqdata \<equiv> set_dword1"
abbreviation set_ckdata1 :: "u64 \<Rightarrow> nexusrv_msg \<Rightarrow> nexusrv_msg" where "set_ckdata1 \<equiv> set_dword1"

lemma ckdata0_set_ckdata0 [simp]: "ckdata0 (set_ckdata0 v m) = v"
  by (rule bit_word_eqI)
    (auto simp: ckdata0_def set_ckdata0_def bit_or_iff bit_push_bit_iff bit_ucast_iff bit_drop_bit_eq)

lemma tcode_writers [simp]:
  "tcode (set_timestamp v m) = tcode m" "tcode (set_src v m) = tcode m"
  "tcode (set_bits i n v m) = tcode m" "tcode (set_word0 v m) = tcode m"
  "tcode (set_hist v m) = tcode m" "tcode (set_hrepeat v m) = tcode m"
  "tcode (set_ckdata0 v m) = tcode m" "tcode (set_dword1 v m) = tcode m"
  by (simp_all add: field_writers)

section \<open>Message predicates\<close>

definition nexusrv_msg_known :: "nexusrv_msg \<Rightarrow> bool" where
  "nexusrv_msg_known m =
     (if tcode m \<in> set [TCODE_Idle, TCODE_ResourceFull, TCODE_DirectBranch,
          TCODE_DirectBranchSync, TCODE_IndirectBranch, TCODE_IndirectBranchSync,
          TCODE_IndirectBranchHist, TCODE_IndirectBranchHistSync, TCODE_RepeatBranch,
          TCODE_Error, TCODE_DataAcquisition, TCODE_Ownership, TCODE_ProgTraceSync]
      then True
      else if tcode m = TCODE_ProgTraceCorrelation then cdf m < 2
      else if tcode m = TCODE_ICT then cksrc m < 2
      else False)"

definition nexusrv_msg_idle :: "nexusrv_msg \<Rightarrow> bool" where
  "nexusrv_msg_idle m \<longleftrightarrow> tcode m = TCODE_Idle"

definition nexusrv_msg_has_src :: "nexusrv_msg \<Rightarrow> bool" where
  "nexusrv_msg_has_src m \<longleftrightarrow> \<not> nexusrv_msg_idle m"

definition nexusrv_msg_is_branch :: "nexusrv_msg \<Rightarrow> bool" where
  "nexusrv_msg_is_branch m \<longleftrightarrow>
     tcode m \<in> set [TCODE_DirectBranch, TCODE_DirectBranchSync, TCODE_IndirectBranch,
       TCODE_IndirectBranchSync, TCODE_IndirectBranchHist, TCODE_IndirectBranchHistSync]"

definition nexusrv_msg_is_indir_branch :: "nexusrv_msg \<Rightarrow> bool" where
  "nexusrv_msg_is_indir_branch m \<longleftrightarrow>
     tcode m \<in> set [TCODE_IndirectBranch, TCODE_IndirectBranchSync,
       TCODE_IndirectBranchHist, TCODE_IndirectBranchHistSync]"

definition nexusrv_msg_is_res :: "nexusrv_msg \<Rightarrow> bool" where
  "nexusrv_msg_is_res m \<longleftrightarrow> tcode m = TCODE_ResourceFull"

definition nexusrv_msg_is_sync :: "nexusrv_msg \<Rightarrow> bool" where
  "nexusrv_msg_is_sync m \<longleftrightarrow>
     tcode m \<in> set [TCODE_DirectBranchSync, TCODE_IndirectBranchSync,
       TCODE_IndirectBranchHistSync, TCODE_ProgTraceSync]"

definition nexusrv_msg_is_error :: "nexusrv_msg \<Rightarrow> bool" where
  "nexusrv_msg_is_error m \<longleftrightarrow> tcode m = TCODE_Error"

definition nexusrv_msg_is_stop :: "nexusrv_msg \<Rightarrow> bool" where
  "nexusrv_msg_is_stop m \<longleftrightarrow> tcode m = TCODE_ProgTraceCorrelation"

definition nexusrv_msg_is_data_acq :: "nexusrv_msg \<Rightarrow> bool" where
  "nexusrv_msg_is_data_acq m \<longleftrightarrow> tcode m = TCODE_DataAcquisition"

definition nexusrv_msg_has_icnt :: "nexusrv_msg \<Rightarrow> bool" where
  "nexusrv_msg_has_icnt m =
     (if tcode m = TCODE_ResourceFull then res_code m = 0
      else tcode m \<in> set [TCODE_DirectBranch, TCODE_DirectBranchSync, TCODE_IndirectBranch,
        TCODE_IndirectBranchSync, TCODE_IndirectBranchHist, TCODE_IndirectBranchHistSync,
        TCODE_ProgTraceSync, TCODE_ProgTraceCorrelation])"

definition nexusrv_msg_has_xaddr :: "nexusrv_msg \<Rightarrow> bool" where
  "nexusrv_msg_has_xaddr m \<longleftrightarrow>
     tcode m \<in> set [TCODE_IndirectBranch, TCODE_IndirectBranchSync, TCODE_IndirectBranchHist,
       TCODE_IndirectBranchHistSync, TCODE_DirectBranchSync, TCODE_ProgTraceSync]"

definition nexusrv_msg_has_hist :: "nexusrv_msg \<Rightarrow> bool" where
  "nexusrv_msg_has_hist m =
     (if tcode m = TCODE_ResourceFull then res_code m = 1 \<or> res_code m = 2
      else if tcode m = TCODE_ProgTraceCorrelation then cdf m = 1
      else tcode m \<in> set [TCODE_IndirectBranchHist, TCODE_IndirectBranchHistSync])"

definition nexusrv_msg_known_rescode :: "u8 \<Rightarrow> bool" where
  "nexusrv_msg_known_rescode rescode \<longleftrightarrow> rescode < 3"

lemmas msg_preds =
  nexusrv_msg_known_def nexusrv_msg_idle_def nexusrv_msg_has_src_def nexusrv_msg_is_branch_def
  nexusrv_msg_is_indir_branch_def nexusrv_msg_is_res_def nexusrv_msg_is_sync_def
  nexusrv_msg_is_error_def nexusrv_msg_is_stop_def nexusrv_msg_is_data_acq_def
  nexusrv_msg_has_icnt_def nexusrv_msg_has_xaddr_def nexusrv_msg_has_hist_def

lemma res_code_range: "res_code m \<le> 2 \<Longrightarrow> res_code m \<noteq> 0 \<Longrightarrow> res_code m \<noteq> 1 \<Longrightarrow> res_code m = 2"
  by unat_arith

text \<open>\<^verbatim>\<open>__builtin_clzl\<close>: the number of leading zero bits of a 64-bit word.\<close>

definition clz64 :: "u64 \<Rightarrow> nat" where
  "clz64 v = length (takeWhile (\<lambda>i. \<not> bit v i) (rev [0..<64]))"

definition nexusrv_msg_hist_bits :: "u32 \<Rightarrow> nat" where
  "nexusrv_msg_hist_bits h = (if h = 0 then 0 else 8 * 8 - 1 - clz64 (ucast h))"

end
