(* ===== verification/MsgBytes.thy ===== *)
theory MsgBytes
  imports MsgTypes
begin

text \<open>
  The byte level of the message protocol: the two parts of a byte
  (\<^verbatim>\<open>internal/protocol.h\<close>), the search for a message boundary, the delimiting of a field
  group by \<^verbatim>\<open>consume_bytes\<close>, and the bit readers and writers \<^verbatim>\<open>unpack_bits\<close> and
  \<^verbatim>\<open>pack_bits\<close> of \<^verbatim>\<open>lib/msg-decoder.c\<close> and \<^verbatim>\<open>lib/msg-encoder.c\<close>.

  A pointer into a buffer is the buffer and an index. Lengths and offsets of type
  \<^verbatim>\<open>size_t\<close> are natural numbers; the places where the C code lets one of them wrap or
  truncates one to \<^verbatim>\<open>unsigned\<close> are written out.
\<close>

section \<open>The parts of a message byte\<close>

definition NEXUS_RV_MDO_BITS :: nat where "NEXUS_RV_MDO_BITS = 6"

definition mseo :: "u8 \<Rightarrow> u8" where "mseo b = take_bit 2 b"
definition mdo :: "u8 \<Rightarrow> u8" where "mdo b = drop_bit 2 b"

definition set_mseo :: "u8 \<Rightarrow> u8 \<Rightarrow> u8" where
  "set_mseo v b = (b AND NOT (mask 2)) OR take_bit 2 v"

definition set_mdo :: "u64 \<Rightarrow> u8 \<Rightarrow> u8" where
  "set_mdo v b = take_bit 2 b OR push_bit 2 (take_bit 6 (ucast v))"

text \<open>A byte put together from its parts.\<close>

definition mk_byte :: "u8 \<Rightarrow> bool list \<Rightarrow> u8" where
  "mk_byte e bs = take_bit 2 e OR push_bit 2 (take_bit 6 (of_bits bs))"

lemma bit_mseo: "bit (mseo b) k \<longleftrightarrow> k < 2 \<and> bit b k"
  by (simp add: mseo_def bit_take_bit_iff)

lemma bit_mdo: "bit (mdo b) k \<longleftrightarrow> bit b (k + 2)"
  by (simp add: mdo_def bit_drop_bit_eq add.commute)

lemma bit_set_mseo: "bit (set_mseo v b) k \<longleftrightarrow> (if k < 2 then bit v k else bit b k)"
  by (auto simp: set_mseo_def bit_simps dest: bit_imp_le_length)

lemma bit_set_mdo:
  "bit (set_mdo v b) k \<longleftrightarrow> k < 8 \<and> (if k < 2 then bit b k else bit v (k - 2))"
  by (auto simp: set_mdo_def bit_simps not_less dest: bit_imp_le_length)

lemma bit_mk_byte:
  "bit (mk_byte e bs) k \<longleftrightarrow>
     (if k < 2 then bit e k else k < 8 \<and> k - 2 < length bs \<and> bs ! (k - 2))"
  by (auto simp: mk_byte_def bit_simps bit_of_bits not_less)

lemma mseo_mk_byte [simp]: "mseo (mk_byte e bs) = take_bit 2 e"
  by (rule bit_word_eqI) (simp add: bit_mseo bit_mk_byte bit_take_bit_iff)

lemma set_mseo_mk_byte [simp]: "set_mseo v (mk_byte e bs) = mk_byte v bs"
  by (rule bit_word_eqI) (simp add: bit_set_mseo bit_mk_byte)

section \<open>Finding a message boundary\<close>

function sync_forward_from :: "u8 list \<Rightarrow> nat \<Rightarrow> nat \<Rightarrow> nat result" where
  "sync_forward_from buf limit consumed =
     (if consumed < limit then
        bindR (buf_read buf consumed)
          (\<lambda>b. if mseo b = 3 then Inr (consumed + 1)
               else sync_forward_from buf limit (consumed + 1))
      else Inl (Code nexus_stream_truncate))"
  by pat_completeness auto
termination
  by (relation "measure (\<lambda>(buf, limit, consumed). limit - consumed)") auto

declare sync_forward_from.simps [simp del]

definition nexusrv_sync_forward :: "u8 list \<Rightarrow> nat \<Rightarrow> nat result" where
  "nexusrv_sync_forward buf limit = sync_forward_from buf limit 0"

fun sync_backward_from :: "u8 list \<Rightarrow> nat \<Rightarrow> nat result" where
  "sync_backward_from buf 0 = Inl (Code nexus_stream_truncate)"
| "sync_backward_from buf (Suc consumed) =
     bindR (buf_read buf consumed)
       (\<lambda>b. if mseo b = 3 then Inr (consumed + 1) else sync_backward_from buf consumed)"

definition nexusrv_sync_backward :: "u8 list \<Rightarrow> nat \<Rightarrow> nat result" where
  "nexusrv_sync_backward buf pos = sync_backward_from buf pos"

lemma sync_forward_from_spec:
  assumes "limit \<le> length buf"
  shows "(\<forall>i. consumed \<le> i \<and> i < limit \<longrightarrow> mseo (buf ! i) \<noteq> 3) \<and>
           sync_forward_from buf limit consumed = Inl (Code nexus_stream_truncate) \<or>
         (\<exists>n. consumed \<le> n \<and> n < limit \<and> mseo (buf ! n) = 3 \<and>
           (\<forall>i. consumed \<le> i \<and> i < n \<longrightarrow> mseo (buf ! i) \<noteq> 3) \<and>
           sync_forward_from buf limit consumed = Inr (n + 1))"
  using assms
proof (induction buf limit consumed rule: sync_forward_from.induct)
  case (1 buf limit consumed)
  show ?case
  proof (cases "consumed < limit \<and> mseo (buf ! consumed) \<noteq> 3")
    case False
    with "1.prems" show ?thesis
      by (subst (1 2) sync_forward_from.simps) (auto intro: exI [of _ consumed])
  next
    case True
    with "1.prems" have step: "sync_forward_from buf limit consumed =
        sync_forward_from buf limit (consumed + 1)"
      by (simp add: sync_forward_from.simps [of buf limit consumed])
    have split: "consumed \<le> i \<longleftrightarrow> i = consumed \<or> consumed + 1 \<le> i" for i by auto
    from "1.IH" [of "buf ! consumed"] True "1.prems" show ?thesis
      unfolding step split by (auto simp: split)
  qed
qed

lemma sync_backward_from_spec:
  assumes "pos \<le> length buf"
  shows "(\<forall>i < pos. mseo (buf ! i) \<noteq> 3) \<and>
           sync_backward_from buf pos = Inl (Code nexus_stream_truncate) \<or>
         (\<exists>n < pos. mseo (buf ! n) = 3 \<and> (\<forall>i. n < i \<and> i < pos \<longrightarrow> mseo (buf ! i) \<noteq> 3) \<and>
           sync_backward_from buf pos = Inr (n + 1))"
  using assms
proof (induction pos)
  case 0
  then show ?case by simp
next
  case (Suc pos)
  show ?case
  proof (cases "mseo (buf ! pos) = 3")
    case True
    with Suc.prems show ?thesis by auto
  next
    case False
    with Suc.prems have step: "sync_backward_from buf (Suc pos) = sync_backward_from buf pos"
      by simp
    from Suc False show ?thesis unfolding step by (auto simp: less_Suc_eq)
  qed
qed

section \<open>Delimiting a field group\<close>

text \<open>
  \<open>consume_from buf base limit consumed\<close>: the loop of \<^verbatim>\<open>consume_bytes\<close> on the bytes at
  \<open>base\<close>. The result is the number of bytes and the value stored in \<^verbatim>\<open>*eom\<close>, which is
  written on success only.
\<close>

function consume_from :: "u8 list \<Rightarrow> nat \<Rightarrow> nat \<Rightarrow> nat \<Rightarrow> (nat \<times> bool) result" where
  "consume_from buf base limit consumed =
     (if consumed < limit then
        bindR (buf_read buf (base + consumed))
          (\<lambda>b. if mseo b = 2 then Inl (Code nexus_stream_bad_mseo)
               else if mseo b = 0 then consume_from buf base limit (consumed + 1)
               else Inr (consumed + 1, mseo b = 3))
      else Inl (Code nexus_stream_truncate))"
  by pat_completeness auto
termination
  by (relation "measure (\<lambda>(buf, base, limit, consumed). limit - consumed)") auto

declare consume_from.simps [simp del]

definition consume_bytes :: "u8 list \<Rightarrow> nat \<Rightarrow> nat \<Rightarrow> (nat \<times> bool) result" where
  "consume_bytes buf base limit = consume_from buf base limit 0"

lemma consume_from_bounds:
  "consume_from buf base limit consumed = Inr (n, e) \<Longrightarrow> consumed < n \<and> n \<le> limit"
proof (induction buf base limit consumed rule: consume_from.induct)
  case (1 buf base limit consumed)
  from "1.prems" show ?case
    by (auto simp: consume_from.simps [of buf base limit consumed] buf_read_def
        split: if_splits dest!: "1.IH")
qed

lemma consume_bytes_bounds:
  "consume_bytes buf base limit = Inr (n, e) \<Longrightarrow> 0 < n \<and> n \<le> limit"
  unfolding consume_bytes_def by (drule consume_from_bounds) simp

lemma consume_from_clean:
  "base + limit \<le> length buf \<Longrightarrow> consume_from buf base limit consumed = Inl e \<Longrightarrow>
    e = Code nexus_stream_bad_mseo \<or> e = Code nexus_stream_truncate"
proof (induction buf base limit consumed rule: consume_from.induct)
  case (1 buf base limit consumed)
  from "1.prems" show ?case
    by (auto simp: consume_from.simps [of buf base limit consumed] buf_read_def
        split: if_splits dest!: "1.IH")
qed

lemma consume_bytes_clean:
  "base + limit \<le> length buf \<Longrightarrow> consume_bytes buf base limit = Inl e \<Longrightarrow>
    e = Code nexus_stream_bad_mseo \<or> e = Code nexus_stream_truncate"
  unfolding consume_bytes_def by (rule consume_from_clean)

text \<open>More bytes behind the buffer change nothing but a truncation.\<close>

lemma consume_from_extend:
  assumes "base + limit \<le> length buf"
    and "consume_from buf base limit consumed = Inl (Code nexus_stream_truncate) \<Longrightarrow> k = 0"
  shows "consume_from (buf @ ext) base (limit + k) consumed = consume_from buf base limit consumed"
  using assms
proof (induction buf base limit consumed rule: consume_from.induct)
  case (1 buf base limit consumed)
  show ?case
  proof (cases "consumed < limit")
    case False
    then have "consume_from buf base limit consumed = Inl (Code nexus_stream_truncate)"
      by (simp add: consume_from.simps)
    with "1.prems"(2) False show ?thesis by (simp add: consume_from.simps [of _ _ _ consumed])
  next
    case lt: True
    with "1.prems"(1) have rd: "buf_read buf (base + consumed) = Inr (buf ! (base + consumed))"
      "buf_read (buf @ ext) (base + consumed) = Inr (buf ! (base + consumed))"
      by (simp_all add: buf_read_def nth_append)
    show ?thesis
    proof (cases "mseo (buf ! (base + consumed)) = 0")
      case True
      with "1.IH" [of "buf ! (base + consumed)"] "1.prems" lt rd show ?thesis
        by (simp add: consume_from.simps [of _ _ _ consumed])
    next
      case False
      with lt rd show ?thesis by (simp add: consume_from.simps [of _ _ _ consumed])
    qed
  qed
qed

text \<open>What is consumed: bytes that continue, and one that ends the group.\<close>

lemma consume_from_group:
  assumes "length mid = n" and "\<forall>b \<in> set mid. mseo b = 0" and "mseo fin \<in> {1, 3}"
    and "n < limit"
  shows "consume_from (pre @ front @ mid @ fin # rest) (length pre) (length front + limit)
    (length front) = Inr (length front + n + 1, mseo fin = 3)"
  using assms
proof (induction mid arbitrary: front n limit)
  case Nil
  then show ?case
    by (subst consume_from.simps) (auto simp: buf_read_def nth_append)
next
  case (Cons b mid)
  from Cons.prems(1,4) obtain k where k: "limit = Suc k" "n = Suc (length mid)" "length mid < k"
    by (cases limit) auto
  from Cons.IH [of "length mid" k "front @ [b]"] Cons.prems k
  show ?case
    by (subst consume_from.simps) (simp add: buf_read_def nth_append)
qed

lemma consume_bytes_group:
  assumes "\<forall>b \<in> set mid. mseo b = 0" and "mseo fin \<in> {1, 3}" and "length mid < limit"
    and "buf = pre @ mid @ fin # rest" and "base = length pre"
  shows "consume_bytes buf base limit = Inr (length mid + 1, mseo fin = 3)"
  using consume_from_group [of mid "length mid" fin limit pre "[]" rest] assms
  by (simp add: consume_bytes_def)

end
