(* ===== verification/BitPack.thy ===== *)
theory BitPack
  imports MsgBytes
begin

text \<open>
  The bit readers and writers of the message codec, \<^verbatim>\<open>unpack_bits\<close>
  (\<^verbatim>\<open>lib/msg-decoder.c\<close>) and \<^verbatim>\<open>pack_bits\<close> (\<^verbatim>\<open>lib/msg-encoder.c\<close>), and what they
  mean on the bit string that the six MDO bits of the bytes of a buffer form.
\<close>

section \<open>The bit string carried by a buffer\<close>

definition mdo_bits :: "u8 \<Rightarrow> bool list" where
  "mdo_bits b = map (bit b) [2..<8]"

definition payload :: "u8 list \<Rightarrow> bool list" where
  "payload bs = concat (map mdo_bits bs)"

lemma length_mdo_bits [simp]: "length (mdo_bits b) = 6"
  by (simp add: mdo_bits_def)

lemma nth_mdo_bits: "i < 6 \<Longrightarrow> mdo_bits b ! i = bit b (i + 2)"
  unfolding mdo_bits_def by (subst nth_map) (auto simp: add.commute simp del: upt_rec_numeral)

lemma payload_simps [simp]:
  "payload [] = []" "payload (b # bs) = mdo_bits b @ payload bs"
  "payload (bs @ cs) = payload bs @ payload cs"
  by (simp_all add: payload_def)

lemma length_payload [simp]: "length (payload bs) = 6 * length bs"
  by (induction bs) simp_all

lemma nth_payload:
  "i < 6 * length bs \<Longrightarrow> payload bs ! i = bit (bs ! (i div 6)) (i mod 6 + 2)"
proof (induction bs arbitrary: i)
  case Nil
  then show ?case by simp
next
  case (Cons b bs)
  show ?case
  proof (cases "i < 6")
    case True
    then show ?thesis by (simp add: nth_append nth_mdo_bits)
  next
    case False
    with Cons.IH [of "i - 6"] Cons.prems
    show ?thesis by (simp add: nth_append nth_Cons' le_div_geq le_mod_geq not_less)
  qed
qed

lemma take_payload: "take (6 * n) (payload bs) = payload (take n bs)"
proof (induction bs arbitrary: n)
  case (Cons b bs)
  then show ?case by (cases n) simp_all
qed simp

lemma drop_payload: "drop (6 * n) (payload bs) = payload (drop n bs)"
proof (induction bs arbitrary: n)
  case (Cons b bs)
  then show ?case by (cases n) simp_all
qed simp

section \<open>Reading bits\<close>

text \<open>
  The loop of \<^verbatim>\<open>unpack_bits\<close> from byte \<open>last\<close> down to byte \<open>start\<close> of the buffer at
  \<open>base\<close>. When \<^verbatim>\<open>last_byte\<close> is zero and the first byte is not reached, \<^verbatim>\<open>--last_byte\<close>
  wraps to the largest \<^verbatim>\<open>size_t\<close> and the next read is outside of every buffer.
\<close>

primrec unpack_loop :: "u8 list \<Rightarrow> nat \<Rightarrow> nat \<Rightarrow> nat \<Rightarrow> nat \<Rightarrow> u64 \<Rightarrow> u64 result" where
  "unpack_loop buf base start shift 0 val =
     bindR (buf_read buf base)
       (\<lambda>b. if start \<noteq> 0 then Inl Undef
            else Inr (push_bit (NEXUS_RV_MDO_BITS - shift) val OR ucast (drop_bit shift (mdo b))))"
| "unpack_loop buf base start shift (Suc l) val =
     bindR (buf_read buf (base + Suc l))
       (\<lambda>b. if start \<noteq> Suc l
            then unpack_loop buf base start shift l
                   (push_bit NEXUS_RV_MDO_BITS val OR ucast (mdo b))
            else Inr (push_bit (NEXUS_RV_MDO_BITS - shift) val OR ucast (drop_bit shift (mdo b))))"

text \<open>
  Reading no bits at all ends in undefined behaviour: the final mask shifts a 64-bit
  constant by 64 (and for offset zero the computation of the last byte wraps).
\<close>

definition unpack_bits :: "u8 list \<Rightarrow> nat \<Rightarrow> nat \<Rightarrow> nat \<Rightarrow> u64 result" where
  "unpack_bits buf base bit_offset bits =
     (if bits = 0 then Inl Undef
      else
        let start_byte = bit_offset div NEXUS_RV_MDO_BITS;
            last_byte = (bit_offset + bits - 1) div NEXUS_RV_MDO_BITS
        in bindR (unpack_loop buf base start_byte (bit_offset mod NEXUS_RV_MDO_BITS) last_byte 0)
             (\<lambda>val. Inr (if bits < 64 then val AND drop_bit (64 - bits) (- 1) else val)))"

lemma mask_as_shift: "n \<le> 64 \<Longrightarrow> drop_bit (64 - n) (- 1 :: u64) = mask n"
  by (rule bit_word_eqI) (auto simp: bit_simps)

lemma and_shift_mask: "n \<le> 64 \<Longrightarrow> v AND drop_bit (64 - n) (- 1 :: u64) = take_bit n v"
  by (simp add: mask_as_shift take_bit_eq_mask)

lemma unpack_last_byte:
  assumes "shift < 6"
  shows "bit (push_bit (6 - shift) val OR ucast (drop_bit shift (mdo b)) :: u64) i \<longleftrightarrow>
     i < 64 \<and> (if i + shift < 6 then bit b (i + shift + 2) else bit val (i + shift - 6))"
  using assms
  by (auto simp: bit_or_iff bit_push_bit_iff bit_ucast_iff bit_drop_bit_eq bit_mdo add_ac
      not_less dest: bit_imp_le_length)

lemma unpack_loop_spec:
  assumes "start \<le> fin" and "base + fin < length buf" and "shift < 6"
  shows "\<exists>v. unpack_loop buf base start shift fin val = Inr v \<and>
    (\<forall>i < 64. bit v i =
       (if i + shift < 6 * (fin + 1 - start)
        then bit (buf ! (base + start + (i + shift) div 6)) ((i + shift) mod 6 + 2)
        else bit val (i + shift - 6 * (fin + 1 - start))))"
  using assms
proof (induction fin arbitrary: val)
  case 0
  then show ?case
    by (auto simp: NEXUS_RV_MDO_BITS_def unpack_last_byte)
next
  case (Suc l)
  let ?b = "buf ! (base + Suc l)"
  show ?case
  proof (cases "start = Suc l")
    case True
    with Suc.prems show ?thesis
      by (auto simp: NEXUS_RV_MDO_BITS_def unpack_last_byte)
  next
    case False
    let ?val = "push_bit 6 val OR ucast (mdo ?b) :: u64"
    from False Suc.prems have le: "start \<le> l" "base + l < length buf" by auto
    obtain v where v: "unpack_loop buf base start shift l ?val = Inr v"
      and bits: "\<forall>i < 64. bit v i =
        (if i + shift < 6 * (l + 1 - start)
         then bit (buf ! (base + start + (i + shift) div 6)) ((i + shift) mod 6 + 2)
         else bit ?val (i + shift - 6 * (l + 1 - start)))"
      using Suc.IH [OF le Suc.prems(3)] by blast
    have run: "unpack_loop buf base start shift (Suc l) val = Inr v"
      using False Suc.prems(2) v by (simp add: NEXUS_RV_MDO_BITS_def)
    have "bit v i =
       (if i + shift < 6 * (Suc l + 1 - start)
        then bit (buf ! (base + start + (i + shift) div 6)) ((i + shift) mod 6 + 2)
        else bit val (i + shift - 6 * (Suc l + 1 - start)))" if i: "i < 64" for i
    proof -
      define d where "d = l + 1 - start"
      have d: "Suc l + 1 - start = d + 1" "base + Suc l = base + start + d"
        using le by (simp_all add: d_def)
      let ?j = "i + shift - 6 * d"
      have byte: "bit ?val ?j = (if ?j < 6 then bit ?b (?j + 2) else bit val (?j - 6))"
      proof -
        have "?j < 64" using i Suc.prems(3) le by (simp add: d_def)
        then show ?thesis using unpack_last_byte [of 0 val ?b ?j] by simp
      qed
      have bi: "bit v i = (if i + shift < 6 * d
          then bit (buf ! (base + start + (i + shift) div 6)) ((i + shift) mod 6 + 2)
          else bit ?val ?j)"
        using bits i unfolding d_def by blast
      show ?thesis
      proof (cases "i + shift < 6 * d")
        case True
        with bi show ?thesis unfolding d by simp
      next
        case F: False
        show ?thesis
        proof (cases "?j < 6")
          case True
          with F have "(i + shift) div 6 = d" "(i + shift) mod 6 = ?j"
            by (simp_all add: div_nat_eqI mod_nat_eqI)
          moreover from True F have "i + shift < 6 * (d + 1)" by simp
          ultimately show ?thesis using True F bi byte unfolding d by simp
        next
          case False
          then have "\<not> i + shift < 6 * (d + 1)" "?j - 6 = i + shift - 6 * (d + 1)" by simp_all
          with False F bi byte show ?thesis unfolding d by simp
        qed
      qed
    qed
    with run show ?thesis by blast
  qed
qed

text \<open>
  The reader takes the \<open>n\<close> bits at the offset of the bit string, as a word: bits past
  the 64th are dropped.
\<close>

lemma unpack_bits_payload:
  assumes "0 < n" and "off + n \<le> 6 * (length buf - base)"
  shows "unpack_bits buf base off n =
    Inr (of_bits (take n (drop off (payload (drop base buf)))))"
proof -
  let ?s = "off div 6" and ?l = "(off + n - 1) div 6" and ?sh = "off mod 6"
  have le: "?s \<le> ?l" using assms(1) by (intro div_le_mono) simp
  have "off + n - 1 < 6 * (length buf - base)" using assms by simp
  then have "?l < length buf - base" by (simp add: less_mult_imp_div_less mult.commute)
  then have inb: "base + ?l < length buf" by simp
  obtain v where v: "unpack_loop buf base ?s ?sh ?l 0 = Inr v"
    and bits: "\<forall>i < 64. bit v i =
       (if i + ?sh < 6 * (?l + 1 - ?s)
        then bit (buf ! (base + ?s + (i + ?sh) div 6)) ((i + ?sh) mod 6 + 2)
        else bit (0 :: u64) (i + ?sh - 6 * (?l + 1 - ?s)))"
    using unpack_loop_spec [OF le inb, of ?sh 0] by auto
  have "(if n < 64 then v AND drop_bit (64 - n) (- 1) else v) =
      of_bits (take n (drop off (payload (drop base buf))))"
  proof (rule bit_word_eqI)
    fix i assume "i < LENGTH(64)"
    then have i: "i < 64" by simp
    have masked: "bit (if n < 64 then v AND drop_bit (64 - n) (- 1) else v) i \<longleftrightarrow>
        i < n \<and> bit v i" for i
    proof (cases "i < 64")
      case True
      then show ?thesis by (auto simp: bit_and_iff bit_mask_iff)
    next
      case False
      then have "\<not> bit w i" for w :: u64 by (auto dest: bit_imp_le_length)
      then show ?thesis by simp
    qed
    have inside: "bit v i = payload (drop base buf) ! (off + i)" if "i < n"
    proof -
      have "i + ?sh < 6 * (?l + 1 - ?s)"
      proof -
        have "off + n - 1 < 6 * (?l + 1)" by (metis Suc_eq_plus1 dividend_less_times_div mult_Suc_right
              add.commute zero_less_numeral)
        moreover have "6 * ?s + ?sh = off" by simp
        ultimately have "6 * ?s + (i + ?sh) < 6 * (?l + 1)" using that by linarith
        then show ?thesis unfolding diff_mult_distrib2 by linarith
      qed
      moreover have "?s + (i + ?sh) div 6 = (off + i) div 6"
        "(i + ?sh) mod 6 = (off + i) mod 6"
      proof -
        have "off + i = 6 * ?s + (i + ?sh)" by simp
        then show "?s + (i + ?sh) div 6 = (off + i) div 6"
          by (metis div_mult_self4 zero_neq_numeral add.commute)
        show "(i + ?sh) mod 6 = (off + i) mod 6" by (simp add: mod_simps add.commute)
      qed
      moreover have "off + i < 6 * length (drop base buf)" using that assms by simp
      ultimately show ?thesis
        using bits i inb by (simp add: nth_payload add.assoc)
    qed
    have len: "length (take n (drop off (payload (drop base buf)))) = n"
      using assms(2) by simp
    show "bit (if n < 64 then v AND drop_bit (64 - n) (- 1) else v) i =
        bit (of_bits (take n (drop off (payload (drop base buf)))) :: u64) i"
      unfolding masked bit_of_bits len using inside i assms by auto
  qed
  with v assms(1) show ?thesis
    by (simp add: unpack_bits_def NEXUS_RV_MDO_BITS_def)
qed

section \<open>The bytes of a field group\<close>

text \<open>
  \<open>chunk_bytes e bs\<close>: the bytes that carry the bit string \<open>bs\<close>, six bits each, padded with
  zeros to whole bytes. All of them have MSEO 0 (the group continues) but the last, which
  has \<open>e\<close>. \<open>clen n\<close> is the number of bytes that carry \<open>n\<close> bits.
\<close>

function chunk_bytes :: "u8 \<Rightarrow> bool list \<Rightarrow> u8 list" where
  "chunk_bytes e bs =
     (if bs = [] then []
      else if length bs \<le> 6 then [mk_byte e bs]
      else mk_byte 0 (take 6 bs) # chunk_bytes e (drop 6 bs))"
  by pat_completeness auto
termination
  by (relation "measure (\<lambda>(e, bs). length bs)") auto

declare chunk_bytes.simps [simp del]

definition clen :: "nat \<Rightarrow> nat" where "clen n = (n + 5) div 6"

lemma chunk_bytes_Nil [simp]: "chunk_bytes e [] = []"
  by (simp add: chunk_bytes.simps)

lemma chunk_bytes_short: "bs \<noteq> [] \<Longrightarrow> length bs \<le> 6 \<Longrightarrow> chunk_bytes e bs = [mk_byte e bs]"
  by (simp add: chunk_bytes.simps)

lemma chunk_bytes_long:
  "length g = 6 \<Longrightarrow> bs \<noteq> [] \<Longrightarrow> chunk_bytes e (g @ bs) = mk_byte 0 g # chunk_bytes e bs"
  by (subst chunk_bytes.simps) (auto simp: Suc_le_eq)

lemma clen_simps [simp]: "clen 0 = 0" "clen (Suc n) = Suc (n div 6)"
  by (simp_all add: clen_def)

lemma clen_le: "6 * clen n \<le> n + 5" and le_clen: "n \<le> 6 * clen n"
  by (simp_all add: clen_def)

lemma clen_le_iff: "clen n \<le> k \<longleftrightarrow> n \<le> 6 * k"
  using clen_le [of n] le_clen [of n] by linarith

lemma clen_add6: "0 < n \<Longrightarrow> clen (6 + n) = Suc (clen n)"
  by (simp add: clen_def)

lemma clen_mult_add: "clen (6 * k + n) = k + clen n"
  by (simp add: clen_def)

lemma clen_eq_0 [simp]: "clen n = 0 \<longleftrightarrow> n = 0"
  by (cases n) simp_all

lemma chunk_bytes_induct [case_names Nil short long]:
  assumes "P []" and "\<And>bs. bs \<noteq> [] \<Longrightarrow> length bs \<le> 6 \<Longrightarrow> P bs"
    and "\<And>g bs. length g = 6 \<Longrightarrow> bs \<noteq> [] \<Longrightarrow> P bs \<Longrightarrow> P (g @ bs)"
  shows "P bs"
proof (induction bs rule: length_induct)
  case (1 bs)
  show ?case
  proof (cases "length bs \<le> 6")
    case True
    with assms(1,2) show ?thesis by (cases "bs = []") auto
  next
    case False
    with "1.IH" have "P (drop 6 bs)" by simp
    moreover from False have "length (take 6 bs) = 6" "drop 6 bs \<noteq> []" by simp_all
    ultimately have "P (take 6 bs @ drop 6 bs)" by (rule assms(3) [rotated 2])
    then show ?thesis by simp
  qed
qed

lemma length_chunk_bytes [simp]: "length (chunk_bytes e bs) = clen (length bs)"
proof (induction bs rule: chunk_bytes_induct)
  case (short bs)
  then show ?case by (cases "length bs") (simp_all add: chunk_bytes_short)
next
  case (long g bs)
  then show ?case by (simp add: chunk_bytes_long clen_add6)
qed simp

lemma chunk_bytes_append:
  "6 dvd length xs \<Longrightarrow> ys \<noteq> [] \<Longrightarrow> chunk_bytes e (xs @ ys) = chunk_bytes 0 xs @ chunk_bytes e ys"
proof (induction xs rule: chunk_bytes_induct)
  case (short xs)
  then have "length xs = 6" by (auto dest: dvd_imp_le)
  with short show ?case by (simp add: chunk_bytes_long chunk_bytes_short)
next
  case (long g bs)
  then have "6 dvd length bs" by (auto simp: dvd_add_right_iff)
  with long show ?case by (simp add: chunk_bytes_long)
qed simp

lemma chunk_bytes_snoc:
  "bs \<noteq> [] \<Longrightarrow> \<exists>mid g. chunk_bytes e bs = mid @ [mk_byte e g] \<and> (\<forall>b \<in> set mid. mseo b = 0) \<and>
     (\<forall>e'. chunk_bytes e' bs = mid @ [mk_byte e' g])"
proof (induction bs rule: chunk_bytes_induct)
  case (short bs)
  then show ?case by (auto simp: chunk_bytes_short intro: exI [of _ "[]"])
next
  case (long g bs)
  then obtain mid g' where "chunk_bytes e bs = mid @ [mk_byte e g']"
    "\<forall>b \<in> set mid. mseo b = 0" "\<forall>e'. chunk_bytes e' bs = mid @ [mk_byte e' g']" by blast
  with long show ?case
    by (auto simp: chunk_bytes_long intro!: exI [of _ "mk_byte 0 g # mid"])
qed simp

lemma mdo_bits_mk_byte: "length bs \<le> 6 \<Longrightarrow> mdo_bits (mk_byte e bs) = bs @ zeros (6 - length bs)"
  by (rule nth_equalityI) (auto simp: nth_mdo_bits bit_mk_byte nth_append zeros_def)

lemma payload_chunk_bytes:
  "payload (chunk_bytes e bs) = bs @ zeros (6 * clen (length bs) - length bs)"
proof (induction bs rule: chunk_bytes_induct)
  case (short bs)
  then have "clen (length bs) = 1" by (cases "length bs") simp_all
  with short show ?case by (simp add: chunk_bytes_short mdo_bits_mk_byte)
next
  case (long g bs)
  then show ?case by (simp add: chunk_bytes_long mdo_bits_mk_byte clen_add6)
qed simp

text \<open>A field group of at least one bit is delimited as a whole.\<close>

lemma consume_bytes_chunk:
  assumes "bs \<noteq> []" and "e \<in> {1, 3}" and "clen (length bs) \<le> limit"
    and "drop base buf = chunk_bytes e bs @ rest" and "base \<le> length buf"
  shows "consume_bytes buf base limit = Inr (clen (length bs), e = 3)"
proof -
  from assms(1) obtain mid g where mid: "chunk_bytes e bs = mid @ [mk_byte e g]"
    "\<forall>b \<in> set mid. mseo b = 0"
    using chunk_bytes_snoc by blast
  from mid(1) have len: "clen (length bs) = length mid + 1"
    by (metis length_chunk_bytes length_append_singleton Suc_eq_plus1)
  have "mseo (mk_byte e g) = e" using assms(2) by auto
  moreover have "buf = take base buf @ mid @ mk_byte e g # rest"
    using assms(4) mid(1) by (metis append.assoc append_Cons append_Nil append_take_drop_id)
  moreover have "base = length (take base buf)" using assms(5) by simp
  ultimately show ?thesis
    using consume_bytes_group [OF mid(2), of "mk_byte e g" limit buf "take base buf" rest base]
      assms(2,3) len
    by simp
qed

section \<open>Writing bits\<close>

function pack_loop :: "u8 list \<Rightarrow> nat \<Rightarrow> u64 \<Rightarrow> nat \<Rightarrow> (u8 list) result" where
  "pack_loop buf bit_offset val bits =
     (let byte = bit_offset div NEXUS_RV_MDO_BITS;
          shift = bit_offset mod NEXUS_RV_MDO_BITS;
          available = NEXUS_RV_MDO_BITS - shift
      in bindR (buf_read buf byte) (\<lambda>b.
           let b1 = (if shift = 0 then set_mdo val (set_mseo 0 b) else b);
               b2 = set_mdo (ucast (mdo b1) OR push_bit shift val) b1
           in bindR (buf_write buf byte b2) (\<lambda>buf'.
                if available \<ge> bits then Inr buf'
                else pack_loop buf' (bit_offset + available) (drop_bit available val)
                       (bits - available))))"
  by pat_completeness auto
termination
proof (relation "measure (\<lambda>(buf, off, val, bits). bits)")
qed (auto simp: NEXUS_RV_MDO_BITS_def)

declare pack_loop.simps [simp del]

text \<open>More than 64 bits make the shift count of the mask negative, hence undefined.\<close>

definition pack_bits :: "u8 list \<Rightarrow> nat \<Rightarrow> u64 \<Rightarrow> nat \<Rightarrow> (u8 list) result" where
  "pack_bits buf bit_offset val bits =
     (if bits = 0 then Inr buf
      else if bits > 64 then Inl Undef
      else pack_loop buf bit_offset (val AND drop_bit (64 - bits) (- 1)) bits)"

lemma bit_mk_byte_bits_of:
  "bit (mk_byte e (cur @ bits_of n v)) k \<longleftrightarrow>
     (if k < 2 then bit e k
      else k < 8 \<and> (if k - 2 < length cur then cur ! (k - 2)
                   else k - 2 - length cur < n \<and> bit v (k - 2 - length cur)))"
  by (auto simp: bit_mk_byte nth_append)

lemma pack_byte_partial:
  assumes "\<And>i. n \<le> i \<Longrightarrow> \<not> bit val i" and "length cur \<le> 6"
  shows "set_mdo (ucast (mdo (mk_byte 0 cur)) OR push_bit (length cur) val) (mk_byte 0 cur) =
    mk_byte 0 (cur @ bits_of (min (6 - length cur) n) val)"
proof (rule bit_word_eqI)
  fix k assume "k < LENGTH(8)"
  then have k: "k < 8" by simp
  have low: "bit val i \<longleftrightarrow> i < n \<and> bit val i" for i using assms(1) [of i] by (cases "n \<le> i") auto
  show "bit (set_mdo (ucast (mdo (mk_byte 0 cur)) OR push_bit (length cur) val) (mk_byte 0 cur)) k =
    bit (mk_byte 0 (cur @ bits_of (min (6 - length cur) n) val)) k"
  proof (cases "k - 2 < length cur")
    case True
    with k show ?thesis
      by (auto simp: bit_mk_byte_bits_of bit_set_mdo bit_mdo bit_mk_byte [of 0 cur] bit_or_iff bit_ucast_iff
          bit_push_bit_iff nth_append)
  next
    case False
    with k assms(2) low [of "k - 2 - length cur"] show ?thesis
      by (auto simp: bit_mk_byte_bits_of bit_set_mdo bit_mdo bit_mk_byte [of 0 cur] bit_or_iff bit_ucast_iff
          bit_push_bit_iff)
  qed
qed

lemma pack_byte_fresh:
  assumes "\<And>i. n \<le> i \<Longrightarrow> \<not> bit val i"
  shows "set_mdo (ucast (mdo (set_mdo val (set_mseo 0 b))) OR push_bit 0 val)
      (set_mdo val (set_mseo 0 b)) = mk_byte 0 (bits_of (min 6 n) val)"
proof (rule bit_word_eqI)
  fix k assume "k < LENGTH(8)"
  then have k: "k < 8" by simp
  have low: "bit val i \<longleftrightarrow> i < n \<and> bit val i" for i using assms [of i] by (cases "n \<le> i") auto
  from k low [of "k - 2"] show "bit (set_mdo (ucast (mdo (set_mdo val (set_mseo 0 b))) OR push_bit 0 val)
      (set_mdo val (set_mseo 0 b))) k = bit (mk_byte 0 (bits_of (min 6 n) val)) k"
    using bit_mk_byte_bits_of [of 0 "[]" "min 6 n" val k]
    by (auto simp: bit_set_mdo bit_mdo bit_set_mseo bit_or_iff bit_ucast_iff)
qed

text \<open>
  \<open>buf\<close> holds, from its start, the bytes \<open>pre\<close> and then the bit string \<open>cur\<close>; the two
  bit writers append to \<open>cur\<close> and touch nothing behind it.
\<close>

definition holds :: "u8 list \<Rightarrow> u8 list \<Rightarrow> bool list \<Rightarrow> bool" where
  "holds buf pre cur \<longleftrightarrow> take (length pre + clen (length cur)) buf = pre @ chunk_bytes 0 cur"

definition appends :: "u8 list \<Rightarrow> u8 list \<Rightarrow> u8 list \<Rightarrow> bool list \<Rightarrow> bool" where
  "appends buf buf' pre cur \<longleftrightarrow> holds buf' pre cur \<and> length buf' = length buf \<and>
     drop (length pre + clen (length cur)) buf' = drop (length pre + clen (length cur)) buf"

lemma holds_length: "holds buf pre cur \<Longrightarrow> length pre + clen (length cur) \<le> length buf"
  unfolding holds_def by (drule arg_cong [of _ _ length]) auto

lemma holds_group:
  assumes "6 dvd length g"
  shows "holds buf pre (g @ cur) \<longleftrightarrow> holds buf (pre @ chunk_bytes 0 g) cur"
proof (cases "cur = []")
  case True
  then show ?thesis by (simp add: holds_def)
next
  case False
  from assms obtain k where "length g = 6 * k" by blast
  with False assms show ?thesis
    by (simp add: holds_def chunk_bytes_append clen_mult_add clen_mult_add [of k 0, simplified] add.assoc)
qed

lemma appends_group:
  assumes "6 dvd length g"
  shows "appends buf buf' pre (g @ cur) \<longleftrightarrow> appends buf buf' (pre @ chunk_bytes 0 g) cur"
proof -
  from assms obtain k where "length g = 6 * k" by blast
  then have "clen (length (g @ cur)) = clen (length g) + clen (length cur)"
    by (simp add: clen_mult_add clen_mult_add [of k 0, simplified])
  with assms show ?thesis by (simp add: appends_def holds_group add.assoc)
qed

lemma pack_loop_step:
  assumes "holds buf pre cur" and "length cur < 6" and "0 < n"
    and "length pre < length buf" and "\<And>i. n \<le> i \<Longrightarrow> \<not> bit val i"
  shows "pack_loop buf (6 * length pre + length cur) val n =
     (let buf' = buf[length pre := mk_byte 0 (cur @ bits_of (min (6 - length cur) n) val)]
      in if n \<le> 6 - length cur then Inr buf'
         else pack_loop buf' (6 * (length pre + 1)) (drop_bit (6 - length cur) val)
                (n - (6 - length cur)))"
proof -
  have pos: "length cur div 6 = 0" "length cur mod 6 = length cur"
    "6 * length pre + length cur + (6 - length cur) = 6 * (length pre + 1)"
    using assms(2) by simp_all
  have old: "buf ! length pre = mk_byte 0 cur" if "cur \<noteq> []"
  proof -
    from that assms(1,2) have "take (length pre + 1) buf = pre @ [mk_byte 0 cur]"
      by (cases "length cur") (auto simp: holds_def chunk_bytes_short)
    then show ?thesis by (metis less_add_one nth_append_length nth_take)
  qed
  have byte: "(let b = buf ! length pre;
        b1 = (if length cur = 0 then set_mdo val (set_mseo 0 b) else b)
     in set_mdo (ucast (mdo b1) OR push_bit (length cur) val) b1) =
     mk_byte 0 (cur @ bits_of (min (6 - length cur) n) val)"
  proof (cases "cur = []")
    case True
    then show ?thesis using pack_byte_fresh [OF assms(5)] by simp
  next
    case False
    then show ?thesis using pack_byte_partial [OF assms(5), of n cur] assms(2) old by simp
  qed
  show ?thesis
    by (subst pack_loop.simps)
      (use assms(4) byte in \<open>simp add: NEXUS_RV_MDO_BITS_def pos Let_def\<close>)
qed

lemma pack_loop_holds:
  assumes "holds buf pre cur" and "length cur < 6" and "0 < n"
    and "6 * length pre + length cur + n \<le> 6 * length buf" and "\<And>i. n \<le> i \<Longrightarrow> \<not> bit val i"
  shows "\<exists>buf'. pack_loop buf (6 * length pre + length cur) val n = Inr buf' \<and>
           appends buf buf' pre (cur @ bits_of n val)"
  using assms
proof (induction n arbitrary: buf pre cur val rule: less_induct)
  case (less n)
  let ?a = "6 - length cur"
  let ?b = "mk_byte 0 (cur @ bits_of (min ?a n) val)"
  let ?buf = "buf[length pre := ?b]"
  have lt: "length pre < length buf" using less.prems(3,4) by linarith
  have pre: "take (length pre) buf = pre"
    using less.prems(1) lt unfolding holds_def
    by (metis append_eq_conv_conj append_take_drop_id le_add1 min.absorb2 take_take)
  have stepped: "take (length pre + 1) ?buf = pre @ [?b]"
    using lt pre by (simp add: take_Suc_conv_app_nth take_update_swap)
  note step = pack_loop_step [OF less.prems(1,2,3) lt less.prems(5)]
  show ?case
  proof (cases "n \<le> ?a")
    case True
    then have c: "length (cur @ bits_of n val) \<le> 6" "cur @ bits_of n val \<noteq> []" 
      using less.prems(2,3) by (auto simp: bits_of_def)
    then have "clen (length (cur @ bits_of n val)) = 1"
      by (metis length_chunk_bytes chunk_bytes_short length_Cons list.size(3) One_nat_def)
    with True c stepped have "appends buf ?buf pre (cur @ bits_of n val)"
      by (simp add: appends_def holds_def chunk_bytes_short min_absorb2)
    with step True show ?thesis by (simp add: Let_def)
  next
    case False
    let ?v = "drop_bit ?a val" and ?n = "n - ?a"
    have b: "?b = mk_byte 0 (cur @ bits_of ?a val)" using False by (simp add: min_absorb1)
    have split: "cur @ bits_of n val = (cur @ bits_of ?a val) @ bits_of ?n ?v"
      using bits_of_add [of ?a ?n val] False by simp
    have six: "length (cur @ bits_of ?a val) = 6" using less.prems(2) by simp
    have "holds ?buf (pre @ [?b]) []" using stepped by (simp add: holds_def)
    moreover have "6 * length (pre @ [?b]) + length ([] :: bool list) + ?n \<le> 6 * length ?buf"
      using less.prems(2,4) False by simp
    moreover have "\<And>i. ?n \<le> i \<Longrightarrow> \<not> bit ?v i" using less.prems(5) by (simp add: bit_drop_bit_eq)
    ultimately obtain buf' where run: "pack_loop ?buf (6 * length (pre @ [?b])) ?v ?n = Inr buf'"
      and app: "appends ?buf buf' (pre @ [?b]) (bits_of ?n ?v)"
      using less.IH [of ?n ?buf "pre @ [?b]" "[]" ?v] False less.prems(2) by fastforce
    from six have "cur @ bits_of ?a val \<noteq> []" by (metis list.size(3) zero_neq_numeral)
    with six have "chunk_bytes 0 (cur @ bits_of ?a val) = [?b]"
      unfolding b by (simp add: chunk_bytes_short)
    with app six have "appends ?buf buf' pre (cur @ bits_of n val)"
      unfolding split by (subst appends_group) simp_all
    then have "appends buf buf' pre (cur @ bits_of n val)"
      using False less.prems(3) by (auto simp: appends_def clen_def drop_update_cancel)
    with step False run show ?thesis by (simp add: Let_def)
  qed
qed

text \<open>\<^verbatim>\<open>pack_bits\<close> appends the low \<open>n\<close> bits of the value.\<close>

lemma pack_bits_appends:
  assumes "holds buf pre cur" and "n \<le> 64"
    and "6 * length pre + length cur + n \<le> 6 * length buf"
  shows "\<exists>buf'. pack_bits buf (6 * length pre + length cur) val n = Inr buf' \<and>
           appends buf buf' pre (cur @ bits_of n val)"
proof (cases "n = 0")
  case True
  with assms(1) show ?thesis by (simp add: pack_bits_def appends_def)
next
  case False
  define k where "k = 6 * (length cur div 6)"
  define g where "g = take k cur"
  define c where "c = drop k cur"
  have cur: "cur = g @ c" "length g = k" "length c < 6" "6 dvd length g"
    by (auto simp: g_def c_def k_def min_absorb2)
  let ?pre = "pre @ chunk_bytes 0 g"
  have lg: "6 * clen (length g) = length g"
    using cur(4) by (auto simp: clen_def)
  have off: "6 * length pre + length cur = 6 * length ?pre + length c"
    using lg cur(1) by simp
  have "holds buf ?pre c" using assms(1) cur holds_group by blast
  moreover have "6 * length ?pre + length c + n \<le> 6 * length buf" using assms(3) off by simp
  moreover have "\<And>i. n \<le> i \<Longrightarrow> \<not> bit (take_bit n val) i" by (simp add: bit_take_bit_iff)
  ultimately obtain buf' where
    "pack_loop buf (6 * length ?pre + length c) (take_bit n val) n = Inr buf'"
    "appends buf buf' ?pre (c @ bits_of n (take_bit n val))"
    using pack_loop_holds [of buf ?pre c n "take_bit n val"] cur(3) False by auto
  moreover have "appends buf buf' pre (cur @ bits_of n val)"
    if "appends buf buf' ?pre (c @ bits_of n val)" for buf'
    using that cur appends_group [of g buf buf' pre "c @ bits_of n val"] by simp
  ultimately show ?thesis
    using False assms(2) by (auto simp: pack_bits_def off bits_of_take_bit
        simp del: length_append simp flip: take_bit_eq_mask)
qed

end
