(* ===== verification/MsgEncode.thy ===== *)
theory MsgEncode
  imports BitPack
begin

text \<open>
  The message encoder \<^verbatim>\<open>nexusrv_msg_encode\<close> of \<^verbatim>\<open>lib/msg-encoder.c\<close>. The macros are
  computations on the output buffer and \<^verbatim>\<open>bit_offset\<close>; the buffer as it was left is
  part of the result on errors too.
\<close>

section \<open>The state and the macros\<close>

record enc_state =
  e_buf :: "u8 list"
  e_off :: nat           \<comment> \<open>\<^verbatim>\<open>bit_offset\<close>\<close>

type_synonym 'a enc = "(enc_state, 'a) proc"

text \<open>\<^verbatim>\<open>__builtin_clzg\<close> of a 64-bit argument: the second argument is the result for zero.\<close>

definition clzg :: "u64 \<Rightarrow> nat \<Rightarrow> nat" where
  "clzg v prec = (if v = 0 then prec else clz64 v)"

definition PACK_FIELD :: "nat \<Rightarrow> nat \<Rightarrow> u64 \<Rightarrow> unit enc" where
  "PACK_FIELD limit bits v = (\<lambda>s.
     if e_off s + bits > limit * NEXUS_RV_MDO_BITS then (Inl (Code nexus_stream_truncate), s)
     else case pack_bits (e_buf s) (e_off s) v bits of
       Inl e \<Rightarrow> (Inl e, s)
     | Inr buf \<Rightarrow> (Inr (), s\<lparr>e_buf := buf, e_off := e_off s + bits\<rparr>))"

text \<open>
  \<^verbatim>\<open>END_FIELD\<close> rounds the offset up to a byte and marks the byte before it. At offset
  zero \<^verbatim>\<open>--byte\<close> wraps around, and the access is outside of the buffer.
\<close>

definition END_FIELD :: "u8 \<Rightarrow> unit enc" where
  "END_FIELD MSEO = (\<lambda>s.
     let byte = (e_off s + (NEXUS_RV_MDO_BITS - 1)) div NEXUS_RV_MDO_BITS in
     if byte = 0 then (Inl Undef, s)
     else case bindR (buf_read (e_buf s) (byte - 1))
                 (\<lambda>b. buf_write (e_buf s) (byte - 1) (set_mseo MSEO b)) of
       Inl e \<Rightarrow> (Inl e, s)
     | Inr buf \<Rightarrow> (Inr (), s\<lparr>e_buf := buf, e_off := byte * NEXUS_RV_MDO_BITS\<rparr>))"

definition PACK_FIXED :: "nat \<Rightarrow> nat \<Rightarrow> u64 \<Rightarrow> unit enc" where
  "PACK_FIXED limit bits v = PACK_FIELD limit bits v"

definition PACK_VAR :: "nat \<Rightarrow> u64 \<Rightarrow> unit enc" where
  "PACK_VAR limit v = thenS (PACK_FIELD limit (64 - clzg v 64) v) (END_FIELD 1)"

definition PACK_VAR_REQ :: "nat \<Rightarrow> u64 \<Rightarrow> unit enc" where
  "PACK_VAR_REQ limit v = thenS (PACK_FIELD limit (64 - clzg v 63) v) (END_FIELD 1)"

text \<open>The number of bits of a sign-extended address that starts at a bit offset.\<close>

definition xaddr_bits :: "nat \<Rightarrow> u64 \<Rightarrow> nat" where
  "xaddr_bits bit_offset a =
     (let bits0 = 64 - clzg a 64;
          bits1 = (if bits0 < 64 then bits0 + 1 else 65 - clzg (NOT a) 64);
          bytes = (bit_offset + bits1 + NEXUS_RV_MDO_BITS - 1) div NEXUS_RV_MDO_BITS;
          bits2 = bytes * NEXUS_RV_MDO_BITS - bit_offset
      in if bits2 > 64 then 64 else bits2)"

definition PACK_XADDR_VAO :: "nat \<Rightarrow> u64 \<Rightarrow> unit enc" where
  "PACK_XADDR_VAO limit a =
     bindS (readS e_off) (\<lambda>off.
       thenS (PACK_FIELD limit (xaddr_bits off a) a) (END_FIELD 1))"

section \<open>The encoder\<close>

definition encode_branch :: "nexusrv_hw_cfg \<Rightarrow> nat \<Rightarrow> nexusrv_msg \<Rightarrow> unit enc" where
  "encode_branch cfg limit msg =
     thenS (whenS (nexusrv_msg_is_sync msg)
              (PACK_FIXED limit NEXUS_RV_BITS_ADDR_SYNC (ucast (sync_type msg))))
    (thenS (whenS (nexusrv_msg_is_indir_branch msg)
              (PACK_FIXED limit NEXUS_RV_BITS_ADDR_BTYPE (ucast (branch_type msg))))
    (thenS (assertS (nexusrv_msg_has_icnt msg))
    (thenS (PACK_VAR_REQ limit (ucast (icnt msg)))
    (thenS (whenS (nexusrv_msg_has_xaddr msg)
              (if VAO cfg then PACK_XADDR_VAO limit (xaddr msg)
               else PACK_VAR_REQ limit (xaddr msg)))
           (whenS (nexusrv_msg_has_hist msg) (PACK_VAR_REQ limit (ucast (hist msg))))))))"

definition encode_resource :: "nat \<Rightarrow> nexusrv_msg \<Rightarrow> unit enc" where
  "encode_resource limit msg =
     thenS (PACK_FIXED limit NEXUS_RV_BITS_RCODE (ucast (res_code msg)))
       (if res_code msg > 2 then PACK_VAR limit (ucast (res_data msg))
        else if res_code msg = 0 then PACK_VAR_REQ limit (ucast (icnt msg))
        else if res_code msg = 1 then PACK_VAR_REQ limit (ucast (hist msg))
        else if res_code msg = 2 then
          thenS (PACK_VAR_REQ limit (ucast (hist msg))) (PACK_VAR_REQ limit (ucast (hrepeat msg)))
        else retS ())"

definition encode_correlation :: "nat \<Rightarrow> nexusrv_msg \<Rightarrow> unit enc" where
  "encode_correlation limit msg =
     thenS (PACK_FIXED limit NEXUS_RV_BITS_EVCODE (ucast (stop_code msg)))
    (thenS (PACK_FIXED limit NEXUS_RV_BITS_CDF (ucast (cdf msg)))
    (thenS (PACK_VAR_REQ limit (ucast (icnt msg)))
       (if cdf msg > 1 then throwS (Code nexus_msg_unsupported)
        else whenS (cdf msg \<noteq> 0) (PACK_VAR_REQ limit (ucast (hist msg))))))"

definition encode_ict :: "nat \<Rightarrow> nexusrv_msg \<Rightarrow> unit enc" where
  "encode_ict limit msg =
     thenS (PACK_FIXED limit NEXUS_RV_BITS_CKSRC (ucast (cksrc msg)))
    (thenS (PACK_FIXED limit NEXUS_RV_BITS_CKDF (ucast (ckdf msg)))
    (thenS (PACK_VAR_REQ limit (ckdata0 msg))
       (if ckdf msg > 1 then throwS (Code nexus_msg_unsupported)
        else PACK_VAR_REQ limit (ckdata1 msg))))"

definition encode_rest :: "nat \<Rightarrow> nexusrv_msg \<Rightarrow> unit enc" where
  "encode_rest limit msg =
     (if tcode msg = TCODE_Ownership then
        thenS (PACK_FIXED limit NEXUS_RV_BITS_OWNERSHIP_FMT (ucast (ownership_fmt msg)))
       (thenS (PACK_FIXED limit NEXUS_RV_BITS_OWNERSHIP_PRV (ucast (ownership_priv msg)))
       (thenS (PACK_FIXED limit NEXUS_RV_BITS_OWNERSHIP_V (ucast (ownership_v msg)))
              (PACK_VAR limit (context_field msg))))
      else if tcode msg = TCODE_Error then
        thenS (PACK_FIXED limit NEXUS_RV_BITS_ETYPE (ucast (error_type msg)))
              (PACK_VAR limit (ucast (error_code msg)))
      else if tcode msg = TCODE_ResourceFull then encode_resource limit msg
      else if tcode msg = TCODE_RepeatBranch then PACK_VAR_REQ limit (ucast (hrepeat msg))
      else if tcode msg = TCODE_ProgTraceCorrelation then encode_correlation limit msg
      else if tcode msg = TCODE_ICT then encode_ict limit msg
      else throwS (Code nexus_msg_unsupported))"

definition encode_timestamp :: "nexusrv_hw_cfg \<Rightarrow> nat \<Rightarrow> nexusrv_msg \<Rightarrow> unit enc" where
  "encode_timestamp cfg limit msg =
     whenS (ts_bits cfg \<noteq> 0)
       (if nexusrv_msg_is_sync msg then PACK_VAR_REQ limit (timestamp msg)
        else PACK_VAR limit (timestamp msg))"

definition encode_body :: "nexusrv_hw_cfg \<Rightarrow> nat \<Rightarrow> nexusrv_msg \<Rightarrow> unit enc" where
  "encode_body cfg limit msg =
     whenS (tcode msg \<noteq> TCODE_Idle)
       (thenS (whenS (src_bits cfg \<noteq> 0)
                (PACK_FIXED limit (unat (src_bits cfg)) (ucast (src msg))))
       (thenS (if tcode msg \<in> set [TCODE_DirectBranch, TCODE_DirectBranchSync,
                   TCODE_IndirectBranch, TCODE_IndirectBranchSync, TCODE_IndirectBranchHist,
                   TCODE_IndirectBranchHistSync, TCODE_ProgTraceSync]
               then encode_branch cfg limit msg
               else encode_rest limit msg)
              (encode_timestamp cfg limit msg)))"

definition encode_run :: "nexusrv_hw_cfg \<Rightarrow> nat \<Rightarrow> nexusrv_msg \<Rightarrow> unit enc" where
  "encode_run cfg limit msg =
     thenS (ensureS (Code nexus_msg_unsupported) (nexusrv_msg_known msg))
    (thenS (PACK_FIXED limit NEXUS_RV_BITS_TCODE (ucast (tcode msg)))
    (thenS (encode_body cfg limit msg) (END_FIELD 3)))"

text \<open>The result is the number of bytes written, or the error, and the buffer.\<close>

definition nexusrv_msg_encode ::
    "nexusrv_hw_cfg \<Rightarrow> u8 list \<Rightarrow> nat \<Rightarrow> nexusrv_msg \<Rightarrow> nat result \<times> u8 list" where
  "nexusrv_msg_encode cfg buf limit msg =
     (case encode_run cfg limit msg \<lparr>e_buf = buf, e_off = 0\<rparr> of
        (Inl e, s) \<Rightarrow> (Inl e, e_buf s)
      | (Inr _, s) \<Rightarrow> (Inr (e_off s div NEXUS_RV_MDO_BITS), e_buf s))"

end
