(* ===== verification/WireFormat.thy ===== *)
theory WireFormat
  imports BitPack
begin

text \<open>
  The wire format of a message, as the abstract specification of the codec. A message is a
  list of fields (\<open>layout\<close>); the fields fill groups of bits, a group ends after each field
  of variable length, and a group is carried by whole bytes (\<open>wire\<close>). Neither the encoder
  nor the decoder is mentioned here: the encoder is shown to write \<open>wire\<close> of the layout,
  and the decoder to recover the layout from it.
\<close>

section \<open>Fields and groups\<close>

datatype wire_field =
    Fixed nat u64       \<comment> \<open>a number of bits\<close>
  | Variable u64        \<comment> \<open>the significant bits, none for zero; ends the group\<close>
  | Required u64        \<comment> \<open>the significant bits, at least one; ends the group\<close>
  | Address u64         \<comment> \<open>sign extended to whole bytes; ends the group\<close>

text \<open>The number of significant bits of a word, and of a word read as a signed number.\<close>

definition sig_bits :: "u64 \<Rightarrow> nat" where
  "sig_bits v = 64 - clz64 v"

definition signed_bits :: "u64 \<Rightarrow> nat" where
  "signed_bits v = (if bit v 63 then sig_bits (NOT v) else sig_bits v) + 1"

text \<open>
  A signed address takes the bits up to the end of a byte, but not more than 64. \<open>off\<close> is
  the number of bits of the group before it.
\<close>

definition address_bits :: "nat \<Rightarrow> u64 \<Rightarrow> nat" where
  "address_bits off v = min 64 (6 * clen (off + signed_bits v) - off)"

text \<open>The groups that are complete, and the bits of the group that is not.\<close>

type_synonym groups = "bool list list \<times> bool list"

definition close_group :: "groups \<Rightarrow> groups" where
  "close_group g = (if snd g = [] then g else (fst g @ [snd g], []))"

fun add_field :: "groups \<Rightarrow> wire_field \<Rightarrow> groups" where
  "add_field (gs, cur) (Fixed n v) = (gs, cur @ bits_of n v)"
| "add_field (gs, cur) (Variable v) = close_group (gs, cur @ bits_of (sig_bits v) v)"
| "add_field (gs, cur) (Required v) = close_group (gs, cur @ bits_of (max 1 (sig_bits v)) v)"
| "add_field (gs, cur) (Address v) = close_group (gs, cur @ bits_of (address_bits (length cur) v) v)"

definition add_fields :: "groups \<Rightarrow> wire_field list \<Rightarrow> groups" where
  "add_fields g fs = foldl add_field g fs"

definition field_groups :: "wire_field list \<Rightarrow> bool list list" where
  "field_groups fs = fst (close_group (add_fields ([], []) fs))"

text \<open>The bytes of groups: MSEO 1 ends each of them, MSEO 3 the last.\<close>

fun group_bytes :: "bool list list \<Rightarrow> u8 list" where
  "group_bytes [] = []"
| "group_bytes [g] = chunk_bytes 3 g"
| "group_bytes (g # gs) = chunk_bytes 1 g @ group_bytes gs"

definition wire :: "wire_field list \<Rightarrow> u8 list" where
  "wire fs = group_bytes (field_groups fs)"

section \<open>The layout of the messages\<close>

definition branch_layout :: "nexusrv_hw_cfg \<Rightarrow> nexusrv_msg \<Rightarrow> wire_field list" where
  "branch_layout cfg m =
     (if nexusrv_msg_is_sync m then [Fixed 4 (ucast (sync_type m))] else []) @
     (if nexusrv_msg_is_indir_branch m then [Fixed 2 (ucast (branch_type m))] else []) @
     [Required (ucast (icnt m))] @
     (if nexusrv_msg_has_xaddr m then [if VAO cfg then Address (xaddr m) else Required (xaddr m)]
      else []) @
     (if nexusrv_msg_has_hist m then [Required (ucast (hist m))] else [])"

definition body_layout :: "nexusrv_hw_cfg \<Rightarrow> nexusrv_msg \<Rightarrow> wire_field list" where
  "body_layout cfg m =
     (if tcode m = TCODE_Ownership then
        [Fixed 2 (ucast (ownership_fmt m)), Fixed 2 (ucast (ownership_priv m)),
         Fixed 1 (ucast (ownership_v m)), Variable (context_field m)]
      else if tcode m = TCODE_Error then
        [Fixed 4 (ucast (error_type m)), Variable (ucast (error_code m))]
      else if tcode m = TCODE_ResourceFull then
        Fixed 4 (ucast (res_code m)) #
        (if res_code m = 0 then [Required (ucast (icnt m))]
         else if res_code m = 1 then [Required (ucast (hist m))]
         else if res_code m = 2 then [Required (ucast (hist m)), Required (ucast (hrepeat m))]
         else [Variable (ucast (res_data m))])
      else if tcode m = TCODE_RepeatBranch then [Required (ucast (hrepeat m))]
      else if tcode m = TCODE_ProgTraceCorrelation then
        [Fixed 4 (ucast (stop_code m)), Fixed 2 (ucast (cdf m)), Required (ucast (icnt m))] @
        (if cdf m = 1 then [Required (ucast (hist m))] else [])
      else if tcode m = TCODE_ICT then
        [Fixed 4 (ucast (cksrc m)), Fixed 2 (ucast (ckdf m)), Required (ckdata0 m),
         Required (ckdata1 m)]
      else branch_layout cfg m)"

definition time_layout :: "nexusrv_hw_cfg \<Rightarrow> nexusrv_msg \<Rightarrow> wire_field list" where
  "time_layout cfg m =
     (if ts_bits cfg = 0 then []
      else if nexusrv_msg_is_sync m then [Required (timestamp m)]
      else [Variable (timestamp m)])"

definition layout :: "nexusrv_hw_cfg \<Rightarrow> nexusrv_msg \<Rightarrow> wire_field list" where
  "layout cfg m =
     Fixed 6 (ucast (tcode m)) #
     (if tcode m = TCODE_Idle then []
      else (if src_bits cfg = 0 then [] else [Fixed (unat (src_bits cfg)) (ucast (src m))]) @
        body_layout cfg m @ time_layout cfg m)"

text \<open>The messages that have a layout.\<close>

definition encodable :: "nexusrv_msg \<Rightarrow> bool" where
  "encodable m \<longleftrightarrow> tcode m \<in> set [TCODE_Idle, TCODE_ResourceFull, TCODE_DirectBranch,
       TCODE_DirectBranchSync, TCODE_IndirectBranch, TCODE_IndirectBranchSync,
       TCODE_IndirectBranchHist, TCODE_IndirectBranchHistSync, TCODE_RepeatBranch,
       TCODE_Error, TCODE_Ownership, TCODE_ProgTraceSync] \<or>
     tcode m = TCODE_ProgTraceCorrelation \<and> cdf m < 2 \<or>
     tcode m = TCODE_ICT \<and> cksrc m < 2 \<and> ckdf m < 2"

section \<open>Significant bits\<close>

lemma clz64_props:
  "clz64 v \<le> 64" "v \<noteq> 0 \<Longrightarrow> clz64 v < 64 \<and> bit v (63 - clz64 v)"
  "64 - clz64 v \<le> i \<Longrightarrow> \<not> bit v i"
proof -
  define xs where "xs = rev [0..<64 :: nat]"
  have nth: "xs ! k = 63 - k" if "k < 64" for k
    using that unfolding xs_def by (subst rev_nth) simp_all
  have len: "length xs = 64" by (simp add: xs_def)
  have def: "clz64 v = length (takeWhile (\<lambda>i. \<not> bit v i) xs)" by (simp add: clz64_def xs_def)
  show le: "clz64 v \<le> 64"
    unfolding def using length_takeWhile_le [of "\<lambda>i. \<not> bit v i" xs] len by simp
  have top: "\<not> bit v (63 - k)" if "k < clz64 v" for k
  proof -
    have "takeWhile (\<lambda>i. \<not> bit v i) xs ! k \<in> set (takeWhile (\<lambda>i. \<not> bit v i) xs)"
      using that unfolding def by (rule nth_mem)
    then have "\<not> bit v (takeWhile (\<lambda>i. \<not> bit v i) xs ! k)" by (rule set_takeWhileD [THEN conjunct2])
    moreover have "takeWhile (\<lambda>i. \<not> bit v i) xs ! k = 63 - k"
      using that le unfolding def by (subst takeWhile_nth) (simp_all add: nth)
    ultimately show ?thesis by simp
  qed
  show high: "64 - clz64 v \<le> i \<Longrightarrow> \<not> bit v i" for i
    using top [of "63 - i"] le bit_imp_le_length [of v i] by (cases "i < 64") auto
  show "v \<noteq> 0 \<Longrightarrow> clz64 v < 64 \<and> bit v (63 - clz64 v)"
  proof -
    assume "v \<noteq> 0"
    then obtain i where i: "bit v i" by (auto simp: bit_eq_iff)
    then have "i < 64" using bit_imp_le_length by fastforce
    with i high [of i] have lt: "clz64 v < length xs" using len by fastforce
    then have "\<not> (\<not> bit v (xs ! clz64 v))"
      unfolding def by (rule nth_length_takeWhile)
    with lt len show ?thesis by (simp add: nth)
  qed
qed

lemma sig_bits_0 [simp]: "sig_bits 0 = 0"
proof -
  have "takeWhile (\<lambda>i. \<not> bit (0 :: u64) i) xs = xs" for xs by (induction xs) simp_all
  then have "clz64 0 = 64" unfolding clz64_def by (simp only:) simp
  then show ?thesis by (simp add: sig_bits_def)
qed

lemma sig_bits_le: "sig_bits v \<le> 64"
  by (simp add: sig_bits_def)

lemma sig_bits_pos: "v \<noteq> 0 \<Longrightarrow> 0 < sig_bits v"
  using clz64_props(2) [of v] by (simp add: sig_bits_def)

lemma bit_beyond_sig: "sig_bits v \<le> i \<Longrightarrow> \<not> bit v i"
  using clz64_props(3) [of v i] by (simp add: sig_bits_def)

lemma take_bit_sig:
  assumes "sig_bits v \<le> n"
  shows "take_bit n v = v"
proof (rule bit_word_eqI)
  fix i show "bit (take_bit n v) i = bit v i"
    using bit_beyond_sig [of v i] assms by (cases "i < n") (auto simp: bit_take_bit_iff)
qed

lemma sig_bits_top: "bit v 63 \<Longrightarrow> sig_bits v = 64"
  using bit_beyond_sig [of v 63] sig_bits_le [of v] by (cases "sig_bits v \<le> 63") auto

lemma sig_bits_notop: "\<not> bit v 63 \<Longrightarrow> sig_bits v < 64"
proof (cases "v = 0")
  case False
  assume "\<not> bit v 63"
  with clz64_props(2) [OF False] have "clz64 v \<noteq> 0" by (metis diff_zero)
  then show ?thesis by (simp add: sig_bits_def)
qed simp

text \<open>The bits from the sign bit on are equal, so that the address is recovered.\<close>

lemma bit_beyond_signed:
  assumes "signed_bits v - 1 \<le> i" and "i < 64"
  shows "bit v i = bit v 63"
proof (cases "bit v 63")
  case True
  with assms bit_beyond_sig [of "NOT v" i] show ?thesis
    by (auto simp: signed_bits_def bit_not_iff)
next
  case False
  with assms bit_beyond_sig [of v i] show ?thesis by (auto simp: signed_bits_def)
qed

lemma signed_bits_bounds: "0 < signed_bits v" "signed_bits v \<le> 64"
proof -
  show "0 < signed_bits v" by (simp add: signed_bits_def)
  have "\<not> bit (NOT v) 63" if "bit v 63" using that by (simp add: bit_not_iff)
  with sig_bits_notop [of v] sig_bits_notop [of "NOT v"]
  show "signed_bits v \<le> 64" by (auto simp: signed_bits_def)
qed

lemma address_bits_bounds:
  "0 < address_bits off v" "address_bits off v \<le> 64" "signed_bits v \<le> address_bits off v"
proof -
  have "off + signed_bits v \<le> 6 * clen (off + signed_bits v)" by (simp add: clen_def)
  with signed_bits_bounds [of v]
  show "signed_bits v \<le> address_bits off v" by (simp add: address_bits_def)
  with signed_bits_bounds [of v] show "0 < address_bits off v" by simp
  show "address_bits off v \<le> 64" by (simp add: address_bits_def)
qed

end
