(* ===== verification/MsgEncodeProps.thy ===== *)
theory MsgEncodeProps
  imports MsgEncode WireFormat
begin

text \<open>
  The encoder implements the wire format: it writes \<open>wire (layout cfg msg)\<close> at the start of
  the buffer if that fits the limit, and reports a truncation otherwise. In both cases
  nothing is written outside of the limit.
\<close>

section \<open>Counting bits\<close>

lemma var_bits: "64 - clzg v 64 = sig_bits v"
  by (simp add: clzg_def sig_bits_def [of v, symmetric])

lemma var_req_bits: "64 - clzg v 63 = max 1 (sig_bits v)"
  using sig_bits_pos [of v]
  by (cases "v = 0") (simp_all add: clzg_def sig_bits_def [of v, symmetric] max_def)

lemma xaddr_bits_address: "xaddr_bits (6 * k + off) v = address_bits off v"
proof -
  have "65 - clzg w 64 = sig_bits w + 1" for w
    using clz64_props(1) [of w] sig_bits_0 by (cases "w = 0") (simp_all add: clzg_def sig_bits_def)
  moreover have "sig_bits v < 64 \<longleftrightarrow> \<not> bit v 63" using sig_bits_top sig_bits_notop by fastforce
  moreover have "(6 * k + off + n + 6 - 1) div 6 = k + clen (off + n)" for n
    using clen_mult_add [of k "off + n"] by (simp add: clen_def add.assoc)
  ultimately show ?thesis
    by (simp add: xaddr_bits_def Let_def var_bits signed_bits_def NEXUS_RV_MDO_BITS_def address_bits_def
        min_def add.assoc mult.commute)
qed

section \<open>Groups in the buffer\<close>

definition group_run :: "bool list list \<Rightarrow> u8 list" where
  "group_run gs = concat (map (chunk_bytes 1) gs)"

lemma group_run_snoc [simp]: "group_run (gs @ [g]) = group_run gs @ chunk_bytes 1 g"
  by (simp add: group_run_def)

lemma group_bytes_snoc: "group_bytes (gs @ [g]) = group_run gs @ chunk_bytes 3 g"
proof (induction gs)
  case (Cons h gs)
  then show ?case by (cases "gs @ [g]") (auto simp: group_run_def)
qed (simp add: group_run_def)

definition gsize :: "groups \<Rightarrow> nat" where
  "gsize g = length (group_run (fst g)) + clen (length (snd g))"

definition groups_ok :: "groups \<Rightarrow> bool" where
  "groups_ok g \<longleftrightarrow> [] \<notin> set (fst g)"

lemma gsize_close [simp]: "gsize (close_group g) = gsize g"
  by (simp add: gsize_def close_group_def)

lemma groups_ok_close [simp]: "groups_ok g \<Longrightarrow> groups_ok (close_group g)"
  by (auto simp: groups_ok_def close_group_def)

lemma gsize_append: "gsize (gs, cur) \<le> gsize (gs, cur @ bs)"
  by (simp add: gsize_def clen_def div_le_mono)

lemma gsize_add_field: "gsize g \<le> gsize (add_field g f)"
  by (cases g; cases f) (auto simp: gsize_append)

lemma groups_ok_add_field: "groups_ok g \<Longrightarrow> groups_ok (add_field g f)"
  by (cases g; cases f) (auto simp: groups_ok_def intro!: groups_ok_close [unfolded groups_ok_def])

lemma add_fields_Nil [simp]: "add_fields g [] = g"
  by (simp add: add_fields_def)

lemma add_fields_Cons [simp]: "add_fields g (f # fs) = add_fields (add_field g f) fs"
  by (simp add: add_fields_def)

lemma add_fields_append [simp]: "add_fields g (fs @ hs) = add_fields (add_fields g fs) hs"
  by (simp add: add_fields_def)

lemma gsize_add_fields: "gsize g \<le> gsize (add_fields g fs)"
proof (induction fs arbitrary: g)
  case (Cons f fs)
  from gsize_add_field [of g f] Cons [of "add_field g f"] show ?case by simp
qed simp

lemma groups_ok_add_fields: "groups_ok g \<Longrightarrow> groups_ok (add_fields g fs)"
  by (induction fs arbitrary: g) (auto simp: groups_ok_add_field)

section \<open>The state of the encoder against the groups\<close>

definition enc_frame :: "nat \<Rightarrow> u8 list \<Rightarrow> nat \<Rightarrow> enc_state \<Rightarrow> bool" where
  "enc_frame limit buf n s \<longleftrightarrow> length (e_buf s) = length buf \<and> drop n (e_buf s) = drop n buf \<and> n \<le> limit"

definition enc_at :: "nat \<Rightarrow> u8 list \<Rightarrow> groups \<Rightarrow> enc_state \<Rightarrow> bool" where
  "enc_at limit buf g s \<longleftrightarrow>
     e_off s = 6 * length (group_run (fst g)) + length (snd g) \<and>
     holds (e_buf s) (group_run (fst g)) (snd g) \<and> groups_ok g \<and>
     enc_frame limit buf (gsize g) s"

text \<open>A computation writes the fields, or stops with a truncation if they do not fit.\<close>

definition writes :: "nat \<Rightarrow> u8 list \<Rightarrow> wire_field list \<Rightarrow> unit enc \<Rightarrow> bool" where
  "writes limit buf fs m \<longleftrightarrow>
     (\<forall>g s. enc_at limit buf g s \<and> 0 < gsize g \<longrightarrow>
       (if gsize (add_fields g fs) \<le> limit
        then \<exists>t. m s = (Inr (), t) \<and> enc_at limit buf (add_fields g fs) t
        else \<exists>t. m s = (Inl (Code nexus_stream_truncate), t) \<and> enc_frame limit buf limit t))"

lemma writesD:
  assumes "writes limit buf fs m" and "enc_at limit buf g s" and "0 < gsize g"
  obtains (fits) t where "gsize (add_fields g fs) \<le> limit" "m s = (Inr (), t)"
      "enc_at limit buf (add_fields g fs) t" "0 < gsize (add_fields g fs)"
    | (full) t where "\<not> gsize (add_fields g fs) \<le> limit"
      "m s = (Inl (Code nexus_stream_truncate), t)" "enc_frame limit buf limit t"
proof -
  have "0 < gsize (add_fields g fs)" using assms(3) gsize_add_fields [of g fs] by simp
  moreover have "if gsize (add_fields g fs) \<le> limit
        then \<exists>t. m s = (Inr (), t) \<and> enc_at limit buf (add_fields g fs) t
        else \<exists>t. m s = (Inl (Code nexus_stream_truncate), t) \<and> enc_frame limit buf limit t"
    using assms unfolding writes_def by blast
  ultimately show thesis by (auto split: if_splits intro: fits full)
qed

lemma enc_frame_mono: "enc_frame limit buf n s \<Longrightarrow> n \<le> k \<Longrightarrow> k \<le> limit \<Longrightarrow> enc_frame limit buf k s"
proof -
  assume a: "enc_frame limit buf n s" "n \<le> k" "k \<le> limit"
  then have "drop (k - n) (drop n (e_buf s)) = drop (k - n) (drop n buf)" by (simp add: enc_frame_def)
  with a(2) have "drop k (e_buf s) = drop k buf" by (simp only: drop_drop le_add_diff_inverse2)
  with a show ?thesis by (simp add: enc_frame_def)
qed

lemma PACK_FIELD_at:
  assumes at: "enc_at limit buf (gs, cur) s" and "n \<le> 64" and "limit \<le> length buf"
  shows "if gsize (gs, cur @ bits_of n v) \<le> limit
    then \<exists>t. PACK_FIELD limit n v s = (Inr (), t) \<and> enc_at limit buf (gs, cur @ bits_of n v) t
    else PACK_FIELD limit n v s = (Inl (Code nexus_stream_truncate), s) \<and> enc_frame limit buf limit s"
proof -
  let ?pre = "group_run gs"
  have off: "e_off s = 6 * length ?pre + length cur" using at by (simp add: enc_at_def)
  have fits: "e_off s + n \<le> limit * 6 \<longleftrightarrow> gsize (gs, cur @ bits_of n v) \<le> limit"
    using clen_mult_add [of "length ?pre" "length cur + n"] clen_le_iff [of "6 * length ?pre + (length cur + n)" limit]
    by (simp add: off gsize_def add.assoc mult.commute)
  show ?thesis
  proof (cases "e_off s + n \<le> limit * 6")
    case False
    with at fits enc_frame_mono [of limit buf "gsize (gs, cur)" s limit] show ?thesis
      by (auto simp: PACK_FIELD_def NEXUS_RV_MDO_BITS_def enc_at_def enc_frame_def)
  next
    case True
    have "6 * length ?pre + length cur + n \<le> 6 * length (e_buf s)"
      using True off assms(3) at by (simp add: enc_at_def enc_frame_def)
    then obtain buf' where pb: "pack_bits (e_buf s) (e_off s) v n = Inr buf'"
      and app: "appends (e_buf s) buf' ?pre (cur @ bits_of n v)"
      using pack_bits_appends [of "e_buf s" ?pre cur n v] at assms(2) off by (auto simp: enc_at_def)
    have fr: "enc_frame limit buf (gsize (gs, cur @ bits_of n v)) s"
      using at True fits gsize_append [of gs cur "bits_of n v"]
      by (auto simp: enc_at_def intro: enc_frame_mono)
    with app have "enc_frame limit buf (gsize (gs, cur @ bits_of n v))
        (s\<lparr>e_buf := buf', e_off := e_off s + n\<rparr>)"
      by (simp add: enc_frame_def appends_def gsize_def)
    with app at off have "enc_at limit buf (gs, cur @ bits_of n v) (s\<lparr>e_buf := buf', e_off := e_off s + n\<rparr>)"
      by (simp add: enc_at_def appends_def groups_ok_def)
    with True fits pb show ?thesis
      by (simp add: PACK_FIELD_def NEXUS_RV_MDO_BITS_def)
  qed
qed

lemma END_FIELD_marks:
  assumes at: "enc_at limit buf g s" and pos: "0 < gsize g" and lim: "limit \<le> length buf"
  shows "\<exists>gs h buf'. close_group g = (gs @ [h], []) \<and> h \<noteq> [] \<and>
     END_FIELD e s = (Inr (), s\<lparr>e_buf := buf', e_off := 6 * gsize g\<rparr>) \<and>
     take (gsize g) buf' = group_run gs @ chunk_bytes e h \<and> length buf' = length (e_buf s) \<and>
     drop (gsize g) buf' = drop (gsize g) (e_buf s)"
proof -
  obtain gs cur where g: "g = (gs, cur)" by fastforce
  have hold: "take (gsize g) (e_buf s) = group_run gs @ chunk_bytes 0 cur"
    using at by (simp add: enc_at_def g holds_def gsize_def)
  have "\<exists>gs' h e0. close_group g = (gs' @ [h], []) \<and> h \<noteq> [] \<and>
      take (gsize g) (e_buf s) = group_run gs' @ chunk_bytes e0 h"
  proof (cases "cur = []")
    case False
    with hold show ?thesis by (auto simp: close_group_def g)
  next
    case True
    with pos have "gs \<noteq> []" by (auto simp: gsize_def g group_run_def)
    then obtain gs' h where gs: "gs = gs' @ [h]" by (metis rev_exhaust)
    with at have "h \<noteq> []" by (auto simp: enc_at_def g groups_ok_def)
    with True hold gs show ?thesis by (auto simp: close_group_def g)
  qed
  then obtain gs' h e0 where close: "close_group g = (gs' @ [h], [])" "h \<noteq> []"
    and bytes: "take (gsize g) (e_buf s) = group_run gs' @ chunk_bytes e0 h" by blast
  obtain mid b where mid: "chunk_bytes e0 h = mid @ [mk_byte e0 b]" "chunk_bytes e h = mid @ [mk_byte e b]"
    using chunk_bytes_snoc [OF close(2)] by metis
  let ?xs = "group_run gs' @ mid"
  have len: "gsize g \<le> length (e_buf s)" using at lim by (simp add: enc_at_def enc_frame_def)
  have sz: "gsize g = length ?xs + 1"
    using arg_cong [OF bytes, of length] len mid(1) by simp
  have bufeq: "e_buf s = ?xs @ mk_byte e0 b # drop (gsize g) (e_buf s)"
    using bytes mid(1) append_take_drop_id [of "gsize g" "e_buf s"] by simp
  have old: "e_buf s ! length ?xs = mk_byte e0 b"
    by (subst bufeq) (simp add: nth_append)
  let ?buf = "(e_buf s)[length ?xs := mk_byte e b]"
  have new: "?buf = ?xs @ mk_byte e b # drop (gsize g) (e_buf s)"
    by (subst bufeq) (simp add: list_update_append)
  have byte: "(e_off s + (NEXUS_RV_MDO_BITS - 1)) div NEXUS_RV_MDO_BITS = gsize g"
    using at clen_mult_add [of "length (group_run gs)" "length cur"]
    by (simp add: enc_at_def g gsize_def NEXUS_RV_MDO_BITS_def clen_def add.assoc)
  have "END_FIELD e s = (Inr (), s\<lparr>e_buf := ?buf, e_off := 6 * gsize g\<rparr>)"
    using pos sz len old unfolding END_FIELD_def byte Let_def
    by (simp add: NEXUS_RV_MDO_BITS_def)
  moreover have "take (gsize g) ?buf = group_run gs' @ chunk_bytes e h"
    using sz mid(2) unfolding new by simp
  moreover have "drop (gsize g) ?buf = drop (gsize g) (e_buf s)" using sz by simp
  moreover have "length ?buf = length (e_buf s)" by simp
  ultimately show ?thesis using close by blast
qed

lemma END_FIELD_at:
  assumes at: "enc_at limit buf g s" and "0 < gsize g" and "limit \<le> length buf"
  shows "\<exists>t. END_FIELD 1 s = (Inr (), t) \<and> enc_at limit buf (close_group g) t"
proof -
  from END_FIELD_marks [OF assms, of 1] obtain gs h buf' where
    m: "close_group g = (gs @ [h], [])" "END_FIELD 1 s = (Inr (), s\<lparr>e_buf := buf', e_off := 6 * gsize g\<rparr>)"
      "take (gsize g) buf' = group_run gs @ chunk_bytes 1 h" "length buf' = length (e_buf s)"
      "drop (gsize g) buf' = drop (gsize g) (e_buf s)" by blast
  have sz: "gsize g = length (group_run (gs @ [h]))"
    using gsize_close [of g] unfolding m(1) by (simp add: gsize_def)
  have "groups_ok (gs @ [h], [])"
    using groups_ok_close [of g] at unfolding m(1) by (simp add: enc_at_def)
  with m at sz show ?thesis
    by (auto simp: enc_at_def holds_def enc_frame_def gsize_def [of "(gs @ [h], [])"])
qed

section \<open>The macros write fields\<close>

lemma writes_PACK_FIXED:
  assumes "n \<le> 64" and "limit \<le> length buf"
  shows "writes limit buf [Fixed n v] (PACK_FIXED limit n v)"
  unfolding writes_def
proof (intro allI impI, elim conjE)
  fix g s assume "enc_at limit buf g s" "0 < gsize g"
  with PACK_FIELD_at [OF _ assms, of "fst g" "snd g" s v]
  show "if gsize (add_fields g [Fixed n v]) \<le> limit
    then \<exists>t. PACK_FIXED limit n v s = (Inr (), t) \<and> enc_at limit buf (add_fields g [Fixed n v]) t
    else \<exists>t. PACK_FIXED limit n v s = (Inl (Code nexus_stream_truncate), t) \<and>
      enc_frame limit buf limit t"
    by (cases g) (auto simp: PACK_FIXED_def split: if_splits)
qed

lemma writes_closed:
  assumes lim: "limit \<le> length buf" and at: "enc_at limit buf (gs, cur) s" and pos: "0 < gsize (gs, cur)"
    and k: "k \<le> 64" "add_field (gs, cur) f = close_group (gs, cur @ bits_of k v)"
  shows "if gsize (add_fields (gs, cur) [f]) \<le> limit
    then \<exists>t. thenS (PACK_FIELD limit k v) (END_FIELD 1) s = (Inr (), t) \<and>
      enc_at limit buf (add_fields (gs, cur) [f]) t
    else \<exists>t. thenS (PACK_FIELD limit k v) (END_FIELD 1) s = (Inl (Code nexus_stream_truncate), t) \<and>
      enc_frame limit buf limit t"
proof (cases "gsize (gs, cur @ bits_of k v) \<le> limit")
  case True
  with PACK_FIELD_at [OF at k(1) lim, of v] obtain t where
    t: "PACK_FIELD limit k v s = (Inr (), t)" "enc_at limit buf (gs, cur @ bits_of k v) t" by auto
  have "0 < gsize (gs, cur @ bits_of k v)" using pos gsize_append [of gs cur "bits_of k v"] by simp
  from END_FIELD_at [OF t(2) this lim] t(1) True k(2) show ?thesis
    by (auto simp: thenS_def bindS_def)
next
  case False
  with PACK_FIELD_at [OF at k(1) lim, of v] k(2) show ?thesis
    by (auto simp: thenS_def bindS_def)
qed

lemma writes_PACK_VAR:
  "limit \<le> length buf \<Longrightarrow> writes limit buf [Variable v] (PACK_VAR limit v)"
  unfolding writes_def PACK_VAR_def var_bits
  by (intro allI impI, elim conjE, case_tac g, simp only:, rule writes_closed) (simp_all add: sig_bits_le)

lemma writes_PACK_VAR_REQ:
  "limit \<le> length buf \<Longrightarrow> writes limit buf [Required v] (PACK_VAR_REQ limit v)"
  unfolding writes_def PACK_VAR_REQ_def var_req_bits
  by (intro allI impI, elim conjE, case_tac g, simp only:, rule writes_closed) (simp_all add: sig_bits_le)

lemma writes_PACK_XADDR_VAO:
  assumes "limit \<le> length buf"
  shows "writes limit buf [Address v] (PACK_XADDR_VAO limit v)"
  unfolding writes_def
proof (intro allI impI, elim conjE)
  fix g s assume at: "enc_at limit buf g s" and pos: "0 < gsize g"
  obtain gs cur where g: "g = (gs, cur)" by fastforce
  have "xaddr_bits (e_off s) v = address_bits (length cur) v"
    using at by (simp add: enc_at_def g xaddr_bits_address)
  then have run: "PACK_XADDR_VAO limit v s =
      thenS (PACK_FIELD limit (address_bits (length cur) v) v) (END_FIELD 1) s"
    by (simp add: PACK_XADDR_VAO_def bindS_def readS_def)
  show "if gsize (add_fields g [Address v]) \<le> limit
    then \<exists>t. PACK_XADDR_VAO limit v s = (Inr (), t) \<and> enc_at limit buf (add_fields g [Address v]) t
    else \<exists>t. PACK_XADDR_VAO limit v s = (Inl (Code nexus_stream_truncate), t) \<and>
      enc_frame limit buf limit t"
    unfolding run g
    by (rule writes_closed [OF assms at [unfolded g] pos [unfolded g]])
      (simp_all add: address_bits_bounds)
qed

lemma writes_thenS:
  assumes m: "writes limit buf fs m" and k: "writes limit buf hs k"
  shows "writes limit buf (fs @ hs) (thenS m k)"
  unfolding writes_def
proof (intro allI impI, elim conjE)
  fix g s assume at: "enc_at limit buf g s" and pos: "0 < gsize g"
  let ?g = "add_fields g fs"
  have le: "gsize ?g \<le> gsize (add_fields g (fs @ hs))" using gsize_add_fields [of ?g hs] by simp
  show "if gsize (add_fields g (fs @ hs)) \<le> limit
    then \<exists>t. thenS m k s = (Inr (), t) \<and> enc_at limit buf (add_fields g (fs @ hs)) t
    else \<exists>t. thenS m k s = (Inl (Code nexus_stream_truncate), t) \<and> enc_frame limit buf limit t"
    using m at pos
  proof (cases rule: writesD)
    case (fits t)
    from k fits(3,4) show ?thesis
      by (cases rule: writesD) (use fits(2) in \<open>auto simp: thenS_def bindS_def\<close>)
  next
    case (full t)
    with le show ?thesis by (auto simp: thenS_def bindS_def)
  qed
qed

lemma writes_nothing: "writes limit buf [] (retS ())"
  by (auto simp: writes_def retS_def enc_at_def enc_frame_def)

lemma writes_whenS:
  "(b \<Longrightarrow> writes limit buf fs m) \<Longrightarrow> writes limit buf (if b then fs else []) (whenS b m)"
  by (simp add: whenS_def writes_nothing)

lemma writes_if:
  "(b \<Longrightarrow> writes limit buf fs m) \<Longrightarrow> (\<not> b \<Longrightarrow> writes limit buf hs k) \<Longrightarrow>
    writes limit buf (if b then fs else hs) (if b then m else k)"
  by simp

lemma writes_assertS: "b \<Longrightarrow> writes limit buf [] (assertS b)"
  using writes_nothing by (simp add: assertS_def ensureS_def)

lemmas writes_macros = writes_PACK_FIXED writes_PACK_VAR writes_PACK_VAR_REQ writes_PACK_XADDR_VAO

lemma writes_eq: "writes limit buf fs m \<Longrightarrow> fs = hs \<Longrightarrow> writes limit buf hs m"
  by simp

section \<open>The encoder writes the layout\<close>

lemmas writes_rules = writes_thenS writes_whenS writes_if writes_macros writes_assertS

lemma writes_branch:
  assumes "limit \<le> length buf" and "nexusrv_msg_has_icnt msg"
  shows "writes limit buf (branch_layout cfg msg) (encode_branch cfg limit msg)"
  unfolding encode_branch_def field_widths
  by (rule writes_eq, (rule writes_rules | simp only: assms; fail | simp; fail)+)
    (simp add: branch_layout_def)

lemma writes_timestamp:
  assumes "limit \<le> length buf"
  shows "writes limit buf (time_layout cfg msg) (encode_timestamp cfg limit msg)"
  unfolding encode_timestamp_def
  by (rule writes_eq, (rule writes_rules assms)+) (simp add: time_layout_def)

lemma writes_resource:
  assumes "limit \<le> length buf" and "tcode msg = TCODE_ResourceFull"
  shows "writes limit buf (body_layout cfg msg) (encode_resource limit msg)"
  unfolding encode_resource_def field_widths
  by (rule writes_eq, (rule writes_rules writes_nothing assms | simp; fail)+)
    (use assms(2) res_code_range [of msg] in \<open>auto simp: body_layout_def not_less\<close>)

lemma writes_correlation:
  assumes "limit \<le> length buf" and "tcode msg = TCODE_ProgTraceCorrelation" and "cdf msg < 2"
  shows "writes limit buf (body_layout cfg msg) (encode_correlation limit msg)"
proof -
  have c: "(1 < cdf msg) = False" "cdf msg \<noteq> 0 \<longleftrightarrow> cdf msg = 1" using assms(3) by unat_arith+
  show ?thesis
    unfolding encode_correlation_def field_widths c if_False
    by (rule writes_eq, (rule writes_rules assms | simp; fail)+)
      (use assms(2) in \<open>auto simp: body_layout_def\<close>)
qed

lemma writes_ict:
  assumes "limit \<le> length buf" and "tcode msg = TCODE_ICT" and "ckdf msg < 2"
  shows "writes limit buf (body_layout cfg msg) (encode_ict limit msg)"
proof -
  have c: "(1 < ckdf msg) = False" using assms(3) by unat_arith
  show ?thesis
    unfolding encode_ict_def field_widths c if_False
    by (rule writes_eq, (rule writes_rules assms | simp; fail)+)
      (use assms(2) in \<open>auto simp: body_layout_def\<close>)
qed

lemma writes_ownership:
  assumes "limit \<le> length buf" and "tcode msg = TCODE_Ownership"
  shows "writes limit buf (body_layout cfg msg)
    (thenS (PACK_FIXED limit NEXUS_RV_BITS_OWNERSHIP_FMT (ucast (ownership_fmt msg)))
    (thenS (PACK_FIXED limit NEXUS_RV_BITS_OWNERSHIP_PRV (ucast (ownership_priv msg)))
    (thenS (PACK_FIXED limit NEXUS_RV_BITS_OWNERSHIP_V (ucast (ownership_v msg)))
           (PACK_VAR limit (context_field msg)))))"
  unfolding field_widths
  by (rule writes_eq, (rule writes_rules assms | simp; fail)+)
    (use assms(2) in \<open>auto simp: body_layout_def\<close>)

lemma writes_error:
  assumes "limit \<le> length buf" and "tcode msg = TCODE_Error"
  shows "writes limit buf (body_layout cfg msg)
    (thenS (PACK_FIXED limit NEXUS_RV_BITS_ETYPE (ucast (error_type msg)))
           (PACK_VAR limit (ucast (error_code msg))))"
  unfolding field_widths
  by (rule writes_eq, (rule writes_rules assms | simp; fail)+)
    (use assms(2) in \<open>auto simp: body_layout_def\<close>)

lemma writes_rest:
  assumes "limit \<le> length buf" and "encodable msg" and "tcode msg \<noteq> TCODE_Idle"
    and "tcode msg \<notin> set [TCODE_DirectBranch, TCODE_DirectBranchSync, TCODE_IndirectBranch,
      TCODE_IndirectBranchSync, TCODE_IndirectBranchHist, TCODE_IndirectBranchHistSync,
      TCODE_ProgTraceSync]"
  shows "writes limit buf (body_layout cfg msg) (encode_rest limit msg)"
proof -
  from assms(2-4) consider "tcode msg = TCODE_Ownership" | "tcode msg = TCODE_Error"
    | "tcode msg = TCODE_ResourceFull" | "tcode msg = TCODE_RepeatBranch"
    | "tcode msg = TCODE_ProgTraceCorrelation" "cdf msg < 2" | "tcode msg = TCODE_ICT" "ckdf msg < 2"
    by (auto simp: encodable_def)
  then show ?thesis
  proof cases
    case 4
    then have "body_layout cfg msg = [Required (ucast (hrepeat msg))]" by (simp add: body_layout_def)
    with 4 writes_PACK_VAR_REQ [OF assms(1)] show ?thesis by (simp add: encode_rest_def)
  qed (simp_all add: encode_rest_def writes_ownership writes_error writes_resource writes_correlation
      writes_ict assms(1))
qed

lemma writes_body:
  assumes "limit \<le> length buf" and "encodable msg" and "tcode msg \<noteq> TCODE_Idle"
  shows "writes limit buf (body_layout cfg msg)
    (if tcode msg \<in> set [TCODE_DirectBranch, TCODE_DirectBranchSync,
          TCODE_IndirectBranch, TCODE_IndirectBranchSync, TCODE_IndirectBranchHist,
          TCODE_IndirectBranchHistSync, TCODE_ProgTraceSync]
     then encode_branch cfg limit msg else encode_rest limit msg)"
proof (cases "tcode msg \<in> set [TCODE_DirectBranch, TCODE_DirectBranchSync,
          TCODE_IndirectBranch, TCODE_IndirectBranchSync, TCODE_IndirectBranchHist,
          TCODE_IndirectBranchHistSync, TCODE_ProgTraceSync]")
  case True
  then have "nexusrv_msg_has_icnt msg" "body_layout cfg msg = branch_layout cfg msg"
    by (auto simp: nexusrv_msg_has_icnt_def body_layout_def)
  with True assms(1) show ?thesis by (simp only: if_True writes_branch)
next
  case False
  with writes_rest [OF assms False] show ?thesis by (simp only: if_False)
qed

lemma writes_after_tcode:
  assumes "limit \<le> length buf" and "encodable msg" and "src_bits cfg \<le> 64"
  shows "writes limit buf (tl (layout cfg msg)) (encode_body cfg limit msg)"
proof -
  have n: "unat (src_bits cfg) \<le> 64" using assms(3) by unat_arith
  show ?thesis
    unfolding encode_body_def
    by (rule writes_eq, rule writes_whenS, rule writes_thenS [OF writes_whenS writes_thenS])
      (rule writes_PACK_FIXED n assms writes_body writes_timestamp | assumption | simp add: layout_def)+
qed

lemma encodable_known: "encodable msg \<Longrightarrow> nexusrv_msg_known msg"
  by (auto simp: encodable_def nexusrv_msg_known_def)

lemma field_groups_snoc:
  "gsize (add_fields ([], []) fs) = length (wire fs)"
proof -
  have "gsize (close_group g) = length (group_bytes (fst (close_group g)))" if "snd (close_group g) = []" for g
  proof (cases "fst (close_group g)" rule: rev_cases)
    case Nil
    with that show ?thesis by (simp add: gsize_def group_run_def)
  next
    case (snoc gs h)
    with that show ?thesis by (simp add: gsize_def group_bytes_snoc)
  qed
  moreover have "snd (close_group g) = []" for g by (simp add: close_group_def)
  ultimately show ?thesis unfolding wire_def field_groups_def by (metis gsize_close)
qed

lemma layout_Cons: "layout cfg msg = Fixed 6 (ucast (tcode msg)) # tl (layout cfg msg)"
  by (simp add: layout_def)

text \<open>The result of the encoder in full.\<close>

definition encode_spec :: "nexusrv_hw_cfg \<Rightarrow> u8 list \<Rightarrow> nat \<Rightarrow> nexusrv_msg \<Rightarrow> nat result \<times> u8 list \<Rightarrow> bool" where
  "encode_spec cfg buf limit msg r \<longleftrightarrow>
     (let w = wire (layout cfg msg) in
      if length w \<le> limit then r = (Inr (length w), w @ drop (length w) buf)
      else fst r = Inl (Code nexus_stream_truncate) \<and> length (snd r) = length buf \<and>
        drop limit (snd r) = drop limit buf)"

lemma encode_run_spec:
  assumes lim: "limit \<le> length buf" and enc: "encodable msg" and src: "src_bits cfg \<le> 64"
  shows "encode_spec cfg buf limit msg (nexusrv_msg_encode cfg buf limit msg)"
proof -
  let ?s0 = "\<lparr>e_buf = buf, e_off = 0\<rparr>"
  let ?fs = "tl (layout cfg msg)"
  let ?t = "ucast (tcode msg) :: u64"
  let ?g1 = "([], bits_of 6 ?t) :: groups"
  let ?g = "add_fields ?g1 ?fs"
  let ?w = "wire (layout cfg msg)"
  have g: "?g = add_fields ([], []) (layout cfg msg)" by (subst (2) layout_Cons) simp
  have size: "gsize ?g = length ?w" unfolding g by (rule field_groups_snoc)
  have g1: "0 < gsize ?g1" by (simp add: gsize_def group_run_def clen_def)
  have le: "gsize ?g1 \<le> gsize ?g" by (rule gsize_add_fields)
  have at0: "enc_at limit buf ([], []) ?s0"
    by (simp add: enc_at_def enc_frame_def holds_def group_run_def groups_ok_def gsize_def)
  let ?k = "encode_body cfg limit msg"
  note k = writes_after_tcode [OF assms]
  have run: "encode_run cfg limit msg ?s0 = thenS (PACK_FIELD limit 6 ?t) (thenS ?k (END_FIELD 3)) ?s0"
    using encodable_known [OF enc]
    by (simp add: encode_run_def PACK_FIXED_def NEXUS_RV_BITS_TCODE_def comp_simps)
  note tc = PACK_FIELD_at [OF at0 _ lim, of 6 ?t]
  show ?thesis
  proof (cases "length ?w \<le> limit")
    case True
    with tc le size obtain s1 where s1: "PACK_FIELD limit 6 ?t ?s0 = (Inr (), s1)"
      "enc_at limit buf ?g1 s1" by auto
    obtain s2 where s2: "?k s1 = (Inr (), s2)" "enc_at limit buf ?g s2"
      using writesD [OF k s1(2) g1] True size by metis
    from END_FIELD_marks [OF s2(2) _ lim, of 3] g1 le obtain gs h buf' where
      m: "close_group ?g = (gs @ [h], [])"
        "END_FIELD 3 s2 = (Inr (), s2\<lparr>e_buf := buf', e_off := 6 * gsize ?g\<rparr>)"
        "take (gsize ?g) buf' = group_run gs @ chunk_bytes 3 h" "length buf' = length (e_buf s2)"
        "drop (gsize ?g) buf' = drop (gsize ?g) (e_buf s2)" by fastforce
    have "?w = group_run gs @ chunk_bytes 3 h"
      using m(1) unfolding g by (simp add: wire_def field_groups_def group_bytes_snoc)
    moreover have "drop (gsize ?g) (e_buf s2) = drop (gsize ?g) buf"
      using s2(2) by (simp add: enc_at_def enc_frame_def)
    ultimately have "buf' = ?w @ drop (length ?w) buf"
      using m(3,5) append_take_drop_id [of "gsize ?g" buf'] by (simp only: size)
    with True s1(1) s2(1) m(2) size show ?thesis
      by (simp add: encode_spec_def nexusrv_msg_encode_def run thenS_def bindS_def NEXUS_RV_MDO_BITS_def)
  next
    case False
    have "\<exists>t. thenS (PACK_FIELD limit 6 ?t) (thenS ?k (END_FIELD 3)) ?s0 =
        (Inl (Code nexus_stream_truncate), t) \<and> enc_frame limit buf limit t"
    proof (cases "gsize ?g1 \<le> limit")
      case True
      with tc obtain s1 where s1: "PACK_FIELD limit 6 ?t ?s0 = (Inr (), s1)"
        "enc_at limit buf ?g1 s1" by auto
      obtain s2 where "?k s1 = (Inl (Code nexus_stream_truncate), s2)"
        "enc_frame limit buf limit s2"
        using writesD [OF k s1(2) g1] False size by metis
      with s1(1) show ?thesis by (simp add: thenS_def bindS_def)
    next
      case F: False
      with tc show ?thesis by (simp add: thenS_def bindS_def)
    qed
    with False show ?thesis
      by (auto simp: encode_spec_def nexusrv_msg_encode_def run Let_def enc_frame_def)
  qed
qed

section \<open>Messages without a layout\<close>

text \<open>The encoder stops with an error, and still writes nothing outside of the limit.\<close>

definition stops :: "nat \<Rightarrow> u8 list \<Rightarrow> unit enc \<Rightarrow> bool" where
  "stops limit buf m \<longleftrightarrow>
     (\<forall>g s. enc_at limit buf g s \<and> 0 < gsize g \<longrightarrow>
       (\<exists>e t. m s = (Inl (Code e), t) \<and> e \<in> {nexus_stream_truncate, nexus_msg_unsupported} \<and>
         enc_frame limit buf limit t))"

lemma stops_writes:
  assumes m: "writes limit buf fs m" and k: "stops limit buf k"
  shows "stops limit buf (thenS m k)"
  unfolding stops_def
proof (intro allI impI, elim conjE)
  fix g s assume at: "enc_at limit buf g s" and pos: "0 < gsize g"
  show "\<exists>e t. thenS m k s = (Inl (Code e), t) \<and> e \<in> {nexus_stream_truncate, nexus_msg_unsupported} \<and>
      enc_frame limit buf limit t"
    using m at pos
  proof (cases rule: writesD)
    case (fits t)
    with k have "\<exists>e u. k t = (Inl (Code e), u) \<and> e \<in> {nexus_stream_truncate, nexus_msg_unsupported} \<and>
        enc_frame limit buf limit u"
      unfolding stops_def by blast
    with fits show ?thesis by (simp add: thenS_def bindS_def)
  next
    case (full t)
    then show ?thesis by (simp add: thenS_def bindS_def)
  qed
qed

lemma stops_then: "stops limit buf m \<Longrightarrow> stops limit buf (thenS m k)"
  unfolding stops_def thenS_def bindS_def by fastforce

lemma enc_at_frame: "enc_at limit buf g s \<Longrightarrow> enc_frame limit buf limit s"
  using enc_frame_mono [of limit buf "gsize g" s limit] by (simp add: enc_at_def enc_frame_def)

lemma stops_unsupported: "stops limit buf (throwS (Code nexus_msg_unsupported))"
  by (auto simp: stops_def throwS_def dest: enc_at_frame)

text \<open>The known messages without a layout.\<close>

lemma not_encodable:
  assumes "nexusrv_msg_known msg" and "\<not> encodable msg"
  obtains (data) "tcode msg = TCODE_DataAcquisition" | (ict) "tcode msg = TCODE_ICT" "ckdf msg > 1"
proof -
  have "2 \<le> ckdf msg \<Longrightarrow> 1 < ckdf msg" by unat_arith
  with assms show thesis
    by (auto simp: nexusrv_msg_known_def encodable_def not_less split: if_splits intro: data ict)
qed

lemma stops_body:
  assumes "limit \<le> length buf" and "src_bits cfg \<le> 64"
    and "nexusrv_msg_known msg" and "\<not> encodable msg"
  shows "stops limit buf (encode_body cfg limit msg)"
proof -
  have n: "unat (src_bits cfg) \<le> 64" using assms(2) by unat_arith
  have rest: "stops limit buf (encode_rest limit msg)"
    using assms(3,4)
  proof (cases rule: not_encodable)
    case data
    then show ?thesis by (simp add: encode_rest_def stops_unsupported)
  next
    case ict
    then show ?thesis
      by (simp add: encode_rest_def encode_ict_def field_widths)
        (intro stops_writes [OF writes_PACK_FIXED] stops_writes [OF writes_PACK_VAR_REQ]
          stops_unsupported assms(1); simp)
  qed
  have "tcode msg \<in> {TCODE_DataAcquisition, TCODE_ICT}"
    using assms(3,4) by (cases rule: not_encodable) auto
  then show ?thesis
    using stops_writes [OF writes_whenS [OF writes_PACK_FIXED [OF n assms(1)]] stops_then [OF rest]]
    by (auto simp: encode_body_def whenS_def [of True])
qed

lemma encode_run_unsupported:
  assumes lim: "limit \<le> length buf" and enc: "\<not> encodable msg" and src: "src_bits cfg \<le> 64"
    and run: "nexusrv_msg_encode cfg buf limit msg = (r, buf')"
  shows "r \<in> {Inl (Code nexus_stream_truncate), Inl (Code nexus_msg_unsupported)} \<and>
    length buf' = length buf \<and> drop limit buf' = drop limit buf"
proof (cases "nexusrv_msg_known msg")
  case False
  with run show ?thesis
    by (auto simp: nexusrv_msg_encode_def encode_run_def comp_simps)
next
  case True
  let ?s0 = "\<lparr>e_buf = buf, e_off = 0\<rparr>"
  let ?t = "ucast (tcode msg) :: u64"
  have at0: "enc_at limit buf ([], []) ?s0"
    by (simp add: enc_at_def enc_frame_def holds_def group_run_def groups_ok_def gsize_def)
  have go: "encode_run cfg limit msg ?s0 =
      thenS (PACK_FIELD limit 6 ?t) (thenS (encode_body cfg limit msg) (END_FIELD 3)) ?s0"
    using True by (simp add: encode_run_def PACK_FIXED_def NEXUS_RV_BITS_TCODE_def comp_simps)
  note st = stops_then [OF stops_body [OF lim src True enc], of "END_FIELD 3"]
  have "\<exists>e t. encode_run cfg limit msg ?s0 = (Inl (Code e), t) \<and>
      e \<in> {nexus_stream_truncate, nexus_msg_unsupported} \<and> enc_frame limit buf limit t"
  proof (cases "gsize ([], bits_of 6 ?t) \<le> limit")
    case T: True
    with PACK_FIELD_at [OF at0 _ lim, of 6 ?t] obtain s1 where
      s1: "PACK_FIELD limit 6 ?t ?s0 = (Inr (), s1)" "enc_at limit buf ([], bits_of 6 ?t) s1" by auto
    have "0 < gsize ([], bits_of 6 ?t)" by (simp add: gsize_def group_run_def clen_def)
    with st s1(2) have "\<exists>e t. thenS (encode_body cfg limit msg) (END_FIELD 3) s1 = (Inl (Code e), t) \<and>
        e \<in> {nexus_stream_truncate, nexus_msg_unsupported} \<and> enc_frame limit buf limit t"
      unfolding stops_def by blast
    with s1(1) show ?thesis unfolding go by (simp add: thenS_def bindS_def)
  next
    case False
    with PACK_FIELD_at [OF at0 _ lim, of 6 ?t] show ?thesis
      unfolding go by (simp add: thenS_def bindS_def)
  qed
  with run show ?thesis by (auto simp: nexusrv_msg_encode_def enc_frame_def)
qed

end
