(* ===== verification/MsgDecode.thy ===== *)
theory MsgDecode
  imports BitPack
begin

text \<open>
  The message decoder \<^verbatim>\<open>nexusrv_msg_decode\<close> of \<^verbatim>\<open>lib/msg-decoder.c\<close>. The local
  variables of the C function and the message it fills are the fields of \<open>dec_state\<close>; the
  macros \<^verbatim>\<open>CONSUME_BYTES\<close>, \<^verbatim>\<open>UNPACK_FIXED\<close>, \<^verbatim>\<open>UNPACK_VAR\<close>, \<^verbatim>\<open>UNPACK_VAR_REQ\<close> and
  \<^verbatim>\<open>UNPACK_XADDR_VAO\<close> are computations on it that take the writer of the field. The
  message is kept on errors, as the out-parameter of the C function is.
\<close>

section \<open>The state of a decoding run\<close>

record dec_state =
  d_buf :: "u8 list"      \<comment> \<open>the bytes at \<^verbatim>\<open>orig_buffer\<close>\<close>
  d_pos :: nat            \<comment> \<open>\<^verbatim>\<open>buffer - orig_buffer\<close>\<close>
  d_limit :: nat
  d_eom :: bool
  d_consumed :: nat       \<comment> \<open>\<^verbatim>\<open>consumed_bytes\<close>\<close>
  d_off :: nat            \<comment> \<open>\<^verbatim>\<open>bit_offset\<close>\<close>
  d_msg :: nexusrv_msg

type_synonym 'a dec = "(dec_state, 'a) proc"

definition bits_left :: "dec_state \<Rightarrow> nat" where
  "bits_left s = d_consumed s * NEXUS_RV_MDO_BITS - d_off s"

section \<open>The macros\<close>

definition CONSUME_BYTES :: "unit dec" where
  "CONSUME_BYTES = (\<lambda>s.
     if d_eom s then (Inl (Code nexus_msg_missing_field), s)
     else case consume_bytes (d_buf s) (d_pos s) (d_limit s) of
       Inl e \<Rightarrow> (Inl e, s)
     | Inr (n, eom) \<Rightarrow>
         (Inr (), s\<lparr>d_eom := eom, d_consumed := n, d_pos := d_pos s + n,
            d_limit := d_limit s - n, d_off := 0\<rparr>))"

definition UNPACK_FIXED :: "nat \<Rightarrow> (u64 \<Rightarrow> nexusrv_msg \<Rightarrow> nexusrv_msg) \<Rightarrow> unit dec" where
  "UNPACK_FIXED n wr = (\<lambda>s.
     if bits_left s < n then (Inl (Code nexus_msg_missing_field), s)
     else case unpack_bits (d_buf s) (d_pos s - d_consumed s) (d_off s) n of
       Inl e \<Rightarrow> (Inl e, s)
     | Inr v \<Rightarrow> (Inr (), s\<lparr>d_msg := wr v (d_msg s), d_off := d_off s + n\<rparr>))"

text \<open>
  The number of bits of a variable field has type \<^verbatim>\<open>size_t\<close>; it is passed to
  \<^verbatim>\<open>unpack_bits\<close> as an \<^verbatim>\<open>unsigned\<close>, hence through a 32-bit word.
\<close>

definition UNPACK_VAR :: "(u64 \<Rightarrow> nexusrv_msg \<Rightarrow> nexusrv_msg) \<Rightarrow> nat dec" where
  "UNPACK_VAR wr = (\<lambda>s.
     let bits = bits_left s in
     if bits = 0 then (Inr 0, s\<lparr>d_msg := wr 0 (d_msg s)\<rparr>)
     else case unpack_bits (d_buf s) (d_pos s - d_consumed s) (d_off s) (unat (of_nat bits :: u32)) of
       Inl e \<Rightarrow> (Inl e, s)
     | Inr v \<Rightarrow> (Inr bits, s\<lparr>d_msg := wr v (d_msg s), d_off := d_off s + bits\<rparr>))"

definition UNPACK_VAR_REQ :: "(u64 \<Rightarrow> nexusrv_msg \<Rightarrow> nexusrv_msg) \<Rightarrow> nat dec" where
  "UNPACK_VAR_REQ wr =
     bindS (UNPACK_VAR wr) (\<lambda>bits.
       thenS (ensureS (Code nexus_msg_missing_field) (bits \<noteq> 0)) (retS bits))"

text \<open>Sign extension of an address field of fewer than 64 bits.\<close>

definition sign_extend_field :: "nat \<Rightarrow> u64 \<Rightarrow> u64" where
  "sign_extend_field bits v =
     (if v AND push_bit (bits - 1) 1 \<noteq> 0 then v OR push_bit bits (- 1) else v)"

definition UNPACK_XADDR_VAO :: "unit dec" where
  "UNPACK_XADDR_VAO =
     bindS (UNPACK_VAR_REQ set_xaddr) (\<lambda>bits.
       if bits \<ge> 64 then retS ()
       else modS (\<lambda>s. s\<lparr>d_msg := set_xaddr (sign_extend_field bits (xaddr (d_msg s))) (d_msg s)\<rparr>))"

text \<open>A test of the message as decoded so far.\<close>

definition when_msg :: "(nexusrv_msg \<Rightarrow> bool) \<Rightarrow> unit dec \<Rightarrow> unit dec" where
  "when_msg p m = bindS (readS (\<lambda>s. p (d_msg s))) (\<lambda>b. whenS b m)"

definition update_msg :: "(nexusrv_msg \<Rightarrow> nexusrv_msg) \<Rightarrow> unit dec" where
  "update_msg f = modS (\<lambda>s. s\<lparr>d_msg := f (d_msg s)\<rparr>)"

lemma CONSUME_BYTES_decreases:
  "CONSUME_BYTES s = (Inr x, t) \<Longrightarrow> d_limit t < d_limit s"
  by (auto simp: CONSUME_BYTES_def split: if_splits sum.splits dest: consume_bytes_bounds)

text \<open>\<^verbatim>\<open>while (!eom) CONSUME_BYTES();\<close>\<close>

function skip_to_eom :: "dec_state \<Rightarrow> unit result \<times> dec_state" where
  "skip_to_eom s =
     (if d_eom s then (Inr (), s)
      else case CONSUME_BYTES s of
        (Inl e, t) \<Rightarrow> (Inl e, t)
      | (Inr _, t) \<Rightarrow> skip_to_eom t)"
  by pat_completeness auto
termination
  by (relation "measure d_limit") (auto dest: CONSUME_BYTES_decreases [OF sym])

declare skip_to_eom.simps [simp del]

section \<open>The decoder\<close>

text \<open>The fields of branch and synchronization messages.\<close>

definition decode_branch :: "nexusrv_hw_cfg \<Rightarrow> unit dec" where
  "decode_branch cfg =
     thenS (when_msg nexusrv_msg_is_sync (UNPACK_FIXED NEXUS_RV_BITS_ADDR_SYNC set_sync_type))
    (thenS (when_msg nexusrv_msg_is_indir_branch
              (UNPACK_FIXED NEXUS_RV_BITS_ADDR_BTYPE set_branch_type))
    (thenS (bindS (readS (\<lambda>s. nexusrv_msg_has_icnt (d_msg s))) assertS)
    (thenS (update_msg (set_hrepeat 0))
    (thenS (UNPACK_VAR_REQ set_icnt)
    (thenS (when_msg nexusrv_msg_has_xaddr
              (thenS CONSUME_BYTES
                (if VAO cfg then UNPACK_XADDR_VAO
                 else thenS (UNPACK_VAR_REQ set_xaddr) (retS ()))))
           (when_msg nexusrv_msg_has_hist
              (thenS CONSUME_BYTES (thenS (UNPACK_VAR_REQ set_hist) (retS ())))))))))"

definition decode_resource :: "unit dec" where
  "decode_resource =
     thenS (UNPACK_FIXED NEXUS_RV_BITS_RCODE set_res_code)
    (bindS (readS (\<lambda>s. res_code (d_msg s))) (\<lambda>rc.
       if rc > 2 then thenS (UNPACK_VAR set_res_data) (retS ())
       else
         thenS (update_msg (set_hrepeat 0 \<circ> set_hist 0 \<circ> set_icnt 0))
           (if rc = 0 then thenS (UNPACK_VAR_REQ set_icnt) (retS ())
            else if rc = 1 then thenS (UNPACK_VAR_REQ set_hist) (retS ())
            else if rc = 2 then
              thenS (UNPACK_VAR_REQ set_hist)
             (thenS CONSUME_BYTES
             (thenS (UNPACK_VAR_REQ set_hrepeat) (retS ())))
            else retS ())))"

definition decode_correlation :: "unit dec" where
  "decode_correlation =
     thenS (update_msg (set_hrepeat 0 \<circ> set_hist 0 \<circ> set_icnt 0))
    (thenS (UNPACK_FIXED NEXUS_RV_BITS_EVCODE set_stop_code)
    (thenS (UNPACK_FIXED NEXUS_RV_BITS_CDF set_cdf)
    (thenS (UNPACK_VAR_REQ set_icnt)
    (bindS (readS (\<lambda>s. cdf (d_msg s))) (\<lambda>c.
       if c > 1 then retS ()
       else whenS (c \<noteq> 0)
         (thenS CONSUME_BYTES (thenS (UNPACK_VAR_REQ set_hist) (retS ()))))))))"

definition decode_ict :: "unit dec" where
  "decode_ict =
     thenS (UNPACK_FIXED NEXUS_RV_BITS_CKSRC set_cksrc)
    (thenS (UNPACK_FIXED NEXUS_RV_BITS_CKDF set_ckdf)
    (thenS (UNPACK_VAR_REQ set_ckdata0)
       (when_msg (\<lambda>m. ckdf m > 0)
          (thenS CONSUME_BYTES (thenS (UNPACK_VAR_REQ set_ckdata1) (retS ()))))))"

text \<open>The other messages; the result says whether the code jumps to \<^verbatim>\<open>done\<close>.\<close>

definition decode_rest :: "bool dec" where
  "decode_rest =
     bindS (readS (\<lambda>s. tcode (d_msg s))) (\<lambda>t.
       if t = TCODE_Ownership then
         thenS (UNPACK_FIXED NEXUS_RV_BITS_OWNERSHIP_FMT set_ownership_fmt)
        (thenS (UNPACK_FIXED NEXUS_RV_BITS_OWNERSHIP_PRV set_ownership_priv)
        (thenS (UNPACK_FIXED NEXUS_RV_BITS_OWNERSHIP_V set_ownership_v)
        (thenS (UNPACK_VAR set_context) (retS False))))
       else if t = TCODE_Error then
         thenS (UNPACK_FIXED NEXUS_RV_BITS_ETYPE set_error_type)
        (thenS (UNPACK_VAR set_error_code) (retS False))
       else if t = TCODE_DataAcquisition then
         thenS (UNPACK_VAR_REQ set_idtag)
        (thenS CONSUME_BYTES
        (thenS (UNPACK_VAR_REQ set_dqdata) (retS False)))
       else if t = TCODE_ResourceFull then thenS decode_resource (retS False)
       else if t = TCODE_RepeatBranch then
         thenS (UNPACK_VAR_REQ set_hrepeat) (retS False)
       else if t = TCODE_ProgTraceCorrelation then thenS decode_correlation (retS False)
       else if t = TCODE_ICT then thenS decode_ict (retS False)
       else thenS skip_to_eom (retS True))"

text \<open>The tail common to the known messages: the timestamp.\<close>

definition decode_timestamp :: "nexusrv_hw_cfg \<Rightarrow> unit dec" where
  "decode_timestamp cfg =
     bindS (readS d_eom) (\<lambda>eom.
       if ts_bits cfg \<noteq> 0 \<and> eom then
         bindS (readS (\<lambda>s. nexusrv_msg_is_sync (d_msg s)))
           (\<lambda>sync. ensureS (Code nexus_msg_missing_field) (\<not> sync))
       else
         thenS skip_to_eom
           (whenS (ts_bits cfg \<noteq> 0) (thenS (UNPACK_VAR_REQ set_timestamp) (retS ()))))"

definition branch_tcodes :: "u8 list" where
  "branch_tcodes = [TCODE_DirectBranch, TCODE_DirectBranchSync, TCODE_IndirectBranch,
     TCODE_IndirectBranchSync, TCODE_IndirectBranchHist, TCODE_IndirectBranchHistSync,
     TCODE_ProgTraceSync]"

definition decode_fields :: "nexusrv_hw_cfg \<Rightarrow> unit dec" where
  "decode_fields cfg =
     bindS (readS (\<lambda>s. tcode (d_msg s))) (\<lambda>t.
       if t = TCODE_Idle then
         bindS (readS d_eom) (ensureS (Code nexus_msg_invalid))
       else
         thenS (update_msg (set_src 0))
        (thenS (whenS (src_bits cfg \<noteq> 0) (UNPACK_FIXED (unat (src_bits cfg)) set_src))
           (if t \<in> set branch_tcodes then thenS (decode_branch cfg) (decode_timestamp cfg)
            else bindS decode_rest (\<lambda>fin. if fin then retS () else decode_timestamp cfg))))"

definition decode_run :: "nexusrv_hw_cfg \<Rightarrow> unit dec" where
  "decode_run cfg =
     thenS CONSUME_BYTES
    (thenS (UNPACK_FIXED NEXUS_RV_BITS_TCODE set_tcode) (decode_fields cfg))"

definition dec_init :: "u8 list \<Rightarrow> nat \<Rightarrow> nexusrv_msg \<Rightarrow> dec_state" where
  "dec_init buf limit msg =
     \<lparr>d_buf = buf, d_pos = 0, d_limit = limit, d_eom = False, d_consumed = 0, d_off = 0,
      d_msg = set_timestamp 0 msg\<rparr>"

text \<open>
  The result is the number of bytes of the message, or the error, and the message. The
  argument \<open>msg\<close> is what the caller's struct holds before the call.
\<close>

definition nexusrv_msg_decode ::
    "nexusrv_hw_cfg \<Rightarrow> u8 list \<Rightarrow> nat \<Rightarrow> nexusrv_msg \<Rightarrow> nat result \<times> nexusrv_msg" where
  "nexusrv_msg_decode cfg buf limit msg =
     (case decode_run cfg (dec_init buf limit msg) of
        (Inl e, s) \<Rightarrow> (Inl e, d_msg s)
      | (Inr _, s) \<Rightarrow> (Inr (d_pos s), d_msg s))"

end
