(* ===== verification/MsgRoundtrip.thy ===== *)
theory MsgRoundtrip
  imports MsgDecode WireFormat
begin

text \<open>
  The decoder on the wire format: from the bytes of the layout of a message, with anything
  behind them, it recovers a message of the same layout and stops right behind them.
\<close>

section \<open>The bits and groups still to be read\<close>

definition put_group :: "bool list \<times> bool list list \<Rightarrow> bool list list" where
  "put_group p = (if fst p = [] then snd p else fst p # snd p)"

text \<open>
  \<open>rest_groups fs\<close>: the bits of the fields \<open>fs\<close> up to the end of the group they start in,
  and the groups that follow.
\<close>

fun rest_groups :: "wire_field list \<Rightarrow> bool list \<times> bool list list" where
  "rest_groups [] = ([], [])"
| "rest_groups (Fixed n v # fs) = (bits_of n v @ fst (rest_groups fs), snd (rest_groups fs))"
| "rest_groups (Variable v # fs) = (bits_of (sig_bits v) v, put_group (rest_groups fs))"
| "rest_groups (Required v # fs) = (bits_of (max 1 (sig_bits v)) v, put_group (rest_groups fs))"
| "rest_groups (Address v # fs) = (bits_of (address_bits 0 v) v, put_group (rest_groups fs))"

text \<open>An address starts its group.\<close>

fun addresses_start :: "bool \<Rightarrow> wire_field list \<Rightarrow> bool" where
  "addresses_start b [] = True"
| "addresses_start b (Fixed n v # fs) = addresses_start (b \<and> n = 0) fs"
| "addresses_start b (Address v # fs) = (b \<and> addresses_start True fs)"
| "addresses_start b (Variable v # fs) = addresses_start True fs"
| "addresses_start b (Required v # fs) = addresses_start True fs"

lemma bits_of_Nil_iff [simp]: "bits_of n v = [] \<longleftrightarrow> n = 0"
  by (metis length_0_conv length_bits_of)

lemma pair_groups:
  "close_group (gs, c) = (if c = [] then (gs, []) else (gs @ [c], []))"
  "put_group (c, gs) = (if c = [] then gs else c # gs)"
  by (simp_all add: close_group_def put_group_def)

lemma add_fields_rest:
  assumes "addresses_start (cur = []) fs"
  shows "fst (close_group (foldl add_field (gs, cur) fs)) =
    gs @ put_group (cur @ fst (rest_groups fs), snd (rest_groups fs))"
  using assms
proof (induction fs arbitrary: gs cur)
  case Nil
  then show ?case by (simp add: close_group_def put_group_def)
next
  case (Cons f fs)
  have IH: "fst (close_group (foldl add_field (gs, []) fs)) = gs @ put_group (rest_groups fs)"
    if "addresses_start True fs" for gs
    using Cons.IH [of "[]" gs] that by simp
  show ?case
  proof (cases f)
    case (Fixed n v)
    with Cons.prems Cons.IH [of "cur @ bits_of n v" gs] show ?thesis by simp
  next
    case (Variable v)
    with Cons.prems IH show ?thesis by (simp add: pair_groups)
  next
    case (Required v)
    with Cons.prems IH show ?thesis by (simp add: pair_groups)
  next
    case (Address v)
    with Cons.prems IH address_bits_bounds(1) [of 0 v] show ?thesis
      by (simp add: pair_groups)
  qed
qed

lemma field_groups_rest:
  "addresses_start True fs \<Longrightarrow> field_groups fs = put_group (rest_groups fs)"
  using add_fields_rest [of "[]" fs "[]"] by (simp add: field_groups_def add_fields_def)

section \<open>The state of the decoder against the groups\<close>

text \<open>
  \<open>dec_at N ext fresh m bs gs s\<close>: the message so far is \<open>m\<close>; of the current group the bits
  \<open>bs\<close> and the padding are left (\<open>fresh\<close>: nothing of it is read); the groups \<open>gs\<close> and then
  the bytes \<open>ext\<close> follow. \<open>N\<close> is where the message ends.
\<close>

definition dec_at :: "nat \<Rightarrow> u8 list \<Rightarrow> bool \<Rightarrow> nexusrv_msg \<Rightarrow> bool list \<Rightarrow> bool list list \<Rightarrow>
    dec_state \<Rightarrow> bool" where
  "dec_at N ext fresh m bs gs s \<longleftrightarrow>
     (\<exists>pad < 6. d_off s + length bs + pad = 6 * d_consumed s \<and>
        drop (d_off s) (payload (take (d_consumed s) (drop (d_pos s - d_consumed s) (d_buf s))))
          = bs @ zeros pad) \<and>
     (fresh \<longrightarrow> d_off s = 0) \<and> d_msg s = m \<and>
     d_consumed s \<le> d_pos s \<and> d_pos s \<le> length (d_buf s) \<and> d_consumed s < 1000 \<and>
     drop (d_pos s) (d_buf s) = group_bytes gs @ ext \<and>
     d_pos s + length (group_bytes gs) = N \<and> length (group_bytes gs) \<le> d_limit s \<and>
     d_eom s = (gs = []) \<and> (\<forall>g \<in> set gs. g \<noteq> [] \<and> length g \<le> 600)"

abbreviation never :: "fault \<Rightarrow> dec_state \<Rightarrow> bool" where
  "never \<equiv> \<lambda>_ _. False"

lemma group_bytes_Cons:
  "group_bytes (g # gs) = chunk_bytes (if gs = [] then 3 else 1) g @ group_bytes gs"
  by (cases gs) simp_all

lemma CONSUME_at:
  "triple (dec_at N ext fresh m bs (g # gs)) CONSUME_BYTES (\<lambda>_. dec_at N ext True m g gs) never"
proof
  fix s assume at: "dec_at N ext fresh m bs (g # gs) s"
  let ?e = "if gs = [] then 3 else 1 :: u8"
  let ?n = "clen (length g)"
  from at have g: "g \<noteq> []" "length g \<le> 600" and bytes: "drop (d_pos s) (d_buf s) =
      chunk_bytes ?e g @ group_bytes gs @ ext" and pos: "d_pos s \<le> length (d_buf s)"
    and lim: "?n + length (group_bytes gs) \<le> d_limit s" and eom: "\<not> d_eom s"
    and N: "d_pos s + (?n + length (group_bytes gs)) = N"
    by (simp_all add: dec_at_def group_bytes_Cons)
  have "consume_bytes (d_buf s) (d_pos s) (d_limit s) = Inr (?n, ?e = 3)"
    using consume_bytes_chunk [OF g(1) _ _ bytes pos, of "d_limit s"] lim by auto
  then have run: "CONSUME_BYTES s = (Inr (), s\<lparr>d_eom := gs = [], d_consumed := ?n,
      d_pos := d_pos s + ?n, d_limit := d_limit s - ?n, d_off := 0\<rparr>)"
    using eom by (simp add: CONSUME_BYTES_def)
  have grp: "payload (take ?n (drop (d_pos s) (d_buf s))) = g @ zeros (6 * ?n - length g)"
    using bytes by (simp add: payload_chunk_bytes)
  have nxt: "drop (d_pos s + ?n) (d_buf s) = group_bytes gs @ ext"
    using bytes by (simp add: drop_drop [symmetric] add.commute [of "d_pos s"])
  have len: "d_pos s + ?n \<le> length (d_buf s)"
    using arg_cong [OF bytes, of length] pos by simp
  have pad: "6 * ?n - length g < 6" "length g + (6 * ?n - length g) = 6 * ?n" "?n < 1000"
    using clen_le [of "length g"] le_clen [of "length g"] g(2) by linarith+
  show "case CONSUME_BYTES s of (Inl e, t) \<Rightarrow> False | (Inr x, t) \<Rightarrow> dec_at N ext True m g gs t"
    using at run grp nxt len pad lim N by (auto simp: dec_at_def)
qed

text \<open>What is left of the group is what the bit reader sees at the offset.\<close>

lemma group_window:
  assumes at: "dec_at N ext fresh m bs gs s"
  shows "\<exists>pad < 6. bits_left s = length bs + pad \<and>
    d_off s + length bs + pad = 6 * d_consumed s \<and>
    d_off s + length bs + pad \<le> 6 * (length (d_buf s) - (d_pos s - d_consumed s)) \<and>
    (\<forall>n \<le> length bs + pad.
       take n (drop (d_off s) (payload (drop (d_pos s - d_consumed s) (d_buf s)))) =
       take n (bs @ zeros pad))"
proof -
  let ?p = "payload (drop (d_pos s - d_consumed s) (d_buf s))"
  from at obtain pad where pad: "pad < 6" "d_off s + length bs + pad = 6 * d_consumed s"
    and win: "drop (d_off s) (payload (take (d_consumed s) (drop (d_pos s - d_consumed s) (d_buf s)))) = bs @ zeros pad"
    and pos: "d_consumed s \<le> d_pos s" "d_pos s \<le> length (d_buf s)"
    by (auto simp: dec_at_def)
  have eq: "6 * d_consumed s - d_off s = length bs + pad" using pad(2) by linarith
  have "drop (d_off s) (take (6 * d_consumed s) ?p) = bs @ zeros pad"
    using win by (simp add: take_payload)
  then have "take (length bs + pad) (drop (d_off s) ?p) = bs @ zeros pad"
    by (simp only: drop_take eq)
  then have "\<forall>n \<le> length bs + pad. take n (drop (d_off s) ?p) = take n (bs @ zeros pad)"
    by (metis min.absorb1 take_take)
  moreover have "6 * d_consumed s \<le> 6 * (length (d_buf s) - (d_pos s - d_consumed s))" using pos by simp
  moreover have "bits_left s = length bs + pad"
    using pad(2) by (simp add: bits_left_def NEXUS_RV_MDO_BITS_def)
  ultimately show ?thesis using pad by auto
qed

lemma dec_at_advance:
  assumes "dec_at N ext fresh m bs gs s" and "n \<le> length bs"
  shows "dec_at N ext False m' (drop n bs) gs (s\<lparr>d_msg := m', d_off := d_off s + n\<rparr>)"
proof -
  from assms(1) obtain pad where pad: "pad < 6" "d_off s + length bs + pad = 6 * d_consumed s"
    and win: "drop (d_off s) (payload (take (d_consumed s) (drop (d_pos s - d_consumed s) (d_buf s)))) = bs @ zeros pad"
    by (auto simp: dec_at_def)
  from win have "drop (d_off s + n) (payload (take (d_consumed s) (drop (d_pos s - d_consumed s) (d_buf s)))) =
      drop n bs @ zeros pad"
    using assms(2) by (simp add: drop_drop [symmetric] add.commute [of "d_off s"])
  with assms pad show ?thesis by (auto simp: dec_at_def)
qed

lemma dec_at_finish:
  assumes "dec_at N ext fresh m bs gs s"
  shows "dec_at N ext False m' [] gs (s\<lparr>d_msg := m', d_off := d_off s + bits_left s\<rparr>)"
  using assms by (auto simp: dec_at_def bits_left_def NEXUS_RV_MDO_BITS_def)

lemma FIXED_at:
  assumes "0 < n"
  shows "triple (dec_at N ext fresh m (bits_of n v @ bs) gs) (UNPACK_FIXED n wr)
    (\<lambda>_. dec_at N ext False (wr (take_bit n v) m) bs gs) never"
proof
  fix s assume at: "dec_at N ext fresh m (bits_of n v @ bs) gs s"
  from group_window [OF at] obtain pad where
    w: "bits_left s = n + length bs + pad"
      "d_off s + (n + length bs) + pad \<le> 6 * (length (d_buf s) - (d_pos s - d_consumed s))"
      "take n (drop (d_off s) (payload (drop (d_pos s - d_consumed s) (d_buf s)))) = bits_of n v"
    by (fastforce simp: take_bits_of)
  have "unpack_bits (d_buf s) (d_pos s - d_consumed s) (d_off s) n = Inr (take_bit n v)"
    using unpack_bits_payload [OF assms, of "d_off s" "d_buf s" "d_pos s - d_consumed s"] w
    by simp
  with dec_at_advance [OF at, of n "wr (take_bit n v) m"] w(1) at
  show "case UNPACK_FIXED n wr s of (Inl e, t) \<Rightarrow> False
      | (Inr x, t) \<Rightarrow> dec_at N ext False (wr (take_bit n v) m) bs gs t"
    by (simp add: UNPACK_FIXED_def) (simp add: dec_at_def)
qed

lemma VAR_at:
  "triple (dec_at N ext fresh m bs gs) (UNPACK_VAR wr)
    (\<lambda>n s. dec_at N ext False (wr (of_bits bs) m) [] gs s \<and> length bs \<le> n \<and> n < length bs + 6 \<and>
       (fresh \<longrightarrow> 6 dvd n)) never"
proof
  fix s assume at: "dec_at N ext fresh m bs gs s"
  from group_window [OF at] obtain pad where pad: "pad < 6"
    and w: "bits_left s = length bs + pad" "d_off s + length bs + pad = 6 * d_consumed s"
      "d_off s + length bs + pad \<le> 6 * (length (d_buf s) - (d_pos s - d_consumed s))"
      "take (length bs + pad) (drop (d_off s) (payload (drop (d_pos s - d_consumed s) (d_buf s)))) = bs @ zeros pad"
    by fastforce
  have small: "unat (of_nat (bits_left s) :: u32) = bits_left s"
  proof -
    have "bits_left s < 4294967296"
    proof -
      have "d_consumed s < 1000" using at unfolding dec_at_def by blast
      then show ?thesis unfolding bits_left_def NEXUS_RV_MDO_BITS_def by linarith
    qed
    then show ?thesis by (simp add: unat_of_nat take_bit_nat_eq_self)
  qed
  have dv: "fresh \<Longrightarrow> 6 dvd length bs + pad" using at w(2) by (simp add: dec_at_def)
  have m: "d_msg s = m" using at by (simp add: dec_at_def)
  have run: "UNPACK_VAR wr s =
      (Inr (bits_left s), s\<lparr>d_msg := wr (of_bits bs) m, d_off := d_off s + bits_left s\<rparr>)"
  proof (cases "bits_left s = 0")
    case True
    with w(1) have "bs = []" by simp
    with True m show ?thesis by (simp add: UNPACK_VAR_def)
  next
    case False
    have "unpack_bits (d_buf s) (d_pos s - d_consumed s) (d_off s) (bits_left s) = Inr (of_bits bs)"
      using unpack_bits_payload [of "bits_left s" "d_off s" "d_buf s" "d_pos s - d_consumed s"] w False
      by (simp add: add.assoc)
    with False small m show ?thesis by (simp add: UNPACK_VAR_def Let_def)
  qed
  show "case UNPACK_VAR wr s of (Inl e, t) \<Rightarrow> False
      | (Inr n, t) \<Rightarrow> dec_at N ext False (wr (of_bits bs) m) [] gs t \<and> length bs \<le> n \<and> n < length bs + 6 \<and>
          (fresh \<longrightarrow> 6 dvd n)"
    unfolding run using dec_at_finish [OF at, of "wr (of_bits bs) m"] w(1) pad dv by simp
qed

lemma VAR_REQ_at:
  assumes "bs \<noteq> []"
  shows "triple (dec_at N ext fresh m bs gs) (UNPACK_VAR_REQ wr)
    (\<lambda>n s. dec_at N ext False (wr (of_bits bs) m) [] gs s \<and> length bs \<le> n \<and> n < length bs + 6 \<and>
       (fresh \<longrightarrow> 6 dvd n)) never"
  unfolding UNPACK_VAR_REQ_def
proof (rule triple_bindS [OF VAR_at])
  fix x
  show "triple (\<lambda>s. dec_at N ext False (wr (of_bits bs) m) [] gs s \<and> length bs \<le> x \<and> x < length bs + 6 \<and>
       (fresh \<longrightarrow> 6 dvd x)) (thenS (ensureS (Code nexus_msg_missing_field) (x \<noteq> 0)) (retS x))
    (\<lambda>n s. dec_at N ext False (wr (of_bits bs) m) [] gs s \<and> length bs \<le> n \<and> n < length bs + 6 \<and>
       (fresh \<longrightarrow> 6 dvd n)) never"
    by (rule triple_thenS [OF triple_ensureS triple_retS]) (use assms in auto)
qed

text \<open>The four kinds of fields, from the fields still to be read.\<close>

definition dec_in :: "nat \<Rightarrow> u8 list \<Rightarrow> bool \<Rightarrow> nexusrv_msg \<Rightarrow> wire_field list \<Rightarrow> dec_state \<Rightarrow> bool" where
  "dec_in N ext fresh m fs = dec_at N ext fresh m (fst (rest_groups fs)) (snd (rest_groups fs))"

definition dec_after :: "nat \<Rightarrow> u8 list \<Rightarrow> nexusrv_msg \<Rightarrow> wire_field list \<Rightarrow> dec_state \<Rightarrow> bool" where
  "dec_after N ext m fs = dec_at N ext False m [] (put_group (rest_groups fs))"

lemma in_FIXED:
  "0 < n \<Longrightarrow> triple (dec_in N ext fresh m (Fixed n v # fs)) (UNPACK_FIXED n wr)
    (\<lambda>_. dec_in N ext False (wr (take_bit n v) m) fs) never"
  unfolding dec_in_def by (simp add: FIXED_at)

lemma in_VAR:
  "triple (dec_in N ext fresh m (Variable v # fs)) (UNPACK_VAR wr)
    (\<lambda>_. dec_after N ext (wr v m) fs) never"
  unfolding dec_in_def dec_after_def
  by (rule triple_conseq [OF VAR_at]) (auto simp: take_bit_sig)

lemma in_VAR_REQ:
  "triple (dec_in N ext fresh m (Required v # fs)) (UNPACK_VAR_REQ wr)
    (\<lambda>_. dec_after N ext (wr v m) fs) never"
  unfolding dec_in_def dec_after_def
  by (rule triple_conseq [OF VAR_REQ_at]) (auto simp: take_bit_sig)

lemma after_CONSUME:
  assumes "fst (rest_groups fs) \<noteq> []"
  shows "triple (dec_after N ext m fs) CONSUME_BYTES (\<lambda>_. dec_in N ext True m fs) never"
  using CONSUME_at [of N ext False m "[]" "fst (rest_groups fs)" "snd (rest_groups fs)"] assms
  by (simp add: dec_after_def dec_in_def put_group_def)

text \<open>A sign-extended address is recovered from its bits.\<close>

lemma sign_extend_address:
  assumes "address_bits 0 v \<le> n" and "n < address_bits 0 v + 6" and "6 dvd n" and "n < 64"
  shows "sign_extend_field n (take_bit (address_bits 0 v) v) = v"
proof -
  let ?k = "address_bits 0 v"
  have "?k = 6 * clen (signed_bits v)"
    using assms(1,4) by (auto simp: address_bits_def min_def split: if_splits)
  then have "6 dvd ?k" by simp
  with assms(1,2,3) have n: "n = ?k" by (auto elim!: dvdE)
  have k: "signed_bits v \<le> ?k" "0 < ?k" by (simp_all add: address_bits_bounds)
  have sign: "bit v i = bit v 63" if "?k - 1 \<le> i" "i < 64" for i
    using bit_beyond_signed [of v i] that k by simp
  have test: "take_bit ?k v AND push_bit (?k - 1) 1 \<noteq> 0 \<longleftrightarrow> bit v 63"
  proof -
    have "bit (take_bit ?k v AND push_bit (?k - 1) 1) i \<longleftrightarrow> i = ?k - 1 \<and> bit v 63" for i
    proof (cases "i = ?k - 1")
      case True
      with sign [of "?k - 1"] k(2) n assms(4) show ?thesis
        by (auto simp: bit_simps)
    next
      case False
      then show ?thesis by (auto simp: bit_simps)
    qed
    then show ?thesis by (metis bit_0_eq bit_eqI bot_apply bot_bool_def)
  qed
  show ?thesis
    unfolding n sign_extend_field_def test
  proof (rule bit_word_eqI)
    fix i assume "i < LENGTH(64)"
    then have i: "i < 64" by simp
    show "bit (if bit v 63 then take_bit ?k v OR push_bit ?k (- 1) else take_bit ?k v) i = bit v i"
    proof (cases "i < ?k")
      case True
      then show ?thesis by (auto simp: bit_simps)
    next
      case False
      with sign [of i] i show ?thesis by (auto simp: bit_simps)
    qed
  qed
qed

lemma in_XADDR_VAO:
  "triple (dec_in N ext True m (Address v # fs)) UNPACK_XADDR_VAO
    (\<lambda>_. dec_after N ext (set_xaddr v m) fs) never"
proof -
  let ?k = "address_bits 0 v"
  have ne: "bits_of ?k v \<noteq> []" using address_bits_bounds(1) [of 0 v] by simp
  have req: "triple (dec_in N ext True m (Address v # fs)) (UNPACK_VAR_REQ set_xaddr)
      (\<lambda>n s. dec_after N ext (set_xaddr (take_bit ?k v) m) fs s \<and> ?k \<le> n \<and> n < ?k + 6 \<and> 6 dvd n) never"
    using VAR_REQ_at [OF ne, of N ext True m _ set_xaddr] by (simp add: dec_in_def dec_after_def)
  have mask: "take_bit ?k v = v" if "64 \<le> n" "n < ?k + 6" "6 dvd n" for n
  proof -
    have "66 \<le> n" using that(1,3) by (auto elim!: dvdE)
    with that(2) have "?k > 60" by simp
    moreover have "?k = 64 \<or> 6 dvd ?k" by (auto simp: address_bits_def min_def)
    ultimately have "?k = 64" using address_bits_bounds(2) [of 0 v] by (auto elim!: dvdE)
    then show ?thesis using take_bit_sig [of v 64] sig_bits_le [of v] by simp
  qed
  show ?thesis
    unfolding UNPACK_XADDR_VAO_def
  proof (rule triple_bindS [OF req])
    fix n
    show "triple (\<lambda>s. dec_after N ext (set_xaddr (take_bit ?k v) m) fs s \<and> ?k \<le> n \<and> n < ?k + 6 \<and> 6 dvd n)
      (if 64 \<le> n then retS ()
       else modS (\<lambda>s. s\<lparr>d_msg := set_xaddr (sign_extend_field n (xaddr (d_msg s))) (d_msg s)\<rparr>))
      (\<lambda>_. dec_after N ext (set_xaddr v m) fs) never"
      by (rule triple_if; rule triple_retS triple_modS)
        (use mask [of n] sign_extend_address [of v n] in
          \<open>auto simp: dec_after_def dec_at_def xaddr_def set_dword1_def not_le\<close>)
  qed
qed

section \<open>Running the decoder on a layout\<close>

lemma in_when_msg:
  "(p m \<Longrightarrow> triple (dec_in N ext b m fs) k Q never) \<Longrightarrow>
   (\<And>s. \<not> p m \<Longrightarrow> dec_in N ext b m fs s \<Longrightarrow> Q () s) \<Longrightarrow>
   triple (dec_in N ext b m fs) (when_msg p k) Q never"
  unfolding when_msg_def
  by (rule triple_read, cases "p m")
    (auto simp: triple_def whenS_def dec_in_def dec_at_def retS_def)

lemma after_when_msg:
  "(p m \<Longrightarrow> triple (dec_after N ext m fs) k Q never) \<Longrightarrow>
   (\<And>s. \<not> p m \<Longrightarrow> dec_after N ext m fs s \<Longrightarrow> Q () s) \<Longrightarrow>
   triple (dec_after N ext m fs) (when_msg p k) Q never"
  unfolding when_msg_def
  by (rule triple_read, cases "p m")
    (auto simp: triple_def whenS_def dec_after_def dec_at_def retS_def)

lemma in_read:
  "triple (dec_in N ext b m fs) (g (f m)) Q never \<Longrightarrow>
   triple (dec_in N ext b m fs) (bindS (readS (\<lambda>s. f (d_msg s))) g) Q never"
  unfolding triple_def bindS_def readS_def dec_in_def dec_at_def by auto

lemma after_read:
  "triple (dec_after N ext m fs) (g (f m)) Q never \<Longrightarrow>
   triple (dec_after N ext m fs) (bindS (readS (\<lambda>s. f (d_msg s))) g) Q never"
  unfolding triple_def bindS_def readS_def dec_after_def dec_at_def by auto

lemma in_update:
  "triple (dec_in N ext b m fs) (update_msg f) (\<lambda>_. dec_in N ext b (f m) fs) never"
  unfolding triple_def update_msg_def modS_def dec_in_def dec_at_def by auto

text \<open>
  \<open>reads\<close>: the decoder part \<open>d\<close> reads the fields \<open>fs\<close> of \<open>msg\<close> into \<open>m\<close> and returns \<open>r\<close>;
  what the layout of \<open>msg\<close> has in this part, the result has as well, and the rest of the
  message is kept.
\<close>

definition carried :: "nexusrv_hw_cfg \<Rightarrow> nexusrv_msg \<Rightarrow> nexusrv_msg \<Rightarrow> nexusrv_msg \<Rightarrow> bool" where
  "carried cfg msg m m' \<longleftrightarrow> tcode m' = tcode m \<and> src m' = src m \<and> timestamp m' = timestamp m \<and>
     body_layout cfg m' = body_layout cfg msg"

definition read_to :: "nat \<Rightarrow> u8 list \<Rightarrow> nexusrv_msg \<Rightarrow> wire_field list \<Rightarrow> 'a \<Rightarrow> 'a \<Rightarrow> dec_state \<Rightarrow> bool" where
  "read_to N ext m fs r x s \<longleftrightarrow> dec_after N ext m fs s \<and> x = r"

definition reads :: "nexusrv_hw_cfg \<Rightarrow> nexusrv_msg \<Rightarrow> nexusrv_msg \<Rightarrow> 'a \<Rightarrow> 'a dec \<Rightarrow> bool" where
  "reads cfg msg m r d \<longleftrightarrow>
     (\<forall>N ext fs b. tcode m = tcode msg \<longrightarrow>
        (\<exists>m'. triple (dec_in N ext b m (body_layout cfg msg @ fs)) d
           (read_to N ext m' fs r) never \<and> carried cfg msg m m'))"

lemma when_known:
  "p m \<Longrightarrow> triple (dec_in N ext b m fs) k Q never \<Longrightarrow> triple (dec_in N ext b m fs) (when_msg p k) Q never"
  "p m \<Longrightarrow> triple (dec_after N ext m fs) k Q never \<Longrightarrow> triple (dec_after N ext m fs) (when_msg p k) Q never"
  "\<not> p m \<Longrightarrow> triple (dec_in N ext b m fs) (when_msg p k) (\<lambda>_. dec_in N ext b m fs) never"
  "\<not> p m \<Longrightarrow> triple (dec_after N ext m fs) (when_msg p k) (\<lambda>_. dec_after N ext m fs) never"
  by (auto intro: in_when_msg after_when_msg)

lemma in_assert:
  "p m \<Longrightarrow> triple (dec_in N ext b m fs) (bindS (readS (\<lambda>s. p (d_msg s))) assertS)
     (\<lambda>_. dec_in N ext b m fs) never"
  by (rule in_read) (simp add: triple_def assertS_def ensureS_def retS_def)

lemma then_ret: "triple P m (\<lambda>_. Q) E \<Longrightarrow> triple P (thenS m (retS ())) (\<lambda>_. Q) E"
  by (rule triple_thenS, assumption, rule triple_retS)

lemma then_False:
  "triple P m (\<lambda>_. dec_after N ext m' fs) E \<Longrightarrow>
    triple P (thenS m (retS False)) (read_to N ext m' fs False) E"
  by (rule triple_thenS, assumption, rule triple_retS) (simp add: read_to_def)

lemma unit_result:
  "triple P m (\<lambda>_. dec_after N ext m' fs) E \<Longrightarrow> triple P m (read_to N ext m' fs ()) E"
  by (rule triple_conseq, assumption) (simp_all add: read_to_def)

lemma starts_group [simp]:
  "fst (rest_groups (Required v # fs)) \<noteq> []" "fst (rest_groups (Address v # fs)) \<noteq> []"
  using address_bits_bounds(1) [of 0 v] by simp_all

lemmas read_rules = in_VAR in_VAR_REQ in_XADDR_VAO after_CONSUME in_FIXED in_update in_assert then_ret
  triple_thenS starts_group

lemma bf_roundtrip:
  assumes "i + n \<le> 8"
  shows "bf_get i n (bf_set i n (take_bit n (ucast (bf_get i n b'))) b) = bf_get i n b'"
proof (rule bit_word_eqI)
  fix k assume "k < LENGTH(8)"
  with assms show "bit (bf_get i n (bf_set i n (take_bit n (ucast (bf_get i n b'))) b)) k = bit (bf_get i n b') k"
    by (auto simp: bf_get_set_same) (auto simp: bf_get_def bit_simps)
qed

lemmas bf_rules = bf_roundtrip bf_roundtrip [of _ "Suc 0", simplified] bf_get_set_other

lemma ucast_rules:
  "ucast (ucast (v :: u32) :: u64) = v" "ucast (ucast (w :: u16) :: u64) = w"
  "ucast (ucast (x :: u8) :: u64) = x"
  by (rule bit_word_eqI; simp add: bit_ucast_iff)+

lemmas layout_rules = body_layout_def branch_layout_def field_readers field_writers bf_rules
  ucast_rules ckdata0_set_ckdata0 [unfolded field_readers field_writers]

lemmas read_chain = in_VAR in_VAR_REQ in_XADDR_VAO after_CONSUME in_FIXED in_update in_assert
  then_ret then_False triple_thenS starts_group

lemma readsI:
  assumes "\<And>N ext fs b. tcode m = tcode msg \<Longrightarrow>
      triple (dec_in N ext b m (body_layout cfg msg @ fs)) d (read_to N ext m' fs r) never"
    and "tcode m = tcode msg \<Longrightarrow> carried cfg msg m m'"
  shows "reads cfg msg m r d"
  using assms unfolding reads_def by blast

lemmas reads_defs = decode_rest_def decode_resource_def decode_correlation_def decode_ict_def
  field_widths comp_apply

lemma reads_ownership:
  assumes "tcode msg = TCODE_Ownership"
  shows "reads cfg msg m False decode_rest"
  by (rule readsI, unfold reads_defs, rule in_read, (simp add: body_layout_def assms)[1],
      ((rule read_chain | simp; fail)+)[1])
    (use assms in \<open>simp_all add: carried_def layout_rules\<close>)

lemma reads_error:
  assumes "tcode msg = TCODE_Error"
  shows "reads cfg msg m False decode_rest"
  by (rule readsI, unfold reads_defs, rule in_read, (simp add: body_layout_def assms)[1],
      ((rule read_chain | simp; fail)+)[1])
    (use assms in \<open>simp_all add: carried_def layout_rules\<close>)

lemma reads_repeat:
  assumes "tcode msg = TCODE_RepeatBranch"
  shows "reads cfg msg m False decode_rest"
  by (rule readsI, unfold reads_defs, rule in_read, (simp add: body_layout_def assms)[1],
      ((rule read_chain | simp; fail)+)[1])
    (use assms in \<open>simp_all add: carried_def layout_rules\<close>)

lemma choose:
  "b \<Longrightarrow> triple P m Q E \<Longrightarrow> triple P (if b then m else k) Q E"
  "\<not> b \<Longrightarrow> triple P k Q E \<Longrightarrow> triple P (if b then m else k) Q E"
  "b \<Longrightarrow> triple P n (\<lambda>_. R) E \<Longrightarrow> triple P (whenS b n) (\<lambda>_. R) E"
  "\<not> b \<Longrightarrow> triple P (whenS b n) (\<lambda>_. P) E"
  by (simp_all add: whenS_def triple_retS)

lemma retS_at: "triple P (retS ()) (\<lambda>_. P) E"
  by (rule triple_retS)

lemmas message_rules = field_readers field_writers bf_rules ucast_rules
  bf_get_set_same [of 4 2 0, simplified] bf_get_set_same [of 4 2 1, simplified]
  bf_get_set_same [of 0 4 0, simplified] bf_get_set_same [of 0 4 1, simplified]
  bf_get_set_same [of 0 4 2, simplified]

lemma halves:
  "ucast (ucast (a OR b :: u64) :: u32) OR
     push_bit 32 (ucast (ucast (drop_bit 32 a OR drop_bit 32 b) :: u32)) = a OR b"
  by (rule bit_word_eqI) (auto simp: bit_simps)

lemma reads_ict:
  assumes "tcode msg = TCODE_ICT" and "ckdf msg = 1"
  shows "reads cfg msg m False decode_rest"
  by (rule readsI, unfold reads_defs, rule in_read, (simp add: body_layout_def assms)[1],
      ((rule read_chain when_known(2) | simp; fail |
        simp add: message_rules assms(2) [unfolded field_readers]; fail)+)[1])
    (use assms in \<open>simp_all add: carried_def layout_rules message_rules halves\<close>)

lemma reads_stop_plain:
  assumes "tcode msg = TCODE_ProgTraceCorrelation" and "cdf msg = 0"
  shows "reads cfg msg m False decode_rest"
  by (rule readsI, unfold reads_defs, rule in_read, (simp add: body_layout_def assms)[1],
      ((rule read_chain after_read |
        rule choose(2), (simp add: message_rules assms(2) [unfolded field_readers]; fail) |
        rule choose(4) | simp; fail |
        simp add: message_rules assms(2) [unfolded field_readers]; fail)+)[1])
    (use assms in \<open>simp_all add: carried_def layout_rules message_rules\<close>)

lemma reads_stop_hist:
  assumes "tcode msg = TCODE_ProgTraceCorrelation" and "cdf msg = 1"
  shows "reads cfg msg m False decode_rest"
  by (rule readsI, unfold reads_defs, rule in_read, (simp add: body_layout_def assms)[1],
      ((rule read_chain after_read |
        rule choose(2,3), (simp add: message_rules assms(2) [unfolded field_readers]; fail) |
        simp; fail)+)[1])
    (use assms in \<open>simp_all add: carried_def layout_rules message_rules\<close>)

lemma reads_resource:
  assumes "tcode msg = TCODE_ResourceFull"
  shows "reads cfg msg m False decode_rest"
proof -
  note step = readsI [of m msg cfg decode_rest]
  consider "res_code msg = 0" | "res_code msg = 1" | "res_code msg = 2" | "res_code msg > 2"
    using res_code_range [of msg] by fastforce
  then show ?thesis
  proof cases
    case 1
    show ?thesis
      by (rule readsI, unfold reads_defs, rule in_read, (simp add: body_layout_def assms 1)[1],
          ((rule read_chain in_read |
            rule choose(1,2), (simp add: message_rules 1 [unfolded field_readers]; fail) |
            simp; fail)+)[1])
        (use assms 1 in \<open>simp_all add: carried_def layout_rules message_rules\<close>)
  next
    case 2
    show ?thesis
      by (rule readsI, unfold reads_defs, rule in_read, (simp add: body_layout_def assms 2)[1],
          ((rule read_chain in_read |
            rule choose(1,2), (simp add: message_rules 2 [unfolded field_readers]; fail) |
            simp; fail)+)[1])
        (use assms 2 in \<open>simp_all add: carried_def layout_rules message_rules\<close>)
  next
    case 3
    show ?thesis
      by (rule readsI, unfold reads_defs, rule in_read, (simp add: body_layout_def assms 3)[1],
          ((rule read_chain in_read |
            rule choose(1,2), (simp add: message_rules 3 [unfolded field_readers]; fail) |
            simp; fail)+)[1])
        (use assms 3 in \<open>simp_all add: carried_def layout_rules message_rules\<close>)
  next
    case 4
    then have "res_code msg \<noteq> 0" "res_code msg \<noteq> 1" "res_code msg \<noteq> 2" by unat_arith+
    note 4 = this 4
    show ?thesis
      by (rule readsI, unfold reads_defs, rule in_read, (simp add: body_layout_def assms 4)[1],
          ((rule read_chain in_read |
            rule choose(1,2), (simp add: message_rules 4 [unfolded field_readers]; fail) |
            simp; fail)+)[1])
        (use assms 4 in \<open>simp_all add: carried_def layout_rules message_rules\<close>)
  qed
qed

section \<open>Branches\<close>

lemma in_when_field:
  assumes "p m \<longleftrightarrow> q"
    and "triple (dec_in N ext b m (f # fs)) k (\<lambda>_. dec_in N ext False m' fs) never"
  shows "triple (dec_in N ext b m ((if q then [f] else []) @ fs)) (when_msg p k)
    (\<lambda>_. dec_in N ext (b \<and> \<not> q) (if q then m' else m) fs) never"
  using assms when_known(1,3) [of p m N ext b] by (cases q) auto

lemma after_when_field:
  assumes "p m \<longleftrightarrow> q"
    and "triple (dec_after N ext m (f # fs)) k (\<lambda>_. dec_after N ext m' fs) never"
  shows "triple (dec_after N ext m ((if q then [f] else []) @ fs)) (when_msg p k)
    (\<lambda>_. dec_after N ext (if q then m' else m) fs) never"
  using assms when_known(2,4) [of p m N ext] by (cases q) auto

lemma address_field:
  "triple (dec_in N ext True m ((if v then Address a else Required a) # fs))
     (if v then UNPACK_XADDR_VAO else thenS (UNPACK_VAR_REQ set_xaddr) (retS ()))
     (\<lambda>_. dec_after N ext (set_xaddr a m) fs) never"
  by (cases v) (simp_all add: in_XADDR_VAO then_ret in_VAR_REQ)

lemma starts_group_if: "fst (rest_groups ((if v then Address a else Required a) # fs)) \<noteq> []"
  by (cases v) (simp_all add: address_bits_bounds)

text \<open>On the branch messages the predicates depend on the message code alone.\<close>

lemma branch_preds:
  assumes "tcode m = tcode msg" and "tcode msg \<in> set branch_tcodes"
  shows "nexusrv_msg_is_sync m = nexusrv_msg_is_sync msg"
    "nexusrv_msg_is_indir_branch m = nexusrv_msg_is_indir_branch msg"
    "nexusrv_msg_has_xaddr m = nexusrv_msg_has_xaddr msg"
    "nexusrv_msg_has_hist m = nexusrv_msg_has_hist msg" "nexusrv_msg_has_icnt m"
  using assms by (auto simp: msg_preds branch_tcodes_def)

lemma reads_branch:
  assumes t: "tcode msg \<in> set branch_tcodes"
  shows "reads cfg msg m () (decode_branch cfg)"
proof -
  have L: "body_layout cfg msg = branch_layout cfg msg"
    using t by (auto simp: body_layout_def branch_tcodes_def)
  show ?thesis
    apply (rule readsI, unfold decode_branch_def field_widths L branch_layout_def append_assoc)
     apply (rule unit_result)
     apply ((rule then_ret triple_thenS in_VAR_REQ in_when_field after_when_field in_assert in_FIXED
           in_update after_CONSUME starts_group_if starts_group address_field |
          simp only: append.simps, rule in_VAR_REQ | rule branch_preds [OF _ t], simp | simp; fail)+)[1]
    using t unfolding branch_tcodes_def set_simps
    by (elim insertE emptyE) (simp_all add: carried_def layout_rules message_rules msg_preds)
qed

lemma reads_encodable:
  assumes "encodable msg" and "tcode msg \<noteq> TCODE_Idle" and "tcode msg \<notin> set branch_tcodes"
    and "tcode msg = TCODE_ICT \<longrightarrow> ckdf msg = 1"
  shows "reads cfg msg m False decode_rest"
proof -
  have "cdf msg < 2 \<Longrightarrow> cdf msg = 0 \<or> cdf msg = 1" by unat_arith
  with assms consider "tcode msg = TCODE_Ownership" | "tcode msg = TCODE_Error"
    | "tcode msg = TCODE_ResourceFull" | "tcode msg = TCODE_RepeatBranch"
    | "tcode msg = TCODE_ProgTraceCorrelation" "cdf msg = 0"
    | "tcode msg = TCODE_ProgTraceCorrelation" "cdf msg = 1" | "tcode msg = TCODE_ICT" "ckdf msg = 1"
    by (auto simp: encodable_def branch_tcodes_def)
  then show ?thesis
    by cases (simp_all add: reads_ownership reads_error reads_resource reads_repeat reads_stop_plain
        reads_stop_hist reads_ict)
qed

section \<open>The timestamp\<close>

lemma after_eom:
  "triple (dec_after N ext m fs) (g (put_group (rest_groups fs) = [])) Q never \<Longrightarrow>
   triple (dec_after N ext m fs) (bindS (readS d_eom) g) Q never"
  unfolding triple_def bindS_def readS_def dec_after_def dec_at_def by auto

lemma skip_none:
  "put_group (rest_groups fs) = [] \<Longrightarrow>
    triple (dec_after N ext m fs) skip_to_eom (\<lambda>_. dec_after N ext m fs) never"
proof
  fix s assume none: "put_group (rest_groups fs) = []" and at: "dec_after N ext m fs s"
  then have "d_eom s" by (simp add: dec_after_def dec_at_def)
  with at show "case skip_to_eom s of (Inl e, t) \<Rightarrow> False | (Inr x, t) \<Rightarrow> dec_after N ext m fs t"
    by (simp add: skip_to_eom.simps)
qed

lemma skip_one:
  assumes "fst (rest_groups fs) \<noteq> []" and "snd (rest_groups fs) = []"
  shows "triple (dec_after N ext m fs) skip_to_eom (\<lambda>_. dec_in N ext True m fs) never"
proof
  fix s assume at: "dec_after N ext m fs s"
  then have "\<not> d_eom s" using assms(1) by (simp add: dec_after_def dec_at_def put_group_def)
  moreover obtain t where t: "CONSUME_BYTES s = (Inr (), t)" "dec_in N ext True m fs t"
  proof -
    obtain r t where run: "CONSUME_BYTES s = (r, t)" by fastforce
    with tripleD_error [OF after_CONSUME [OF assms(1)] at] tripleD [OF after_CONSUME [OF assms(1)] at]
    show thesis by (cases r) (auto intro: that)
  qed
  moreover have "d_eom t" using t(2) assms(2) by (simp add: dec_in_def dec_at_def)
  ultimately show "case skip_to_eom s of (Inl e, t) \<Rightarrow> False | (Inr x, t) \<Rightarrow> dec_in N ext True m fs t"
    by (simp add: skip_to_eom.simps [of s] skip_to_eom.simps [of t])
qed

lemma in_VAR_nonzero:
  assumes "v \<noteq> 0"
  shows "triple (dec_in N ext fresh m (Variable v # fs)) (UNPACK_VAR_REQ wr)
    (\<lambda>_. dec_after N ext (wr v m) fs) never"
proof -
  have "max 1 (sig_bits v) = sig_bits v" using sig_bits_pos [OF assms] by simp
  then have "dec_in N ext fresh m (Variable v # fs) = dec_in N ext fresh m (Required v # fs)"
    by (simp add: dec_in_def)
  then show ?thesis using in_VAR_REQ by simp
qed

lemma time_read:
  assumes "nexusrv_msg_is_sync m = nexusrv_msg_is_sync msg" and "timestamp m = 0"
  shows "triple (dec_after N ext m (time_layout cfg msg)) (decode_timestamp cfg)
    (\<lambda>_. dec_after N ext (if ts_bits cfg = 0 then m else set_timestamp (timestamp msg) m) []) never"
proof -
  have skip: "triple (dec_after N ext m [f])
      (thenS skip_to_eom (thenS (UNPACK_VAR_REQ set_timestamp) (retS ())))
      (\<lambda>_. dec_after N ext (set_timestamp (timestamp msg) m) []) never"
    if "f = Required (timestamp msg) \<or> f = Variable (timestamp msg) \<and> timestamp msg \<noteq> 0" for f
    by (rule triple_thenS, rule skip_one)
      (use that sig_bits_pos [of "timestamp msg"] in \<open>auto simp: put_group_def intro!: then_ret in_VAR_REQ in_VAR_nonzero\<close>)
  consider "ts_bits cfg = 0" | "ts_bits cfg \<noteq> 0" "\<not> nexusrv_msg_is_sync msg" "timestamp msg = 0"
    | "ts_bits cfg \<noteq> 0" "nexusrv_msg_is_sync msg \<or> timestamp msg \<noteq> 0" by blast
  then show ?thesis
  proof cases
    case 1
    then show ?thesis
      unfolding decode_timestamp_def time_layout_def
      by (intro after_eom) (simp add: whenS_def triple_thenS [OF skip_none retS_at] put_group_def)
  next
    case 2
    have "set_timestamp 0 m = m" using assms(2) by (simp add: set_timestamp_def)
    with 2 assms have "triple (dec_after N ext m [Variable 0])
        (bindS (readS (\<lambda>s. nexusrv_msg_is_sync (d_msg s))) (\<lambda>sync. ensureS (Code nexus_msg_missing_field) (\<not> sync)))
        (\<lambda>_. dec_after N ext (set_timestamp 0 m) []) never"
      by (intro after_read triple_ensureS) (auto simp: dec_after_def put_group_def)
    with 2 show ?thesis
      unfolding decode_timestamp_def time_layout_def
      by (intro after_eom) (simp add: put_group_def)
  next
    case 3
    have "put_group (rest_groups (time_layout cfg msg)) \<noteq> []"
      using 3 sig_bits_pos [of "timestamp msg"] by (auto simp: time_layout_def put_group_def)
    with 3 skip show ?thesis
      unfolding decode_timestamp_def
      by (intro after_eom) (auto simp: whenS_def time_layout_def)
  qed
qed

section \<open>Whole messages\<close>

lemma rest_groups_ok:
  assumes "\<And>n v. Fixed n v \<in> set fs \<Longrightarrow> n \<le> 64"
  shows "(\<forall>g \<in> set (snd (rest_groups fs)). g \<noteq> [] \<and> length g \<le> 64 * length fs) \<and>
    length (fst (rest_groups fs)) \<le> 64 * length fs"
  using assms
proof (induction fs)
  case (Cons f fs)
  have IH: "(\<forall>g \<in> set (snd (rest_groups fs)). g \<noteq> [] \<and> length g \<le> 64 * length fs) \<and>
    length (fst (rest_groups fs)) \<le> 64 * length fs"
    by (rule Cons.IH) (meson Cons.prems list.set_intros(2))
  have small: "sig_bits v \<le> 64" "max 1 (sig_bits v) \<le> 64" "address_bits 0 v \<le> 64" for v
    using sig_bits_le [of v] address_bits_bounds(2) [of 0 v] by auto
  show ?case
  proof (cases f)
    case (Fixed n v)
    with Cons.prems [of n v] IH show ?thesis by fastforce
  next
    case (Variable v)
    with IH small(1) [of v] show ?thesis by (auto simp: put_group_def)
  next
    case (Required v)
    with IH small(2) [of v] show ?thesis by (auto simp: put_group_def)
  next
    case (Address v)
    with IH small(3) [of v] show ?thesis by (auto simp: put_group_def)
  qed
qed simp

lemma layout_small:
  assumes "src_bits cfg \<le> 64"
  shows "Fixed n v \<in> set (layout cfg m) \<Longrightarrow> n \<le> 64" "length (layout cfg m) \<le> 9"
    "addresses_start True (layout cfg m)"
proof -
  have s: "unat (src_bits cfg) \<le> 64" using assms by unat_arith
  show "Fixed n v \<in> set (layout cfg m) \<Longrightarrow> n \<le> 64" "length (layout cfg m) \<le> 9"
    "addresses_start True (layout cfg m)"
    using s
    by (auto simp: layout_def body_layout_def branch_layout_def time_layout_def split: if_splits)
qed

abbreviation with_source :: "nexusrv_hw_cfg \<Rightarrow> nexusrv_msg \<Rightarrow> nexusrv_msg \<Rightarrow> nexusrv_msg" where
  "with_source cfg msg m \<equiv> set_src (if src_bits cfg = 0 then 0 else ucast (src msg)) m"

abbreviation with_time :: "nexusrv_hw_cfg \<Rightarrow> nexusrv_msg \<Rightarrow> nexusrv_msg \<Rightarrow> nexusrv_msg" where
  "with_time cfg msg m \<equiv> if ts_bits cfg = 0 then m else set_timestamp (timestamp msg) m"

lemma source_read:
  assumes idle: "tcode msg \<noteq> TCODE_Idle"
    and src: "take_bit (unat (src_bits cfg)) (ucast (src msg)) = (ucast (src msg) :: u64)"
  shows "triple (dec_in N ext False (set_src 0 m) (tl (layout cfg msg)))
    (whenS (src_bits cfg \<noteq> 0) (UNPACK_FIXED (unat (src_bits cfg)) set_src))
    (\<lambda>_. dec_in N ext False (with_source cfg msg m) (body_layout cfg msg @ time_layout cfg msg)) never"
proof (cases "src_bits cfg = 0")
  case True
  with idle show ?thesis by (simp add: layout_def whenS_def retS_at)
next
  case False
  then have "0 < unat (src_bits cfg)" by (simp add: unat_gt_0)
  with in_FIXED [OF this, of N ext False "set_src 0 m" "ucast (src msg)" "body_layout cfg msg @ time_layout cfg msg" set_src]
    False idle src
  show ?thesis by (simp add: layout_def whenS_def set_src_def)
qed

lemma body_read:
  assumes enc: "encodable msg" and idle: "tcode msg \<noteq> TCODE_Idle" and ict: "tcode msg = TCODE_ICT \<longrightarrow> ckdf msg = 1"
    and m: "tcode m = tcode msg" "timestamp m = 0"
  obtains m2 where "triple (dec_in N ext False (with_source cfg msg m) (body_layout cfg msg @ time_layout cfg msg))
      (if tcode m \<in> set branch_tcodes then thenS (decode_branch cfg) (decode_timestamp cfg)
       else bindS decode_rest (\<lambda>fin. if fin then retS () else decode_timestamp cfg))
      (\<lambda>_. dec_after N ext (with_time cfg msg m2) []) never"
    "carried cfg msg (with_source cfg msg m) m2"
proof -
  let ?m1 = "with_source cfg msg m"
  let ?body = "body_layout cfg msg @ time_layout cfg msg"
  let ?after = "\<lambda>m2 _. dec_after N ext (with_time cfg msg m2) []"
  have time: "triple (dec_after N ext m2 (time_layout cfg msg)) (decode_timestamp cfg) (?after m2) never"
    if "carried cfg msg ?m1 m2" for m2
    using that m by (intro time_read) (auto simp: carried_def nexusrv_msg_is_sync_def set_src_def)
  show thesis
  proof (cases "tcode m \<in> set branch_tcodes")
    case True
    with reads_branch [of msg cfg ?m1] m(1) obtain m2 where
      r: "triple (dec_in N ext False ?m1 ?body) (decode_branch cfg) (read_to N ext m2 (time_layout cfg msg) ()) never"
      "carried cfg msg ?m1 m2"
      unfolding reads_def by fastforce
    have "triple (dec_in N ext False ?m1 ?body) (decode_branch cfg) (\<lambda>_. dec_after N ext m2 (time_layout cfg msg)) never"
      by (rule triple_conseq [OF r(1)]) (auto simp: read_to_def)
    from triple_thenS [OF this time [OF r(2)]] True r(2) that show thesis by simp
  next
    case False
    with reads_encodable [OF enc idle _ ict, of cfg ?m1] m(1) obtain m2 where
      r: "triple (dec_in N ext False ?m1 ?body) decode_rest (read_to N ext m2 (time_layout cfg msg) False) never"
      "carried cfg msg ?m1 m2"
      unfolding reads_def by fastforce
    have "triple (read_to N ext m2 (time_layout cfg msg) False x)
        (if x then retS () else decode_timestamp cfg) (?after m2) never" for x
    proof (cases x)
      case False
      then show ?thesis
        by (simp only: if_False, intro triple_conseq [OF time [OF r(2)]]) (simp_all add: read_to_def)
    qed (simp add: triple_def read_to_def)
    from triple_bindS [OF r(1) this] False r(2) that show thesis by simp
  qed
qed

lemma carried_layout:
  assumes "carried cfg msg (with_source cfg msg m) m2" "tcode m = tcode msg" "timestamp m = 0"
  shows "layout cfg (with_time cfg msg m2) = layout cfg msg"
proof -
  have "body_layout cfg (set_timestamp v m2) = body_layout cfg m2" for v
    by (simp add: body_layout_def branch_layout_def field_readers set_timestamp_def msg_preds)
  with assms show ?thesis
    by (auto simp: layout_def carried_def time_layout_def nexusrv_msg_is_sync_def set_src_def
        set_timestamp_def ucast_rules)
qed

lemma decode_fields_wire:
  assumes enc: "encodable msg" and idle: "tcode msg \<noteq> TCODE_Idle"
    and src: "take_bit (unat (src_bits cfg)) (ucast (src msg)) = (ucast (src msg) :: u64)"
    and ict: "tcode msg = TCODE_ICT \<longrightarrow> ckdf msg = 1"
    and m: "tcode m = tcode msg" "timestamp m = 0"
  shows "\<exists>m'. triple (dec_in N ext False m (tl (layout cfg msg))) (decode_fields cfg)
      (\<lambda>_. dec_after N ext m' []) never \<and> layout cfg m' = layout cfg msg"
proof -
  obtain m2 where m2: "triple (dec_in N ext False (with_source cfg msg m) (body_layout cfg msg @ time_layout cfg msg))
      (if tcode m \<in> set branch_tcodes then thenS (decode_branch cfg) (decode_timestamp cfg)
       else bindS decode_rest (\<lambda>fin. if fin then retS () else decode_timestamp cfg))
      (\<lambda>_. dec_after N ext (with_time cfg msg m2) []) never" "carried cfg msg (with_source cfg msg m) m2"
    by (rule body_read [OF enc idle ict m])
  have "triple (dec_in N ext False m (tl (layout cfg msg))) (decode_fields cfg)
      (\<lambda>_. dec_after N ext (with_time cfg msg m2) []) never"
    unfolding decode_fields_def
    by (rule in_read, rule choose(2), use m idle in simp, rule triple_thenS, rule in_update,
        rule triple_thenS [OF source_read [OF idle src] m2(1)])
  with carried_layout [OF m2(2) m] show ?thesis by blast
qed

definition fits_src :: "nexusrv_hw_cfg \<Rightarrow> nexusrv_msg \<Rightarrow> bool" where
  "fits_src cfg m \<longleftrightarrow> src_bits cfg \<le> 64 \<and> take_bit (unat (src_bits cfg)) (ucast (src m)) = (ucast (src m) :: u64)"

lemma decode_run_wire:
  assumes enc: "encodable msg" and src: "tcode msg = TCODE_Idle \<or> fits_src cfg msg"
    and s64: "src_bits cfg \<le> 64" and ict: "tcode msg = TCODE_ICT \<longrightarrow> ckdf msg = 1"
    and lim: "length (wire (layout cfg msg)) \<le> limit"
  shows "\<exists>m'. nexusrv_msg_decode cfg (wire (layout cfg msg) @ ext) limit m0 =
      (Inr (length (wire (layout cfg msg))), m') \<and> layout cfg m' = layout cfg msg"
proof -
  let ?L = "layout cfg msg" and ?N = "length (wire (layout cfg msg))"
  let ?m0 = "set_timestamp 0 m0" and ?t = "ucast (tcode msg) :: u64"
  let ?m1 = "set_tcode (take_bit 6 ?t) ?m0"
  have fg: "field_groups ?L = put_group (rest_groups ?L)"
    by (rule field_groups_rest [OF layout_small(3) [OF s64]])
  have cons: "?L = Fixed 6 ?t # tl ?L" by (simp add: layout_def)
  have ne: "fst (rest_groups ?L) \<noteq> []" by (subst cons) simp
  have small: "\<forall>g \<in> set (put_group (rest_groups ?L)). g \<noteq> [] \<and> length g \<le> 600"
  proof -
    have "(\<forall>g \<in> set (snd (rest_groups ?L)). g \<noteq> [] \<and> length g \<le> 64 * length ?L) \<and>
        length (fst (rest_groups ?L)) \<le> 64 * length ?L"
      by (rule rest_groups_ok) (rule layout_small(1) [OF s64])
    moreover have "64 * length ?L \<le> 600" using layout_small(2) [OF s64, of msg] by simp
    ultimately show ?thesis using ne by (fastforce simp: put_group_def)
  qed
  have init: "dec_after ?N ext ?m0 ?L (dec_init (wire ?L @ ext) limit m0)"
    using small lim ne
    by (auto simp: dec_after_def dec_at_def dec_init_def wire_def fg put_group_def)
  have t6: "take_bit 6 ?t = ?t"
    using enc by (auto simp: encodable_def)
  have tc: "tcode ?m1 = tcode msg" unfolding t6 by (simp add: set_tcode_def ucast_rules)
  have run: "\<exists>m'. triple (dec_in ?N ext False ?m1 (tl ?L)) (decode_fields cfg)
      (\<lambda>_. dec_after ?N ext m' []) never \<and> layout cfg m' = ?L"
  proof (cases "tcode msg = TCODE_Idle")
    case True
    have "triple (dec_in ?N ext False ?m1 (tl ?L)) (decode_fields cfg) (\<lambda>_. dec_after ?N ext ?m1 []) never"
      unfolding decode_fields_def
      by (rule in_read, rule choose(1))
        (use True tc in \<open>auto simp: layout_def triple_def bindS_def readS_def ensureS_def retS_def
          dec_in_def dec_after_def dec_at_def put_group_def\<close>)
    moreover have "layout cfg ?m1 = ?L" using True tc by (simp add: layout_def)
    ultimately show ?thesis by blast
  next
    case False
    with src decode_fields_wire [OF enc False _ ict tc] show ?thesis
      by (simp add: fits_src_def set_tcode_def set_timestamp_def)
  qed
  then obtain m' where m': "triple (dec_in ?N ext False ?m1 (tl ?L)) (decode_fields cfg)
      (\<lambda>_. dec_after ?N ext m' []) never" "layout cfg m' = ?L" by blast
  have code: "triple (dec_in ?N ext True ?m0 ?L) (UNPACK_FIXED NEXUS_RV_BITS_TCODE set_tcode)
      (\<lambda>_. dec_in ?N ext False ?m1 (tl ?L)) never"
    by (subst cons, unfold NEXUS_RV_BITS_TCODE_def, rule in_FIXED) simp
  have run: "triple (dec_after ?N ext ?m0 ?L) (decode_run cfg) (\<lambda>_. dec_after ?N ext m' []) never"
    unfolding decode_run_def
    by (rule triple_thenS [OF after_CONSUME [OF ne] triple_thenS [OF code m'(1)]])
  obtain r s where r: "decode_run cfg (dec_init (wire ?L @ ext) limit m0) = (r, s)" by fastforce
  with tripleD_error [OF run init] tripleD [OF run init] have "r = Inr ()" "dec_after ?N ext m' [] s"
    by (cases r; simp)+
  with r m'(2) show ?thesis
    by (auto simp: nexusrv_msg_decode_def dec_after_def dec_at_def put_group_def)
qed

end
