(* ===== verification/MsgDecodeProps.thy ===== *)
theory MsgDecodeProps
  imports MsgDecode
begin

text \<open>
  What \<^verbatim>\<open>nexusrv_msg_decode\<close> guarantees: it never leaves its buffer nor fails the
  assertion, its errors are four, it consumes exactly the bytes up to the first end of a
  message, and bytes behind the buffer change nothing but a truncation.
\<close>

section \<open>The invariant of a decoding run\<close>

text \<open>
  The fields are within the buffer \<open>fst B\<close> and its limit \<open>snd B\<close>, and the bytes passed so far hold an end of message
  (MSEO 3) only if \<^verbatim>\<open>eom\<close> is set, and then in the last of them.
\<close>

definition dec_wf :: "u8 list \<times> nat \<Rightarrow> dec_state \<Rightarrow> bool" where
  "dec_wf B s \<longleftrightarrow> d_buf s = fst B \<and> d_pos s + d_limit s = snd B \<and>
     d_pos s + d_limit s \<le> length (fst B) \<and> 6 * length (fst B) < 4294967296 \<and>
     d_consumed s \<le> d_pos s \<and> d_off s \<le> 6 * d_consumed s \<and> (d_eom s \<longrightarrow> 0 < d_pos s) \<and>
     (\<forall>i < d_pos s. mseo (fst B ! i) = 3 \<longleftrightarrow> d_eom s \<and> i + 1 = d_pos s)"

text \<open>The errors; a truncation only if the whole window has no end of message.\<close>

definition dec_error :: "u8 list \<times> nat \<Rightarrow> fault \<Rightarrow> bool" where
  "dec_error B e \<longleftrightarrow> e \<in> {Code nexus_stream_bad_mseo, Code nexus_stream_truncate,
     Code nexus_msg_missing_field, Code nexus_msg_invalid} \<and>
     (e = Code nexus_stream_truncate \<longrightarrow> (\<forall>i < snd B. mseo (fst B ! i) \<noteq> 3))"

text \<open>The invariant with a property of \<^verbatim>\<open>eom\<close> and the message, which the writers in between keep.\<close>

definition dec_inv :: "u8 list \<times> nat \<Rightarrow> (bool \<Rightarrow> nexusrv_msg \<Rightarrow> bool) \<Rightarrow> dec_state \<Rightarrow> bool" where
  "dec_inv B P s \<longleftrightarrow> dec_wf B s \<and> P (d_eom s) (d_msg s)"

lemma consume_from_passed:
  assumes "consume_from buf base limit c = Inr (n, e)" and "base + limit \<le> length buf"
  shows "\<forall>i. base + c \<le> i \<and> i < base + n \<longrightarrow> (mseo (buf ! i) = 3 \<longleftrightarrow> e \<and> i + 1 = base + n)"
  using assms
proof (induction buf base limit c rule: consume_from.induct)
  case (1 buf base limit c)
  from "1.prems" have lt: "c < limit" by (subst (asm) consume_from.simps) (auto split: if_splits)
  with "1.prems"(2) have rd: "buf_read buf (base + c) = Inr (buf ! (base + c))" by simp
  show ?case
  proof (cases "mseo (buf ! (base + c)) = 0")
    case True
    with "1.prems" lt rd have run: "consume_from buf base limit (c + 1) = Inr (n, e)"
      by (simp add: consume_from.simps [of _ _ _ c])
    from "1.IH" [OF lt _ True run "1.prems"(2)] True
    have IH: "\<forall>i. base + (c + 1) \<le> i \<and> i < base + n \<longrightarrow> (mseo (buf ! i) = 3 \<longleftrightarrow> e \<and> i + 1 = base + n)"
      by simp
    show ?thesis
    proof (intro allI impI)
      fix i assume i: "base + c \<le> i \<and> i < base + n"
      show "mseo (buf ! i) = 3 \<longleftrightarrow> e \<and> i + 1 = base + n"
      proof (cases "i = base + c")
        case T: True
        with True consume_from_bounds [OF run] show ?thesis by simp
      next
        case False
        with i have "base + (c + 1) \<le> i \<and> i < base + n" by simp
        with IH show ?thesis by blast
      qed
    qed
  next
    case False
    with "1.prems"(1) lt rd have "n = c + 1" "e \<longleftrightarrow> mseo (buf ! (base + c)) = 3"
      by (simp_all add: consume_from.simps [of _ _ _ c] split: if_splits)
    then show ?thesis by (auto simp: less_Suc_eq_le dest: le_antisym)
  qed
qed

lemma consume_from_truncates:
  "consume_from buf base limit c = Inl (Code nexus_stream_truncate) \<Longrightarrow> base + limit \<le> length buf \<Longrightarrow>
    (\<forall>i. base + c \<le> i \<and> i < base + limit \<longrightarrow> mseo (buf ! i) = 0)"
proof (induction buf base limit c rule: consume_from.induct)
  case (1 buf base limit c)
  show ?case
  proof (cases "c < limit")
    case True
    with "1.prems"(2) have rd: "buf_read buf (base + c) = Inr (buf ! (base + c))" by simp
    with "1.prems" True have z: "mseo (buf ! (base + c)) = 0"
      and run: "consume_from buf base limit (c + 1) = Inl (Code nexus_stream_truncate)"
      by (auto simp: consume_from.simps [of _ _ _ c] split: if_splits)
    have "mseo (buf ! i) = 0" if "base + c \<le> i" "i < base + limit" for i
      using "1.IH" [OF True _ z run "1.prems"(2)] z that by (cases "i = base + c") auto
    then show ?thesis by blast
  qed auto
qed

lemma CONSUME_BYTES_inv [inv_intros]:
  assumes P: "\<And>e e' m. P e m \<Longrightarrow> P e' m"
  shows "keeps (dec_inv B P) (dec_error B) CONSUME_BYTES"
proof
  fix s assume I: "dec_inv B P s"
  show "dec_inv B P (snd (CONSUME_BYTES s)) \<and> (\<forall>e. fst (CONSUME_BYTES s) = Inl e \<longrightarrow> dec_error B e)"
  proof (cases "d_eom s \<or> (\<exists>e. consume_bytes (d_buf s) (d_pos s) (d_limit s) = Inl e)")
    case True
    have "mseo (d_buf s ! i) \<noteq> 3" if "\<not> d_eom s" "i < d_pos s + d_limit s"
      "consume_bytes (d_buf s) (d_pos s) (d_limit s) = Inl (Code nexus_stream_truncate)" for i
      using that I consume_from_truncates [of "d_buf s" "d_pos s" "d_limit s" 0]
      by (cases "i < d_pos s") (auto simp: consume_bytes_def dec_inv_def dec_wf_def)
    with True I show ?thesis
      by (auto simp: CONSUME_BYTES_def dec_error_def dec_inv_def dec_wf_def dest: consume_bytes_clean)
  next
    case False
    then obtain n e where c: "consume_bytes (d_buf s) (d_pos s) (d_limit s) = Inr (n, e)"
      by (metis sum.exhaust surj_pair)
    from I have b: "d_pos s + d_limit s \<le> length (d_buf s)" by (simp add: dec_inv_def dec_wf_def)
    from consume_bytes_bounds [OF c] consume_from_passed [OF c [unfolded consume_bytes_def] b]
    have n: "0 < n" "n \<le> d_limit s"
      "\<And>i. d_pos s \<le> i \<Longrightarrow> i < d_pos s + n \<Longrightarrow> mseo (d_buf s ! i) = 3 \<longleftrightarrow> e \<and> i + 1 = d_pos s + n"
      by auto
    have "mseo (d_buf s ! i) = 3 \<longleftrightarrow> e \<and> i + 1 = d_pos s + n" if "i < d_pos s + n" for i
      using that n(1) n(3) [of i] I False by (cases "i < d_pos s") (auto simp: dec_inv_def dec_wf_def)
    with I c n(1,2) False P show ?thesis
      by (auto simp: CONSUME_BYTES_def dec_inv_def dec_wf_def)
  qed
qed

lemma bits_left_le: "bits_left s \<le> 6 * d_consumed s - d_off s"
  by (simp add: bits_left_def NEXUS_RV_MDO_BITS_def)

lemma UNPACK_FIXED_inv [inv_intros]:
  assumes "0 < n" and "\<And>v e m. P e m \<Longrightarrow> P e (wr v m)"
  shows "keeps (dec_inv B P) (dec_error B) (UNPACK_FIXED n wr)"
proof
  fix s assume I: "dec_inv B P s"
  have "n \<le> bits_left s \<Longrightarrow> \<exists>v. unpack_bits (d_buf s) (d_pos s - d_consumed s) (d_off s) n = Inr v"
    using unpack_bits_payload [OF assms(1), of "d_off s" "d_buf s" "d_pos s - d_consumed s"] I
    by (auto simp: bits_left_def NEXUS_RV_MDO_BITS_def dec_inv_def dec_wf_def)
  then show "dec_inv B P (snd (UNPACK_FIXED n wr s)) \<and>
      (\<forall>e. fst (UNPACK_FIXED n wr s) = Inl e \<longrightarrow> dec_error B e)"
    using I assms
    by (auto simp: UNPACK_FIXED_def dec_error_def not_less bits_left_def NEXUS_RV_MDO_BITS_def dec_inv_def dec_wf_def
        split: sum.splits)
qed

lemma UNPACK_VAR_inv [inv_intros]:
  assumes "\<And>v e m. P e m \<Longrightarrow> P e (wr v m)"
  shows "keeps (dec_inv B P) (dec_error B) (UNPACK_VAR wr)"
proof
  fix s assume I: "dec_inv B P s"
  from I have small: "bits_left s < 4294967296"
    by (auto simp: bits_left_def NEXUS_RV_MDO_BITS_def dec_inv_def dec_wf_def)
  then have id: "unat (of_nat (bits_left s) :: u32) = bits_left s"
    by (simp add: unat_of_nat take_bit_nat_eq_self)
  have "bits_left s \<noteq> 0 \<Longrightarrow>
      \<exists>v. unpack_bits (d_buf s) (d_pos s - d_consumed s) (d_off s) (bits_left s) = Inr v"
    using unpack_bits_payload [of "bits_left s" "d_off s" "d_buf s" "d_pos s - d_consumed s"] I
    by (auto simp: bits_left_def NEXUS_RV_MDO_BITS_def dec_inv_def dec_wf_def)
  then show "dec_inv B P (snd (UNPACK_VAR wr s)) \<and>
      (\<forall>e. fst (UNPACK_VAR wr s) = Inl e \<longrightarrow> dec_error B e)"
    using I assms id
    by (auto simp: UNPACK_VAR_def Let_def dec_inv_def dec_wf_def bits_left_def NEXUS_RV_MDO_BITS_def)
qed

lemma dec_error_codes [simp]:
  "dec_error B (Code nexus_msg_missing_field)" "dec_error B (Code nexus_msg_invalid)"
  by (simp_all add: dec_error_def)

lemma UNPACK_VAR_REQ_inv [inv_intros]:
  "(\<And>v e m. P e m \<Longrightarrow> P e (wr v m)) \<Longrightarrow> keeps (dec_inv B P) (dec_error B) (UNPACK_VAR_REQ wr)"
  unfolding UNPACK_VAR_REQ_def by (intro inv_intros) simp_all

lemma update_msg_inv [inv_intros]:
  "(\<And>e m. P e m \<Longrightarrow> P e (f m)) \<Longrightarrow> keeps (dec_inv B P) (dec_error B) (update_msg f)"
  unfolding update_msg_def by (intro inv_intros) (simp add: dec_inv_def dec_wf_def)

lemma UNPACK_XADDR_VAO_inv [inv_intros]:
  assumes "\<And>v e m. P e m \<Longrightarrow> P e (set_xaddr v m)"
  shows "keeps (dec_inv B P) (dec_error B) UNPACK_XADDR_VAO"
  unfolding UNPACK_XADDR_VAO_def by (intro inv_intros) (simp_all add: dec_inv_def dec_wf_def assms)

lemma when_msg_inv [inv_intros]:
  "keeps I E m \<Longrightarrow> keeps I E (when_msg p m)"
  unfolding when_msg_def by (intro inv_intros)

lemma skip_to_eom_inv [inv_intros]:
  assumes P: "\<And>e e' m. P e m \<Longrightarrow> P e' m"
  shows "keeps (dec_inv B P) (dec_error B) skip_to_eom"
proof
  fix s assume I: "dec_inv B P s"
  then show "dec_inv B P (snd (skip_to_eom s)) \<and> (\<forall>e. fst (skip_to_eom s) = Inl e \<longrightarrow> dec_error B e)"
  proof (induction s rule: skip_to_eom.induct)
    case (1 s)
    note C = CONSUME_BYTES_inv [of P, OF P]
    show ?case
    proof (cases "d_eom s")
      case True
      with "1.prems" show ?thesis by (simp add: skip_to_eom.simps)
    next
      case False
      obtain r t where run: "CONSUME_BYTES s = (r, t)" by fastforce
      from keepsD_state [OF C "1.prems" run] have It: "dec_inv B P t" .
      show ?thesis
      proof (cases r)
        case (Inl e)
        with False run It keepsD_error [OF C "1.prems"] show ?thesis
          by (simp add: skip_to_eom.simps)
      next
        case (Inr x)
        with False run "1.IH" [OF False, of r t] It show ?thesis
          by (simp add: skip_to_eom.simps [of s])
      qed
    qed
  qed
qed

section \<open>The decoder keeps the invariant\<close>

lemma assert_msg_inv: "(\<And>e m. P e m \<Longrightarrow> p m) \<Longrightarrow>
  keeps (dec_inv B P) (dec_error B) (bindS (readS (\<lambda>s. p (d_msg s))) assertS)"
  by (auto simp: keeps_def bindS_def readS_def assertS_def ensureS_def retS_def throwS_def dec_inv_def)

lemma decode_branch_inv:
  "keeps (dec_inv B (\<lambda>_ m. tcode m \<in> set branch_tcodes)) (dec_error B) (decode_branch cfg)"
  unfolding decode_branch_def
  by (intro inv_intros assert_msg_inv)
    (auto simp: field_widths branch_tcodes_def nexusrv_msg_has_icnt_def)

lemma decode_resource_inv [inv_intros]: "keeps (dec_inv B (\<lambda>_ _. True)) (dec_error B) decode_resource"
  unfolding decode_resource_def by (intro inv_intros) (auto simp: field_widths)

lemma decode_correlation_inv [inv_intros]: "keeps (dec_inv B (\<lambda>_ _. True)) (dec_error B) decode_correlation"
  unfolding decode_correlation_def by (intro inv_intros) (auto simp: field_widths)

lemma decode_ict_inv [inv_intros]: "keeps (dec_inv B (\<lambda>_ _. True)) (dec_error B) decode_ict"
  unfolding decode_ict_def by (intro inv_intros) (auto simp: field_widths)

lemma decode_rest_inv [inv_intros]: "keeps (dec_inv B (\<lambda>_ _. True)) (dec_error B) decode_rest"
  unfolding decode_rest_def by (intro inv_intros) (auto simp: field_widths)

lemma decode_timestamp_inv [inv_intros]:
  "keeps (dec_inv B (\<lambda>_ _. True)) (dec_error B) (decode_timestamp cfg)"
  unfolding decode_timestamp_def by (intro inv_intros) auto

lemma skip_to_eom_eom: "skip_to_eom s = (Inr x, t) \<Longrightarrow> d_eom t"
proof (induction s rule: skip_to_eom.induct)
  case (1 s)
  from "1.prems" show ?case
    by (subst (asm) skip_to_eom.simps) (auto split: if_splits prod.splits sum.splits dest: "1.IH" [OF _ sym refl])
qed

text \<open>On success the decoder has passed the end of the message.\<close>

definition at_eom :: "u8 list \<times> nat \<Rightarrow> unit \<Rightarrow> dec_state \<Rightarrow> bool" where
  "at_eom B x s \<longleftrightarrow> dec_wf B s \<and> d_eom s"

definition failed :: "u8 list \<times> nat \<Rightarrow> fault \<Rightarrow> dec_state \<Rightarrow> bool" where
  "failed B e s \<longleftrightarrow> dec_error B e"

lemma triple_dec:
  "keeps (dec_inv B P) (dec_error B) m \<Longrightarrow> triple (dec_inv B P) m (\<lambda>_. dec_inv B P) (failed B)"
  by (rule triple_conseq [OF triple_keeps]) (auto simp: failed_def)

lemma skip_to_eom_triple: "triple (dec_wf B) skip_to_eom (at_eom B) (failed B)"
proof
  fix s assume "dec_wf B s"
  then have I: "dec_inv B (\<lambda>_ _. True) s" by (simp add: dec_inv_def)
  have K: "keeps (dec_inv B (\<lambda>_ _. True)) (dec_error B) skip_to_eom" by (rule skip_to_eom_inv)
  obtain r t where run: "skip_to_eom s = (r, t)" by fastforce
  with keepsD_state [OF K I run] keepsD_error [OF K I] skip_to_eom_eom
  show "case skip_to_eom s of (Inl e, t) \<Rightarrow> failed B e t | (Inr x, t) \<Rightarrow> at_eom B x t"
    by (cases r) (auto simp: at_eom_def failed_def dec_inv_def)
qed

lemma triple_at_eom:
  "keeps (dec_inv B (\<lambda>e _. e)) (dec_error B) m \<Longrightarrow> triple (\<lambda>s. dec_wf B s \<and> d_eom s) m (at_eom B) (failed B)"
  by (rule triple_conseq [OF triple_dec]) (auto simp: dec_inv_def at_eom_def)

lemma decode_timestamp_triple: "triple (dec_wf B) (decode_timestamp cfg) (at_eom B) (failed B)"
proof -
  have skip: "triple (dec_wf B) (thenS skip_to_eom (whenS b (thenS (UNPACK_VAR_REQ set_timestamp) (retS ()))))
      (at_eom B) (failed B)" for b
    by (rule triple_thenS [where R = "\<lambda>s. dec_wf B s \<and> d_eom s",
          OF triple_conseq [OF skip_to_eom_triple] triple_at_eom])
      (auto simp: at_eom_def intro!: inv_intros)
  show ?thesis
    unfolding decode_timestamp_def
    by (intro triple_read triple_if triple_ensureS triple_conseq [OF skip])
      (auto simp: at_eom_def failed_def)
qed

lemma triple_dec_then:
  "keeps (dec_inv B (\<lambda>_ _. True)) (dec_error B) m \<Longrightarrow> triple (dec_wf B) k Q (failed B) \<Longrightarrow>
    triple (dec_wf B) (thenS m k) Q (failed B)"
  by (rule triple_thenS [OF triple_conseq [OF triple_dec]]) (auto simp: dec_inv_def)

lemma triple_read_any:
  "(\<And>x. triple P (g x) Q E) \<Longrightarrow> triple P (bindS (readS f) g) Q E"
  by (simp add: triple_def bindS_def readS_def)

lemma decode_rest_triple:
  "triple (dec_wf B) (bindS decode_rest (\<lambda>fin. if fin then retS () else decode_timestamp cfg))
     (at_eom B) (failed B)"
proof (rule triple_bindS)
  show "triple (dec_wf B) decode_rest (\<lambda>fin s. dec_wf B s \<and> (fin \<longrightarrow> d_eom s)) (failed B)"
    unfolding decode_rest_def
    by (intro triple_read_any triple_if triple_dec_then skip_to_eom_inv inv_intros triple_retS
          triple_thenS [OF skip_to_eom_triple [unfolded at_eom_def]])
      (auto simp: field_widths)
  show "triple (\<lambda>s. dec_wf B s \<and> (fin \<longrightarrow> d_eom s)) (if fin then retS () else decode_timestamp cfg)
      (at_eom B) (failed B)" for fin
    by (rule triple_if)
      (auto simp: at_eom_def intro!: triple_retS intro: triple_conseq [OF decode_timestamp_triple])
qed

lemma decode_branch_triple:
  "triple (\<lambda>s. dec_wf B s \<and> tcode (d_msg s) \<in> set branch_tcodes)
     (thenS (decode_branch cfg) (decode_timestamp cfg)) (at_eom B) (failed B)"
  by (rule triple_thenS [where R = "dec_wf B", OF triple_conseq [OF triple_dec [OF decode_branch_inv]]])
    (auto simp: dec_inv_def intro: decode_timestamp_triple)

lemma decode_src_triple:
  assumes "triple (\<lambda>s. dec_wf B s \<and> tcode (d_msg s) = t) k Q (failed B)"
  shows "triple (\<lambda>s. dec_wf B s \<and> tcode (d_msg s) = t)
    (thenS (update_msg (set_src 0))
      (thenS (whenS (src_bits cfg \<noteq> 0) (UNPACK_FIXED (unat (src_bits cfg)) set_src)) k)) Q (failed B)"
proof -
  let ?P = "\<lambda>_ m. tcode m = t"
  have "keeps (dec_inv B ?P) (dec_error B) (update_msg (set_src 0))"
    and "keeps (dec_inv B ?P) (dec_error B)
      (whenS (src_bits cfg \<noteq> 0) (UNPACK_FIXED (unat (src_bits cfg)) set_src))"
    by (intro inv_intros; simp add: unat_gt_0)+
  from this [THEN triple_dec] assms show ?thesis
    by (auto simp: dec_inv_def [abs_def] intro!: triple_thenS)
qed

lemma decode_fields_triple: "triple (dec_wf B) (decode_fields cfg) (at_eom B) (failed B)"
  unfolding decode_fields_def
proof (rule triple_read, rule triple_if)
  fix t
  show "triple (\<lambda>s. dec_wf B s \<and> tcode (d_msg s) = t)
      (bindS (readS d_eom) (ensureS (Code nexus_msg_invalid))) (at_eom B) (failed B)"
    by (intro triple_read triple_ensureS) (auto simp: at_eom_def failed_def)
  show "triple (\<lambda>s. dec_wf B s \<and> tcode (d_msg s) = t)
      (thenS (update_msg (set_src 0))
        (thenS (whenS (src_bits cfg \<noteq> 0) (UNPACK_FIXED (unat (src_bits cfg)) set_src))
          (if t \<in> set branch_tcodes then thenS (decode_branch cfg) (decode_timestamp cfg)
           else bindS decode_rest (\<lambda>fin. if fin then retS () else decode_timestamp cfg))))
      (at_eom B) (failed B)"
    by (rule decode_src_triple, rule triple_if)
      (auto intro: triple_conseq [OF decode_branch_triple] triple_conseq [OF decode_rest_triple])
qed

lemma decode_run_triple: "triple (dec_wf B) (decode_run cfg) (at_eom B) (failed B)"
  unfolding decode_run_def
  by (intro triple_dec_then decode_fields_triple inv_intros) (simp_all add: field_widths)

lemma dec_wf_init:
  "limit \<le> length buf \<Longrightarrow> 6 * length buf < 4294967296 \<Longrightarrow> dec_wf (buf, limit) (dec_init buf limit msg)"
  by (simp add: dec_wf_def dec_init_def)

section \<open>Results of the decoder\<close>

lemma decode_safe_aux:
  assumes "limit \<le> length buf" and "6 * length buf < 4294967296"
    and "nexusrv_msg_decode cfg buf limit msg = (Inl e, m)"
  shows "dec_error (buf, limit) e"
  using tripleD_error [OF decode_run_triple dec_wf_init [OF assms(1,2)]] assms(3)
  by (auto simp: nexusrv_msg_decode_def failed_def split: prod.splits sum.splits)

lemma sync_forward_first:
  assumes "limit \<le> length buf" and "n < limit" and "mseo (buf ! n) = 3"
    and "\<And>i. i < n \<Longrightarrow> mseo (buf ! i) \<noteq> 3"
  shows "nexusrv_sync_forward buf limit = Inr (n + 1)"
proof -
  from sync_forward_from_spec [OF assms(1), of 0] assms(2-4) show ?thesis
    unfolding nexusrv_sync_forward_def by (metis add_is_0 le0 nat_neq_iff)
qed

lemma decode_frames_aux:
  assumes "limit \<le> length buf" and "6 * length buf < 4294967296"
    and "nexusrv_msg_decode cfg buf limit msg = (Inr n, m)"
  shows "nexusrv_sync_forward buf limit = Inr n"
proof -
  from assms(3) obtain x s where run: "decode_run cfg (dec_init buf limit msg) = (Inr x, s)" "n = d_pos s"
    by (auto simp: nexusrv_msg_decode_def split: prod.splits sum.splits)
  from tripleD [OF decode_run_triple dec_wf_init [OF assms(1,2)] run(1)]
  have e: "dec_wf (buf, limit) s" "d_eom s" by (simp_all add: at_eom_def)
  then have pos: "0 < n" "n \<le> limit" "\<And>i. i < n \<Longrightarrow> mseo (buf ! i) = 3 \<longleftrightarrow> i + 1 = n"
    using run(2) by (auto simp: dec_wf_def)
  from pos(1) obtain k where k: "n = k + 1" by (metis Suc_eq_plus1 gr0_conv_Suc)
  with pos show ?thesis
    using sync_forward_first [OF assms(1), of k] by simp
qed

text \<open>
  Without any assumption on the buffer: a successful decode has consumed something, within the
  limit.
\<close>

definition started :: "nat \<Rightarrow> dec_state \<Rightarrow> bool" where
  "started limit s \<longleftrightarrow> 0 < d_pos s \<and> d_pos s + d_limit s = limit"

lemma started_steps [inv_intros]:
  "keeps (started l) (\<lambda>_. True) CONSUME_BYTES"
  "keeps (started l) (\<lambda>_. True) (UNPACK_FIXED n wr)"
  "keeps (started l) (\<lambda>_. True) (UNPACK_VAR wr)"
  "keeps (started l) (\<lambda>_. True) (update_msg f)"
  by (auto simp: keeps_def started_def CONSUME_BYTES_def UNPACK_FIXED_def UNPACK_VAR_def update_msg_def
      modS_def Let_def split: sum.splits dest: consume_bytes_bounds)

lemma started_derived [inv_intros]:
  "keeps (started l) (\<lambda>_. True) (UNPACK_VAR_REQ wr)"
  "keeps (started l) (\<lambda>_. True) UNPACK_XADDR_VAO"
  "keeps (started l) (\<lambda>_. True) (assertS b)"
  unfolding UNPACK_VAR_REQ_def UNPACK_XADDR_VAO_def
  by ((intro inv_intros; simp add: started_def)+)

lemma started_skip [inv_intros]: "keeps (started l) (\<lambda>_. True) skip_to_eom"
proof
  fix s show "started l s \<Longrightarrow> started l (snd (skip_to_eom s)) \<and> (\<forall>e. fst (skip_to_eom s) = Inl e \<longrightarrow> True)"
  proof (induction s rule: skip_to_eom.induct)
    case (1 s)
    obtain r t where run: "CONSUME_BYTES s = (r, t)" by fastforce
    from keepsD_state [OF started_steps(1) "1.prems" run] have "started l t" .
    with 1 run show ?case by (subst skip_to_eom.simps) (auto split: sum.splits)
  qed
qed

lemma started_fields: "keeps (started l) (\<lambda>_. True) (decode_fields cfg)"
  unfolding decode_fields_def decode_branch_def decode_rest_def decode_resource_def
    decode_correlation_def decode_ict_def decode_timestamp_def
  by (intro inv_intros) auto

lemma decode_progress:
  assumes "nexusrv_msg_decode cfg buf limit msg = (Inr n, m)"
  shows "0 < n \<and> n \<le> limit"
proof -
  from assms obtain x s where run: "decode_run cfg (dec_init buf limit msg) = (Inr x, s)" "n = d_pos s"
    by (auto simp: nexusrv_msg_decode_def split: prod.splits sum.splits)
  define t where "t = dec_init buf limit msg"
  have t: "d_pos t = 0" "d_limit t = limit" by (simp_all add: t_def dec_init_def)
  from run(1) obtain u where c: "CONSUME_BYTES t = (Inr (), u)"
    and rest: "thenS (UNPACK_FIXED NEXUS_RV_BITS_TCODE set_tcode) (decode_fields cfg) u = (Inr x, s)"
    unfolding decode_run_def t_def [symmetric] by (elim thenS_eq_InrE [of CONSUME_BYTES]) simp
  from c t have "started limit u \<and> 0 < limit"
    by (auto simp: CONSUME_BYTES_def started_def split: sum.splits if_splits dest: consume_bytes_bounds)
  moreover have "keeps (started limit) (\<lambda>_. True)
      (thenS (UNPACK_FIXED NEXUS_RV_BITS_TCODE set_tcode) (decode_fields cfg))"
    by (intro inv_intros started_fields)
  ultimately show ?thesis using keepsD_state rest run(2) by (metis started_def le_add1)
qed

section \<open>More bytes behind the buffer\<close>

definition grow :: "u8 list \<Rightarrow> nat \<Rightarrow> dec_state \<Rightarrow> dec_state" where
  "grow ext k s = s\<lparr>d_buf := d_buf s @ ext, d_limit := d_limit s + k\<rparr>"

lemma grow_sel [simp]:
  "d_buf (grow ext k s) = d_buf s @ ext" "d_pos (grow ext k s) = d_pos s"
  "d_limit (grow ext k s) = d_limit s + k" "d_eom (grow ext k s) = d_eom s"
  "d_consumed (grow ext k s) = d_consumed s" "d_off (grow ext k s) = d_off s"
  "d_msg (grow ext k s) = d_msg s" "bits_left (grow ext k s) = bits_left s"
  by (simp_all add: grow_def bits_left_def)

lemma grow_upd [simp]:
  "(grow ext k s)\<lparr>d_msg := m\<rparr> = grow ext k (s\<lparr>d_msg := m\<rparr>)"
  "(grow ext k s)\<lparr>d_off := c\<rparr> = grow ext k (s\<lparr>d_off := c\<rparr>)"
  by (simp_all add: grow_def)

text \<open>
  A run in the smaller window may stop with a truncation where the run in the larger one goes
  on; not so if only the bytes behind the window differ (\<open>k = 0\<close>).
\<close>

abbreviation truncation :: "nat \<Rightarrow> fault \<Rightarrow> bool" where
  "truncation k e \<equiv> e = Code nexus_stream_truncate \<and> k \<noteq> 0"

definition grown :: "u8 list \<times> nat \<Rightarrow> u8 list \<Rightarrow> nat \<Rightarrow> dec_state \<Rightarrow> dec_state \<Rightarrow> bool" where
  "grown B ext k s t \<longleftrightarrow> dec_wf B s \<and> t = grow ext k s"

lemma grown_simul:
  assumes "keeps (dec_inv B (\<lambda>_ _. True)) (dec_error B) m"
    and "\<And>s. dec_wf B s \<Longrightarrow> fst (m s) = Inl (Code nexus_stream_truncate) \<and> k \<noteq> 0 \<or>
      m (grow ext k s) = (fst (m s), grow ext k (snd (m s)))"
  shows "simul (truncation k) (grown B ext k) m m"
proof
  fix s t assume "grown B ext k s t"
  with assms(2) [of s] assms(1)
  show "(\<exists>e. fst (m s) = Inl e \<and> truncation k e) \<or>
      (fst (m s) = fst (m t) \<and> grown B ext k (snd (m s)) (snd (m t)))"
    by (auto simp: grown_def keeps_def dec_inv_def)
qed

lemma unpack_bits_extend:
  assumes "off + n \<le> 6 * (length buf - base)"
  shows "unpack_bits (buf @ ext) base off n = unpack_bits buf base off n"
proof (cases "n = 0")
  case True
  then show ?thesis by (simp add: unpack_bits_def)
next
  case False
  with assms have "base \<le> length buf" by (cases "base \<le> length buf") auto
  with False assms unpack_bits_payload [of n off buf base]
    unpack_bits_payload [of n off "buf @ ext" base]
  show ?thesis by simp
qed

lemma CONSUME_BYTES_grow [sim_intros]: "simul (truncation k) (grown B ext k) CONSUME_BYTES CONSUME_BYTES"
proof (rule grown_simul)
  fix s assume "dec_wf B s"
  then have le: "d_pos s + d_limit s \<le> length (d_buf s)" by (simp add: dec_wf_def)
  show "fst (CONSUME_BYTES s) = Inl (Code nexus_stream_truncate) \<and> k \<noteq> 0 \<or>
      CONSUME_BYTES (grow ext k s) = (fst (CONSUME_BYTES s), grow ext k (snd (CONSUME_BYTES s)))"
  proof (cases "k \<noteq> 0 \<and> consume_bytes (d_buf s) (d_pos s) (d_limit s) = Inl (Code nexus_stream_truncate)")
    case True
    then show ?thesis by (auto simp: CONSUME_BYTES_def)
  next
    case False
    with consume_from_extend [OF le, of 0 k ext] consume_bytes_bounds [of "d_buf s" "d_pos s" "d_limit s"]
    show ?thesis by (auto simp: CONSUME_BYTES_def consume_bytes_def grow_def split: sum.splits)
  qed
qed (intro inv_intros)

lemma fields_inside:
  assumes "dec_wf B s" and "n \<le> bits_left s"
  shows "unpack_bits (d_buf s @ ext) (d_pos s - d_consumed s) (d_off s) n =
    unpack_bits (d_buf s) (d_pos s - d_consumed s) (d_off s) n"
  using assms by (intro unpack_bits_extend) (auto simp: dec_wf_def bits_left_def NEXUS_RV_MDO_BITS_def)

lemma UNPACK_FIXED_grow [sim_intros]:
  "0 < n \<Longrightarrow> simul (truncation k) (grown B ext k) (UNPACK_FIXED n wr) (UNPACK_FIXED n wr)"
  by (rule grown_simul, intro inv_intros)
    (auto simp: UNPACK_FIXED_def fields_inside not_less split: sum.splits)

lemma UNPACK_VAR_grow [sim_intros]:
  "simul (truncation k) (grown B ext k) (UNPACK_VAR wr) (UNPACK_VAR wr)"
proof (rule grown_simul)
  fix s assume wf: "dec_wf B s"
  then have "bits_left s < 4294967296"
    by (auto simp: bits_left_def NEXUS_RV_MDO_BITS_def dec_wf_def)
  then have "unat (of_nat (bits_left s) :: u32) = bits_left s"
    by (simp add: unat_of_nat take_bit_nat_eq_self)
  with fields_inside [OF wf order_refl, of ext]
  show "fst (UNPACK_VAR wr s) = Inl (Code nexus_stream_truncate) \<and> k \<noteq> 0 \<or>
      UNPACK_VAR wr (grow ext k s) = (fst (UNPACK_VAR wr s), grow ext k (snd (UNPACK_VAR wr s)))"
    by (auto simp: UNPACK_VAR_def Let_def split: sum.splits)
qed (intro inv_intros)

lemma UNPACK_VAR_REQ_grow [sim_intros]:
  "simul (truncation k) (grown B ext k) (UNPACK_VAR_REQ wr) (UNPACK_VAR_REQ wr)"
  unfolding UNPACK_VAR_REQ_def by (intro sim_intros)

lemma update_msg_grow [sim_intros]:
  "simul (truncation k) (grown B ext k) (update_msg f) (update_msg f)"
  unfolding update_msg_def by (intro sim_intros) (auto simp: grown_def dec_wf_def)

lemma read_msg_grow [sim_intros]:
  "simul (truncation k) (grown B ext k) (readS (\<lambda>s. f (d_msg s))) (readS (\<lambda>s. f (d_msg s)))"
  by (intro sim_intros) (auto simp: grown_def)

lemma read_eom_grow [sim_intros]:
  "simul (truncation k) (grown B ext k) (readS d_eom) (readS d_eom)"
  by (intro sim_intros) (auto simp: grown_def)

lemma UNPACK_XADDR_VAO_grow [sim_intros]:
  "simul (truncation k) (grown B ext k) UNPACK_XADDR_VAO UNPACK_XADDR_VAO"
  unfolding UNPACK_XADDR_VAO_def by (intro sim_intros) (auto simp: grown_def dec_wf_def)

lemma when_msg_grow [sim_intros]:
  "simul (truncation k) (grown B ext k) m m \<Longrightarrow>
    simul (truncation k) (grown B ext k) (when_msg p m) (when_msg p m)"
  unfolding when_msg_def by (intro sim_intros)

lemma skip_to_eom_grow [sim_intros]:
  "simul (truncation k) (grown B ext k) skip_to_eom skip_to_eom"
proof
  fix s t assume "grown B ext k s t"
  then show "(\<exists>e. fst (skip_to_eom s) = Inl e \<and> truncation k e) \<or>
      (fst (skip_to_eom s) = fst (skip_to_eom t) \<and> grown B ext k (snd (skip_to_eom s)) (snd (skip_to_eom t)))"
  proof (induction s arbitrary: t rule: skip_to_eom.induct)
    case (1 s)
    have eom: "d_eom t = d_eom s" using "1.prems" by (auto simp: grown_def)
    obtain r s' where run: "CONSUME_BYTES s = (r, s')" by fastforce
    from simulD [OF CONSUME_BYTES_grow "1.prems" run] "1.IH" [of r s'] run eom "1.prems"
    show ?case
      by (cases "d_eom s"; cases r)
        ((auto simp: skip_to_eom.simps [of s] skip_to_eom.simps [of t]; blast)+)
  qed
qed

lemma decode_branch_grow [sim_intros]:
  "simul (truncation k) (grown B ext k) (decode_branch cfg) (decode_branch cfg)"
  unfolding decode_branch_def by (intro sim_intros) (simp_all add: field_widths)

lemma decode_resource_grow [sim_intros]:
  "simul (truncation k) (grown B ext k) decode_resource decode_resource"
  unfolding decode_resource_def by (intro sim_intros) (simp_all add: field_widths)

lemma decode_correlation_grow [sim_intros]:
  "simul (truncation k) (grown B ext k) decode_correlation decode_correlation"
  unfolding decode_correlation_def by (intro sim_intros) (simp_all add: field_widths)

lemma decode_ict_grow [sim_intros]:
  "simul (truncation k) (grown B ext k) decode_ict decode_ict"
  unfolding decode_ict_def by (intro sim_intros) (simp_all add: field_widths)

lemma decode_rest_grow [sim_intros]:
  "simul (truncation k) (grown B ext k) decode_rest decode_rest"
  unfolding decode_rest_def by (intro sim_intros) (simp_all add: field_widths)

lemma decode_timestamp_grow [sim_intros]:
  "simul (truncation k) (grown B ext k) (decode_timestamp cfg) (decode_timestamp cfg)"
  unfolding decode_timestamp_def by (intro sim_intros)

lemma decode_run_grow:
  "simul (truncation k) (grown B ext k) (decode_run cfg) (decode_run cfg)"
  unfolding decode_run_def decode_fields_def
  by (intro sim_intros) (auto simp: field_widths unat_gt_0 grown_def)

lemma decode_grow:
  assumes "limit \<le> length buf" and "6 * length buf < 4294967296"
    and "fst (nexusrv_msg_decode cfg buf limit msg) = Inl (Code nexus_stream_truncate) \<Longrightarrow> k = 0"
  shows "nexusrv_msg_decode cfg (buf @ ext) (limit + k) msg = nexusrv_msg_decode cfg buf limit msg"
proof -
  obtain r s where run: "decode_run cfg (dec_init buf limit msg) = (r, s)" by fastforce
  have "grown (buf, limit) ext k (dec_init buf limit msg) (dec_init (buf @ ext) (limit + k) msg)"
    using dec_wf_init [OF assms(1,2)] by (simp add: grown_def) (simp add: grow_def dec_init_def)
  from simulD [OF decode_run_grow this run] assms(3) run
  show ?thesis
    by (cases r) (auto simp: nexusrv_msg_decode_def grown_def)
qed

lemma decode_extend_aux:
  assumes "limit \<le> length buf" and "6 * length buf < 4294967296"
    and "fst (nexusrv_msg_decode cfg buf limit msg) \<noteq> Inl (Code nexus_stream_truncate)"
  shows "nexusrv_msg_decode cfg (buf @ ext) (limit + k) msg = nexusrv_msg_decode cfg buf limit msg"
  using assms by (intro decode_grow) auto

text \<open>Only the bytes within the limit matter.\<close>

lemma decode_window:
  assumes "limit \<le> length buf" and "6 * limit < 4294967296"
  shows "nexusrv_msg_decode cfg buf limit msg = nexusrv_msg_decode cfg (take limit buf) limit msg"
  using decode_grow [of limit "take limit buf" cfg msg 0 "drop limit buf"] assms by (simp add: min_absorb2)

text \<open>A truncation means that the window holds no end of a message.\<close>

lemma decode_truncates_aux:
  assumes "limit \<le> length buf" and "6 * length buf < 4294967296"
    and "nexusrv_msg_decode cfg buf limit msg = (Inl (Code nexus_stream_truncate), m)"
  shows "\<forall>i < limit. mseo (buf ! i) \<noteq> 3"
  using decode_safe_aux [OF assms] by (simp add: dec_error_def)

end
