(* ===== verification/Codec.thy ===== *)
theory Codec
  imports MsgEncodeProps MsgRoundtrip MsgDecodeProps
begin

text \<open>
  Encoder and decoder together: a message that is encoded and then decoded has the same
  fields again.
\<close>

section \<open>A layout determines the fields\<close>

definition same_fields :: "nexusrv_hw_cfg \<Rightarrow> nexusrv_msg \<Rightarrow> nexusrv_msg \<Rightarrow> bool" where
  "same_fields cfg a b \<longleftrightarrow>
     tcode b = tcode a \<and>
     (nexusrv_msg_has_src a \<longrightarrow> (src_bits cfg \<noteq> 0 \<longrightarrow> src b = src a) \<and>
        (ts_bits cfg \<noteq> 0 \<longrightarrow> timestamp b = timestamp a)) \<and>
     (nexusrv_msg_is_sync a \<longrightarrow> sync_type b = sync_type a) \<and>
     (nexusrv_msg_is_indir_branch a \<longrightarrow> branch_type b = branch_type a) \<and>
     (nexusrv_msg_has_icnt a \<longrightarrow> icnt b = icnt a) \<and>
     (nexusrv_msg_has_xaddr a \<longrightarrow> xaddr b = xaddr a) \<and>
     (nexusrv_msg_has_hist a \<longrightarrow> hist b = hist a) \<and>
     (nexusrv_msg_is_error a \<longrightarrow> error_type b = error_type a \<and> error_code b = error_code a) \<and>
     (nexusrv_msg_is_stop a \<longrightarrow> stop_code b = stop_code a \<and> cdf b = cdf a) \<and>
     (nexusrv_msg_is_res a \<longrightarrow> res_code b = res_code a \<and>
        (res_code a = 2 \<longrightarrow> hrepeat b = hrepeat a) \<and> (res_code a > 2 \<longrightarrow> res_data b = res_data a)) \<and>
     (tcode a = TCODE_RepeatBranch \<longrightarrow> hrepeat b = hrepeat a) \<and>
     (tcode a = TCODE_Ownership \<longrightarrow> ownership_fmt b = ownership_fmt a \<and>
        ownership_priv b = ownership_priv a \<and> ownership_v b = ownership_v a \<and>
        context_field b = context_field a) \<and>
     (tcode a = TCODE_ICT \<longrightarrow> cksrc b = cksrc a \<and> ckdf b = ckdf a \<and>
        ckdata0 b = ckdata0 a \<and> ckdata1 b = ckdata1 a)"

lemma ucast_inj [simp]:
  "ucast (a :: u8) = (ucast b :: u64) \<longleftrightarrow> a = b" "ucast (c :: u16) = (ucast d :: u64) \<longleftrightarrow> c = d"
  "ucast (e :: u32) = (ucast f :: u64) \<longleftrightarrow> e = f"
  by (metis ucast_rules)+

lemma body_same:
  assumes "tcode b = tcode a" and "body_layout cfg b = body_layout cfg a" and "encodable a"
    and "tcode a \<noteq> TCODE_Idle"
  shows "same_fields cfg a b \<longleftrightarrow> (src_bits cfg \<noteq> 0 \<longrightarrow> src b = src a) \<and>
     (ts_bits cfg \<noteq> 0 \<longrightarrow> timestamp b = timestamp a)"
proof -
  have "res_code a > 2 \<longleftrightarrow> res_code a \<noteq> 0 \<and> res_code a \<noteq> 1 \<and> res_code a \<noteq> 2" by unat_arith
  with assms show ?thesis
    apply (simp only: encodable_def list.set insert_iff empty_iff)
    by (elim disjE; simp add: same_fields_def body_layout_def branch_layout_def msg_preds split: if_splits)
qed

lemma layout_same:
  assumes eq: "layout cfg b = layout cfg a" and enc: "encodable a"
  shows "same_fields cfg a b"
proof (cases "tcode a = TCODE_Idle")
  case True
  have "tcode b = tcode a" using eq by (simp only: layout_def list.inject wire_field.inject ucast_inj)
  with True show ?thesis by (simp add: same_fields_def msg_preds)
next
  case False
  have t: "tcode b = tcode a" using eq by (simp only: layout_def list.inject wire_field.inject ucast_inj)
  then have sync: "nexusrv_msg_is_sync b = nexusrv_msg_is_sync a" by (simp add: nexusrv_msg_is_sync_def)
  have "body_layout cfg b @ time_layout cfg b = body_layout cfg a @ time_layout cfg a"
    and src: "src_bits cfg \<noteq> 0 \<Longrightarrow> src b = src a"
    using eq t False by (auto simp: layout_def split: if_splits)
  moreover have "length (time_layout cfg b) = length (time_layout cfg a)"
    using sync by (simp add: time_layout_def)
  ultimately have "body_layout cfg b = body_layout cfg a" "time_layout cfg b = time_layout cfg a"
    by (simp_all add: append_eq_append_conv)
  with body_same [OF t _ enc False] src sync show ?thesis
    by (auto simp: time_layout_def split: if_splits)
qed

section \<open>The size of a message\<close>

lemma length_group_bytes: "length (group_bytes gs) = sum_list (map (clen \<circ> length) gs)"
  by (induction gs rule: group_bytes.induct) auto

lemma clen_add_le: "clen (a + b) \<le> clen a + clen b"
  by (simp add: clen_def)

text \<open>
  The number of bytes from the widths of the fields: a field that ends its group is marked.
\<close>

fun field_width :: "wire_field \<Rightarrow> bool \<times> nat" where
  "field_width (Fixed n v) = (False, n)"
| "field_width (Variable v) = (True, sig_bits v)"
| "field_width (Required v) = (True, max 1 (sig_bits v))"
| "field_width (Address v) = (True, address_bits 0 v)"

fun bytes_of_widths :: "nat \<Rightarrow> (bool \<times> nat) list \<Rightarrow> nat" where
  "bytes_of_widths off [] = clen off"
| "bytes_of_widths off ((False, n) # ws) = bytes_of_widths (off + n) ws"
| "bytes_of_widths off ((True, n) # ws) = clen (off + n) + bytes_of_widths 0 ws"

lemma bytes_of_widths_rest:
  "bytes_of_widths off (map field_width fs) =
     clen (off + length (fst (rest_groups fs))) + length (group_bytes (snd (rest_groups fs)))"
proof (induction fs arbitrary: off)
  case (Cons f fs)
  have put: "length (group_bytes (put_group (rest_groups fs))) =
      clen (length (fst (rest_groups fs))) + length (group_bytes (snd (rest_groups fs)))"
    by (simp add: put_group_def length_group_bytes)
  show ?case by (cases f) (simp_all add: Cons put add.assoc)
qed simp

lemma length_wire:
  "src_bits cfg \<le> 64 \<Longrightarrow> length (wire (layout cfg m)) = bytes_of_widths 0 (map field_width (layout cfg m))"
  by (simp add: wire_def field_groups_rest [OF layout_small(3)] bytes_of_widths_rest put_group_def
      length_group_bytes)

lemma sig_bits_ucast: "sig_bits (ucast (w :: u32)) \<le> 32"
proof (rule ccontr)
  assume big: "\<not> sig_bits (ucast w) \<le> 32"
  then have "ucast w \<noteq> (0 :: u64)" by auto
  with clz64_props(1,2) [of "ucast w"] have "bit (ucast w :: u64) (sig_bits (ucast w) - 1)"
    by (simp add: sig_bits_def)
  with big show False by (auto simp: bit_ucast_iff dest: bit_imp_le_length)
qed

definition NEXUS_RV_MSG_MAX_BYTES :: nat where "NEXUS_RV_MSG_MAX_BYTES = 38"

text \<open>With source fields no wider than the struct has them, 38 bytes are enough.\<close>

lemma wire_size:
  assumes "src_bits cfg \<le> 16"
  shows "length (wire (layout cfg m)) \<le> 38"
proof -
  have s: "unat (src_bits cfg) \<le> 16" "src_bits cfg \<le> 64" using assms by unat_arith+
  note b = sig_bits_ucast [of "icnt m"] sig_bits_ucast [of "hist m"] sig_bits_ucast [of "hrepeat m"]
    sig_bits_ucast [of "error_code m"] sig_bits_ucast [of "res_data m"] sig_bits_le [of "xaddr m"]
    sig_bits_le [of "timestamp m"] sig_bits_le [of "ckdata0 m"] sig_bits_le [of "ckdata1 m"]
    sig_bits_le [of "context_field m"] address_bits_bounds(2) [of 0 "xaddr m"]
  have mx: "n \<le> 32 \<Longrightarrow> max 1 n \<le> 32" "n \<le> 64 \<Longrightarrow> max 1 n \<le> 64" for n :: nat by simp_all
  note m = mx(1) [OF b(1)] mx(1) [OF b(2)] mx(1) [OF b(3)] mx(2) [OF b(6)] mx(2) [OF b(7)]
    mx(2) [OF b(8)] mx(2) [OF b(9)]
  have time: "bytes_of_widths 0 (map field_width (time_layout cfg m)) \<le> 11"
    using b m by (simp add: time_layout_def clen_le_iff)
  have first: "clen (off + max 1 n) \<le> 10" "clen (off + k + n) \<le> 10" "clen (off + k + max 1 n) \<le> 10"
    "clen (k + off + max 1 n) \<le> 10"
    if "off \<le> 22" "k \<le> 6" "n \<le> 32" for off k n
    using that by (simp_all add: clen_le_iff max_def)
  have first64: "(4 + (off + n)) div 6 \<le> 15" "clen (6 + off + max 1 n) \<le> 16"
    if "off \<le> 22" "n \<le> 64" for off n
    using that by (simp_all add: clen_le_iff max_def)
  have addr: "clen n \<le> 11" "clen (max 1 n) \<le> 11" if "n \<le> 64" for n
    using that by (simp_all add: clen_le_iff max_def)
  have word: "clen (max 1 n) \<le> 6" if "n \<le> 32" for n using that by (simp add: clen_le_iff max_def)
  have branch: "bytes_of_widths off (map field_width (branch_layout cfg m @ fs)) \<le> 27 + bytes_of_widths 0 (map field_width fs)"
    if off: "off \<le> 22" for off fs
  proof -
    let ?k = "(if nexusrv_msg_is_sync m then 4 else 0) + (if nexusrv_msg_is_indir_branch m then 2 else 0)"
    let ?x = "if nexusrv_msg_has_xaddr m then clen (snd (field_width (if VAO cfg then Address (xaddr m) else Required (xaddr m)))) else 0"
    let ?h = "if nexusrv_msg_has_hist m then clen (max 1 (sig_bits (ucast (hist m)))) else 0"
    have "bytes_of_widths off (map field_width (branch_layout cfg m @ fs)) =
        clen (off + ?k + max 1 (sig_bits (ucast (icnt m)))) + ?x + ?h + bytes_of_widths 0 (map field_width fs)"
      by (simp add: branch_layout_def add_ac del: One_nat_def)
    moreover have "clen (off + ?k + max 1 (sig_bits (ucast (icnt m)))) \<le> 10" by (rule first(3) [OF off _ b(1)]) simp
    moreover have "?x \<le> 11" using addr [OF b(6)] addr [OF b(11)] by simp
    moreover have "?h \<le> 6" using word [OF b(2)] by simp
    ultimately show ?thesis by linarith
  qed
  have body: "bytes_of_widths off (map field_width (body_layout cfg m @ fs)) \<le> 27 + bytes_of_widths 0 (map field_width fs)"
    if off: "off \<le> 22" for off fs
  proof -
    note f = first(1) [OF off le0 b(3)] first(2,3) [OF off _ b(1), of 4] first(2,3) [OF off _ b(1), of 6]
      first(3) [OF off _ b(2), of 4] first(2) [OF off _ b(4), of 4] first(2) [OF off _ b(5), of 4]
      first(4) [OF off _ b(1), of 6] first64(1) [OF off b(10)] first64(2) [OF off b(8)] addr(2) [OF b(9)]
      word [OF b(2)] word [OF b(3)]
    consider "tcode m = 2" | "tcode m = 8" | "tcode m = 27" | "tcode m = 30" | "tcode m = 33" | "tcode m = 34"
      | "tcode m \<notin> {2, 8, 27, 30, 33, 34}" by blast
    then show ?thesis
      using f off b(10)
      by cases (simp_all add: body_layout_def branch [OF off, unfolded map_append] del: One_nat_def)
  qed
  show ?thesis
    using s body [of "6 + unat (src_bits cfg)" "time_layout cfg m"] body [of 6 "time_layout cfg m"] time
    unfolding length_wire [OF s(2)] by (simp add: layout_def clen_le_iff)
qed
lemma wire_nonempty: "src_bits cfg \<le> 64 \<Longrightarrow> wire (layout cfg m) \<noteq> []"
proof -
  assume s: "src_bits cfg \<le> 64"
  have "fst (rest_groups (layout cfg m)) \<noteq> []" by (simp add: layout_def)
  moreover from this have "0 < clen (length (fst (rest_groups (layout cfg m))))"
    using clen_eq_0 by (metis gr0I length_0_conv)
  ultimately have "0 < length (wire (layout cfg m))"
    by (simp add: wire_def field_groups_rest [OF layout_small(3) [OF s]] put_group_def length_group_bytes)
  then show ?thesis by simp
qed

section \<open>Properties of the codec\<close>

text \<open>
  C3. The encoder implements the wire format. For a message that has a layout, a limit
  within the buffer and a source field of at most 64 bits, it writes exactly the bytes of the
  layout at the start of the buffer, leaves the rest alone and returns their number if they
  fit the limit; otherwise it reports a truncation and has written nothing outside of the
  limit. It never fails its assertion and never leaves the buffer.
\<close>

theorem encode_implements_wire:
  assumes "encodable msg" and "src_bits cfg \<le> 64" and "limit \<le> length buf"
  shows "let w = wire (layout cfg msg) in
    if length w \<le> limit then nexusrv_msg_encode cfg buf limit msg = (Inr (length w), w @ drop (length w) buf)
    else \<exists>out. nexusrv_msg_encode cfg buf limit msg = (Inl (Code nexus_stream_truncate), out) \<and>
      length out = length buf \<and> drop limit out = drop limit buf"
  using encode_run_spec [OF assms(3,1,2)]
  by (cases "nexusrv_msg_encode cfg buf limit msg") (auto simp: encode_spec_def Let_def split: if_splits)

definition wit_cfg :: nexusrv_hw_cfg where
  "wit_cfg = \<lparr>src_bits = 2, ts_bits = 40, addr_bits = 48, max_stack = 1024, timer_freq = 0,
     HTM = False, VAO = True, quirk_sifive = True\<rparr>"

definition wit_msg :: nexusrv_msg where
  "wit_msg = \<lparr>timestamp = 1000, src = 1, tcode = TCODE_IndirectBranchHistSync, tagbits = 18,
     word0 = 77, hist = 5, hrepeat = 0, dword1 = 0xFFFFFFFF80001234\<rparr>"

theorem encode_implements_wire_witness:
  "let w = wire (layout wit_cfg wit_msg) in
    if length w \<le> 20 then nexusrv_msg_encode wit_cfg (replicate 20 0) 20 wit_msg =
      (Inr (length w), w @ drop (length w) (replicate 20 0))
    else \<exists>out. nexusrv_msg_encode wit_cfg (replicate 20 0) 20 wit_msg = (Inl (Code nexus_stream_truncate), out) \<and>
      length out = length (replicate 20 (0 :: u8)) \<and> drop 20 out = drop 20 (replicate 20 0)"
  by (rule encode_implements_wire) (simp_all add: wit_cfg_def wit_msg_def encodable_def)

text \<open>
  C20. A message without a layout (an unknown one, a data acquisition, a correlation with
  more than one source) is refused: the encoder stops with an unsupported message or, where
  the fields before the test do not fit, with a truncation, and writes nothing outside of the
  limit.
\<close>

theorem encode_refuses:
  assumes "\<not> encodable msg" and "src_bits cfg \<le> 64" and "limit \<le> length buf"
    and "nexusrv_msg_encode cfg buf limit msg = (r, out)"
  shows "r \<in> {Inl (Code nexus_stream_truncate), Inl (Code nexus_msg_unsupported)} \<and>
    length out = length buf \<and> drop limit out = drop limit buf"
  by (rule encode_run_unsupported [OF assms(3,1,2,4)])

theorem encode_refuses_witness:
  "Inl (Code nexus_msg_unsupported) \<in> {Inl (Code nexus_stream_truncate), Inl (Code nexus_msg_unsupported) :: nat result} \<and>
    length (replicate 5 (0 :: u8)) = length (replicate 5 (0 :: u8)) \<and>
    drop 5 (replicate 5 (0 :: u8)) = drop 5 (replicate 5 0)"
  by (rule encode_refuses [of "wit_msg\<lparr>tcode := 5\<rparr>" wit_cfg 5 "replicate 5 0"])
    (code_simp | simp add: wit_cfg_def wit_msg_def encodable_def)+

text \<open>
  C1. Round trip. An encodable message whose source fits its field, encoded into a buffer
  with room for \<^verbatim>\<open>NEXUS_RV_MSG_MAX_BYTES\<close> bytes (which is enough for every message), is decoded again from that buffer with any limit that
  covers it: the decoder consumes exactly the bytes the encoder reported and the decoded
  message agrees on every field that its kind carries. (Correlations are covered for the
  format with a second data word; the next theorem shows the other one.)
\<close>

theorem encode_decode:
  assumes "encodable msg" and "tcode msg = TCODE_ICT \<longrightarrow> ckdf msg = 1" and "fits_src cfg msg"
    and "src_bits cfg \<le> 16" and "NEXUS_RV_MSG_MAX_BYTES \<le> limit" and "limit \<le> length buf"
  shows "\<exists>n out. nexusrv_msg_encode cfg buf limit msg = (Inr n, out) \<and> 0 < n \<and> n \<le> limit \<and>
    (\<forall>k m0. n \<le> k \<longrightarrow> (\<exists>m. nexusrv_msg_decode cfg out k m0 = (Inr n, m) \<and> same_fields cfg msg m))"
proof -
  let ?w = "wire (layout cfg msg)"
  from assms(3) have src: "src_bits cfg \<le> 64" by (simp add: fits_src_def)
  have fit: "length ?w \<le> limit" using wire_size [OF assms(4), of msg] assms(5) by (simp add: NEXUS_RV_MSG_MAX_BYTES_def)
  with encode_run_spec [OF assms(6,1) src]
  have enc: "nexusrv_msg_encode cfg buf limit msg = (Inr (length ?w), ?w @ drop (length ?w) buf)"
    by (simp add: encode_spec_def Let_def)
  have dec: "\<exists>m. nexusrv_msg_decode cfg (?w @ drop (length ?w) buf) k m0 = (Inr (length ?w), m) \<and>
      same_fields cfg msg m" if "length ?w \<le> k" for k m0
    using decode_run_wire [OF assms(1) disjI2 [OF assms(3)] src assms(2) that] layout_same assms(1)
    by blast
  have "?w \<noteq> []" by (rule wire_nonempty [OF src])
  with enc dec fit show ?thesis by auto
qed

theorem encode_decode_witness:
  "\<exists>n out. nexusrv_msg_encode wit_cfg (replicate 38 0) 38 wit_msg = (Inr n, out) \<and> 0 < n \<and> n \<le> 38 \<and>
    (\<forall>k m0. n \<le> k \<longrightarrow> (\<exists>m. nexusrv_msg_decode wit_cfg out k m0 = (Inr n, m) \<and> same_fields wit_cfg wit_msg m))"
  by (rule encode_decode) (simp_all add: wit_cfg_def wit_msg_def encodable_def fits_src_def take_bit_eq_mod
      NEXUS_RV_MSG_MAX_BYTES_def)

definition ict_cfg :: nexusrv_hw_cfg where
  "ict_cfg = wit_cfg\<lparr>VAO := False\<rparr>"

definition ict_msg :: nexusrv_msg where
  "ict_msg = \<lparr>timestamp = 0, src = 1, tcode = TCODE_ICT, tagbits = 0, word0 = 0, hist = 3,
     hrepeat = 0, dword1 = 77\<rparr>"

text \<open>
  A correlation with one data word is not decoded to what was encoded: the encoder
  writes the second data word in any case, the decoder reads it only if the format announces
  it, and takes it for the timestamp when timestamps are on and the message has none.
\<close>

theorem ict_single_diverges:
  "encodable ict_msg \<and> fits_src ict_cfg ict_msg \<and>
   (case nexusrv_msg_encode ict_cfg (replicate 38 0) 38 ict_msg of
      (Inr n, out) \<Rightarrow>
        (case nexusrv_msg_decode ict_cfg out n ict_msg of
           (Inr k, m) \<Rightarrow> k = n \<and> timestamp ict_msg = 0 \<and> timestamp m = ckdata1 ict_msg \<and> timestamp m = 77
         | (Inl e, m) \<Rightarrow> False)
    | (Inl e, out) \<Rightarrow> False)"
  by code_simp

text \<open>
  C15. The decoder is safe: on any bytes, with a limit within the buffer, it neither fails its
  assertion nor leaves the buffer nor shifts out of range; it stops with one of four errors.
\<close>

theorem decode_safe:
  assumes "limit \<le> length buf" and "6 * length buf < 4294967296"
    and "nexusrv_msg_decode cfg buf limit msg = (Inl e, m)"
  shows "e \<in> {Code nexus_stream_bad_mseo, Code nexus_stream_truncate,
    Code nexus_msg_missing_field, Code nexus_msg_invalid}"
  using decode_safe_aux [OF assms] by (auto simp: dec_error_def)

theorem decode_safe_witness:
  "Code nexus_stream_truncate \<in> {Code nexus_stream_bad_mseo, Code nexus_stream_truncate,
    Code nexus_msg_missing_field, Code nexus_msg_invalid}"
  by (rule decode_safe [of 1 "[12]" wit_cfg wit_msg _ "set_timestamp 0 wit_msg"]) (simp, simp, code_simp)

text \<open>
  C5. The decoder frames messages as \<^verbatim>\<open>nexusrv_sync_forward\<close> does: what it consumes on success
  ends with the first byte that has an end of message, and that is the length it returns.
  In particular a successful decode makes progress and stays within the limit.
\<close>

theorem decode_frames:
  assumes "limit \<le> length buf" and "6 * length buf < 4294967296"
    and "nexusrv_msg_decode cfg buf limit msg = (Inr n, m)"
  shows "nexusrv_sync_forward buf limit = Inr n"
  by (rule decode_frames_aux [OF assms])

theorem decode_frames_witness: "nexusrv_sync_forward [0xFF, 0] 2 = Inr 1"
  by (rule decode_frames [of 2 "[0xFF, 0]" wit_cfg wit_msg 1 "(set_timestamp 0 wit_msg)\<lparr>tcode := 63\<rparr>"])
    (simp, simp, code_simp)

text \<open>
  C14. Bytes behind the window and a larger limit change neither the result nor the message,
  unless the window was too short. So reading more of the stream is needed on a truncation
  only, and never changes a message already decoded.
\<close>

theorem decode_extend:
  assumes "limit \<le> length buf" and "6 * length buf < 4294967296"
    and "fst (nexusrv_msg_decode cfg buf limit msg) \<noteq> Inl (Code nexus_stream_truncate)"
  shows "nexusrv_msg_decode cfg (buf @ ext) (limit + k) msg = nexusrv_msg_decode cfg buf limit msg"
  by (rule decode_extend_aux [OF assms])

theorem decode_extend_witness:
  "nexusrv_msg_decode wit_cfg ([0xFF, 0] @ [3, 7]) (2 + 2) wit_msg = nexusrv_msg_decode wit_cfg [0xFF, 0] 2 wit_msg"
  by (rule decode_extend) (simp, simp, code_simp)

end
