(* ===== verification/MsgDecoder.thy ===== *)
theory MsgDecoder
  imports MsgDecodeProps
begin

text \<open>
  The stream decoder: \<^verbatim>\<open>read_all\<close> of \<^verbatim>\<open>lib/misc.c\<close> and the functions on
  \<^verbatim>\<open>nexusrv_msg_decoder\<close> of \<^verbatim>\<open>lib/msg-decoder.c\<close> and its header.

  A file descriptor is what the coming \<^verbatim>\<open>read\<close> calls meet: a list of pieces of data, each
  of which is delivered by as many calls as the requested counts need, and of failures. The
  end of the list is the end of the file. A regular file is a single piece; a pipe is one
  piece for each short read.
\<close>

section \<open>Reading a file descriptor\<close>

datatype fd_event = Data "u8 list" | Fail

type_synonym fd_state = "fd_event list"

text \<open>\<^verbatim>\<open>read(2)\<close>: the bytes delivered, or a failure.\<close>

fun posix_read :: "fd_state \<Rightarrow> nat \<Rightarrow> u8 list option \<times> fd_state" where
  "posix_read [] count = (Some [], [])"
| "posix_read (Fail # fd) count = (None, fd)"
| "posix_read (Data bs # fd) count =
     (if length bs \<le> count then (Some bs, fd) else (Some (take count bs), Data (drop count bs) # fd))"

fun fd_bytes :: "fd_state \<Rightarrow> u8 list" where
  "fd_bytes [] = []"
| "fd_bytes (Fail # fd) = fd_bytes fd"
| "fd_bytes (Data bs # fd) = bs @ fd_bytes fd"

lemma posix_read_bytes:
  "posix_read fd count = (r, fd') \<Longrightarrow>
     (case r of None \<Rightarrow> fd_bytes fd' = fd_bytes fd
      | Some bs \<Rightarrow> length bs \<le> count \<and> fd_bytes fd = bs @ fd_bytes fd')"
  by (induction fd count rule: posix_read.induct) (auto split: if_splits)

definition MAX_READ_SIZE :: int where "MAX_READ_SIZE = 1000 * 1000 * 1000"

text \<open>
  The result is the bytes stored, whether the last call failed, and the descriptor. A
  failure leaves the bytes of the earlier calls in the buffer.
\<close>

function read_all :: "fd_state \<Rightarrow> nat \<Rightarrow> u8 list \<times> bool \<times> fd_state" where
  "read_all fd count =
     (if count = 0 then ([], False, fd)
      else
        let chunk = (if MAX_READ_SIZE > int count then count else nat MAX_READ_SIZE) in
        case posix_read fd chunk of
          (None, fd') \<Rightarrow> ([], True, fd')
        | (Some bs, fd') \<Rightarrow>
            if length bs < chunk then (bs, False, fd')
            else (let (cs, err, fd'') = read_all fd' (count - length bs) in (bs @ cs, err, fd'')))"
  by pat_completeness auto
termination
proof (relation "measure snd")
  fix fd count chunk p y fd' xa bs
  assume "count \<noteq> (0::nat)" and "chunk = (if MAX_READ_SIZE > int count then count else nat MAX_READ_SIZE)"
    and "\<not> length (bs :: u8 list) < chunk"
  then have "0 < length bs" by (auto simp: MAX_READ_SIZE_def split: if_splits)
  with \<open>count \<noteq> 0\<close> show "((fd', count - length bs), fd, count) \<in> measure snd" by auto
qed auto

declare read_all.simps [simp del]

section \<open>The decoder context\<close>

text \<open>\<^verbatim>\<open>src_filter\<close> has 16 bits and is signed; negative values switch the filter off.\<close>

record nexusrv_msg_decoder =
  md_cfg :: nexusrv_hw_cfg
  md_fd :: fd_state
  md_src_filter :: int
  md_buffer :: "u8 list"
  md_bufsz :: nat
  md_nread :: nat
  md_filled :: nat
  md_pos :: nat
  md_lastmsg_len :: nat

definition nexusrv_msg_decoder_init ::
    "nexusrv_hw_cfg \<Rightarrow> fd_state \<Rightarrow> int \<Rightarrow> u8 list \<Rightarrow> nat \<Rightarrow> nexusrv_msg_decoder" where
  "nexusrv_msg_decoder_init cfg fd flt buf bufsz =
     \<lparr>md_cfg = cfg, md_fd = fd, md_src_filter = flt, md_buffer = buf, md_bufsz = bufsz,
      md_nread = 0, md_filled = 0, md_pos = 0, md_lastmsg_len = 0\<rparr>"

definition nexusrv_msg_decoder_offset :: "nexusrv_msg_decoder \<Rightarrow> nat" where
  "nexusrv_msg_decoder_offset d =
     (let offset = md_nread d + (if md_pos d \<noteq> md_bufsz d then md_pos d else 0)
      in offset - md_lastmsg_len d)"

text \<open>
  The part of \<^verbatim>\<open>nexusrv_msg_decoder_next\<close> from the label \<^verbatim>\<open>read_buffer\<close>. The result says
  whether the code jumps to \<^verbatim>\<open>try_again\<close>; otherwise it returns 0. An access outside of the
  buffer is undefined.
\<close>

definition read_buffer :: "nexusrv_msg_decoder \<Rightarrow> bool result \<times> nexusrv_msg_decoder" where
  "read_buffer d =
     (let carry = md_filled d - md_pos d in
      if length (md_buffer d) < md_bufsz d then (Inl Undef, d)
      else
        let kept = take carry (drop (md_bufsz d - carry) (md_buffer d));
            (bs, err, fd') = read_all (md_fd d) (md_bufsz d - carry);
            d1 = d\<lparr>md_buffer := kept @ bs @ drop (carry + length bs) (md_buffer d),
                   md_nread := md_nread d + md_pos d, md_pos := 0, md_filled := carry,
                   md_fd := fd'\<rparr>
        in if err then (Inl (Code nexus_stream_read_failed), d1)
           else
             let d2 = d1\<lparr>md_filled := carry + length bs\<rparr> in
             if md_filled d2 > 0 then (Inr True, d2)
             else (Inr False, d2\<lparr>md_pos := md_bufsz d, md_filled := md_bufsz d\<rparr>))"

text \<open>The state after a message of \<open>n\<close> bytes was decoded.\<close>

definition advance :: "nat \<Rightarrow> nexusrv_msg_decoder \<Rightarrow> nexusrv_msg_decoder" where
  "advance n d =
     (let p = md_pos d + n in
      (if p = md_bufsz d then d\<lparr>md_nread := md_nread d + p, md_pos := 0, md_filled := 0\<rparr>
       else d\<lparr>md_pos := p\<rparr>)\<lparr>md_lastmsg_len := n\<rparr>)"

definition filtered :: "nexusrv_msg_decoder \<Rightarrow> nexusrv_msg \<Rightarrow> bool" where
  "filtered d m \<longleftrightarrow> md_src_filter d \<ge> 0 \<and> md_src_filter d \<noteq> uint (src m)"

text \<open>What one round of the loop does: return, or go on with another state.\<close>

datatype round =
    Return "nat result" nexusrv_msg_decoder nexusrv_msg
  | Again nexusrv_msg_decoder nexusrv_msg

definition after_refill :: "bool result \<times> nexusrv_msg_decoder \<Rightarrow> nexusrv_msg \<Rightarrow> round" where
  "after_refill rd m =
     (case rd of
        (Inl e, d) \<Rightarrow> Return (Inl e) d m
      | (Inr True, d) \<Rightarrow> Again d m
      | (Inr False, d) \<Rightarrow> Return (Inr 0) d m)"

definition try_again :: "nexusrv_msg_decoder \<Rightarrow> nexusrv_msg \<Rightarrow> round" where
  "try_again d0 m =
     (let d = d0\<lparr>md_lastmsg_len := 0\<rparr> in
      if md_pos d = md_filled d then
        (if md_pos d \<noteq> 0 then Return (Inr 0) d m else after_refill (read_buffer d) m)
      else
        case nexusrv_msg_decode (md_cfg d) (drop (md_pos d) (md_buffer d)) (md_filled d - md_pos d) m of
          (Inr n, m') \<Rightarrow>
            (let d' = advance n d in
             if filtered d' m' then Again d' m' else Return (Inr n) d' m')
        | (Inl e, m') \<Rightarrow>
            if md_filled d \<noteq> md_bufsz d \<or> e \<noteq> Code nexus_stream_truncate then Return (Inl e) d m'
            else if md_pos d = 0 then Return (Inl (Code nexus_buffer_too_small)) d m'
            else after_refill (read_buffer d) m')"

section \<open>Termination of the loop\<close>

lemma read_all_bytes:
  "read_all fd count = (bs, err, fd') \<Longrightarrow> fd_bytes fd = bs @ fd_bytes fd' \<and> length bs \<le> count"
proof (induction fd count arbitrary: bs err fd' rule: read_all.induct)
  case (1 fd count)
  define chunk where "chunk = (if MAX_READ_SIZE > int count then count else nat MAX_READ_SIZE)"
  have chunk: "chunk \<le> count" by (auto simp: chunk_def)
  show ?case
  proof (cases "count = 0")
    case True
    with "1.prems" show ?thesis by (simp add: read_all.simps)
  next
    case False
    obtain r fd1 where rd: "posix_read fd chunk = (r, fd1)" by fastforce
    show ?thesis
    proof (cases r)
      case None
      with False "1.prems" rd posix_read_bytes [OF rd] show ?thesis
        by (simp add: read_all.simps [of _ count] Let_def flip: chunk_def)
    next
      case (Some xs)
      note first = posix_read_bytes [OF rd, unfolded Some, simplified]
      show ?thesis
      proof (cases "length xs < chunk")
        case True
        with False "1.prems" rd Some first chunk show ?thesis
          by (auto simp: read_all.simps [of _ count] Let_def simp flip: chunk_def)
      next
        case more_to_come: False
        obtain cs e fd2 where rec: "read_all fd1 (count - length xs) = (cs, e, fd2)"
          by (metis surj_pair)
        from "1.IH" [OF False chunk_def rd [symmetric] Some more_to_come rec]
        have "fd_bytes fd1 = cs @ fd_bytes fd2 \<and> length cs \<le> count - length xs" by simp
        with more_to_come False "1.prems" rd Some first rec chunk show ?thesis
          by (auto simp: read_all.simps [of _ count] Let_def simp flip: chunk_def)
      qed
    qed
  qed
qed

text \<open>
  Every round that goes on has passed bytes, or has moved the bytes to the front of the buffer,
  which is done at most once before the next of them are passed.
\<close>

definition backlog :: "nexusrv_msg_decoder \<Rightarrow> nat" where
  "backlog d = length (fd_bytes (md_fd d)) + (md_filled d - md_pos d)"

definition at_front :: "nexusrv_msg_decoder \<Rightarrow> bool" where
  "at_front d \<longleftrightarrow> md_pos d = 0 \<and> 0 < md_filled d"

lemma read_buffer_backlog:
  "read_buffer d = (Inr True, d') \<Longrightarrow> backlog d' = backlog d \<and> at_front d'"
  by (auto simp: read_buffer_def backlog_def at_front_def Let_def split: if_splits prod.splits
      dest: read_all_bytes)

lemma try_again_measure:
  assumes "try_again d m = Again d' m'"
  shows "backlog d' < backlog d \<or> backlog d' = backlog d \<and> at_front d' \<and> \<not> at_front d"
proof -
  let ?d = "d\<lparr>md_lastmsg_len := 0\<rparr>"
  have same: "backlog ?d = backlog d" "at_front ?d = at_front d" by (simp_all add: backlog_def at_front_def)
  have refill: "backlog d' = backlog d \<and> at_front d' \<and> \<not> at_front d"
    if "after_refill (read_buffer ?d) k = Again d' m'" "\<not> at_front d" for k
    using that same read_buffer_backlog [of ?d d']
    by (auto simp: after_refill_def split: prod.splits sum.splits bool.splits)
  show ?thesis
  proof (cases "md_pos d = md_filled d")
    case True
    with assms refill show ?thesis by (auto simp: try_again_def at_front_def Let_def split: if_splits)
  next
    case False
    obtain r mm where dec: "nexusrv_msg_decode (md_cfg d) (drop (md_pos d) (md_buffer d))
        (md_filled d - md_pos d) m = (r, mm)" by fastforce
    show ?thesis
    proof (cases r)
      case (Inl e)
      with False assms dec refill [of mm] show ?thesis
        by (auto simp: try_again_def at_front_def Let_def split: if_splits)
    next
      case (Inr n)
      with decode_progress dec have "0 < n" "n \<le> md_filled d - md_pos d" by blast+
      with False assms dec Inr show ?thesis
        by (auto simp: try_again_def advance_def backlog_def Let_def split: if_splits)
    qed
  qed
qed

function decoder_loop ::
    "nexusrv_msg_decoder \<Rightarrow> nexusrv_msg \<Rightarrow> nat result \<times> nexusrv_msg_decoder \<times> nexusrv_msg" where
  "decoder_loop d m =
     (case try_again d m of
        Return r d' m' \<Rightarrow> (r, d', m')
      | Again d' m' \<Rightarrow> decoder_loop d' m')"
  by pat_completeness auto
termination
  by (relation "measures [\<lambda>(d, m). backlog d, \<lambda>(d, m). if at_front d then 0 else 1]")
    (auto dest!: try_again_measure)

declare decoder_loop.simps [simp del]

definition nexusrv_msg_decoder_next ::
    "nexusrv_msg_decoder \<Rightarrow> nexusrv_msg \<Rightarrow> nat result \<times> nexusrv_msg_decoder \<times> nexusrv_msg" where
  "nexusrv_msg_decoder_next d m =
     (if \<not> md_pos d \<le> md_filled d then (Inl Abort, d, m)
      else if \<not> md_filled d \<le> md_bufsz d then (Inl Abort, d, m)
      else decoder_loop d m)"

text \<open>A pointer into the buffer is its index; \<^verbatim>\<open>NULL\<close> is \<open>None\<close>.\<close>

definition nexusrv_msg_decoder_lastmsg :: "nexusrv_msg_decoder \<Rightarrow> nat option result" where
  "nexusrv_msg_decoder_lastmsg d =
     (if \<not> md_pos d \<le> md_filled d then Inl Abort
      else if \<not> md_filled d \<le> md_bufsz d then Inl Abort
      else if md_lastmsg_len d = 0 then Inr None
      else if \<not> (md_pos d = 0 \<or> md_pos d \<ge> md_lastmsg_len d) then Inl Abort
      else if md_pos d \<noteq> 0 then Inr (Some (md_pos d - md_lastmsg_len d))
      else Inr (Some (md_bufsz d - md_lastmsg_len d)))"

definition nexusrv_msg_decoder_rewind_last :: "nexusrv_msg_decoder \<Rightarrow> nexusrv_msg_decoder result" where
  "nexusrv_msg_decoder_rewind_last d =
     (if \<not> md_pos d \<le> md_filled d then Inl Abort
      else if \<not> md_filled d \<le> md_bufsz d then Inl Abort
      else if md_lastmsg_len d = 0 then Inr d
      else if \<not> (md_pos d = 0 \<or> md_pos d \<ge> md_lastmsg_len d) then Inl Abort
      else if md_pos d = 0 \<and> \<not> md_filled d = 0 then Inl Abort
      else if md_pos d = 0 \<and> \<not> md_nread d \<ge> md_bufsz d then Inl Abort
      else
        let d1 = (if md_pos d = 0
                  then d\<lparr>md_pos := md_bufsz d, md_filled := md_bufsz d, md_nread := md_nread d - md_bufsz d\<rparr>
                  else d)
        in Inr (d1\<lparr>md_pos := md_pos d1 - md_lastmsg_len d, md_lastmsg_len := 0\<rparr>))"

section \<open>Calls use up the backlog\<close>

text \<open>
  Whatever the state, a call that delivers \<open>n\<close> bytes shrinks the backlog by at least \<open>n\<close>, and
  rewinding gives back no more than the last message had. The loops of the trace decoder end
  for this reason.
\<close>

lemma read_buffer_shrinks:
  assumes "read_buffer d = (r, d')"
  shows "backlog d' \<le> backlog d \<and> md_lastmsg_len d' = md_lastmsg_len d"
  using assms by (auto simp: read_buffer_def backlog_def Let_def split: if_splits prod.splits
      dest: read_all_bytes)

lemma try_again_shrinks:
  "case try_again d m of
     Return r d' m' \<Rightarrow> backlog d' + (case r of Inr n \<Rightarrow> n | Inl e \<Rightarrow> 0) \<le> backlog d \<and>
       md_lastmsg_len d' = (case r of Inr n \<Rightarrow> n | Inl e \<Rightarrow> 0)
   | Again d' m' \<Rightarrow> backlog d' \<le> backlog d"
proof -
  let ?d = "d\<lparr>md_lastmsg_len := 0\<rparr>"
  have same: "backlog ?d = backlog d" by (simp add: backlog_def)
  have refill: "case after_refill (read_buffer ?d) k of
     Return r d' m' \<Rightarrow> backlog d' + (case r of Inr n \<Rightarrow> n | Inl e \<Rightarrow> 0) \<le> backlog d \<and>
       md_lastmsg_len d' = (case r of Inr n \<Rightarrow> n | Inl e \<Rightarrow> 0)
   | Again d' m' \<Rightarrow> backlog d' \<le> backlog d"
    for k
    using read_buffer_shrinks [of ?d] same
    by (auto simp: after_refill_def split: prod.splits sum.splits bool.splits)
  obtain r mm where dec: "nexusrv_msg_decode (md_cfg d) (drop (md_pos d) (md_buffer d))
      (md_filled d - md_pos d) m = (r, mm)" by fastforce
  show ?thesis
  proof (cases "md_pos d = md_filled d")
    case True
    with refill [of m] same show ?thesis by (auto simp: try_again_def Let_def)
  next
    case False
    show ?thesis
    proof (cases r)
      case (Inr n)
      with decode_progress dec have "0 < n" "n \<le> md_filled d - md_pos d" by blast+
      with False dec Inr show ?thesis by (auto simp: try_again_def advance_def backlog_def Let_def)
    next
      case (Inl e)
      with False dec Inl refill [of mm] same show ?thesis
        by (auto simp: try_again_def Let_def)
    qed
  qed
qed

lemma decoder_loop_shrinks:
  "decoder_loop d m = (r, d', m') \<Longrightarrow>
     backlog d' + (case r of Inr n \<Rightarrow> n | Inl e \<Rightarrow> 0) \<le> backlog d \<and>
     md_lastmsg_len d' = (case r of Inr n \<Rightarrow> n | Inl e \<Rightarrow> 0)"
proof (induction d m rule: decoder_loop.induct)
  case (1 d m)
  show ?case
  proof (cases "try_again d m")
    case (Return r1 d1 m1)
    with "1.prems" try_again_shrinks [of d m] show ?thesis by (simp add: decoder_loop.simps [of d])
  next
    case (Again d1 m1)
    with "1.prems" "1.IH" [OF Again] try_again_shrinks [of d m] show ?thesis
      by (auto simp: decoder_loop.simps [of d])
  qed
qed

lemma decoder_next_shrinks:
  "nexusrv_msg_decoder_next d m = (Inr n, d', m') \<Longrightarrow> backlog d' + n \<le> backlog d \<and> md_lastmsg_len d' = n"
  using decoder_loop_shrinks [of d m] by (auto simp: nexusrv_msg_decoder_next_def split: if_splits)

lemma rewind_gives_back:
  "nexusrv_msg_decoder_rewind_last d = Inr d' \<Longrightarrow> backlog d' \<le> backlog d + md_lastmsg_len d"
  by (auto simp: nexusrv_msg_decoder_rewind_last_def backlog_def Let_def split: if_splits)

text \<open>Looking at the next message and going back uses up nothing and gives back nothing.\<close>

lemma peek_backlog:
  assumes "nexusrv_msg_decoder_next d m = (Inr n, d1, m1)" and "nexusrv_msg_decoder_rewind_last d1 = Inr d2"
  shows "backlog d2 \<le> backlog d"
  using decoder_next_shrinks [OF assms(1)] rewind_gives_back [OF assms(2)] by simp

end
