(* ===== verification/MsgStream.thy ===== *)
theory MsgStream
  imports MsgDecoder Codec
begin

text \<open>
  The stream decoder against the bytes of its file. A decoder state stands for a position in
  the file; \<^verbatim>\<open>nexusrv_msg_decoder_next\<close> decodes the file from that position as if it were
  in memory as a whole, whatever the size of the buffer, and \<^verbatim>\<open>nexusrv_msg_decoder_rewind_last\<close>
  goes back to the start of the last message.
\<close>

section \<open>The specification\<close>

text \<open>
  A decode writes only the fields of the message it meets. Before the whole message is in the
  buffer the code may have tried with the bytes it had, so the message it writes to is the one
  passed in, or what a truncated attempt made of it.
\<close>

definition attempt :: "nexusrv_hw_cfg \<Rightarrow> u8 list \<Rightarrow> nexusrv_msg \<Rightarrow> nexusrv_msg \<Rightarrow> bool" where
  "attempt cfg bs m m0 \<longleftrightarrow> m0 = m \<or>
     (\<exists>k \<le> length bs. nexusrv_msg_decode cfg bs k m = (Inl (Code nexus_stream_truncate), m0))"

definition skips :: "int \<Rightarrow> nexusrv_msg \<Rightarrow> bool" where
  "skips flt m \<longleftrightarrow> flt \<ge> 0 \<and> flt \<noteq> uint (src m)"

text \<open>
  \<open>stream_next cfg flt S p m r q m'\<close>: from position \<open>p\<close> of the file \<open>S\<close> the result is \<open>r\<close>, the
  new position \<open>q\<close> and the message \<open>m'\<close>.
\<close>

inductive stream_next :: "nexusrv_hw_cfg \<Rightarrow> int \<Rightarrow> u8 list \<Rightarrow> nat \<Rightarrow> nexusrv_msg \<Rightarrow>
    nat result \<Rightarrow> nat \<Rightarrow> nexusrv_msg \<Rightarrow> bool"
  for cfg :: nexusrv_hw_cfg and flt :: int and S :: "u8 list" where
  at_eof: "length S \<le> p \<Longrightarrow> stream_next cfg flt S p m (Inr 0) p m"
| deliver: "p < length S \<Longrightarrow> attempt cfg (drop p S) m m0 \<Longrightarrow>
    nexusrv_msg_decode cfg (drop p S) (length S - p) m0 = (Inr n, m') \<Longrightarrow> \<not> skips flt m' \<Longrightarrow>
    stream_next cfg flt S p m (Inr n) (p + n) m'"
| skip: "p < length S \<Longrightarrow> attempt cfg (drop p S) m m0 \<Longrightarrow>
    nexusrv_msg_decode cfg (drop p S) (length S - p) m0 = (Inr n, m') \<Longrightarrow> skips flt m' \<Longrightarrow>
    stream_next cfg flt S (p + n) m' r q m'' \<Longrightarrow> stream_next cfg flt S p m r q m''"
| refuse: "p < length S \<Longrightarrow> attempt cfg (drop p S) m m0 \<Longrightarrow>
    nexusrv_msg_decode cfg (drop p S) (length S - p) m0 = (Inl e, m') \<Longrightarrow>
    stream_next cfg flt S p m (Inl e) p m'"

section \<open>States that stand for a position of a file\<close>

definition regular :: "fd_state \<Rightarrow> bool" where
  "regular fd \<longleftrightarrow> fd = [] \<or> (\<exists>bs. fd = [Data bs])"

text \<open>The position of the next message, and the end of the last message in the buffer.\<close>

definition at_pos :: "nexusrv_msg_decoder \<Rightarrow> nat" where
  "at_pos d = md_nread d + (if md_pos d = md_bufsz d then 0 else md_pos d)"

definition last_end :: "nexusrv_msg_decoder \<Rightarrow> nat" where
  "last_end d = (if md_pos d = 0 then md_bufsz d else md_pos d)"

text \<open>The bytes of the file not yet passed: those in the buffer and those not yet read.\<close>

definition remaining :: "nexusrv_msg_decoder \<Rightarrow> u8 list" where
  "remaining d = take (md_filled d - md_pos d) (drop (md_pos d) (md_buffer d)) @ fd_bytes (md_fd d)"

definition sized :: "nexusrv_msg_decoder \<Rightarrow> bool" where
  "sized d \<longleftrightarrow> length (md_buffer d) = md_bufsz d \<and> 0 < md_bufsz d \<and> 6 * md_bufsz d < 4294967296 \<and>
     md_pos d \<le> md_filled d \<and> md_filled d \<le> md_bufsz d"

definition reads_file :: "u8 list \<Rightarrow> nexusrv_msg_decoder \<Rightarrow> bool" where
  "reads_file S d \<longleftrightarrow> sized d \<and> regular (md_fd d) \<and>
     (md_filled d < md_bufsz d \<longrightarrow> fd_bytes (md_fd d) = [] \<or> md_filled d = 0) \<and>
     (md_pos d = md_bufsz d \<longrightarrow> fd_bytes (md_fd d) = []) \<and>
     at_pos d \<le> length S \<and> drop (at_pos d) S = remaining d"

text \<open>The last message is still in the buffer.\<close>

definition keeps_last :: "u8 list \<Rightarrow> nexusrv_msg_decoder \<Rightarrow> bool" where
  "keeps_last S d \<longleftrightarrow> md_lastmsg_len d = 0 \<or>
     (md_lastmsg_len d \<le> last_end d \<and> md_lastmsg_len d \<le> at_pos d \<and> md_pos d < md_bufsz d \<and>
      (md_pos d = 0 \<longrightarrow> md_filled d = 0 \<and> md_bufsz d \<le> md_nread d) \<and>
      take (md_lastmsg_len d) (drop (last_end d - md_lastmsg_len d) (md_buffer d)) =
        take (md_lastmsg_len d) (drop (at_pos d - md_lastmsg_len d) S))"

definition stream_ok :: "u8 list \<Rightarrow> nexusrv_msg_decoder \<Rightarrow> bool" where
  "stream_ok S d \<longleftrightarrow> reads_file S d \<and> keeps_last S d"

lemma init_stream_ok:
  assumes "regular fd" and "length buf = bufsz" and "0 < bufsz" and "6 * bufsz < 4294967296"
  shows "stream_ok (fd_bytes fd) (nexusrv_msg_decoder_init cfg fd flt buf bufsz)"
  using assms
  by (simp add: stream_ok_def reads_file_def keeps_last_def sized_def nexusrv_msg_decoder_init_def
      at_pos_def remaining_def)

section \<open>Reading\<close>

lemma posix_read_regular:
  assumes "regular fd"
  obtains fd' where "posix_read fd n = (Some (take n (fd_bytes fd)), fd')" "regular fd'"
    "fd_bytes fd' = drop n (fd_bytes fd)"
proof (cases "n < length (fd_bytes fd)")
  case True
  with assms obtain bs where "fd = [Data bs]" by (auto simp: regular_def)
  with True show thesis by (intro that [of "[Data (drop n bs)]"]) (auto simp: regular_def)
next
  case False
  with assms show thesis by (intro that [of "[]"]) (auto simp: regular_def)
qed

lemma read_all_regular:
  "regular fd \<Longrightarrow> \<exists>fd'. read_all fd n = (take n (fd_bytes fd), False, fd') \<and> regular fd' \<and>
     fd_bytes fd' = drop n (fd_bytes fd)"
proof (induction fd n rule: read_all.induct)
  case (1 fd n)
  define chunk where "chunk = (if MAX_READ_SIZE > int n then n else nat MAX_READ_SIZE)"
  have chunk: "chunk \<le> n" by (auto simp: chunk_def)
  from "1.prems" obtain fd1 where rd: "posix_read fd chunk = (Some (take chunk (fd_bytes fd)), fd1)"
    and fd1: "regular fd1" "fd_bytes fd1 = drop chunk (fd_bytes fd)"
    by (rule posix_read_regular)
  consider "n = 0" | "n \<noteq> 0" "length (fd_bytes fd) < chunk" | "n \<noteq> 0" "chunk \<le> length (fd_bytes fd)"
    by linarith
  then show ?case
  proof cases
    case 1
    with "1.prems" show ?thesis by (simp add: read_all.simps)
  next
    case 2
    with rd fd1 chunk show ?thesis by (simp add: read_all.simps [of _ n] Let_def flip: chunk_def)
  next
    case 3
    then have "\<not> length (take chunk (fd_bytes fd)) < chunk" by simp
    from "1.IH" [OF 3(1) chunk_def rd [symmetric] refl this fd1(1)] 3 chunk
    obtain fd2 where rec: "read_all fd1 (n - chunk) = (take (n - chunk) (fd_bytes fd1), False, fd2)"
      "regular fd2" "fd_bytes fd2 = drop (n - chunk) (fd_bytes fd1)" by (auto simp: min_absorb2)
    have "take chunk (fd_bytes fd) @ take (n - chunk) (drop chunk (fd_bytes fd)) = take n (fd_bytes fd)"
      using chunk by (metis le_add_diff_inverse take_add)
    with 3 rd rec fd1 chunk show ?thesis
      by (simp add: read_all.simps [of _ n] Let_def min_absorb2 flip: chunk_def)
  qed
qed

text \<open>Refilling the buffer leaves the position alone and reaches the end of the file or fills it.\<close>

lemma read_buffer_ok:
  assumes R: "reads_file S d" and go: "md_filled d = md_bufsz d \<and> 0 < md_pos d \<and> md_pos d < md_bufsz d \<or>
      md_pos d = 0 \<and> md_filled d = 0"
  obtains b d' where "read_buffer d = (Inr b, d')" "reads_file S d'" "at_pos d' = at_pos d"
    "md_lastmsg_len d' = md_lastmsg_len d" "md_src_filter d' = md_src_filter d" "md_cfg d' = md_cfg d"
    "\<not> b \<Longrightarrow> at_pos d = length S" "md_bufsz d' = md_bufsz d"
proof -
  define carry where "carry = md_filled d - md_pos d"
  from R have z: "length (md_buffer d) = md_bufsz d" "0 < md_bufsz d" "regular (md_fd d)"
    "at_pos d \<le> length S" "drop (at_pos d) S = remaining d"
    by (simp_all add: reads_file_def sized_def)
  from z(3) obtain fd' where rd: "read_all (md_fd d) (md_bufsz d - carry) =
      (take (md_bufsz d - carry) (fd_bytes (md_fd d)), False, fd')" and fd': "regular fd'"
    "fd_bytes fd' = drop (md_bufsz d - carry) (fd_bytes (md_fd d))"
    using read_all_regular by blast
  have kept: "take carry (drop (md_bufsz d - carry) (md_buffer d)) =
      take carry (drop (md_pos d) (md_buffer d))"
    using go by (auto simp: carry_def)
  have c: "carry < md_bufsz d" using go z by (auto simp: carry_def)
  have pos: "md_nread d + md_pos d = at_pos d" using go z(2) by (auto simp: at_pos_def)
  define bs where "bs = take (md_bufsz d - carry) (fd_bytes (md_fd d))"
  define kp where "kp = take carry (drop (md_pos d) (md_buffer d))"
  have lkp: "length kp = carry" using go z(1) by (auto simp: kp_def carry_def)
  have lbs: "carry + length bs \<le> md_bufsz d" using c by (simp add: bs_def)
  have all: "remaining d = kp @ bs @ fd_bytes fd'"
    by (simp add: remaining_def kp_def carry_def [symmetric] bs_def fd')
  define d2 where "d2 = d\<lparr>md_buffer := kp @ bs @ drop (carry + length bs) (md_buffer d),
    md_nread := md_nread d + md_pos d, md_pos := 0, md_filled := carry + length bs, md_fd := fd'\<rparr>"
  have run: "read_buffer d = (if 0 < carry + length bs then (Inr True, d2)
      else (Inr False, d2\<lparr>md_pos := md_bufsz d, md_filled := md_bufsz d\<rparr>))"
    using z(1) rd kept
    by (simp add: read_buffer_def Let_def flip: carry_def) (simp add: d2_def bs_def kp_def)
  have short: "carry + length bs < md_bufsz d \<Longrightarrow> fd_bytes fd' = []"
    by (auto simp: bs_def fd'(2))
  have rem: "remaining d2 = remaining d"
    using lkp by (simp add: remaining_def [of d2] all) (simp add: d2_def)
  have upd: "at_pos d2 = at_pos d" "md_pos d2 = 0" "md_filled d2 = carry + length bs" "md_bufsz d2 = md_bufsz d"
    "length (md_buffer d2) = md_bufsz d2" "md_fd d2 = fd'" "md_lastmsg_len d2 = md_lastmsg_len d"
    "md_src_filter d2 = md_src_filter d" "md_cfg d2 = md_cfg d"
    using pos lkp lbs z(1,2) by (simp_all add: d2_def at_pos_def)
  show thesis
  proof (cases "0 < carry + length bs")
    case True
    have "reads_file S d2"
      unfolding reads_file_def sized_def using upd fd' lbs z R rem short
      by (simp add: reads_file_def sized_def)
    with True run upd show thesis by (intro that [of True d2]) simp_all
  next
    case False
    then have e: "remaining d = []" "carry = 0" "bs = []" "fd_bytes fd' = []"
      using short z(2) all lkp by auto
    let ?d = "d2\<lparr>md_pos := md_bufsz d, md_filled := md_bufsz d\<rparr>"
    have p: "at_pos ?d = at_pos d" using go z(2) e(2) pos by (auto simp: at_pos_def d2_def carry_def)
    have r: "remaining ?d = []" using e(4) by (simp add: remaining_def upd)
    have "reads_file S ?d"
      unfolding reads_file_def p r using upd(4-6) z fd' R e by (simp add: reads_file_def sized_def)
    moreover have "at_pos d = length S" using e(1) z(4,5) by simp
    ultimately show thesis using False run upd p by (intro that [of False ?d]) simp_all
  qed
qed

section \<open>One round\<close>

lemma sync_forward_within:
  assumes "limit \<le> length buf" and "nexusrv_sync_forward buf limit = Inr n"
  shows "n \<le> limit"
  using sync_forward_from_spec [OF assms(1), of 0] assms(2) unfolding nexusrv_sync_forward_def by auto

lemma reads_file_window:
  assumes R: "reads_file S d"
  shows "md_filled d - md_pos d \<le> length S - at_pos d"
    and "take (md_filled d - md_pos d) (drop (at_pos d) S) =
      take (md_filled d - md_pos d) (drop (md_pos d) (md_buffer d))"
proof -
  from R have rem: "drop (at_pos d) S = remaining d" and z: "md_filled d \<le> length (md_buffer d)"
    by (simp_all add: reads_file_def sized_def)
  then have "length S - at_pos d = length (remaining d)" by (metis length_drop)
  with z show "md_filled d - md_pos d \<le> length S - at_pos d" by (simp add: remaining_def)
  from z show "take (md_filled d - md_pos d) (drop (at_pos d) S) =
      take (md_filled d - md_pos d) (drop (md_pos d) (md_buffer d))"
    unfolding rem by (simp add: remaining_def)
qed

text \<open>What the decoder finds in its buffer is what it would find in the file.\<close>

lemma decode_in_file:
  assumes R: "reads_file S d"
    and dec: "nexusrv_msg_decode cfg (drop (md_pos d) (md_buffer d)) (md_filled d - md_pos d) m = (r, m')"
  shows "nexusrv_msg_decode cfg (drop (at_pos d) S) (md_filled d - md_pos d) m = (r, m')"
    and "r \<noteq> Inl (Code nexus_stream_truncate) \<or> fd_bytes (md_fd d) = [] \<Longrightarrow>
      nexusrv_msg_decode cfg (drop (at_pos d) S) (length S - at_pos d) m = (r, m')"
proof -
  let ?w = "md_filled d - md_pos d"
  note win = reads_file_window [OF R]
  from R have z: "6 * ?w < 4294967296" "?w \<le> length (drop (md_pos d) (md_buffer d))"
    "drop (at_pos d) S = remaining d"
    by (auto simp: reads_file_def sized_def)
  show inS: "nexusrv_msg_decode cfg (drop (at_pos d) S) ?w m = (r, m')"
    using decode_window [OF z(2,1), of cfg m] decode_window [of ?w "drop (at_pos d) S" cfg m] dec win z(1)
    by simp
  assume fin: "r \<noteq> Inl (Code nexus_stream_truncate) \<or> fd_bytes (md_fd d) = []"
  show "nexusrv_msg_decode cfg (drop (at_pos d) S) (length S - at_pos d) m = (r, m')"
  proof (cases "fd_bytes (md_fd d) = []")
    case True
    with z have "length (drop (at_pos d) S) = ?w" by (simp add: remaining_def)
    with inS show ?thesis by simp
  next
    case False
    define bs where "bs = drop (at_pos d) S"
    have le: "?w \<le> length bs" using win(1) by (simp add: bs_def)
    have "nexusrv_msg_decode cfg (take ?w bs) ?w m = (r, m')"
      using inS decode_window [OF le z(1)] by (simp add: bs_def)
    with False fin le z(1) decode_extend_aux [of ?w "take ?w bs" cfg m "drop ?w bs" "length bs - ?w"]
    have "nexusrv_msg_decode cfg (take ?w bs @ drop ?w bs) (length bs) m = (r, m')"
      by (simp add: min_absorb2 del: append_take_drop_id)
    then have "nexusrv_msg_decode cfg bs (length bs) m = (r, m')" by (simp only: append_take_drop_id)
    then show ?thesis by (simp add: bs_def)
  qed
qed

lemma advance_ok:
  assumes R: "reads_file S d" and n: "0 < n" "n \<le> md_filled d - md_pos d"
  shows "reads_file S (advance n d)" and "keeps_last S (advance n d)"
    and "at_pos (advance n d) = at_pos d + n" and "md_lastmsg_len (advance n d) = n"
proof -
  note win = reads_file_window [OF R]
  from R have z: "length (md_buffer d) = md_bufsz d" "0 < md_bufsz d" "md_pos d < md_bufsz d"
    "md_filled d \<le> md_bufsz d" "drop (at_pos d) S = remaining d" "at_pos d \<le> length S"
    using n by (auto simp: reads_file_def sized_def)
  show pos: "at_pos (advance n d) = at_pos d + n"
    using z n by (auto simp: advance_def at_pos_def Let_def)
  show "md_lastmsg_len (advance n d) = n" by (simp add: advance_def Let_def)
  have "drop (at_pos d + n) S = drop n (remaining d)" using z(5) by (metis add.commute drop_drop)
  also have "\<dots> = remaining (advance n d)"
    using z n by (auto simp: remaining_def advance_def Let_def drop_take add.commute)
  finally have rem: "drop (at_pos d + n) S = remaining (advance n d)" .
  have le: "md_pos d + n \<le> md_filled d" "at_pos d + n \<le> length S" using n win(1) z(6) by auto
  show "reads_file S (advance n d)"
  proof (cases "md_pos d + n = md_bufsz d")
    case True
    with R z n le pos rem show ?thesis
      unfolding reads_file_def [of _ "advance n d"] by (simp add: reads_file_def sized_def advance_def Let_def)
  next
    case False
    with R z n le pos rem show ?thesis
      unfolding reads_file_def [of _ "advance n d"] by (simp add: reads_file_def sized_def advance_def Let_def)
  qed
  have "take n (drop (md_pos d) (md_buffer d)) = take n (drop (at_pos d) S)"
    using arg_cong [OF win(2), of "take n"] n(2) by (simp add: min_absorb1)
  moreover have "last_end (advance n d) = md_pos d + n" "md_buffer (advance n d) = md_buffer d"
    "md_pos (advance n d) < md_bufsz (advance n d)"
    using z(2,3,4) n le by (auto simp: last_end_def advance_def Let_def)
  moreover have "md_pos (advance n d) = 0 \<Longrightarrow>
      md_filled (advance n d) = 0 \<and> md_bufsz (advance n d) \<le> md_nread (advance n d)"
    using n by (auto simp: advance_def Let_def split: if_splits)
  ultimately show "keeps_last S (advance n d)"
    unfolding keeps_last_def pos by (simp add: advance_def Let_def)
qed

section \<open>The loop\<close>

text \<open>The errors of a call on a regular file.\<close>

definition decoder_errors :: "nexus_error set" where
  "decoder_errors = {nexus_stream_bad_mseo, nexus_stream_truncate, nexus_msg_missing_field,
     nexus_msg_invalid, nexus_buffer_too_small}"

text \<open>
  What a call ends with: the result is that of the file, the state stands for the new position,
  and the last message, if one was delivered, is still there.
\<close>

definition delivers :: "u8 list \<Rightarrow> nat \<Rightarrow> nexusrv_msg \<Rightarrow> nexusrv_msg_decoder \<Rightarrow>
    nat result \<times> nexusrv_msg_decoder \<times> nexusrv_msg \<Rightarrow> bool" where
  "delivers S p m d0 out \<longleftrightarrow>
     (case out of (r, d', m') \<Rightarrow>
        stream_ok S d' \<and> md_cfg d' = md_cfg d0 \<and> md_src_filter d' = md_src_filter d0 \<and> md_bufsz d' = md_bufsz d0 \<and>
        md_lastmsg_len d' = (case r of Inr n \<Rightarrow> n | Inl e \<Rightarrow> 0) \<and>
        (\<forall>e. r = Inl e \<longrightarrow> e \<in> Code ` decoder_errors) \<and> at_pos d' \<ge> p \<and>
        (r \<noteq> Inl (Code nexus_buffer_too_small) \<and>
           stream_next (md_cfg d0) (md_src_filter d0) S p m r (at_pos d') m' \<or>
         r = Inl (Code nexus_buffer_too_small) \<and> md_bufsz d' \<le> length S - at_pos d' \<and>
           (\<forall>i < md_bufsz d'. mseo (S ! (at_pos d' + i)) \<noteq> 3)))"

lemma no_last_ok: "reads_file S d \<Longrightarrow> md_lastmsg_len d = 0 \<Longrightarrow> stream_ok S d"
  by (simp add: stream_ok_def keeps_last_def)

lemma reads_file_forget: "reads_file S (d\<lparr>md_lastmsg_len := n\<rparr>) = reads_file S d"
  by (simp add: reads_file_def sized_def at_pos_def remaining_def)

lemma at_end_of_file:
  assumes "reads_file S d" and "md_pos d = md_filled d" and "md_pos d \<noteq> 0"
  shows "at_pos d = length S"
proof -
  from assms have "remaining d = []" by (auto simp: reads_file_def sized_def remaining_def)
  with assms(1) show ?thesis by (simp add: reads_file_def)
qed

lemma window_without_end:
  assumes R: "reads_file S d" and full: "md_pos d = 0" "md_filled d = md_bufsz d"
    and dec: "nexusrv_msg_decode cfg (drop (md_pos d) (md_buffer d)) (md_filled d - md_pos d) m =
      (Inl (Code nexus_stream_truncate), m')"
  shows "md_bufsz d \<le> length S - at_pos d \<and> (\<forall>i < md_bufsz d. mseo (S ! (at_pos d + i)) \<noteq> 3)"
proof -
  note win = reads_file_window [OF R]
  from R full have z: "length (md_buffer d) = md_bufsz d" "6 * length (md_buffer d) < 4294967296"
    by (simp_all add: reads_file_def sized_def)
  have "mseo (md_buffer d ! i) \<noteq> 3" if "i < md_bufsz d" for i
    using decode_truncates_aux [of "md_bufsz d" "md_buffer d"] dec full z that by simp
  moreover have "S ! (at_pos d + i) = md_buffer d ! i" if "i < md_bufsz d" for i
    using arg_cong [OF win(2), of "\<lambda>l. l ! i"] full that win(1) by (simp add: nth_append)
  ultimately show ?thesis using win(1) full by simp
qed

lemma delivers_skip:
  assumes "delivers S (p + n) m' d' out" and "md_cfg d' = md_cfg d" "md_src_filter d' = md_src_filter d"
    "md_bufsz d' = md_bufsz d"
    and "p < length S" and "attempt (md_cfg d) (drop p S) m m0"
    and "nexusrv_msg_decode (md_cfg d) (drop p S) (length S - p) m0 = (Inr n, m')"
    and "skips (md_src_filter d) m'"
  shows "delivers S p m d out"
  using assms(1-4) stream_next.skip [OF assms(5-8)]
  by (fastforce simp: delivers_def split: prod.splits)

text \<open>The loop forgets the last message first; what it does then is a round of \<open>try_again\<close> on \<open>forget d\<close>.\<close>

abbreviation forget :: "nexusrv_msg_decoder \<Rightarrow> nexusrv_msg_decoder" where
  "forget d \<equiv> d\<lparr>md_lastmsg_len := 0\<rparr>"

lemma forget_same:
  "at_pos (forget d) = at_pos d" "at_front (forget d) = at_front d"
  by (simp_all add: at_pos_def at_front_def)

lemma stop_delivers:
  assumes "reads_file S (forget d)" "e \<in> Code ` decoder_errors" "e \<noteq> Code nexus_buffer_too_small"
    and "stream_next (md_cfg d) (md_src_filter d) S (at_pos d) m (Inl e) (at_pos d) k"
  shows "delivers S (at_pos d) m d (Inl e, forget d, k)"
  using assms no_last_ok [OF assms(1)] by (simp add: delivers_def forget_same)

lemma refill_delivers:
  assumes R: "reads_file S (forget d)"
    and go: "md_filled d = md_bufsz d \<and> 0 < md_pos d \<and> md_pos d < md_bufsz d \<or> md_pos d = 0 \<and> md_filled d = 0"
    and round: "try_again d m0 = after_refill (read_buffer (forget d)) k"
    and k: "attempt (md_cfg d) (drop (at_pos d) S) m k"
    and eof: "at_pos d = length S \<Longrightarrow> k = m"
    and again: "\<And>d'. try_again d m0 = Again d' k \<Longrightarrow> reads_file S d' \<Longrightarrow> at_front d' \<Longrightarrow>
      attempt (md_cfg d') (drop (at_pos d') S) m k \<Longrightarrow> delivers S (at_pos d') m d' (decoder_loop d' k)"
  shows "delivers S (at_pos d) m d (decoder_loop d m0)"
proof -
  from go have go': "md_filled (forget d) = md_bufsz (forget d) \<and> 0 < md_pos (forget d) \<and>
      md_pos (forget d) < md_bufsz (forget d) \<or> md_pos (forget d) = 0 \<and> md_filled (forget d) = 0" by simp
  obtain b d' where rb: "read_buffer (forget d) = (Inr b, d')" "reads_file S d'" "at_pos d' = at_pos d"
    "md_lastmsg_len d' = 0" "md_src_filter d' = md_src_filter d" "md_cfg d' = md_cfg d"
    "\<not> b \<Longrightarrow> at_pos d = length S" "md_bufsz d' = md_bufsz d"
    by (rule read_buffer_ok [OF R go']) (simp add: forget_same)
  show ?thesis
  proof (cases b)
    case True
    with rb(1) have "at_front d'" using read_buffer_backlog [of "forget d" d'] by simp
    with again [of d'] round rb(1,2,3,6) True k
    have "delivers S (at_pos d) m d' (decoder_loop d' k)" by (simp add: after_refill_def)
    moreover have "decoder_loop d m0 = decoder_loop d' k"
      using round rb(1) True by (simp add: decoder_loop.simps [of d] after_refill_def)
    ultimately show ?thesis using rb by (simp add: delivers_def)
  next
    case False
    then have "decoder_loop d m0 = (Inr 0, d', k)"
      using round rb(1) by (simp add: decoder_loop.simps [of d] after_refill_def)
    with False rb eof show ?thesis by (auto simp: delivers_def no_last_ok intro: at_eof)
  qed
qed

lemma decoded_delivers:
  assumes R: "reads_file S (forget d)" and left: "md_pos d \<noteq> md_filled d" and lt: "at_pos d < length S"
    and dec: "nexusrv_msg_decode (md_cfg d) (drop (md_pos d) (md_buffer d)) (md_filled d - md_pos d) m0 = (Inr n, m1)"
    and within: "n \<le> md_filled d - md_pos d"
    and whole: "nexusrv_msg_decode (md_cfg d) (drop (at_pos d) S) (length S - at_pos d) m0 = (Inr n, m1)"
    and att: "attempt (md_cfg d) (drop (at_pos d) S) m m0"
    and again: "\<And>d'. try_again d m0 = Again d' m1 \<Longrightarrow> reads_file S d' \<Longrightarrow>
      delivers S (at_pos d') m1 d' (decoder_loop d' m1)"
  shows "delivers S (at_pos d) m d (decoder_loop d m0)"
proof -
  let ?a = "advance n (forget d)"
  from decode_progress dec have n0: "0 < n" by blast
  have adv: "reads_file S ?a" "at_pos ?a = at_pos d + n"
    using advance_ok [OF R n0] within by (simp_all add: forget_same)
  note adv_ok = advance_ok [OF R n0]
  have cfgs: "md_cfg ?a = md_cfg d" "md_src_filter ?a = md_src_filter d" "md_bufsz ?a = md_bufsz d"
    by (simp_all add: advance_def Let_def)
  have round: "try_again d m0 = (if skips (md_src_filter d) m1 then Again ?a m1 else Return (Inr n) ?a m1)"
    using left dec cfgs by (simp add: try_again_def filtered_def skips_def Let_def)
  show ?thesis
  proof (cases "skips (md_src_filter d) m1")
    case True
    with again [of ?a] round adv
    have "delivers S (at_pos d + n) m1 ?a (decoder_loop ?a m1)" by simp
    from delivers_skip [OF this cfgs _ _ whole True, of m] lt att
    have "delivers S (at_pos d) m d (decoder_loop ?a m1)" by simp
    with True round show ?thesis by (simp add: decoder_loop.simps [of d])
  next
    case False
    with round have "decoder_loop d m0 = (Inr n, ?a, m1)" by (simp add: decoder_loop.simps [of d])
    with False adv_ok within cfgs lt att whole show ?thesis
      by (auto simp: delivers_def stream_ok_def forget_same intro: deliver)
  qed
qed

lemma window_at:
  assumes R: "reads_file S (forget d)" and left: "md_pos d \<noteq> md_filled d"
  shows "0 < md_filled d - md_pos d" "at_pos d < length S"
    "md_filled d - md_pos d \<le> length (drop (md_pos d) (md_buffer d))"
    "6 * length (drop (md_pos d) (md_buffer d)) < 4294967296"
  using assms reads_file_window(1) [OF R] by (auto simp: reads_file_def sized_def forget_same)

lemma refused_delivers:
  assumes R: "reads_file S (forget d)" and left: "md_pos d \<noteq> md_filled d"
    and dec: "nexusrv_msg_decode (md_cfg d) (drop (md_pos d) (md_buffer d)) (md_filled d - md_pos d) m0 = (Inl e, m1)"
    and att: "attempt (md_cfg d) (drop (at_pos d) S) m m0" and m0: "m0 = m \<or> at_front d"
    and again: "\<And>d'. try_again d m0 = Again d' m1 \<Longrightarrow> reads_file S d' \<Longrightarrow> at_front d' \<Longrightarrow>
      attempt (md_cfg d') (drop (at_pos d') S) m m1 \<Longrightarrow> delivers S (at_pos d') m d' (decoder_loop d' m1)"
  shows "delivers S (at_pos d) m d (decoder_loop d m0)"
proof -
  note at = window_at [OF R left]
  have dec': "nexusrv_msg_decode (md_cfg (forget d)) (drop (md_pos (forget d)) (md_buffer (forget d)))
      (md_filled (forget d) - md_pos (forget d)) m0 = (Inl e, m1)" using dec by simp
  note inS = decode_in_file [OF R dec', unfolded forget_same, simplified]
  consider (err) "e \<noteq> Code nexus_stream_truncate \<or> md_filled d < md_bufsz d"
    | (small) "e = Code nexus_stream_truncate" "md_filled d = md_bufsz d" "md_pos d = 0"
    | (more) "e = Code nexus_stream_truncate" "md_filled d = md_bufsz d" "0 < md_pos d"
    using R by (fastforce simp: reads_file_def sized_def)
  then show ?thesis
  proof cases
    case err
    with R at have "Inl e \<noteq> Inl (Code nexus_stream_truncate) \<or> fd_bytes (md_fd d) = []"
      by (auto simp: reads_file_def sized_def)
    with inS(2) have "nexusrv_msg_decode (md_cfg d) (drop (at_pos d) S) (length S - at_pos d) m0 = (Inl e, m1)"
      by auto
    from refuse [OF at(2) att this]
    have "stream_next (md_cfg d) (md_src_filter d) S (at_pos d) m (Inl e) (at_pos d) m1" .
    moreover have "decoder_loop d m0 = (Inl e, forget d, m1)"
      using left dec err by (auto simp: decoder_loop.simps [of d] try_again_def Let_def)
    moreover have "e \<in> Code ` decoder_errors" "e \<noteq> Code nexus_buffer_too_small"
      using decode_safe_aux [OF at(3,4)] dec by (auto simp: dec_error_def decoder_errors_def)
    ultimately show ?thesis using stop_delivers [OF R] by simp
  next
    case small
    with left dec have "decoder_loop d m0 = (Inl (Code nexus_buffer_too_small), forget d, m1)"
      by (simp add: decoder_loop.simps [of d] try_again_def Let_def)
    with window_without_end [OF R] dec small no_last_ok [OF R] show ?thesis
      by (simp add: delivers_def decoder_errors_def forget_same)
  next
    case more
    with left dec have "try_again d m0 = after_refill (read_buffer (forget d)) m1"
      by (simp add: try_again_def Let_def)
    moreover have "m0 = m" using more(3) m0 by (auto simp: at_front_def)
    then have "attempt (md_cfg d) (drop (at_pos d) S) m m1"
      using inS(1) more(1) reads_file_window(1) [OF R] unfolding attempt_def forget_same by (auto intro!: disjI2)
    ultimately show ?thesis using more at left R
      by (intro refill_delivers [OF R _ _ _ _ again]) (auto simp: reads_file_def sized_def)
  qed
qed

lemma decoder_loop_delivers:
  assumes "reads_file S d"
    and "m0 = m \<or> at_front d \<and> attempt (md_cfg d) (drop (at_pos d) S) m m0"
  shows "delivers S (at_pos d) m d (decoder_loop d m0)"
  using assms
proof (induction d m0 arbitrary: m rule: decoder_loop.induct)
  case (1 d m0)
  have R: "reads_file S (forget d)" using "1.prems"(1) by (simp add: reads_file_forget)
  have refilled: "delivers S (at_pos d') m d' (decoder_loop d' k)"
    if "try_again d m0 = Again d' k" "reads_file S d'" "at_front d'" "attempt (md_cfg d') (drop (at_pos d') S) m k" for d' k
    using "1.IH" that by blast
  show ?case
  proof (cases "md_pos d = md_filled d")
    case True
    with "1.prems"(2) have m: "m0 = m" by (auto simp: at_front_def)
    show ?thesis
    proof (cases "md_pos d = 0")
      case z: True
      with True have "try_again d m0 = after_refill (read_buffer (forget d)) m0" by (simp add: try_again_def)
      with z True m show ?thesis by (intro refill_delivers [OF R _ _ _ _ refilled]) (auto simp: attempt_def)
    next
      case False
      with True have "decoder_loop d m0 = (Inr 0, forget d, m0)" by (simp add: decoder_loop.simps [of d] try_again_def)
      with False True m no_last_ok [OF R] at_end_of_file [OF R] show ?thesis
        by (auto simp: delivers_def forget_same intro: at_eof)
    qed
  next
    case False
    obtain r m1 where dec: "nexusrv_msg_decode (md_cfg d) (drop (md_pos d) (md_buffer d))
        (md_filled d - md_pos d) m0 = (r, m1)" by fastforce
    have att: "attempt (md_cfg d) (drop (at_pos d) S) m m0" using "1.prems"(2) by (auto simp: attempt_def)
    show ?thesis
    proof (cases r)
      case (Inr n)
      note at = window_at [OF R False]
      have "n \<le> md_filled d - md_pos d"
        using sync_forward_within [OF at(3) decode_frames_aux [OF at(3,4)]] dec Inr by blast
      moreover have "nexusrv_msg_decode (md_cfg d) (drop (at_pos d) S) (length S - at_pos d) m0 = (Inr n, m1)"
        using decode_in_file(2) [OF R] dec Inr by (simp add: forget_same)
      ultimately show ?thesis using "1.IH" dec Inr att
        by (intro decoded_delivers [OF R False at(2)]) auto
    next
      case (Inl e)
      with dec "1.prems"(2) att show ?thesis by (intro refused_delivers [OF R False _ _ _ refilled]) auto
    qed
  qed
qed

section \<open>The interface of a stream that can be rewound\<close>

text \<open>
  What a client of the stream decoder relies on: a call keeps the state sound, moves forward
  and remembers what it delivered; going back forgets exactly that, once.
\<close>

locale rewindable =
  fixes ok :: "'s \<Rightarrow> bool"
    and at :: "'s \<Rightarrow> nat"
    and len :: "'s \<Rightarrow> nat"
    and nxt :: "'s \<Rightarrow> 'm \<Rightarrow> nat result \<times> 's \<times> 'm"
    and rewind :: "'s \<Rightarrow> 's result"
  assumes nxt_ok: "ok s \<Longrightarrow> nxt s m = (r, s', m') \<Longrightarrow> ok s' \<and> len s' = (case r of Inr n \<Rightarrow> n | Inl e \<Rightarrow> 0)"
    and nxt_moves: "ok s \<Longrightarrow> nxt s m = (r, s', m') \<Longrightarrow> at s + len s' \<le> at s'"
    and nxt_clean: "ok s \<Longrightarrow> nxt s m = (Inl e, s', m') \<Longrightarrow> clean e"
    and rewind_ok: "ok s \<Longrightarrow> \<exists>s'. rewind s = Inr s' \<and> ok s' \<and> at s' = at s - len s \<and> len s' = 0"
begin

lemma unread:
  assumes "ok s" and "nxt s m = (r, s', m')"
  shows "\<exists>s''. rewind s' = Inr s'' \<and> ok s'' \<and> at s \<le> at s'' \<and> len s'' = 0 \<and>
    (\<forall>n. r = Inr n \<longrightarrow> at s' = at s'' + n)"
proof -
  from nxt_ok [OF assms] have ok': "ok s'" "len s' = (case r of Inr n \<Rightarrow> n | Inl e \<Rightarrow> 0)" by simp_all
  from rewind_ok [OF ok'(1)] nxt_moves [OF assms] ok'(2) show ?thesis by auto
qed

lemma rewind_idle: "ok s \<Longrightarrow> len s = 0 \<Longrightarrow> rewind s = Inr s' \<Longrightarrow> at s' = at s"
  using rewind_ok [of s] by auto

text \<open>Any sequence of calls: \<open>True\<close> decodes the next message, \<open>False\<close> goes back.\<close>

primrec calls :: "bool list \<Rightarrow> 's \<Rightarrow> 'm \<Rightarrow> ('s \<times> 'm) result" where
  "calls [] s m = Inr (s, m)"
| "calls (b # bs) s m =
     (if b then (case nxt s m of (r, s', m') \<Rightarrow>
          if r = Inl Abort \<or> r = Inl Undef then Inl Abort else calls bs s' m')
      else (case rewind s of Inl e \<Rightarrow> Inl e | Inr s' \<Rightarrow> calls bs s' m))"

lemma calls_never_fail:
  "ok s \<Longrightarrow> \<exists>s' m'. calls bs s m = Inr (s', m') \<and> ok s'"
proof (induction bs arbitrary: s m)
  case (Cons b bs)
  show ?case
  proof (cases b)
    case True
    obtain r s' m' where run: "nxt s m = (r, s', m')" by (metis surj_pair)
    with nxt_clean [OF Cons.prems] have "r \<noteq> Inl Abort \<and> r \<noteq> Inl Undef" by force
    with True run Cons.IH nxt_ok [OF Cons.prems run] show ?thesis by auto
  next
    case False
    with rewind_ok [OF Cons.prems] Cons.IH show ?thesis by auto
  qed
qed simp

end

section \<open>The stream decoder provides it\<close>

lemma decoder_next_delivers:
  assumes "stream_ok S d"
  shows "delivers S (at_pos d) m d (nexusrv_msg_decoder_next d m)"
  using assms decoder_loop_delivers [of S d m m]
  by (auto simp: nexusrv_msg_decoder_next_def stream_ok_def reads_file_def sized_def)

lemma stream_next_moves: "stream_next cfg flt S p m r q m' \<Longrightarrow> r = Inr n \<Longrightarrow> p + n \<le> q"
  by (induction rule: stream_next.induct) auto

lemma stream_next_moves_error: "stream_next cfg flt S p m r q m' \<Longrightarrow> p \<le> q"
  by (induction rule: stream_next.induct) auto

lemma decoder_rewind:
  assumes ok: "stream_ok S d"
  shows "\<exists>d'. nexusrv_msg_decoder_rewind_last d = Inr d' \<and> stream_ok S d' \<and>
    at_pos d' = at_pos d - md_lastmsg_len d \<and> md_lastmsg_len d' = 0"
proof (cases "md_lastmsg_len d = 0")
  case True
  with ok show ?thesis
    by (auto simp: nexusrv_msg_decoder_rewind_last_def stream_ok_def reads_file_def sized_def)
next
  case False
  define n where "n = md_lastmsg_len d"
  from ok have R: "reads_file S d" by (simp add: stream_ok_def)
  from ok False have L: "n \<le> last_end d" "n \<le> at_pos d" "md_pos d < md_bufsz d" "0 < n"
    "md_pos d = 0 \<Longrightarrow> md_filled d = 0 \<and> md_bufsz d \<le> md_nread d"
    "take n (drop (last_end d - n) (md_buffer d)) = take n (drop (at_pos d - n) S)"
    by (auto simp: stream_ok_def keeps_last_def n_def)
  from R have z: "length (md_buffer d) = md_bufsz d" "0 < md_bufsz d" "6 * md_bufsz d < 4294967296"
    "md_pos d \<le> md_filled d" "md_filled d \<le> md_bufsz d" "regular (md_fd d)"
    "at_pos d \<le> length S" "drop (at_pos d) S = remaining d"
    "md_filled d < md_bufsz d \<Longrightarrow> fd_bytes (md_fd d) = [] \<or> md_filled d = 0"
    by (auto simp: reads_file_def sized_def)
  define fl where "fl = (if md_pos d = 0 then md_bufsz d else md_filled d)"
  define nr where "nr = (if md_pos d = 0 then md_nread d - md_bufsz d else md_nread d)"
  define d' where "d' = d\<lparr>md_filled := fl, md_nread := nr, md_pos := last_end d - n, md_lastmsg_len := 0\<rparr>"
  have run: "nexusrv_msg_decoder_rewind_last d = Inr d'"
    using L z(4,5) False
    by (cases "md_pos d = 0") (auto simp: nexusrv_msg_decoder_rewind_last_def d'_def fl_def nr_def last_end_def n_def Let_def)
  have at0: "at_pos d = nr + last_end d"
    using L(3,5) z(2) by (auto simp: at_pos_def nr_def last_end_def)
  have e: "last_end d \<le> fl" "fl \<le> md_bufsz d" "last_end d - n < md_bufsz d"
    using L z by (auto simp: last_end_def fl_def)
  then have at': "at_pos d' = at_pos d - n" using at0 L(1) by (simp add: at_pos_def d'_def)
  have tail: "remaining d = take (fl - last_end d) (drop (last_end d) (md_buffer d)) @ fd_bytes (md_fd d)"
    using L(5) by (auto simp: remaining_def fl_def last_end_def)
  have "drop (at_pos d - n) S = take n (drop (at_pos d - n) S) @ drop (at_pos d) S"
    using L(2) append_take_drop_id [of n "drop (at_pos d - n) S"] by (simp add: add.commute)
  also have "\<dots> = take n (drop (last_end d - n) (md_buffer d)) @
      take (fl - last_end d) (drop (last_end d) (md_buffer d)) @ fd_bytes (md_fd d)"
    by (simp only: L(6) z(8) tail)
  also have "\<dots> = remaining d'"
    using L(1) e take_add [of n "fl - last_end d" "drop (last_end d - n) (md_buffer d)"]
    by (simp add: remaining_def d'_def add.commute)
  finally have "reads_file S d'"
    unfolding reads_file_def [of S d'] at' using e z L(5)
    by (auto simp: sized_def d'_def fl_def)
  with run at' show ?thesis by (auto simp: n_def no_last_ok d'_def)
qed

interpretation file_stream: rewindable "stream_ok S" at_pos md_lastmsg_len
  nexusrv_msg_decoder_next nexusrv_msg_decoder_rewind_last
proof unfold_locales
  fix d :: nexusrv_msg_decoder and m r d' m'
  assume ok: "stream_ok S d" and run: "nexusrv_msg_decoder_next d m = (r, d', m')"
  note del = decoder_next_delivers [OF ok, of m, unfolded run]
  from del show "stream_ok S d' \<and> md_lastmsg_len d' = (case r of Inr n \<Rightarrow> n | Inl e \<Rightarrow> 0)"
    by (simp add: delivers_def)
  from del show "at_pos d + md_lastmsg_len d' \<le> at_pos d'"
    by (cases r) (auto simp: delivers_def dest: stream_next_moves stream_next_moves_error)
next
  fix d :: nexusrv_msg_decoder and m e d' m'
  assume ok: "stream_ok S d" and run: "nexusrv_msg_decoder_next d m = (Inl e, d', m')"
  from decoder_next_delivers [OF ok, of m, unfolded run] show "clean e"
    by (auto simp: delivers_def)
next
  fix d :: nexusrv_msg_decoder
  assume "stream_ok S d"
  then show "\<exists>d'. nexusrv_msg_decoder_rewind_last d = Inr d' \<and> stream_ok S d' \<and>
      at_pos d' = at_pos d - md_lastmsg_len d \<and> md_lastmsg_len d' = 0"
    by (rule decoder_rewind)
qed

text \<open>\<^verbatim>\<open>nexusrv_msg_decoder_lastmsg\<close> points to the bytes the message has in the file.\<close>

lemma lastmsg_bytes:
  assumes "stream_ok S d"
  shows "\<exists>i. nexusrv_msg_decoder_lastmsg d = Inr i \<and>
      (case i of None \<Rightarrow> md_lastmsg_len d = 0
       | Some k \<Rightarrow> 0 < md_lastmsg_len d \<and> k + md_lastmsg_len d \<le> length (md_buffer d) \<and>
           take (md_lastmsg_len d) (drop k (md_buffer d)) =
           take (md_lastmsg_len d) (drop (nexusrv_msg_decoder_offset d) S))"
proof -
  have off: "nexusrv_msg_decoder_offset d = at_pos d - md_lastmsg_len d"
    by (simp add: nexusrv_msg_decoder_offset_def at_pos_def)
  show ?thesis
    unfolding off using assms
    by (cases "md_lastmsg_len d = 0"; cases "md_pos d = 0")
      (auto simp: nexusrv_msg_decoder_lastmsg_def stream_ok_def reads_file_def sized_def keeps_last_def last_end_def)
qed

section \<open>Properties of the stream decoder\<close>

text \<open>
  C2. The stream decoder refines decoding the file as a whole. From any state that stands for a
  position of a regular file, \<^verbatim>\<open>nexusrv_msg_decoder_next\<close> returns what decoding the file in
  memory from that position returns, whatever the size of the buffer and however many refills
  that takes: the next message with a source that passes the filter, the end of the file, or
  the error of the first message that is not well formed; and the new state stands for the new
  position. The one other outcome is that the buffer is too small.
\<close>

theorem decoder_next_refines:
  assumes "stream_ok S d" and "nexusrv_msg_decoder_next d m = (r, d', m')"
    and "r \<noteq> Inl (Code nexus_buffer_too_small)"
  shows "stream_next (md_cfg d) (md_src_filter d) S (at_pos d) m r (at_pos d') m' \<and> stream_ok S d' \<and>
    (\<forall>n. r = Inr n \<longrightarrow> nexusrv_msg_decoder_offset d' + n = at_pos d')"
proof -
  note del = decoder_next_delivers [OF assms(1), of m, unfolded assms(2)]
  then have "md_lastmsg_len d' \<le> at_pos d'" by (auto simp: delivers_def stream_ok_def keeps_last_def)
  moreover have "nexusrv_msg_decoder_offset d' = at_pos d' - md_lastmsg_len d'"
    by (simp add: nexusrv_msg_decoder_offset_def at_pos_def)
  ultimately show ?thesis using del assms(3) by (auto simp: delivers_def)
qed

definition wit_dec :: nexusrv_msg_decoder where
  "wit_dec = nexusrv_msg_decoder_init wit_cfg [Data [0xFC, 0xFF, 0xFC, 0x03, 0xFF]] (- 1) (replicate 3 0) 3"

definition wit_file :: "u8 list" where
  "wit_file = [0xFC, 0xFF, 0xFC, 0x03, 0xFF]"

lemma wit_dec_ok: "stream_ok wit_file wit_dec"
  using init_stream_ok [of "[Data wit_file]" "replicate 3 0" 3 wit_cfg "- 1"]
  by (simp add: wit_dec_def wit_file_def regular_def)

theorem decoder_next_refines_witness:
  "\<exists>d' m'. nexusrv_msg_decoder_next wit_dec wit_msg = (Inr 2, d', m') \<and>
     stream_next (md_cfg wit_dec) (md_src_filter wit_dec) wit_file (at_pos wit_dec) wit_msg
       (Inr 2) (at_pos d') m' \<and> stream_ok wit_file d' \<and>
     (\<forall>n. Inr 2 = (Inr n :: nat result) \<longrightarrow> nexusrv_msg_decoder_offset d' + n = at_pos d')"
proof -
  have "fst (nexusrv_msg_decoder_next wit_dec wit_msg) = Inr 2" by code_simp
  then obtain d' m' where run: "nexusrv_msg_decoder_next wit_dec wit_msg = (Inr 2, d', m')"
    by (metis prod.exhaust_sel)
  from run decoder_next_refines [OF wit_dec_ok run] show ?thesis by blast
qed

text \<open>
  C19. The errors of a call, and when the buffer is too small. On a regular file a call fails
  with one of five codes, never on an assertion, a read failure or an access outside of the
  buffer; and it does not find the buffer too small if every stretch of the file of the size of
  the buffer holds an end of a message, so if no message is longer than the buffer.
\<close>

theorem decoder_next_errors:
  assumes "stream_ok S d" and "nexusrv_msg_decoder_next d m = (Inl e, d', m')"
  shows "e \<in> {Code nexus_stream_bad_mseo, Code nexus_stream_truncate, Code nexus_msg_missing_field,
      Code nexus_msg_invalid, Code nexus_buffer_too_small} \<and>
    ((\<forall>p. p + md_bufsz d \<le> length S \<longrightarrow> (\<exists>i < md_bufsz d. mseo (S ! (p + i)) = 3)) \<longrightarrow>
      e \<noteq> Code nexus_buffer_too_small)"
proof -
  from decoder_next_delivers [OF assms(1), of m, unfolded assms(2)]
  have e: "e \<in> Code ` decoder_errors" and bad: "e = Code nexus_buffer_too_small \<Longrightarrow>
      md_bufsz d' = md_bufsz d \<and> md_bufsz d \<le> length S - at_pos d' \<and> stream_ok S d' \<and>
      (\<forall>i < md_bufsz d. mseo (S ! (at_pos d' + i)) \<noteq> 3)"
    by (auto simp: delivers_def)
  have False if "e = Code nexus_buffer_too_small"
    "\<forall>p. p + md_bufsz d \<le> length S \<longrightarrow> (\<exists>i < md_bufsz d. mseo (S ! (p + i)) = 3)"
  proof -
    from bad [OF that(1)] have "at_pos d' + md_bufsz d \<le> length S"
      by (auto simp: stream_ok_def reads_file_def sized_def)
    with that(2) bad [OF that(1)] show False by blast
  qed
  with e show ?thesis by (auto simp: decoder_errors_def)
qed

definition wit_bad :: nexusrv_msg_decoder where
  "wit_bad = nexusrv_msg_decoder_init wit_cfg [Data [3, 3, 3]] (- 1) (replicate 3 0) 3"

theorem decoder_next_errors_witness:
  "\<exists>e d' m'. nexusrv_msg_decoder_next wit_bad wit_msg = (Inl e, d', m') \<and>
    e \<in> {Code nexus_stream_bad_mseo, Code nexus_stream_truncate, Code nexus_msg_missing_field,
      Code nexus_msg_invalid, Code nexus_buffer_too_small} \<and>
    ((\<forall>p. p + md_bufsz wit_bad \<le> length [3, 3, 3 :: u8] \<longrightarrow>
        (\<exists>i < md_bufsz wit_bad. mseo ([3, 3, 3] ! (p + i)) = 3)) \<longrightarrow> e \<noteq> Code nexus_buffer_too_small)"
proof -
  have ok: "stream_ok [3, 3, 3] wit_bad"
    using init_stream_ok [of "[Data [3, 3, 3]]" "replicate 3 0" 3 wit_cfg "- 1"]
    by (simp add: wit_bad_def regular_def)
  have "fst (nexusrv_msg_decoder_next wit_bad wit_msg) = Inl (Code nexus_msg_missing_field)" by code_simp
  then obtain d' m' where run:
      "nexusrv_msg_decoder_next wit_bad wit_msg = (Inl (Code nexus_msg_missing_field), d', m')"
    by (metis prod.exhaust_sel)
  from run decoder_next_errors [OF ok run] show ?thesis by blast
qed

text \<open>
  C16. Rewinding. After any call in any state that stands for a position of a file,
  \<^verbatim>\<open>nexusrv_msg_decoder_rewind_last\<close> passes its assertions and goes back exactly to the offset
  of the last message, also where the buffer was refilled or emptied in between; a second call
  changes nothing. \<^verbatim>\<open>nexusrv_msg_decoder_lastmsg\<close> points to the bytes the message has in the file.
\<close>

theorem rewind_restores:
  assumes "stream_ok S d"
  shows "\<exists>d'. nexusrv_msg_decoder_rewind_last d = Inr d' \<and> stream_ok S d' \<and>
    at_pos d' = nexusrv_msg_decoder_offset d \<and> nexusrv_msg_decoder_offset d' = at_pos d' \<and>
    nexusrv_msg_decoder_rewind_last d' = Inr d' \<and>
    (\<exists>i. nexusrv_msg_decoder_lastmsg d = Inr i \<and>
      (case i of None \<Rightarrow> md_lastmsg_len d = 0
       | Some k \<Rightarrow> 0 < md_lastmsg_len d \<and> k + md_lastmsg_len d \<le> length (md_buffer d) \<and>
           take (md_lastmsg_len d) (drop k (md_buffer d)) =
           take (md_lastmsg_len d) (drop (nexusrv_msg_decoder_offset d) S)))"
proof -
  have off: "nexusrv_msg_decoder_offset x = at_pos x - md_lastmsg_len x" for x
    by (simp add: nexusrv_msg_decoder_offset_def at_pos_def)
  from file_stream.rewind_ok [OF assms] obtain d' where d': "nexusrv_msg_decoder_rewind_last d = Inr d'"
    "stream_ok S d'" "at_pos d' = at_pos d - md_lastmsg_len d" "md_lastmsg_len d' = 0" by blast
  then have again: "nexusrv_msg_decoder_rewind_last d' = Inr d'"
    by (auto simp: nexusrv_msg_decoder_rewind_last_def stream_ok_def reads_file_def sized_def)
  from d' again off [of d'] off [of d] lastmsg_bytes [OF assms] show ?thesis by auto
qed

theorem rewind_restores_witness:
  "\<exists>d'. nexusrv_msg_decoder_rewind_last wit_dec = Inr d' \<and> stream_ok wit_file d' \<and>
    at_pos d' = nexusrv_msg_decoder_offset wit_dec \<and> nexusrv_msg_decoder_offset d' = at_pos d' \<and>
    nexusrv_msg_decoder_rewind_last d' = Inr d' \<and>
    (\<exists>i. nexusrv_msg_decoder_lastmsg wit_dec = Inr i \<and>
      (case i of None \<Rightarrow> md_lastmsg_len wit_dec = 0
       | Some k \<Rightarrow> 0 < md_lastmsg_len wit_dec \<and> k + md_lastmsg_len wit_dec \<le> length (md_buffer wit_dec) \<and>
           take (md_lastmsg_len wit_dec) (drop k (md_buffer wit_dec)) =
           take (md_lastmsg_len wit_dec) (drop (nexusrv_msg_decoder_offset wit_dec) wit_file)))"
  by (rule rewind_restores [OF wit_dec_ok])

text \<open>
  C17. Any sequence of calls of \<^verbatim>\<open>nexusrv_msg_decoder_next\<close> and
  \<^verbatim>\<open>nexusrv_msg_decoder_rewind_last\<close> on a regular file, in any order and across errors and the
  end of the file, runs without a failed assertion and ends in a state that stands for a
  position of the file.
\<close>

theorem decoder_calls_safe:
  assumes "stream_ok S d"
  shows "\<exists>d' m'. rewindable.calls nexusrv_msg_decoder_next nexusrv_msg_decoder_rewind_last ops d m =
    Inr (d', m') \<and> stream_ok S d'"
  by (rule file_stream.calls_never_fail [OF assms])

theorem decoder_calls_safe_witness:
  "\<exists>d' m'. rewindable.calls nexusrv_msg_decoder_next nexusrv_msg_decoder_rewind_last
     [True, False, False, True, True, True] wit_dec wit_msg = Inr (d', m') \<and> stream_ok wit_file d'"
  by (rule decoder_calls_safe [OF wit_dec_ok])

text \<open>
  A short read, as from a pipe or a terminal, is taken for the end of the file: the first
  call fills the buffer with the one byte that is there, and the next call reports the end
  although two more messages follow. The same bytes as one piece give three messages.
\<close>

theorem short_read_ends_stream:
  "let start = (\<lambda>fd. nexusrv_msg_decoder_init wit_cfg fd (- 1) (replicate 4 0) 4);
       run = (\<lambda>fd. case nexusrv_msg_decoder_next (start fd) wit_msg of (r1, d1, m1) \<Rightarrow>
         case nexusrv_msg_decoder_next d1 m1 of (r2, d2, m2) \<Rightarrow> (r1, r2, length (fd_bytes (md_fd d2))))
   in run [Data [0xFF], Data [0xFF, 0xFF]] = (Inr 1, Inr 0, 2) \<and>
      run [Data [0xFF, 0xFF, 0xFF]] = (Inr 1, Inr 1, 0)"
  by code_simp

text \<open>
  An idle message carries no source, and the decoder leaves the field of the caller's
  message alone, so whether an idle message passes the filter depends on what the caller's
  message held before: with source 1 the idle message is delivered, with source 2 it is
  skipped, although file, filter and decoder are the same.
\<close>

theorem idle_filter_reads_stale_source:
  "let d = nexusrv_msg_decoder_init wit_cfg [Data [0xFF]] 1 (replicate 4 0) 4
   in fst (nexusrv_msg_decoder_next d (set_src 1 wit_msg)) = Inr 1 \<and>
      fst (nexusrv_msg_decoder_next d (set_src 2 wit_msg)) = Inr 0"
  by code_simp

section \<open>Calls come to an end\<close>

text \<open>Calls in a row that each deliver a message, with the lengths of the messages.\<close>

inductive deliveries :: "nexusrv_msg_decoder \<Rightarrow> nat list \<Rightarrow> nexusrv_msg_decoder \<Rightarrow> bool" where
  Done: "deliveries d [] d"
| Call: "nexusrv_msg_decoder_next d m = (Inr n, d1, m1) \<Longrightarrow> n \<noteq> 0 \<Longrightarrow> deliveries d1 ns d2 \<Longrightarrow> deliveries d (n # ns) d2"

lemma no_endless_deliveries:
  "wf {(d', d). \<exists>m n m'. nexusrv_msg_decoder_next d m = (Inr n, d', m') \<and> n \<noteq> 0}"
  by (rule wf_subset [OF wf_measure [of backlog]]) (auto dest: decoder_next_shrinks)

text \<open>
  C18. Reading comes to an end. Whatever the state, the source filter and the contents of the messages the caller passes, calls that
  each deliver a message use up the bytes that are left in the buffer and in the file: their number and the sum of
  their lengths are bounded by them. No sequence of such calls goes on forever; after it an error or the end of the file
  is reported.
\<close>

theorem stream_terminates:
  assumes "deliveries d ns d'"
  shows "sum_list ns + backlog d' \<le> backlog d \<and> length ns \<le> sum_list ns \<and>
    (\<nexists>f. f 0 = d' \<and> (\<forall>i. \<exists>m n m'. nexusrv_msg_decoder_next (f i) m = (Inr (Suc n), f (Suc i), m')))"
proof -
  have "sum_list ns + backlog d' \<le> backlog d \<and> length ns \<le> sum_list ns"
    using assms
  proof induction
    case (Call d m n d1 m1 ns d2)
    from decoder_next_shrinks [OF Call.hyps(1)] Call.IH Call.hyps(2) show ?case by auto
  qed simp
  moreover have "\<nexists>f. f 0 = d' \<and> (\<forall>i. \<exists>m n m'. nexusrv_msg_decoder_next (f i) m = (Inr (Suc n), f (Suc i), m'))"
    using no_endless_deliveries unfolding wf_iff_no_infinite_down_chain by blast
  ultimately show ?thesis by blast
qed

theorem stream_terminates_witness:
  "\<exists>d'. deliveries (nexusrv_msg_decoder_init wit_cfg [Data [0xFF, 0xFF, 0xFF]] (- 1) (replicate 4 0) 4) [1, 1] d' \<and>
    backlog d' + 2 \<le> backlog (nexusrv_msg_decoder_init wit_cfg [Data [0xFF, 0xFF, 0xFF]] (- 1) (replicate 4 0) 4)"
proof -
  let ?d = "nexusrv_msg_decoder_init wit_cfg [Data [0xFF, 0xFF, 0xFF]] (- 1) (replicate 4 0) 4"
  obtain r1 d1 m1 where s1: "nexusrv_msg_decoder_next ?d wit_msg = (r1, d1, m1)" by (metis prod_cases3)
  obtain r2 d2 m2 where s2: "nexusrv_msg_decoder_next d1 wit_msg = (r2, d2, m2)" by (metis prod_cases3)
  have "(case nexusrv_msg_decoder_next ?d wit_msg of (r1, d1, m1) \<Rightarrow>
      case nexusrv_msg_decoder_next d1 wit_msg of (r2, d2, m2) \<Rightarrow> r1 = Inr 1 \<and> r2 = Inr 1)" by code_simp
  with s1 s2 have r: "r1 = Inr 1" "r2 = Inr 1" by simp_all
  have "deliveries ?d [1, 1] d2"
    using deliveries.Call [OF s1 [unfolded r] _ deliveries.Call [OF s2 [unfolded r] _ deliveries.Done]] by simp
  from stream_terminates [OF this] this show ?thesis by auto
qed

end
