(* ===== verification/RetStack.thy ===== *)
theory RetStack
  imports Errors
begin

text \<open>
  The return stack of \<^verbatim>\<open>include/libnexus-rv/return-stack.h\<close>. The entries are a list of
  optional words, \<open>None\<close> for memory that \<^verbatim>\<open>malloc\<close> or \<^verbatim>\<open>realloc\<close> left uninitialised;
  \<^verbatim>\<open>size\<close> is the length the code believes the allocation has. Whether an allocation
  succeeds is an argument.
\<close>

section \<open>The code\<close>

definition NEXUS_RV_RETSTACK_DEFAULT :: u32 where "NEXUS_RV_RETSTACK_DEFAULT = 32"

record nexusrv_return_stack =
  rs_entries :: "u64 option list"
  rs_size :: u32
  rs_max :: u32
  rs_used :: u32
  rs_end :: u32

type_synonym 'a stk = "(nexusrv_return_stack, 'a) proc"

definition nexusrv_retstack_init :: "bool \<Rightarrow> u32 \<Rightarrow> unit stk" where
  "nexusrv_retstack_init alloc mx = (\<lambda>s.
     let sz = (if mx > NEXUS_RV_RETSTACK_DEFAULT then NEXUS_RV_RETSTACK_DEFAULT else mx);
         s1 = s\<lparr>rs_end := 0, rs_used := 0, rs_max := mx, rs_size := sz, rs_entries := []\<rparr>
     in if sz = 0 then (Inr (), s1)
        else if alloc then (Inr (), s1\<lparr>rs_entries := replicate (unat sz) None\<rparr>)
        else (Inl (Code nexus_no_mem), s1))"

definition nexusrv_retstack_fini :: "nexusrv_return_stack \<Rightarrow> nexusrv_return_stack" where
  "nexusrv_retstack_fini s = s\<lparr>rs_entries := []\<rparr>"

definition nexusrv_retstack_used :: "nexusrv_return_stack \<Rightarrow> u32" where
  "nexusrv_retstack_used s = rs_used s"

definition nexusrv_retstack_clear :: "nexusrv_return_stack \<Rightarrow> nexusrv_return_stack" where
  "nexusrv_retstack_clear s = s\<lparr>rs_used := 0, rs_end := 0\<rparr>"

text \<open>\<^verbatim>\<open>realloc\<close> keeps the common part of the contents.\<close>

definition nexusrv_retstack_may_enlarge :: "bool \<Rightarrow> unit stk" where
  "nexusrv_retstack_may_enlarge alloc = (\<lambda>s.
     if rs_size s = rs_max s then (Inr (), s)
     else if rs_used s \<noteq> rs_end s then (Inl Abort, s)
     else if rs_used s \<noteq> rs_size s then (Inr (), s)
     else
       let dbl = rs_size s * 2;
           newsize = (if dbl > rs_max s then rs_max s else dbl);
           n = unat newsize
       in if \<not> alloc then (Inl (Code nexus_no_mem), s)
          else (Inr (), s\<lparr>rs_size := newsize,
                  rs_entries := take n (rs_entries s) @ replicate (n - length (rs_entries s)) None\<rparr>))"

definition nexusrv_retstack_push :: "bool \<Rightarrow> u64 \<Rightarrow> unit stk" where
  "nexusrv_retstack_push alloc addr = (\<lambda>s.
     if rs_used s = rs_max s then (Inr (), s)
     else
       thenS (nexusrv_retstack_may_enlarge alloc) (\<lambda>s1.
         let e = (if rs_end s1 = rs_size s1 then 0 else rs_end s1) in
         if unat e < length (rs_entries s1) then
           (Inr (), s1\<lparr>rs_entries := (rs_entries s1)[unat e := Some addr], rs_end := e + 1,
              rs_used := (if rs_used s1 < rs_size s1 then rs_used s1 + 1 else rs_used s1)\<rparr>)
         else (Inl Undef, s1)) s)"

definition nexusrv_retstack_pop :: "u64 stk" where
  "nexusrv_retstack_pop = (\<lambda>s.
     if rs_used s = 0 then (Inl (Code nexus_trace_retstack_empty), s)
     else if rs_end s = 0 then (Inl Abort, s)
     else
       let e = rs_end s - 1; u = rs_used s - 1 in
       if unat e < length (rs_entries s) \<and> rs_entries s ! unat e \<noteq> None then
         (Inr (the (rs_entries s ! unat e)),
          s\<lparr>rs_used := u, rs_end := (if e = 0 \<and> u \<noteq> 0 then rs_size s else e)\<rparr>)
       else (Inl Undef, s))"

section \<open>The invariant and the contents\<close>

text \<open>
  \<^verbatim>\<open>used\<close> and \<^verbatim>\<open>end\<close> agree: a push onto a full stack returns before it writes, so the
  entries never wrap around. A maximum above $2^{31}$ is excluded, since doubling the size
  would wrap.
\<close>

definition rs_ok :: "nexusrv_return_stack \<Rightarrow> bool" where
  "rs_ok s \<longleftrightarrow> rs_end s = rs_used s \<and> rs_used s \<le> rs_size s \<and> rs_size s \<le> rs_max s \<and>
     length (rs_entries s) = unat (rs_size s) \<and>
     (rs_size s = rs_max s \<or> 0 < rs_size s) \<and> rs_max s \<le> 0x80000000 \<and>
     (\<forall>i < unat (rs_used s). rs_entries s ! i \<noteq> None)"

definition rs_list :: "nexusrv_return_stack \<Rightarrow> u64 list" where
  "rs_list s = rev (map the (take (unat (rs_used s)) (rs_entries s)))"

lemma rs_init_ok:
  "nexusrv_retstack_init alloc mx s = (Inr (), t) \<Longrightarrow> mx \<le> 0x80000000 \<Longrightarrow> rs_ok t \<and> rs_list t = [] \<and> rs_max t = mx"
  by (auto simp: nexusrv_retstack_init_def rs_ok_def rs_list_def Let_def word_gt_0
      NEXUS_RV_RETSTACK_DEFAULT_def split: if_splits)

lemma rs_clear_ok: "rs_ok s \<Longrightarrow> rs_ok (nexusrv_retstack_clear s) \<and> rs_list (nexusrv_retstack_clear s) = []
    \<and> rs_max (nexusrv_retstack_clear s) = rs_max s"
  by (simp add: rs_ok_def rs_list_def nexusrv_retstack_clear_def)

lemma rs_list_length: "rs_ok s \<Longrightarrow> length (rs_list s) = unat (rs_used s)"
  by (simp add: rs_ok_def rs_list_def word_le_nat_alt)

lemma rs_enlarge_ok:
  assumes "rs_ok s" and "rs_used s \<noteq> rs_max s"
  shows "nexusrv_retstack_may_enlarge alloc s = (Inl (Code nexus_no_mem), s) \<and>
      \<not> alloc \<and> rs_used s = rs_size s \<or>
    (\<exists>t. nexusrv_retstack_may_enlarge alloc s = (Inr (), t) \<and> rs_ok t \<and> rs_list t = rs_list s \<and>
       rs_max t = rs_max s \<and> rs_used t = rs_used s \<and> rs_used t < rs_size t)"
proof (cases "rs_size s = rs_max s \<or> rs_used s \<noteq> rs_size s")
  case True
  with assms show ?thesis
    by (auto simp: nexusrv_retstack_may_enlarge_def rs_ok_def)
next
  case False
  let ?dbl = "rs_size s * 2"
  let ?new = "if ?dbl > rs_max s then rs_max s else ?dbl"
  from False have eq: "rs_used s = rs_size s" "rs_size s \<noteq> rs_max s" by simp_all
  with assms have ok: "rs_size s < rs_max s" "rs_max s \<le> 0x80000000" "0 < rs_size s"
    "rs_end s = rs_used s" "length (rs_entries s) = unat (rs_size s)"
    "\<forall>i < unat (rs_used s). rs_entries s ! i \<noteq> None"
    by (auto simp: rs_ok_def)
  have dbl: "rs_size s < ?dbl"
  proof -
    have "unat (rs_size s) < 2147483648" "0 < unat (rs_size s)"
      using ok(1-3) by (simp_all add: word_less_nat_alt word_le_nat_alt)
    then have "unat ?dbl = unat (rs_size s) * 2" by (simp add: unat_word_ariths)
    with ok(3) show ?thesis by (simp add: word_less_nat_alt)
  qed
  then have new: "rs_size s < ?new" "?new \<le> rs_max s" using ok(1) by (auto simp: not_less)
  then have le: "unat (rs_size s) \<le> unat ?new" by (simp add: word_less_nat_alt)
  let ?t = "s\<lparr>rs_size := ?new, rs_entries := take (unat ?new) (rs_entries s) @
    replicate (unat ?new - length (rs_entries s)) None\<rparr>"
  have run: "nexusrv_retstack_may_enlarge alloc s =
      (if \<not> alloc then (Inl (Code nexus_no_mem), s) else (Inr (), ?t))"
    using eq ok(4) by (simp add: nexusrv_retstack_may_enlarge_def Let_def)
  have "rs_ok ?t" "rs_list ?t = rs_list s"
    using eq new ok le by (auto simp: rs_ok_def rs_list_def nth_append simp del: word_less_1 split del: if_split)
  with run eq new show ?thesis by auto
qed

text \<open>A push onto a full stack is dropped.\<close>

lemma rs_push_cases:
  assumes ok: "rs_ok s"
  shows "rs_used s = rs_max s \<and> nexusrv_retstack_push alloc addr s = (Inr (), s) \<or>
    rs_used s \<noteq> rs_max s \<and>
      (nexusrv_retstack_push alloc addr s = (Inl (Code nexus_no_mem), s) \<and> \<not> alloc \<or>
       (\<exists>t. nexusrv_retstack_push alloc addr s = (Inr (), t) \<and> rs_ok t \<and> rs_max t = rs_max s \<and>
          rs_list t = addr # rs_list s))"
proof (cases "rs_used s = rs_max s")
  case True
  then show ?thesis by (simp add: nexusrv_retstack_push_def)
next
  case False
  from rs_enlarge_ok [OF ok False, of alloc] show ?thesis
  proof (elim disjE exE conjE)
    assume "nexusrv_retstack_may_enlarge alloc s = (Inl (Code nexus_no_mem), s)" "\<not> alloc"
    with False show ?thesis by (simp add: nexusrv_retstack_push_def thenS_def bindS_def)
  next
    fix t assume t: "nexusrv_retstack_may_enlarge alloc s = (Inr (), t)" "rs_ok t" "rs_list t = rs_list s"
      "rs_max t = rs_max s" "rs_used t = rs_used s" "rs_used t < rs_size t"
    let ?u = "t\<lparr>rs_entries := (rs_entries t)[unat (rs_used t) := Some addr], rs_end := rs_used t + 1,
       rs_used := rs_used t + 1\<rparr>"
    from t(2,6) have e: "rs_end t = rs_used t" "unat (rs_used t) < length (rs_entries t)"
      by (auto simp: rs_ok_def word_less_nat_alt)
    from t(6) have suc: "unat (rs_used t + 1) = Suc (unat (rs_used t))" "rs_used t + 1 \<le> rs_size t"
      by (unat_arith, unat_arith)
    have "nexusrv_retstack_push alloc addr s = (Inr (), ?u)"
      using False t(1,6) e less_imp_neq [OF t(6)] by (simp add: nexusrv_retstack_push_def thenS_def bindS_def Let_def)
    moreover have "rs_ok ?u"
      using t(2) e(2) suc by (auto simp: rs_ok_def nth_list_update less_Suc_eq)
    moreover have "rs_list ?u = addr # rs_list s"
      using e(2) suc(1) t(3) by (simp add: rs_list_def take_Suc_conv_app_nth)
    ultimately show ?thesis using t(4) False by auto
  qed
qed

lemma rs_pop_cases:
  assumes ok: "rs_ok s"
  shows "rs_list s = [] \<and> nexusrv_retstack_pop s = (Inl (Code nexus_trace_retstack_empty), s) \<or>
    (\<exists>t. nexusrv_retstack_pop s = (Inr (hd (rs_list s)), t) \<and> rs_ok t \<and> rs_max t = rs_max s \<and>
       rs_list s \<noteq> [] \<and> rs_list t = tl (rs_list s))"
proof (cases "rs_used s = 0")
  case True
  then show ?thesis by (simp add: nexusrv_retstack_pop_def rs_list_def)
next
  case False
  let ?e = "rs_used s - 1"
  from False have u: "unat (rs_used s) = Suc (unat ?e)" "?e \<le> rs_used s" "?e < rs_used s"
    by (unat_arith, unat_arith, unat_arith)
  from ok u(1) have len: "unat ?e < length (rs_entries s)" "rs_entries s ! unat ?e \<noteq> None"
    by (auto simp: rs_ok_def word_le_nat_alt)
  let ?t = "s\<lparr>rs_used := ?e, rs_end := ?e\<rparr>"
  have split: "rs_list s = the (rs_entries s ! unat ?e) # rs_list ?t"
    using u(1) len(1) by (simp add: rs_list_def take_Suc_conv_app_nth)
  have "nexusrv_retstack_pop s = (Inr (the (rs_entries s ! unat ?e)), ?t)"
    using False ok len by (simp add: nexusrv_retstack_pop_def rs_ok_def Let_def)
  moreover have "rs_ok ?t" using ok u by (auto simp: rs_ok_def)
  ultimately show ?thesis using split by auto
qed

section \<open>The interface of a bounded stack\<close>

text \<open>
  What the trace decoder relies on: a stack of at most \<open>cap\<close> elements that drops what does
  not fit. \<open>stack_run\<close> performs a sequence of operations and collects what the pops return;
  \<open>stack_spec\<close> is the same on a plain list.
\<close>

datatype 'a stack_op = Push 'a | Pop

fun stack_run :: "('a \<Rightarrow> ('s, unit) proc) \<Rightarrow> ('s, 'a) proc \<Rightarrow> 'a stack_op list \<Rightarrow> 's \<Rightarrow>
    'a result list \<times> 's" where
  "stack_run psh pp [] s = ([], s)"
| "stack_run psh pp (Push a # ops) s = stack_run psh pp ops (snd (psh a s))"
| "stack_run psh pp (Pop # ops) s =
     (let (r, t) = pp s; (rs, u) = stack_run psh pp ops t in (r # rs, u))"

fun stack_spec :: "nat \<Rightarrow> 'a stack_op list \<Rightarrow> 'a list \<Rightarrow> 'a result list \<times> 'a list" where
  "stack_spec cap [] xs = ([], xs)"
| "stack_spec cap (Push a # ops) xs = stack_spec cap ops (if length xs < cap then a # xs else xs)"
| "stack_spec cap (Pop # ops) xs =
     (case xs of
        [] \<Rightarrow> (let (rs, ys) = stack_spec cap ops [] in (Inl (Code nexus_trace_retstack_empty) # rs, ys))
      | x # xs' \<Rightarrow> (let (rs, ys) = stack_spec cap ops xs' in (Inr x # rs, ys)))"

locale bounded_stack =
  fixes ok :: "'s \<Rightarrow> bool" and contents :: "'s \<Rightarrow> 'a list" and cap :: "'s \<Rightarrow> nat"
    and psh :: "'a \<Rightarrow> ('s, unit) proc" and pp :: "('s, 'a) proc"
  assumes bounded: "ok s \<Longrightarrow> length (contents s) \<le> cap s"
    and psh_full: "ok s \<Longrightarrow> length (contents s) = cap s \<Longrightarrow> snd (psh a s) = s"
    and psh_room: "ok s \<Longrightarrow> length (contents s) < cap s \<Longrightarrow>
      ok (snd (psh a s)) \<and> contents (snd (psh a s)) = a # contents s \<and> cap (snd (psh a s)) = cap s"
    and pp_empty: "ok s \<Longrightarrow> contents s = [] \<Longrightarrow> pp s = (Inl (Code nexus_trace_retstack_empty), s)"
    and pp_top: "ok s \<Longrightarrow> contents s = x # xs \<Longrightarrow>
      fst (pp s) = Inr x \<and> ok (snd (pp s)) \<and> contents (snd (pp s)) = xs \<and> cap (snd (pp s)) = cap s"
begin

lemma psh_ok:
  assumes "ok s"
  shows "ok (snd (psh a s)) \<and> cap (snd (psh a s)) = cap s \<and>
    contents (snd (psh a s)) = (if length (contents s) < cap s then a # contents s else contents s)"
  using psh_full [OF assms] psh_room [OF assms] bounded [OF assms] assms
  by (cases "length (contents s) < cap s") auto

lemma psh_then_pp:
  assumes "ok s" and "length (contents s) < cap s"
  shows "fst (pp (snd (psh a s))) = Inr a \<and> contents (snd (pp (snd (psh a s)))) = contents s"
  using psh_room [OF assms] pp_top by blast

lemma refines:
  assumes "ok s"
  shows "fst (stack_run psh pp ops s) = fst (stack_spec (cap s) ops (contents s)) \<and>
    ok (snd (stack_run psh pp ops s)) \<and>
    contents (snd (stack_run psh pp ops s)) = snd (stack_spec (cap s) ops (contents s))"
  using assms
proof (induction ops arbitrary: s)
  case Nil
  then show ?case by simp
next
  case (Cons a ops)
  show ?case
  proof (cases a)
    case (Push x)
    with psh_ok [OF Cons.prems, of x] Cons.IH [of "snd (psh x s)"] show ?thesis by auto
  next
    case Pop
    show ?thesis
    proof (cases "contents s")
      case Nil
      with Pop pp_empty [OF Cons.prems] Cons.IH [OF Cons.prems] show ?thesis
        by (auto simp: Let_def split: prod.splits)
    next
      case (Cons x xs)
      with Pop pp_top [OF Cons.prems Cons] Cons.IH [of "snd (pp s)"] show ?thesis
        by (auto simp: Let_def split: prod.splits)
    qed
  qed
qed

end

lemma stack_spec_pushes:
  "length xs \<le> cap \<Longrightarrow> snd (stack_spec cap (map Push as) xs) = rev (take (cap - length xs) as) @ xs"
proof (induction as arbitrary: xs)
  case (Cons a as)
  show ?case
  proof (cases "length xs < cap")
    case True
    then have "cap - length xs = Suc (cap - Suc (length xs))" by simp
    with True Cons.IH [of "a # xs"] show ?thesis by simp
  next
    case False
    with Cons show ?thesis by simp
  qed
qed simp

interpretation retstack: bounded_stack rs_ok rs_list "\<lambda>s. unat (rs_max s)"
  "nexusrv_retstack_push True" nexusrv_retstack_pop
proof
  fix s :: nexusrv_return_stack and a
  assume ok: "rs_ok s"
  note len = rs_list_length [OF ok]
  show "length (rs_list s) \<le> unat (rs_max s)"
    using ok len by (auto simp: rs_ok_def word_le_nat_alt)
  show "snd (nexusrv_retstack_push True a s) = s" if "length (rs_list s) = unat (rs_max s)"
    using rs_push_cases [OF ok, of True a] len that by (auto simp: word_unat_eq_iff)
  show "rs_ok (snd (nexusrv_retstack_push True a s)) \<and>
      rs_list (snd (nexusrv_retstack_push True a s)) = a # rs_list s \<and>
      unat (rs_max (snd (nexusrv_retstack_push True a s))) = unat (rs_max s)"
    if "length (rs_list s) < unat (rs_max s)"
    using rs_push_cases [OF ok, of True a] len that by auto
next
  fix s :: nexusrv_return_stack
  assume ok: "rs_ok s"
  show "nexusrv_retstack_pop s = (Inl (Code nexus_trace_retstack_empty), s)" if "rs_list s = []"
    using rs_pop_cases [OF ok] that by auto
  show "fst (nexusrv_retstack_pop s) = Inr x \<and> rs_ok (snd (nexusrv_retstack_pop s)) \<and>
      rs_list (snd (nexusrv_retstack_pop s)) = xs \<and>
      unat (rs_max (snd (nexusrv_retstack_pop s))) = unat (rs_max s)" if "rs_list s = x # xs" for x xs
    using rs_pop_cases [OF ok] that by auto
qed

section \<open>Properties\<close>

text \<open>
  C6. The return stack implements a bounded stack: from any well-formed state, with
  allocations that succeed, a sequence of pushes and pops returns what the same sequence
  returns on a list of at most \<^verbatim>\<open>max\<close> addresses, pops on the empty stack included, and no
  assertion fails and nothing is read uninitialised or out of bounds.
\<close>

theorem retstack_refines:
  assumes "rs_ok s"
  shows "fst (stack_run (nexusrv_retstack_push True) nexusrv_retstack_pop ops s) =
      fst (stack_spec (unat (rs_max s)) ops (rs_list s)) \<and>
    rs_ok (snd (stack_run (nexusrv_retstack_push True) nexusrv_retstack_pop ops s)) \<and>
    rs_list (snd (stack_run (nexusrv_retstack_push True) nexusrv_retstack_pop ops s)) =
      snd (stack_spec (unat (rs_max s)) ops (rs_list s))"
  by (rule retstack.refines [OF assms])

definition wit_stack :: nexusrv_return_stack where
  "wit_stack = \<lparr>rs_entries = [Some 7, None], rs_size = 2, rs_max = 2, rs_used = 1, rs_end = 1\<rparr>"

theorem retstack_refines_witness:
  "fst (stack_run (nexusrv_retstack_push True) nexusrv_retstack_pop [Push 8, Push 9, Pop, Pop, Pop] wit_stack) =
    fst (stack_spec (unat (rs_max wit_stack)) [Push 8, Push 9, Pop, Pop, Pop] (rs_list wit_stack))"
  using retstack_refines [of wit_stack "[Push 8, Push 9, Pop, Pop, Pop]"]
  by (simp add: wit_stack_def rs_ok_def less_Suc_eq)

text \<open>
  On overflow the newest addresses are lost, not the oldest: after the addresses \<open>as\<close> are
  pushed onto an empty stack it holds the first \<^verbatim>\<open>max\<close> of them, the last of these on top. The
  code that would let the entries wrap around and overwrite the oldest is never reached.
\<close>

theorem retstack_keeps_oldest:
  assumes "rs_ok s" and "rs_list s = []"
  shows "rs_list (snd (stack_run (nexusrv_retstack_push True) nexusrv_retstack_pop (map Push as) s)) =
    rev (take (unat (rs_max s)) as)"
  using retstack.refines [OF assms(1), of "map Push as"] assms(2) by (simp add: stack_spec_pushes)

theorem retstack_keeps_oldest_witness:
  "rs_list (snd (stack_run (nexusrv_retstack_push True) nexusrv_retstack_pop (map Push [1, 2, 3])
      (nexusrv_retstack_clear wit_stack))) = [2, 1]"
  using retstack_keeps_oldest [of "nexusrv_retstack_clear wit_stack" "[1, 2, 3]"]
  by (simp add: wit_stack_def rs_ok_def nexusrv_retstack_clear_def rs_list_def)

text \<open>
  Initialisation and allocation failures: a fresh stack is empty and well formed, or the
  error is an out-of-memory; a push that fails reports an out-of-memory, happens only when
  the allocation fails, and leaves the stack as it was.
\<close>

theorem retstack_no_mem:
  "(mx \<le> 0x80000000 \<longrightarrow>
     (case nexusrv_retstack_init alloc mx s of
        (Inr _, t) \<Rightarrow> rs_ok t \<and> rs_list t = [] \<and> rs_max t = mx
      | (Inl e, t) \<Rightarrow> e = Code nexus_no_mem \<and> \<not> alloc)) \<and>
   (rs_ok s \<longrightarrow>
     (case nexusrv_retstack_push alloc addr s of
        (Inr _, t) \<Rightarrow> rs_ok t \<and> rs_max t = rs_max s
      | (Inl e, t) \<Rightarrow> e = Code nexus_no_mem \<and> \<not> alloc \<and> t = s))"
proof (intro conjI impI)
  assume "mx \<le> 0x80000000"
  then show "case nexusrv_retstack_init alloc mx s of
        (Inr _, t) \<Rightarrow> rs_ok t \<and> rs_list t = [] \<and> rs_max t = mx
      | (Inl e, t) \<Rightarrow> e = Code nexus_no_mem \<and> \<not> alloc"
    using rs_init_ok [of alloc mx s]
    by (auto simp: nexusrv_retstack_init_def Let_def split: prod.splits sum.splits if_splits)
next
  assume "rs_ok s"
  from rs_push_cases [OF this, of alloc addr] this
  show "case nexusrv_retstack_push alloc addr s of
        (Inr _, t) \<Rightarrow> rs_ok t \<and> rs_max t = rs_max s
      | (Inl e, t) \<Rightarrow> e = Code nexus_no_mem \<and> \<not> alloc \<and> t = s"
    by auto
qed

theorem retstack_no_mem_witness:
  "case nexusrv_retstack_init False 5 wit_stack of
     (Inr _, t) \<Rightarrow> rs_ok t \<and> rs_list t = [] \<and> rs_max t = 5
   | (Inl e, t) \<Rightarrow> e = Code nexus_no_mem \<and> \<not> False"
  using retstack_no_mem [of 5 False wit_stack 0] by simp

end
