(* ===== verification/HistArray.thy ===== *)
theory HistArray
  imports Errors
begin

text \<open>
  The queue of history elements of \<^verbatim>\<open>lib/hist-array.cpp\<close>, a \<^verbatim>\<open>std::deque\<close>. Whether an
  allocation succeeds is an argument; taking the front of an empty queue, or popping it, is
  undefined in C++.
\<close>

record nexusrv_hist_arr_element =
  el_hist :: u32
  el_repeat :: u32
  el_timestamp :: u64

type_synonym nexusrv_hist_array = "nexusrv_hist_arr_element list"

definition nexusrv_hist_array_new :: "bool \<Rightarrow> nexusrv_hist_array option" where
  "nexusrv_hist_array_new alloc = (if alloc then Some [] else None)"

definition nexusrv_hist_array_front :: "nexusrv_hist_array \<Rightarrow> nexusrv_hist_arr_element result" where
  "nexusrv_hist_array_front arr = (case arr of [] \<Rightarrow> Inl Undef | e # _ \<Rightarrow> Inr e)"

text \<open>The C function returns a pointer to the front; this is the assignment through it.\<close>

definition hist_array_set_front ::
    "nexusrv_hist_arr_element \<Rightarrow> nexusrv_hist_array \<Rightarrow> nexusrv_hist_array" where
  "hist_array_set_front e arr = (case arr of [] \<Rightarrow> [] | _ # rest \<Rightarrow> e # rest)"

definition nexusrv_hist_array_pop :: "nexusrv_hist_array \<Rightarrow> nexusrv_hist_array result" where
  "nexusrv_hist_array_pop arr = (case arr of [] \<Rightarrow> Inl Undef | _ # rest \<Rightarrow> Inr rest)"

definition nexusrv_hist_array_push ::
    "bool \<Rightarrow> nexusrv_hist_arr_element \<Rightarrow> nexusrv_hist_array \<Rightarrow> nexusrv_hist_array result" where
  "nexusrv_hist_array_push alloc e arr =
     (if alloc then Inr (arr @ [e]) else Inl (Code nexus_no_mem))"

definition nexusrv_hist_array_size :: "nexusrv_hist_array \<Rightarrow> nat" where
  "nexusrv_hist_array_size arr = length arr"

definition nexusrv_hist_array_clear :: "nexusrv_hist_array \<Rightarrow> nexusrv_hist_array" where
  "nexusrv_hist_array_clear arr = []"

lemma hist_array_simps [simp]:
  "nexusrv_hist_array_front (e # arr) = Inr e"
  "hist_array_set_front e' (e # arr) = e' # arr"
  "nexusrv_hist_array_pop (e # arr) = Inr arr"
  "nexusrv_hist_array_push True e arr = Inr (arr @ [e])"
  "nexusrv_hist_array_push False e arr = Inl (Code nexus_no_mem)"
  "nexusrv_hist_array_clear arr = []"
  by (simp_all add: nexusrv_hist_array_front_def hist_array_set_front_def
      nexusrv_hist_array_pop_def nexusrv_hist_array_push_def nexusrv_hist_array_clear_def)

end
