(* ===== verification/InstHelper.thy ===== *)
theory InstHelper
  imports Errors
begin

text \<open>
  The classification of jumps of \<^verbatim>\<open>include/libnexus-rv/inst-helper.h\<close> by their registers,
  which drives the pushes and pops of the return stack.
\<close>

datatype nexusrv_itypes =
    ITYPE_None
  | ITYPE_Exception
  | ITYPE_Cond_Branch
  | ITYPE_Direct_Jump
  | ITYPE_Direct_Call
  | ITYPE_Indirect_Jump
  | ITYPE_Indirect_Call
  | ITYPE_Coroutine_Swap
  | ITYPE_Function_Return

definition nexurv_inst_link_reg :: "u32 \<Rightarrow> bool" where
  "nexurv_inst_link_reg reg \<longleftrightarrow> reg = 1 \<or> reg = 5"

definition nexusrv_inst_jal_types :: "u32 \<Rightarrow> nexusrv_itypes" where
  "nexusrv_inst_jal_types rd =
     (if nexurv_inst_link_reg rd then ITYPE_Direct_Call else ITYPE_Direct_Jump)"

definition nexusrv_inst_jalr_types :: "u32 \<Rightarrow> u32 \<Rightarrow> nexusrv_itypes" where
  "nexusrv_inst_jalr_types rd rs =
     (if nexurv_inst_link_reg rd then
        if \<not> nexurv_inst_link_reg rs then ITYPE_Indirect_Call
        else if rd = rs then ITYPE_Indirect_Call else ITYPE_Coroutine_Swap
      else if nexurv_inst_link_reg rs then ITYPE_Function_Return
      else ITYPE_Indirect_Jump)"

definition nexusrv_inst_cjalr_types :: "u32 \<Rightarrow> nexusrv_itypes" where
  "nexusrv_inst_cjalr_types rs = (if rs = 5 then ITYPE_Coroutine_Swap else ITYPE_Indirect_Call)"

definition nexusrv_inst_cjr_types :: "u32 \<Rightarrow> nexusrv_itypes" where
  "nexusrv_inst_cjr_types rs =
     (if nexurv_inst_link_reg rs then ITYPE_Function_Return else ITYPE_Indirect_Jump)"

text \<open>
  C21. The compressed forms are classified as the instructions they stand for: \<^verbatim>\<open>c.jalr rs\<close>
  as \<^verbatim>\<open>jalr\<close> with the link register \<^verbatim>\<open>ra\<close>, \<^verbatim>\<open>c.jr rs\<close> as \<^verbatim>\<open>jalr\<close> with register zero. And
  the return address stack hints of the RISC-V specification hold: a jump pushes exactly if
  its destination is a link register, and pops exactly if its source is a link register that
  differs from the destination.
\<close>

theorem compressed_and_hints:
  "nexusrv_inst_cjalr_types rs = nexusrv_inst_jalr_types 1 rs \<and>
   nexusrv_inst_cjr_types rs = nexusrv_inst_jalr_types 0 rs \<and>
   (nexusrv_inst_jalr_types rd rs \<in> {ITYPE_Indirect_Call, ITYPE_Coroutine_Swap} \<longleftrightarrow>
      nexurv_inst_link_reg rd) \<and>
   (nexusrv_inst_jalr_types rd rs \<in> {ITYPE_Function_Return, ITYPE_Coroutine_Swap} \<longleftrightarrow>
      nexurv_inst_link_reg rs \<and> rd \<noteq> rs)"
  by (auto simp: nexusrv_inst_cjalr_types_def nexusrv_inst_jalr_types_def
      nexusrv_inst_cjr_types_def nexurv_inst_link_reg_def)

end
