(* ===== verification/TraceDecoder.thy ===== *)
theory TraceDecoder
  imports MsgDecoder RetStack HistArray
begin

text \<open>
  The trace decoder of \<^verbatim>\<open>lib/trace-decoder.c\<close> and its header. Every function on
  \<^verbatim>\<open>nexusrv_trace_decoder\<close> is a computation on the record of that name; a failed
  \<^verbatim>\<open>assert\<close> is the fault \<open>Abort\<close>.

  What the code does not determine is an argument of type \<open>world\<close>: what the uninitialised
  local \<^verbatim>\<open>msg2\<close> holds, and for which length of the queue an allocation succeeds.
\<close>

section \<open>Data\<close>

record world =
  w_msg2 :: nexusrv_msg
  w_alloc :: "nat \<Rightarrow> bool"

record nexusrv_trace_indirect =
  in_target :: u64
  in_context :: u64
  in_interrupt :: bool
  in_exception :: bool
  in_ownership :: bool
  in_ownership_fmt :: u8
  in_ownership_priv :: u8
  in_ownership_v :: u8

record nexusrv_trace_sync =
  sy_addr :: u64
  sy_sync :: u8

record nexusrv_trace_error =
  er_ecode :: u32
  er_etype :: u8

record nexusrv_trace_stop =
  st_evcode :: u8

datatype nexusrv_trace_events =
    Event_None
  | Event_Direct
  | Event_DirectSync
  | Event_Trap
  | Event_Indirect
  | Event_IndirectSync
  | Event_Sync
  | Event_Stop
  | Event_Error

fun event_code :: "nexusrv_trace_events \<Rightarrow> u32" where
  "event_code Event_None = 0"
| "event_code Event_Direct = 1"
| "event_code Event_DirectSync = 2"
| "event_code Event_Trap = 3"
| "event_code Event_Indirect = 4"
| "event_code Event_IndirectSync = 5"
| "event_code Event_Sync = 6"
| "event_code Event_Stop = 7"
| "event_code Event_Error = 8"

definition str_nexusrv_trace_event :: "u32 \<Rightarrow> string" where
  "str_nexusrv_trace_event ev =
     (if ev = event_code Event_None then ''none''
      else if ev = event_code Event_Direct then ''direct''
      else if ev = event_code Event_DirectSync then ''direct-sync''
      else if ev = event_code Event_Trap then ''trap''
      else if ev = event_code Event_Indirect then ''indirect''
      else if ev = event_code Event_IndirectSync then ''indirect-sync''
      else if ev = event_code Event_Sync then ''sync''
      else if ev = event_code Event_Stop then ''stop''
      else if ev = event_code Event_Error then ''error''
      else ''unknown'')"

text \<open>The message decoder the C struct points to is a field of the record.\<close>

record nexusrv_trace_decoder =
  td_msg_decoder :: nexusrv_msg_decoder
  td_res_hists :: nexusrv_hist_array
  td_res_icnt :: u32
  td_res_tnts :: u32
  td_consumed_icnt :: u32
  td_consumed_tnts :: u8
  td_synced :: bool
  td_msg_present :: bool
  td_msg :: nexusrv_msg
  td_full_addr :: u64
  td_timestamp :: u64
  td_return_stack :: nexusrv_return_stack

type_synonym 'a td = "(nexusrv_trace_decoder, 'a) proc"

definition td_cfg :: "nexusrv_trace_decoder \<Rightarrow> nexusrv_hw_cfg" where
  "td_cfg s = md_cfg (td_msg_decoder s)"

definition MSG_ICNT_MAX :: u32 where "MSG_ICNT_MAX = push_bit 22 1 - 1"
definition MSG_HREPEAT_MAX :: u32 where "MSG_HREPEAT_MAX = push_bit 18 1 - 1"

text \<open>An assertion on the state.\<close>

definition checkS :: "(nexusrv_trace_decoder \<Rightarrow> bool) \<Rightarrow> unit td" where
  "checkS p = (\<lambda>s. if p s then (Inr (), s) else (Inl Abort, s))"

text \<open>A shift by \<^verbatim>\<open>bits - 1\<close> is undefined for no bits.\<close>

definition extend_addr_bits :: "u64 \<Rightarrow> u32 \<Rightarrow> u64 result" where
  "extend_addr_bits addr bits =
     (if bits \<ge> 64 then Inr addr
      else if bits = 0 then Inl Undef
      else Inr (if addr AND push_bit (unat bits - 1) 1 \<noteq> 0 then addr OR push_bit (unat bits) (- 1) else addr))"

section \<open>Life cycle\<close>

text \<open>
  \<^verbatim>\<open>memset\<close> clears the struct; \<open>a1\<close> and \<open>a2\<close> say whether the allocations of the queue and of
  the stack succeed.
\<close>

definition td_zero :: "nexusrv_msg_decoder \<Rightarrow> nexusrv_trace_decoder" where
  "td_zero md =
     \<lparr>td_msg_decoder = md, td_res_hists = [], td_res_icnt = 0, td_res_tnts = 0, td_consumed_icnt = 0,
      td_consumed_tnts = 0, td_synced = False, td_msg_present = False,
      td_msg = \<lparr>timestamp = 0, src = 0, tcode = 0, tagbits = 0, word0 = 0, hist = 0, hrepeat = 0, dword1 = 0\<rparr>,
      td_full_addr = 0, td_timestamp = 0,
      td_return_stack = \<lparr>rs_entries = [], rs_size = 0, rs_max = 0, rs_used = 0, rs_end = 0\<rparr>\<rparr>"

definition nexusrv_trace_decoder_init ::
    "bool \<Rightarrow> bool \<Rightarrow> nexusrv_msg_decoder \<Rightarrow> unit result \<times> nexusrv_trace_decoder" where
  "nexusrv_trace_decoder_init a1 a2 md =
     (let s = td_zero md in
      case nexusrv_hist_array_new a1 of
        None \<Rightarrow> (Inl (Code nexus_no_mem), s)
      | Some arr \<Rightarrow>
          let s1 = s\<lparr>td_res_hists := arr\<rparr> in
          case nexusrv_retstack_init a2 (max_stack (td_cfg s1)) (td_return_stack s1) of
            (r, stk) \<Rightarrow> (r, s1\<lparr>td_return_stack := stk\<rparr>))"

definition nexusrv_trace_decoder_fini :: "nexusrv_trace_decoder \<Rightarrow> nexusrv_trace_decoder" where
  "nexusrv_trace_decoder_fini s =
     s\<lparr>td_return_stack := nexusrv_retstack_fini (td_return_stack s), td_res_hists := []\<rparr>"

section \<open>Fetching messages\<close>

definition nexusrv_trace_check_msg :: "nexusrv_msg \<Rightarrow> bool" where
  "nexusrv_trace_check_msg m =
     (if \<not> nexusrv_msg_known m then False
      else if nexusrv_msg_is_data_acq m then False
      else if nexusrv_msg_has_icnt m \<and> icnt m > MSG_ICNT_MAX then False
      else if nexusrv_msg_has_hist m \<and> hist m = 0 then False
      else if nexusrv_msg_has_hist m \<and> hrepeat m > MSG_HREPEAT_MAX then False
      else True)"

text \<open>The next message into the buffered one; \<open>rewind\<close> undoes the last decode.\<close>

definition td_next :: "nat td" where
  "td_next = (\<lambda>s. case nexusrv_msg_decoder_next (td_msg_decoder s) (td_msg s) of
     (r, d, m) \<Rightarrow> (r, s\<lparr>td_msg_decoder := d, td_msg := m\<rparr>))"

definition td_next_local :: "nexusrv_msg \<Rightarrow> (nat \<times> nexusrv_msg) td" where
  "td_next_local m2 = (\<lambda>s. case nexusrv_msg_decoder_next (td_msg_decoder s) m2 of
     (r, d, m) \<Rightarrow> (case r of Inl e \<Rightarrow> Inl e | Inr n \<Rightarrow> Inr (n, m), s\<lparr>td_msg_decoder := d\<rparr>))"

definition td_rewind :: "unit td" where
  "td_rewind = (\<lambda>s. case nexusrv_msg_decoder_rewind_last (td_msg_decoder s) of
     Inl e \<Rightarrow> (Inl e, s)
   | Inr d \<Rightarrow> (Inr (), s\<lparr>td_msg_decoder := d\<rparr>))"

text \<open>The result says whether a message was fetched (1) or was already there (0).\<close>

definition nexusrv_trace_fetch_msg :: "world \<Rightarrow> bool td" where
  "nexusrv_trace_fetch_msg w =
     bindS (readS td_msg_present) (\<lambda>present.
     if present then retS False
     else
       bindS td_next (\<lambda>n.
       if n = 0 then throwS (Code nexus_trace_eof)
       else
         bindS (readS td_msg) (\<lambda>m.
         if \<not> nexusrv_trace_check_msg m then
           thenS td_rewind (throwS (Code nexus_msg_unsupported))
         else
           thenS (modS (\<lambda>s. s\<lparr>td_msg_present := True\<rparr>))
           (if \<not> nexusrv_msg_is_branch m \<or> nexusrv_msg_is_sync m then retS True
            else
              thenS (modS (\<lambda>s. s\<lparr>td_msg := (td_msg s)\<lparr>hrepeat := 0\<rparr>\<rparr>))
             (bindS (td_next_local (w_msg2 w)) (\<lambda>(n2, m2).
              if tcode m2 \<noteq> TCODE_RepeatBranch then thenS td_rewind (retS True)
              else
                thenS (modS (\<lambda>s. s\<lparr>td_msg := (td_msg s)\<lparr>hrepeat := hrepeat m2\<rparr>\<rparr>)) (retS True)))))))"

section \<open>Timestamps, branch outcomes and instruction counts\<close>

text \<open>The timestamp passed by reference is an argument and part of the result.\<close>

definition nexusrv_trace_retire_timestamp ::
    "u64 \<Rightarrow> nexusrv_trace_decoder \<Rightarrow> u64 \<times> nexusrv_trace_decoder" where
  "nexusrv_trace_retire_timestamp ts s =
     (if quirk_sifive (td_cfg s) then (0, s\<lparr>td_timestamp := td_timestamp s XOR ts\<rparr>)
      else (ts, s\<lparr>td_timestamp := td_timestamp s + ts\<rparr>))"

definition retire_msg_timestamp :: "nexusrv_trace_decoder \<Rightarrow> nexusrv_trace_decoder" where
  "retire_msg_timestamp s =
     (case nexusrv_trace_retire_timestamp (timestamp (td_msg s)) s of
        (ts, t) \<Rightarrow> t\<lparr>td_msg := (td_msg t)\<lparr>timestamp := ts\<rparr>\<rparr>)"

definition retire_front_timestamp :: "nexusrv_trace_decoder \<Rightarrow> nexusrv_trace_decoder" where
  "retire_front_timestamp s =
     (case td_res_hists s of
        [] \<Rightarrow> s
      | el # rest \<Rightarrow>
          (case nexusrv_trace_retire_timestamp (el_timestamp el) s of
             (ts, t) \<Rightarrow> t\<lparr>td_res_hists := hist_array_set_front (el\<lparr>el_timestamp := ts\<rparr>) (td_res_hists t)\<rparr>))"

definition pop_front :: "unit td" where
  "pop_front = (\<lambda>s. case nexusrv_hist_array_pop (td_res_hists s) of
     Inl e \<Rightarrow> (Inl e, s)
   | Inr arr \<Rightarrow> (Inr (), s\<lparr>td_res_hists := arr\<rparr>))"

definition nexusrv_trace_available_tnts :: "u32 td" where
  "nexusrv_trace_available_tnts = (\<lambda>s.
     let tnts0 = td_res_tnts s;
         tnts = (if td_msg_present s \<and> nexusrv_msg_has_hist (td_msg s)
                 then tnts0 + of_nat (nexusrv_msg_hist_bits (hist (td_msg s))) else tnts0)
     in if td_msg_present s \<and> nexusrv_msg_is_res (td_msg s) then (Inl Abort, s)
        else if \<not> tnts \<ge> ucast (td_consumed_tnts s) then (Inl Abort, s)
        else (Inr (tnts - ucast (td_consumed_tnts s)), s))"

definition nexusrv_trace_available_icnt :: "u32 td" where
  "nexusrv_trace_available_icnt = (\<lambda>s.
     let icnt0 = td_res_icnt s;
         cnt = (if td_msg_present s \<and> nexusrv_msg_has_icnt (td_msg s) then icnt0 + icnt (td_msg s) else icnt0)
     in if td_msg_present s \<and> nexusrv_msg_is_res (td_msg s) then (Inl Abort, s)
        else if \<not> cnt \<ge> td_consumed_icnt s then (Inl Abort, s)
        else (Inr (cnt - td_consumed_icnt s), s))"

text \<open>The loop that drains the elements without branch outcomes.\<close>

function drain_empty :: "nexusrv_trace_decoder \<Rightarrow> unit result \<times> nexusrv_trace_decoder" where
  "drain_empty s =
     (case td_res_hists s of
        [] \<Rightarrow> (Inr (), s)
      | el # rest \<Rightarrow>
          if el_hist el \<noteq> 0 then (Inr (), s)
          else if el_repeat el \<noteq> 1 then (Inl Abort, s)
          else drain_empty ((retire_front_timestamp s)\<lparr>td_res_hists := rest\<rparr>))"
  by pat_completeness auto
termination
  by (relation "measure (\<lambda>s. length (td_res_hists s))") auto

declare drain_empty.simps [simp del]

text \<open>The bit of a history \<open>h\<close> that is the \<open>k\<close>-th outcome, from the most significant one.\<close>

definition tnt_bit :: "u32 \<Rightarrow> u8 \<Rightarrow> bool" where
  "tnt_bit h k = bit h (nexusrv_msg_hist_bits h - unat k)"

definition nexusrv_trace_consume_tnt :: "bool td" where
  "nexusrv_trace_consume_tnt =
     bindS nexusrv_trace_available_tnts (\<lambda>avail.
     thenS (assertS (avail \<noteq> 0))
    (thenS drain_empty
    (bindS (readS td_res_tnts) (\<lambda>res_tnts.
       if res_tnts = 0 then
         thenS (checkS (\<lambda>s. td_msg_present s \<and> nexusrv_msg_has_hist (td_msg s)))
        (thenS (checkS (\<lambda>s. nexusrv_msg_hist_bits (hist (td_msg s)) > unat (td_consumed_tnts s)))
        (thenS (modS (\<lambda>s. s\<lparr>td_consumed_tnts := td_consumed_tnts s + 1\<rparr>))
               (readS (\<lambda>s. tnt_bit (hist (td_msg s)) (td_consumed_tnts s)))))
       else
         thenS (checkS (\<lambda>s. nexusrv_hist_array_size (td_res_hists s) \<noteq> 0))
        (bindS (readS (\<lambda>s. hd (td_res_hists s))) (\<lambda>el.
         let hist_bits = nexusrv_msg_hist_bits (el_hist el) in
         thenS (checkS (\<lambda>s. hist_bits > unat (td_consumed_tnts s)))
        (thenS (modS (\<lambda>s. s\<lparr>td_consumed_tnts := td_consumed_tnts s + 1\<rparr>))
        (bindS (readS (\<lambda>s. tnt_bit (el_hist el) (td_consumed_tnts s))) (\<lambda>tnt.
         bindS (readS td_consumed_tnts) (\<lambda>consumed.
         if hist_bits \<noteq> unat consumed then retS tnt
         else
           thenS (modS (\<lambda>s. retire_front_timestamp (s\<lparr>td_consumed_tnts := 0\<rparr>)))
          (thenS (checkS (\<lambda>s. td_res_tnts s \<ge> of_nat hist_bits))
          (thenS (modS (\<lambda>s. s\<lparr>td_res_tnts := td_res_tnts s - of_nat hist_bits\<rparr>))
          (thenS (assertS (el_repeat el \<noteq> 0))
          (thenS (modS (\<lambda>s. s\<lparr>td_res_hists := hist_array_set_front
                     ((hd (td_res_hists s))\<lparr>el_repeat := el_repeat el - 1\<rparr>) (td_res_hists s)\<rparr>))
          (thenS (whenS (el_repeat el - 1 = 0) pop_front)
                 (retS tnt))))))))))))))))"

definition nexusrv_trace_consume_icnt :: "u32 \<Rightarrow> unit td" where
  "nexusrv_trace_consume_icnt n =
     bindS nexusrv_trace_available_icnt (\<lambda>avail.
     thenS (assertS (avail \<ge> n))
    (thenS (checkS (\<lambda>s. td_res_icnt s = 0 \<or> td_consumed_icnt s = 0))
    (bindS (readS td_res_icnt) (\<lambda>res_icnt.
       if res_icnt \<ge> n then modS (\<lambda>s. s\<lparr>td_res_icnt := td_res_icnt s - n\<rparr>)
       else
         thenS (checkS td_msg_present)
           (modS (\<lambda>s. s\<lparr>td_consumed_icnt := td_consumed_icnt s + (n - td_res_icnt s), td_res_icnt := 0\<rparr>))))))"

section \<open>Pulling and retiring messages\<close>

text \<open>The queue element of a ResourceFull message; its instruction count goes to the state.\<close>

definition resource_element :: "nexusrv_msg \<Rightarrow> nexusrv_hist_arr_element td" where
  "resource_element m =
     (let element = \<lparr>el_hist = 0, el_repeat = 1, el_timestamp = timestamp m\<rparr> in
      if nexusrv_msg_has_icnt m then
        thenS (modS (\<lambda>s. s\<lparr>td_res_icnt := td_res_icnt s + icnt m\<rparr>))
       (bindS (readS td_res_icnt) (\<lambda>res_icnt.
        thenS (ensureS (Code nexus_trace_icnt_overflow) (\<not> res_icnt > - 1 - MSG_ICNT_MAX))
              (retS element)))
      else if nexusrv_msg_has_hist m then
        retS (element\<lparr>el_hist := hist m, el_repeat := (if hrepeat m \<noteq> 0 then hrepeat m else 1)\<rparr>)
      else
        bindS (readS (\<lambda>s. quirk_sifive (td_cfg s))) (\<lambda>quirk.
        if quirk \<and> res_code m = 8 then
          thenS (ensureS (Code nexus_msg_unsupported) (res_data m \<noteq> 0))
                (retS (element\<lparr>el_hist := 2, el_repeat := res_data m\<rparr>))
        else if quirk \<and> res_code m = 9 then
          thenS (ensureS (Code nexus_msg_unsupported) (res_data m \<noteq> 0))
                (retS (element\<lparr>el_hist := 3, el_repeat := res_data m\<rparr>))
        else throwS (Code nexus_msg_unsupported)))"

definition push_element :: "world \<Rightarrow> nexusrv_hist_arr_element \<Rightarrow> unit td" where
  "push_element w el = (\<lambda>s.
     case nexusrv_hist_array_push (w_alloc w (nexusrv_hist_array_size (td_res_hists s))) el (td_res_hists s) of
       Inl e \<Rightarrow> (Inl e, s)
     | Inr arr \<Rightarrow> (Inr (), s\<lparr>td_res_hists := arr\<rparr>))"

text \<open>The result says whether a ResourceFull message was consumed (1).\<close>

definition nexusrv_trace_pull_msg :: "world \<Rightarrow> bool td" where
  "nexusrv_trace_pull_msg w =
     thenS (nexusrv_trace_fetch_msg w)
    (bindS (readS td_msg) (\<lambda>m.
     if \<not> nexusrv_msg_is_res m then retS False
     else
       bindS (readS (\<lambda>s. nexusrv_hist_array_size (td_res_hists s))) (\<lambda>size.
       if int size \<ge> uint MSG_ICNT_MAX then throwS (Code nexus_trace_hist_overflow)
       else
         bindS (resource_element m) (\<lambda>el.
         thenS (push_element w el)
        (thenS (modS (\<lambda>s. s\<lparr>td_res_tnts := td_res_tnts s +
                   el_repeat el * of_nat (nexusrv_msg_hist_bits (el_hist el))\<rparr>))
        (thenS (modS (\<lambda>s. s\<lparr>td_msg_present := False\<rparr>))
               (retS True)))))))"

definition retire_branch :: "nexusrv_trace_decoder \<Rightarrow> unit result \<times> nexusrv_trace_decoder" where
  "retire_branch s =
     (if nexusrv_msg_is_sync (td_msg s) then
        if hrepeat (td_msg s) \<noteq> 0 then (Inl Abort, s)
        else (Inr (), s\<lparr>td_timestamp := timestamp (td_msg s),
               td_msg := (td_msg s)\<lparr>tcode := TCODE_ProgTraceSync, word0 := 0, hist := 0\<rparr>\<rparr>)
      else
        let t = retire_msg_timestamp s in
        if hrepeat (td_msg t) \<noteq> 0
        then (Inr (), t\<lparr>td_msg := (td_msg t)\<lparr>hrepeat := hrepeat (td_msg t) - 1\<rparr>\<rparr>)
        else (Inr (), t\<lparr>td_msg_present := False\<rparr>))"

definition nexusrv_trace_retire_msg :: "unit td" where
  "nexusrv_trace_retire_msg =
     thenS (checkS td_msg_present)
    (thenS (checkS (\<lambda>s. tcode (td_msg s) \<noteq> TCODE_ResourceFull))
    (thenS (checkS (\<lambda>s. td_res_icnt s = 0))
    (thenS (checkS (\<lambda>s. nexusrv_hist_array_size (td_res_hists s) = 0))
    (thenS (checkS (\<lambda>s. if nexusrv_msg_has_icnt (td_msg s)
                        then td_consumed_icnt s = icnt (td_msg s) else td_consumed_icnt s = 0))
    (thenS (checkS (\<lambda>s. if nexusrv_msg_has_hist (td_msg s)
                        then unat (td_consumed_tnts s) = nexusrv_msg_hist_bits (hist (td_msg s))
                        else td_consumed_tnts s = 0))
    (thenS (modS (\<lambda>s. s\<lparr>td_consumed_icnt := 0, td_consumed_tnts := 0\<rparr>))
    (bindS (readS td_msg) (\<lambda>m.
       if nexusrv_msg_is_branch m then retire_branch
       else if nexusrv_msg_is_sync m then
         modS (\<lambda>s. s\<lparr>td_timestamp := timestamp m, td_full_addr := xaddr m,
                  td_return_stack := nexusrv_retstack_clear (td_return_stack s), td_msg_present := False\<rparr>)
       else modS (\<lambda>s. (retire_msg_timestamp s)\<lparr>td_msg_present := False\<rparr>)))))))))"

section \<open>Termination of the loops over messages\<close>

text \<open>What is left to fetch, and the message already fetched.\<close>

definition todo :: "nexusrv_trace_decoder \<Rightarrow> nat" where
  "todo s = backlog (td_msg_decoder s) + of_bool (td_msg_present s)"

lemma fetch_msg_todo:
  assumes "nexusrv_trace_fetch_msg w s = (Inr b, t)"
  shows "todo (t\<lparr>td_msg_present := False\<rparr>) < todo s"
proof (cases "td_msg_present s")
  case True
  with assms show ?thesis
    by (simp add: nexusrv_trace_fetch_msg_def comp_simps todo_def)
next
  case False
  obtain r d m where run: "nexusrv_msg_decoder_next (td_msg_decoder s) (td_msg s) = (r, d, m)"
    by (metis surj_pair)
  with assms False obtain n where r: "r = Inr n" "0 < n" "nexusrv_trace_check_msg m"
    by (cases r) (auto simp: nexusrv_trace_fetch_msg_def bindS_def readS_def td_next_def throwS_def thenS_def
        td_rewind_def split: if_splits sum.splits)
  have less: "backlog d < backlog (td_msg_decoder s)"
    using decoder_next_shrinks run r by fastforce
  have "backlog (td_msg_decoder t) \<le> backlog d"
  proof (cases "\<not> nexusrv_msg_is_branch m \<or> nexusrv_msg_is_sync m")
    case True
    with assms False run r show ?thesis
      by (auto simp: nexusrv_trace_fetch_msg_def bindS_def readS_def td_next_def thenS_def modS_def retS_def)
  next
    case br: False
    obtain r2 d2 m2 where run2: "nexusrv_msg_decoder_next d (w_msg2 w) = (r2, d2, m2)"
      by (metis surj_pair)
    with assms False run r br show ?thesis
      by (cases r2)
        (auto simp: nexusrv_trace_fetch_msg_def bindS_def readS_def td_next_def thenS_def modS_def retS_def
          td_next_local_def td_rewind_def split: if_splits sum.splits
          dest: decoder_next_shrinks peek_backlog)
  qed
  with less False show ?thesis by (simp add: todo_def)
qed

lemma pull_msg_todo:
  assumes "nexusrv_trace_pull_msg w s = (Inr True, t)"
  shows "todo t < todo s"
proof -
  from assms obtain b u where f: "nexusrv_trace_fetch_msg w s = (Inr b, u)"
    by (auto simp: nexusrv_trace_pull_msg_def elim: thenS_eq_InrE)
  with assms have "td_msg_decoder t = td_msg_decoder u \<and> \<not> td_msg_present t"
    by (auto simp: nexusrv_trace_pull_msg_def thenS_def bindS_def readS_def throwS_def retS_def modS_def
        resource_element_def ensureS_def push_element_def Let_def split: if_splits sum.splits)
  with fetch_msg_todo [OF f] show ?thesis by (simp add: todo_def)
qed

lemma available_same:
  "nexusrv_trace_available_icnt s = (r, t) \<Longrightarrow> t = s"
  "nexusrv_trace_available_tnts s = (r', t) \<Longrightarrow> t = s"
  by (auto simp: nexusrv_trace_available_icnt_def nexusrv_trace_available_tnts_def Let_def split: if_splits)

section \<open>The loops\<close>

function sync_search :: "world \<Rightarrow> nexusrv_trace_decoder \<Rightarrow> unit result \<times> nexusrv_trace_decoder" where
  "sync_search w s =
     (case nexusrv_trace_fetch_msg w s of
        (Inl e, t) \<Rightarrow> (Inl e, t)
      | (Inr _, t) \<Rightarrow>
          if nexusrv_msg_is_sync (td_msg t) then (Inr (), t)
          else sync_search w (t\<lparr>td_msg_present := False\<rparr>))"
  by pat_completeness auto
termination
  by (relation "measure (todo \<circ> snd)") (auto dest!: fetch_msg_todo [OF sym])

declare sync_search.simps [simp del]

text \<open>
  The loop of \<^verbatim>\<open>nexusrv_trace_try_retire\<close>. The result says whether it returns with the whole
  count retired; otherwise it goes on behind the loop.
\<close>

function retire_loop :: "world \<Rightarrow> u32 \<Rightarrow> bool \<Rightarrow> nexusrv_trace_decoder \<Rightarrow> bool result \<times> nexusrv_trace_decoder" where
  "retire_loop w n rc s =
     (case nexusrv_trace_available_icnt s of
        (Inl e, t) \<Rightarrow> (Inl e, t)
      | (Inr avail, t) \<Rightarrow>
          if n < avail then
            (case nexusrv_trace_consume_icnt n t of
               (Inl e, u) \<Rightarrow> (Inl e, u)
             | (Inr _, u) \<Rightarrow> (Inr True, u))
          else if \<not> rc then (Inr False, t)
          else
            (case nexusrv_trace_pull_msg w t of
               (Inl e, u) \<Rightarrow> (Inl e, u)
             | (Inr rc', u) \<Rightarrow> retire_loop w n rc' u))"
  by pat_completeness auto
termination
  by (relation "measures [\<lambda>(w, n, rc, s). of_bool rc, \<lambda>(w, n, rc, s). todo s]")
    (auto dest!: available_same [OF sym] dest: pull_msg_todo [OF sym] simp: of_bool_def split: if_splits)

declare retire_loop.simps [simp del]

text \<open>The loop of \<^verbatim>\<open>nexusrv_trace_next_tnt\<close>: an outcome, or none.\<close>

function tnt_loop :: "world \<Rightarrow> bool \<Rightarrow> nexusrv_trace_decoder \<Rightarrow> bool option result \<times> nexusrv_trace_decoder" where
  "tnt_loop w rc s =
     (case nexusrv_trace_available_tnts s of
        (Inl e, t) \<Rightarrow> (Inl e, t)
      | (Inr avail, t) \<Rightarrow>
          if avail \<noteq> 0 then
            (case nexusrv_trace_consume_tnt t of
               (Inl e, u) \<Rightarrow> (Inl e, u)
             | (Inr tnt, u) \<Rightarrow> (Inr (Some tnt), u))
          else if \<not> rc then (Inr None, t)
          else
            (case nexusrv_trace_pull_msg w t of
               (Inl e, u) \<Rightarrow> (Inl e, u)
             | (Inr rc', u) \<Rightarrow> tnt_loop w rc' u))"
  by pat_completeness auto
termination
  by (relation "measures [\<lambda>(w, rc, s). of_bool rc, \<lambda>(w, rc, s). todo s]")
    (auto dest!: available_same [OF sym] dest: pull_msg_todo [OF sym] simp: of_bool_def split: if_splits)

declare tnt_loop.simps [simp del]

section \<open>The interface\<close>

definition need_sync :: "unit td" where
  "need_sync = bindS (readS td_synced) (\<lambda>b. ensureS (Code nexus_trace_not_synced) b)"

text \<open>No instructions and no branch outcomes pending; the second test only if the first passes.\<close>

definition nothing_pending :: "unit td" where
  "nothing_pending =
     bindS nexusrv_trace_available_icnt (\<lambda>cnt.
     if cnt \<noteq> 0 then throwS (Code nexus_trace_mismatch)
     else bindS nexusrv_trace_available_tnts (\<lambda>tnts.
          if tnts \<noteq> 0 then throwS (Code nexus_trace_mismatch) else retS ()))"

definition nexusrv_trace_next_sync :: "world \<Rightarrow> nexusrv_trace_sync td" where
  "nexusrv_trace_next_sync w =
     thenS need_sync
    (thenS (nexusrv_trace_fetch_msg w)
    (thenS nothing_pending
    (bindS (readS td_msg) (\<lambda>m.
     if \<not> nexusrv_msg_is_sync m \<or> nexusrv_msg_is_branch m then throwS (Code nexus_trace_mismatch)
     else
       bindS (readS (\<lambda>s. addr_bits (td_cfg s))) (\<lambda>bits.
       bindS (liftS (extend_addr_bits (push_bit 1 (xaddr m)) bits)) (\<lambda>addr.
       thenS nexusrv_trace_retire_msg
      (thenS (checkS (\<lambda>s. \<not> td_msg_present s))
             (retS \<lparr>sy_addr = addr, sy_sync = sync_type m\<rparr>))))))))"

text \<open>\<open>None\<close> if the decoder is synchronized already (0).\<close>

definition nexusrv_trace_sync_reset :: "world \<Rightarrow> nexusrv_trace_sync option td" where
  "nexusrv_trace_sync_reset w =
     bindS (readS td_synced) (\<lambda>synced.
     if synced then retS None
     else
       thenS (sync_search w)
      (thenS (modS (\<lambda>s. s\<lparr>td_res_hists := nexusrv_hist_array_clear (td_res_hists s),
                td_res_tnts := 0, td_res_icnt := 0, td_consumed_tnts := 0, td_consumed_icnt := 0,
                td_synced := True, td_msg := (td_msg s)\<lparr>tcode := TCODE_ProgTraceSync, word0 := 0\<rparr>\<rparr>))
      (bindS (nexusrv_trace_next_sync w) (\<lambda>sync. retS (Some sync)))))"

text \<open>The event behind the retired instructions.\<close>

definition pending_event :: "nexusrv_trace_events td" where
  "pending_event =
     bindS (readS td_msg) (\<lambda>m.
     if nexusrv_msg_is_error m then retS Event_Error
     else
       bindS nexusrv_trace_available_tnts (\<lambda>tnts.
       if tnts \<noteq> 0 then retS Event_Direct
       else
         thenS (checkS (\<lambda>s. nexusrv_msg_has_hist m \<longrightarrow>
                  unat (td_consumed_tnts s) = nexusrv_msg_hist_bits (hist m)))
         (retS (if nexusrv_msg_is_branch m then
                  if nexusrv_msg_is_indir_branch m then
                    if branch_type m \<noteq> 0 then Event_Trap
                    else if nexusrv_msg_is_sync m then Event_IndirectSync else Event_Indirect
                  else if nexusrv_msg_is_sync m then Event_DirectSync else Event_Direct
                else if nexusrv_msg_is_sync m then Event_Sync
                else if nexusrv_msg_is_stop m then Event_Stop
                else Event_None))))"

text \<open>The number of instructions retired, and the event.\<close>

definition INT32_MAX :: u32 where "INT32_MAX = 0x7FFFFFFF"

definition nexusrv_trace_try_retire :: "world \<Rightarrow> u32 \<Rightarrow> (u32 \<times> nexusrv_trace_events) td" where
  "nexusrv_trace_try_retire w n =
     thenS need_sync
    (let cap = (if n > INT32_MAX then INT32_MAX else n) in
     bindS (retire_loop w cap True) (\<lambda>all.
     if all then retS (cap, Event_None)
     else
       thenS (checkS td_msg_present)
      (bindS nexusrv_trace_available_icnt (\<lambda>avail.
       thenS (nexusrv_trace_consume_icnt avail)
      (bindS pending_event (\<lambda>ev. retS (avail, ev)))))))"

definition nexusrv_trace_next_tnt :: "world \<Rightarrow> bool td" where
  "nexusrv_trace_next_tnt w =
     thenS need_sync
    (bindS (tnt_loop w True) (\<lambda>r. case r of
       Some tnt \<Rightarrow> retS tnt
     | None \<Rightarrow>
         thenS (checkS td_msg_present)
        (bindS nexusrv_trace_available_icnt (\<lambda>avail.
         if avail \<noteq> 0 then retS False
         else
           bindS (readS td_msg) (\<lambda>m.
           if \<not> nexusrv_msg_is_branch m \<or> nexusrv_msg_is_indir_branch m
           then throwS (Code nexus_trace_mismatch)
           else thenS nexusrv_trace_retire_msg (retS True))))))"

definition nexusrv_trace_push_call :: "bool \<Rightarrow> u64 \<Rightarrow> unit td" where
  "nexusrv_trace_push_call alloc callsite = (\<lambda>s.
     case nexusrv_retstack_push alloc callsite (td_return_stack s) of
       (r, stk) \<Rightarrow> (r, s\<lparr>td_return_stack := stk\<rparr>))"

definition nexusrv_trace_pop_ret :: "u64 td" where
  "nexusrv_trace_pop_ret = (\<lambda>s.
     case nexusrv_retstack_pop (td_return_stack s) of
       (r, stk) \<Rightarrow> (r, s\<lparr>td_return_stack := stk\<rparr>))"

definition nexusrv_trace_callstack_used :: "nexusrv_trace_decoder \<Rightarrow> u32" where
  "nexusrv_trace_callstack_used s = nexusrv_retstack_used (td_return_stack s)"

text \<open>
  The call that fills a struct of its caller works on the decoder and that struct. It sets the target
  and the kind of the branch before the message is retired, and the fields of the process only with
  an ownership message; what it has set stays set when the call fails later.
\<close>

type_synonym 'a indir = "(nexusrv_trace_decoder \<times> nexusrv_trace_indirect, 'a) proc"

definition on_td :: "'a td \<Rightarrow> 'a indir" where
  "on_td m = (\<lambda>(s, i). case m s of (r, t) \<Rightarrow> (r, t, i))"

definition set_indir :: "(nexusrv_trace_indirect \<Rightarrow> nexusrv_trace_indirect) \<Rightarrow> unit indir" where
  "set_indir f = modS (\<lambda>(s, i). (s, f i))"

definition nexusrv_trace_next_indirect :: "world \<Rightarrow> unit indir" where
  "nexusrv_trace_next_indirect w =
     thenS (on_td need_sync)
    (thenS (on_td (nexusrv_trace_fetch_msg w))
    (thenS (on_td nothing_pending)
    (bindS (on_td (readS td_msg)) (\<lambda>m.
     if \<not> nexusrv_msg_is_branch m \<or> \<not> nexusrv_msg_is_indir_branch m then throwS (Code nexus_trace_mismatch)
     else
       thenS (on_td (modS (\<lambda>s. if nexusrv_msg_is_sync m then s\<lparr>td_full_addr := xaddr m\<rparr>
                               else s\<lparr>td_full_addr := td_full_addr s XOR xaddr m,
                                      td_msg := (td_msg s)\<lparr>dword1 := 0\<rparr>\<rparr>)))
      (bindS (on_td (readS (\<lambda>s. (td_full_addr s, addr_bits (td_cfg s))))) (\<lambda>(addr, bits).
       bindS (on_td (liftS (extend_addr_bits (push_bit 1 addr) bits))) (\<lambda>target.
       thenS (set_indir (\<lambda>i. i\<lparr>in_target := target,
                in_interrupt := (branch_type m = 1 \<or> branch_type m = 3),
                in_exception := (branch_type m = 1 \<or> branch_type m = 2)\<rparr>))
      (thenS (on_td nexusrv_trace_retire_msg)
      (thenS (set_indir (\<lambda>i. i\<lparr>in_ownership := False\<rparr>))
      (bindS (on_td (td_next_local (w_msg2 w))) (\<lambda>(n2, m2).
       if tcode m2 \<noteq> TCODE_Ownership then on_td td_rewind
       else set_indir (\<lambda>i. i\<lparr>in_ownership := True, in_ownership_fmt := ownership_fmt m2,
                    in_ownership_priv := ownership_priv m2, in_ownership_v := ownership_v m2,
                    in_context := context_field m2\<rparr>))))))))))))"

text \<open>What a caller with a struct of its own takes from the call: the struct, if it succeeds.\<close>

definition filled :: "unit indir \<Rightarrow> nexusrv_trace_indirect \<Rightarrow> nexusrv_trace_indirect td" where
  "filled m i = (\<lambda>s. case m (s, i) of (r, t, j) \<Rightarrow> (case r of Inl e \<Rightarrow> Inl e | Inr _ \<Rightarrow> Inr j, t))"

definition next_indirect :: "world \<Rightarrow> nexusrv_trace_indirect \<Rightarrow> nexusrv_trace_indirect td" where
  "next_indirect w indir0 = filled (nexusrv_trace_next_indirect w) indir0"

lemma filled_simps:
  "filled (thenS (on_td m) k) i = thenS m (filled k i)"
  "filled (bindS (on_td m) f) i = bindS m (\<lambda>x. filled (f x) i)"
  "filled (thenS (set_indir g) k) i = filled k (g i)"
  "filled (throwS e) i = throwS e"
  "filled (on_td n) i = thenS n (retS i)"
  "filled (set_indir g) i = retS (g i)"
  by (auto simp: fun_eq_iff filled_def on_td_def set_indir_def thenS_def bindS_def throwS_def retS_def modS_def
      split: prod.splits sum.splits)

lemma filled_split:
  "filled (if b then m else n) i = (if b then filled m i else filled n i)"
  "filled (case p of (x, y) \<Rightarrow> f x y) i = (case p of (x, y) \<Rightarrow> filled (f x y) i)"
  by (simp_all split: prod.split)

lemma next_indirect_eq:
  "next_indirect w indir0 =
     thenS need_sync
    (thenS (nexusrv_trace_fetch_msg w)
    (thenS nothing_pending
    (bindS (readS td_msg) (\<lambda>m.
     if \<not> nexusrv_msg_is_branch m \<or> \<not> nexusrv_msg_is_indir_branch m then throwS (Code nexus_trace_mismatch)
     else
       thenS (modS (\<lambda>s. if nexusrv_msg_is_sync m then s\<lparr>td_full_addr := xaddr m\<rparr>
                        else s\<lparr>td_full_addr := td_full_addr s XOR xaddr m,
                               td_msg := (td_msg s)\<lparr>dword1 := 0\<rparr>\<rparr>))
      (bindS (readS (\<lambda>s. (td_full_addr s, addr_bits (td_cfg s)))) (\<lambda>(addr, bits).
       bindS (liftS (extend_addr_bits (push_bit 1 addr) bits)) (\<lambda>target.
       let indir = indir0\<lparr>in_target := target,
             in_interrupt := (branch_type m = 1 \<or> branch_type m = 3),
             in_exception := (branch_type m = 1 \<or> branch_type m = 2), in_ownership := False\<rparr> in
       thenS nexusrv_trace_retire_msg
      (bindS (td_next_local (w_msg2 w)) (\<lambda>(n2, m2).
       if tcode m2 \<noteq> TCODE_Ownership then thenS td_rewind (retS indir)
       else retS (indir\<lparr>in_ownership := True, in_ownership_fmt := ownership_fmt m2,
                    in_ownership_priv := ownership_priv m2, in_ownership_v := ownership_v m2,
                    in_context := context_field m2\<rparr>))))))))))"
  by (simp add: next_indirect_def nexusrv_trace_next_indirect_def filled_simps filled_split Let_def cong: if_cong)

text \<open>The loop that drains all elements of the queue.\<close>

function drain_all :: "nexusrv_trace_decoder \<Rightarrow> nexusrv_trace_decoder" where
  "drain_all s =
     (case td_res_hists s of
        [] \<Rightarrow> s
      | el # rest \<Rightarrow> drain_all ((retire_front_timestamp s)\<lparr>td_res_hists := rest\<rparr>))"
  by pat_completeness auto
termination
  by (relation "measure (\<lambda>s. length (td_res_hists s))") auto

declare drain_all.simps [simp del]

definition nexusrv_trace_next_error :: "world \<Rightarrow> nexusrv_trace_error td" where
  "nexusrv_trace_next_error w =
     thenS need_sync
    (thenS (nexusrv_trace_fetch_msg w)
    (bindS (readS td_msg) (\<lambda>m.
     if tcode m \<noteq> TCODE_Error then throwS (Code nexus_trace_mismatch)
     else
       thenS (modS (\<lambda>s. drain_all (s\<lparr>td_res_icnt := 0, td_res_tnts := 0,
                 td_consumed_icnt := 0, td_consumed_tnts := 0\<rparr>)))
      (thenS nexusrv_trace_retire_msg
      (thenS (checkS (\<lambda>s. \<not> td_msg_present s))
      (thenS (modS (\<lambda>s. s\<lparr>td_synced := False\<rparr>))
             (retS \<lparr>er_ecode = error_code m, er_etype = error_type m\<rparr>)))))))"

definition nexusrv_trace_next_stop :: "world \<Rightarrow> nexusrv_trace_stop td" where
  "nexusrv_trace_next_stop w =
     thenS need_sync
    (thenS (nexusrv_trace_fetch_msg w)
    (thenS nothing_pending
    (bindS (readS td_msg) (\<lambda>m.
     if tcode m \<noteq> TCODE_ProgTraceCorrelation then throwS (Code nexus_trace_mismatch)
     else
       thenS nexusrv_trace_retire_msg
      (thenS (checkS (\<lambda>s. \<not> td_msg_present s))
      (thenS (modS (\<lambda>s. s\<lparr>td_synced := False\<rparr>))
             (retS \<lparr>st_evcode = stop_code m\<rparr>)))))))"

definition nexusrv_trace_add_timestamp :: "u64 \<Rightarrow> nexusrv_trace_decoder \<Rightarrow> nexusrv_trace_decoder" where
  "nexusrv_trace_add_timestamp ts s = snd (nexusrv_trace_retire_timestamp ts s)"

text \<open>
  The time in nanoseconds if the frequency is known. The product is computed with 128 bits,
  which it does not exceed, and the quotient is truncated to 64.
\<close>

definition nexusrv_trace_time :: "nexusrv_trace_decoder \<Rightarrow> u64" where
  "nexusrv_trace_time s =
     (let cfg = td_cfg s;
          time = (if ts_bits cfg < 64 then td_timestamp s AND (push_bit (unat (ts_bits cfg)) 1 - 1)
                  else td_timestamp s)
      in if timer_freq cfg \<noteq> 0
         then word_of_int (uint time * 1000000000 div uint (timer_freq cfg)) else time)"

end
