(* ===== verification/TraceQueue.thy ===== *)
theory TraceQueue
  imports TraceDecoder WireFormat
begin

text \<open>
  The branch outcomes a trace decoder has ready, as the list of truth values that the
  histories in the queue and in the buffered message stand for, and the invariant under which
  the queue with its counters implements that list.
\<close>

section \<open>Histories\<close>

text \<open>The position of the stop bit, the most significant bit that is set.\<close>

lemma hist_bits_top:
  assumes "h \<noteq> 0"
  shows "nexusrv_msg_hist_bits h < 32" and "bit h (nexusrv_msg_hist_bits h)"
    and "nexusrv_msg_hist_bits h < i \<Longrightarrow> \<not> bit h i"
proof -
  from assms obtain j where "bit h j" by (auto simp: bit_eq_iff)
  then have "bit (ucast h :: u64) j" by (auto simp: bit_ucast_iff dest: bit_imp_le_length)
  then have "(ucast h :: u64) \<noteq> 0" by auto
  from clz64_props(2) [OF this]
  have top: "clz64 (ucast h) < 64" "bit (ucast h :: u64) (63 - clz64 (ucast h))" by simp_all
  have n: "nexusrv_msg_hist_bits h = 63 - clz64 (ucast h)"
    using assms by (simp add: nexusrv_msg_hist_bits_def)
  from top(2) show "bit h (nexusrv_msg_hist_bits h)" by (simp add: n bit_ucast_iff)
  then show "nexusrv_msg_hist_bits h < 32" using bit_imp_le_length [of h] by fastforce
  assume "nexusrv_msg_hist_bits h < i"
  with clz64_props(3) [of "ucast h :: u64" i] top(1) show "\<not> bit h i"
    by (cases "i < 32") (auto simp: n bit_ucast_iff dest: bit_imp_le_length)
qed

lemma hist_bits_le: "nexusrv_msg_hist_bits h \<le> 31"
  using hist_bits_top(1) [of h] by (cases "h = 0") (auto simp: nexusrv_msg_hist_bits_def)

text \<open>The outcomes of a history: the bits below the stop bit, from the top.\<close>

definition hist_outcomes :: "u32 \<Rightarrow> bool list" where
  "hist_outcomes h = map (bit h) (rev [0..<nexusrv_msg_hist_bits h])"

lemma length_hist_outcomes [simp]: "length (hist_outcomes h) = nexusrv_msg_hist_bits h"
  by (simp add: hist_outcomes_def)

lemma hist_outcomes_0 [simp]: "hist_outcomes 0 = []"
  by (simp add: hist_outcomes_def nexusrv_msg_hist_bits_def)

lemma tnt_bit_outcome:
  assumes "unat k < nexusrv_msg_hist_bits h"
  shows "tnt_bit h (k + 1) = hist_outcomes h ! unat k" and "unat (k + 1) = unat k + 1"
proof -
  from assms hist_bits_le [of h] have "unat k < 255" by simp
  then show k: "unat (k + 1) = unat k + 1" by (simp add: unat_word_ariths(1))
  from assms show "tnt_bit h (k + 1) = hist_outcomes h ! unat k"
    by (simp add: tnt_bit_def hist_outcomes_def k rev_nth)
qed

section \<open>The outcomes of a state\<close>

definition el_outcomes :: "nexusrv_hist_arr_element \<Rightarrow> bool list" where
  "el_outcomes el = concat (replicate (unat (el_repeat el)) (hist_outcomes (el_hist el)))"

definition queue_outcomes :: "nexusrv_hist_array \<Rightarrow> bool list" where
  "queue_outcomes arr = concat (map el_outcomes arr)"

definition msg_outcomes :: "nexusrv_trace_decoder \<Rightarrow> bool list" where
  "msg_outcomes s =
     (if td_msg_present s \<and> nexusrv_msg_has_hist (td_msg s) then hist_outcomes (hist (td_msg s)) else [])"

definition outcomes :: "nexusrv_trace_decoder \<Rightarrow> bool list" where
  "outcomes s = drop (unat (td_consumed_tnts s)) (queue_outcomes (td_res_hists s) @ msg_outcomes s)"

lemma queue_outcomes_simps [simp]:
  "queue_outcomes [] = []"
  "queue_outcomes (el # arr) = el_outcomes el @ queue_outcomes arr"
  "queue_outcomes (arr @ arr') = queue_outcomes arr @ queue_outcomes arr'"
  by (simp_all add: queue_outcomes_def)

text \<open>
  An element is a placeholder for a timestamp, or a history with at least one outcome that is
  repeated at least once.
\<close>

definition el_ok :: "nexusrv_hist_arr_element \<Rightarrow> bool" where
  "el_ok el \<longleftrightarrow> (if el_hist el = 0 then el_repeat el = 1
     else el_repeat el \<noteq> 0 \<and> 0 < nexusrv_msg_hist_bits (el_hist el))"

lemma el_outcomes_empty: "el_hist el = 0 \<Longrightarrow> el_outcomes el = []"
  by (simp add: el_outcomes_def)

lemma el_outcomes_length: "length (el_outcomes el) = unat (el_repeat el) * nexusrv_msg_hist_bits (el_hist el)"
  by (simp add: el_outcomes_def length_concat sum_list_replicate)

lemma el_outcomes_nonempty:
  assumes "el_ok el" and "el_hist el \<noteq> 0"
  shows "el_outcomes el = hist_outcomes (el_hist el) @ el_outcomes (el\<lparr>el_repeat := el_repeat el - 1\<rparr>)"
proof -
  from assms have "el_repeat el \<noteq> 0" by (simp add: el_ok_def)
  then have "unat (el_repeat el) = Suc (unat (el_repeat el - 1))"
    using unat_minus_one [of "el_repeat el"] by (simp add: unat_gt_0)
  then show ?thesis by (simp add: el_outcomes_def)
qed

text \<open>
  The invariant: the elements are sound, \<^verbatim>\<open>res_tnts\<close> is the number of outcomes in the queue,
  which does not overflow even with those of the buffered message, no ResourceFull message is waiting,
  and \<^verbatim>\<open>consumed_tnts\<close> counts outcomes of the first history only.
\<close>

definition is_empty_el :: "nexusrv_hist_arr_element \<Rightarrow> bool" where
  "is_empty_el el \<longleftrightarrow> el_hist el = 0"

definition room :: "nat \<Rightarrow> nexusrv_hist_array \<Rightarrow> bool" where
  "room n arr \<longleftrightarrow> (\<forall>el \<in> set arr. el_ok el) \<and> int (length (queue_outcomes arr)) + int n < 4294967296"

definition queue_ok :: "nexusrv_trace_decoder \<Rightarrow> bool" where
  "queue_ok s \<longleftrightarrow>
     room (length (msg_outcomes s)) (td_res_hists s) \<and>
     unat (td_res_tnts s) = length (queue_outcomes (td_res_hists s)) \<and>
     \<not> (td_msg_present s \<and> nexusrv_msg_is_res (td_msg s)) \<and>
     (case dropWhile is_empty_el (td_res_hists s) of
        [] \<Rightarrow> unat (td_consumed_tnts s) \<le> length (msg_outcomes s)
      | el # _ \<Rightarrow> unat (td_consumed_tnts s) < nexusrv_msg_hist_bits (el_hist el))"

lemma queue_ok_iff:
  "queue_ok s \<longleftrightarrow>
     (\<forall>el \<in> set (td_res_hists s). el_ok el) \<and>
     length (queue_outcomes (td_res_hists s)) + length (msg_outcomes s) < 4294967296 \<and>
     unat (td_res_tnts s) = length (queue_outcomes (td_res_hists s)) \<and>
     \<not> (td_msg_present s \<and> nexusrv_msg_is_res (td_msg s)) \<and>
     (case dropWhile is_empty_el (td_res_hists s) of
        [] \<Rightarrow> unat (td_consumed_tnts s) \<le> length (msg_outcomes s)
      | el # _ \<Rightarrow> unat (td_consumed_tnts s) < nexusrv_msg_hist_bits (el_hist el))"
proof -
  have "int (length (queue_outcomes (td_res_hists s))) + int (length (msg_outcomes s)) < 4294967296 \<longleftrightarrow>
      length (queue_outcomes (td_res_hists s)) + length (msg_outcomes s) < 4294967296" by linarith
  then show ?thesis by (auto simp: queue_ok_def room_def)
qed

lemma queue_outcomes_skip: "queue_outcomes (dropWhile is_empty_el arr) = queue_outcomes arr"
  by (induction arr) (auto simp: is_empty_el_def el_outcomes_empty)

lemma front_within:
  assumes "queue_ok s"
  shows "unat (td_consumed_tnts s) \<le> length (queue_outcomes (td_res_hists s) @ msg_outcomes s)"
proof (cases "dropWhile is_empty_el (td_res_hists s)")
  case Nil
  with assms show ?thesis by (simp add: queue_ok_iff)
next
  case (Cons el rest)
  then have el: "\<not> is_empty_el el" "el \<in> set (td_res_hists s)"
    by (metis hd_dropWhile list.distinct(1) list.sel(1), metis Cons set_dropWhileD list.set_intros(1))
  with assms have "el_ok el" by (simp add: queue_ok_iff)
  with el have "el_outcomes el = hist_outcomes (el_hist el) @ el_outcomes (el\<lparr>el_repeat := el_repeat el - 1\<rparr>)"
    by (intro el_outcomes_nonempty) (auto simp: is_empty_el_def)
  then have "nexusrv_msg_hist_bits (el_hist el) \<le> length (el_outcomes el)" by (metis length_append length_hist_outcomes le_add1)
  moreover have "length (queue_outcomes (td_res_hists s)) = length (el_outcomes el) + length (queue_outcomes rest)"
    using queue_outcomes_skip [of "td_res_hists s"] Cons by (metis length_append queue_outcomes_simps(2))
  moreover have "unat (td_consumed_tnts s) < nexusrv_msg_hist_bits (el_hist el)"
    using Cons assms by (simp add: queue_ok_iff)
  ultimately show ?thesis by simp
qed

lemma available_outcomes:
  assumes "queue_ok s"
  shows "nexusrv_trace_available_tnts s = (Inr (of_nat (length (outcomes s))), s)"
proof -
  define q where "q = length (queue_outcomes (td_res_hists s))"
  define m where "m = length (msg_outcomes s)"
  define c where "c = unat (td_consumed_tnts s)"
  from assms have q: "q + m < 4294967296" "unat (td_res_tnts s) = q"
    "\<not> (td_msg_present s \<and> nexusrv_msg_is_res (td_msg s))" by (simp_all add: queue_ok_iff q_def m_def)
  have c: "c \<le> q + m" using front_within [OF assms] by (simp add: q_def m_def c_def)
  define tnts where "tnts = (if td_msg_present s \<and> nexusrv_msg_has_hist (td_msg s)
      then td_res_tnts s + of_nat (nexusrv_msg_hist_bits (hist (td_msg s))) else td_res_tnts s)"
  have "tnts = of_nat (q + m)"
    using q(2) by (auto simp: tnts_def m_def msg_outcomes_def word_unat_eq_iff)
  moreover have "unat (of_nat (q + m) :: u32) = q + m"
    using q(1) by (simp only: unat_of_nat) (simp add: take_bit_nat_eq_self)
  moreover have "ucast (td_consumed_tnts s) = (of_nat c :: u32)" by (simp add: c_def)
  moreover have "unat (of_nat c :: u32) = c" using c q(1) by (simp add: unat_of_nat take_bit_nat_eq_self)
  moreover have "length (outcomes s) = q + m - c" by (simp add: outcomes_def q_def m_def c_def)
  ultimately have "tnts \<ge> ucast (td_consumed_tnts s)"
    "tnts - ucast (td_consumed_tnts s) = of_nat (length (outcomes s))"
    using c of_nat_diff [OF c, where 'a = u32]
    by (simp_all add: word_le_nat_alt)
  with q(3) show ?thesis by (simp add: nexusrv_trace_available_tnts_def tnts_def Let_def)
qed

lemma outcomes_nonzero:
  assumes "queue_ok s"
  shows "(of_nat (length (outcomes s)) :: u32) = 0 \<longleftrightarrow> outcomes s = []"
proof -
  have "length (queue_outcomes (td_res_hists s)) + length (msg_outcomes s) < 4294967296"
    using assms by (simp add: queue_ok_iff)
  moreover have "length (outcomes s) \<le> length (queue_outcomes (td_res_hists s)) + length (msg_outcomes s)"
    by (simp add: outcomes_def)
  ultimately have "length (outcomes s) < 4294967296" by linarith
  then have "unat (of_nat (length (outcomes s)) :: u32) = length (outcomes s)"
    by (simp add: unat_of_nat take_bit_nat_eq_self)
  then show ?thesis by (metis length_0_conv unat_eq_0)
qed

section \<open>Consuming an outcome\<close>

definition stamp :: "nexusrv_hw_cfg \<Rightarrow> u64 \<Rightarrow> u64 \<Rightarrow> u64" where
  "stamp cfg ts time = (if quirk_sifive cfg then time XOR ts else time + ts)"

lemmas run_defs = bindS_def thenS_def readS_def modS_def retS_def throwS_def liftS_def whenS_def
  ensureS_def assertS_def checkS_def

lemma retire_timestamp_stamp:
  "nexusrv_trace_retire_timestamp ts s =
     (if quirk_sifive (td_cfg s) then 0 else ts, s\<lparr>td_timestamp := stamp (td_cfg s) ts (td_timestamp s)\<rparr>)"
  by (simp add: nexusrv_trace_retire_timestamp_def stamp_def)

lemma td_cfg_upd [simp]:
  "td_cfg (s\<lparr>td_res_hists := a\<rparr>) = td_cfg s" "td_cfg (s\<lparr>td_timestamp := b\<rparr>) = td_cfg s"
  "td_cfg (s\<lparr>td_consumed_tnts := c\<rparr>) = td_cfg s" "td_cfg (s\<lparr>td_res_tnts := d\<rparr>) = td_cfg s"
  "td_cfg (s\<lparr>td_msg := m\<rparr>) = td_cfg s" "td_cfg (s\<lparr>td_msg_present := p\<rparr>) = td_cfg s"
  by (simp_all add: td_cfg_def)

lemma drain_empty_run:
  "\<forall>el \<in> set (td_res_hists s). el_ok el \<Longrightarrow>
   drain_empty s = (Inr (), s\<lparr>td_res_hists := dropWhile is_empty_el (td_res_hists s),
     td_timestamp := fold (\<lambda>el. stamp (td_cfg s) (el_timestamp el))
       (takeWhile is_empty_el (td_res_hists s)) (td_timestamp s)\<rparr>)"
proof (induction s rule: drain_empty.induct)
  case (1 s)
  show ?case
  proof (cases "td_res_hists s")
    case Nil
    then show ?thesis by (subst drain_empty.simps) simp
  next
    case (Cons el rest)
    show ?thesis
    proof (cases "el_hist el = 0")
      case False
      with Cons show ?thesis by (subst drain_empty.simps) (simp add: is_empty_el_def)
    next
      case True
      with "1.prems" Cons have "el_repeat el = 1" by (simp add: el_ok_def)
      moreover have "is_empty_el el" using True by (simp add: is_empty_el_def)
      ultimately show ?thesis using True Cons "1.IH" [of el rest] "1.prems"
        by (subst drain_empty.simps) (simp add: retire_front_timestamp_def retire_timestamp_stamp)
    qed
  qed
qed

text \<open>What consuming an outcome leaves alone.\<close>

definition same_rest :: "nexusrv_trace_decoder \<Rightarrow> nexusrv_trace_decoder \<Rightarrow> bool" where
  "same_rest s t \<longleftrightarrow> t = s\<lparr>td_res_hists := td_res_hists t, td_res_tnts := td_res_tnts t,
     td_consumed_tnts := td_consumed_tnts t, td_timestamp := td_timestamp t\<rparr>"

lemma same_rest_trans: "same_rest s t \<Longrightarrow> same_rest t u \<Longrightarrow> same_rest s u"
  by (cases s; cases t; cases u) (simp add: same_rest_def)

lemma same_rest_sel:
  assumes "same_rest s t"
  shows "td_msg t = td_msg s" "td_msg_present t = td_msg_present s" "td_res_icnt t = td_res_icnt s"
    "td_consumed_icnt t = td_consumed_icnt s" "td_synced t = td_synced s"
    "td_msg_decoder t = td_msg_decoder s" "td_return_stack t = td_return_stack s"
    "td_full_addr t = td_full_addr s" "msg_outcomes t = msg_outcomes s"
  using arg_cong [OF assms [unfolded same_rest_def], of td_msg]
    arg_cong [OF assms [unfolded same_rest_def], of td_msg_present]
    arg_cong [OF assms [unfolded same_rest_def], of td_res_icnt]
    arg_cong [OF assms [unfolded same_rest_def], of td_consumed_icnt]
    arg_cong [OF assms [unfolded same_rest_def], of td_synced]
    arg_cong [OF assms [unfolded same_rest_def], of td_msg_decoder]
    arg_cong [OF assms [unfolded same_rest_def], of td_return_stack]
    arg_cong [OF assms [unfolded same_rest_def], of td_full_addr]
  by (simp_all add: msg_outcomes_def)

text \<open>The queue holds no history: the outcome comes from the buffered message.\<close>

lemma consume_from_msg:
  assumes ok: "queue_ok s" and out: "outcomes s = b # bs"
    and empty: "dropWhile is_empty_el (td_res_hists s) = []"
  shows "\<exists>t. nexusrv_trace_consume_tnt s = (Inr b, t) \<and> queue_ok t \<and> outcomes t = bs \<and> same_rest s t"
proof -
  let ?c = "td_consumed_tnts s"
  let ?h = "hist (td_msg s)"
  have q: "queue_outcomes (td_res_hists s) = []" using queue_outcomes_skip [of "td_res_hists s"] empty by simp
  with ok have r: "td_res_tnts s = 0" by (simp add: queue_ok_iff unat_eq_0)
  from out q have o: "drop (unat ?c) (msg_outcomes s) = b # bs" by (simp add: outcomes_def)
  then have lt: "unat ?c < length (msg_outcomes s)" by (metis drop_eq_Nil list.distinct(1) not_le)
  then have m: "td_msg_present s" "nexusrv_msg_has_hist (td_msg s)" "unat ?c < nexusrv_msg_hist_bits ?h"
    "msg_outcomes s = hist_outcomes ?h"
    by (auto simp: msg_outcomes_def split: if_splits)
  note bit = tnt_bit_outcome [OF m(3)]
  have b: "hist_outcomes ?h ! unat ?c = b" "drop (unat ?c + 1) (hist_outcomes ?h) = bs"
    using o m lt by (metis nth_via_drop, metis Cons_nth_drop_Suc Suc_eq_plus1 list.inject)
  define t where "t = s\<lparr>td_res_hists := [], td_res_tnts := td_res_tnts s, td_consumed_tnts := ?c + 1,
    td_timestamp := fold (\<lambda>el. stamp (td_cfg s) (el_timestamp el))
       (takeWhile is_empty_el (td_res_hists s)) (td_timestamp s)\<rparr>"
  have av: "nexusrv_trace_available_tnts s = (Inr (of_nat (length (outcomes s))), s)"
    by (rule available_outcomes [OF ok])
  have nz: "(of_nat (length (outcomes s)) :: u32) \<noteq> 0" using outcomes_nonzero [OF ok] out by simp
  have dr: "drain_empty s = (Inr (), t\<lparr>td_consumed_tnts := ?c\<rparr>)"
    using drain_empty_run [of s] ok empty by (simp add: queue_ok_iff t_def)
  have "nexusrv_trace_consume_tnt s = (Inr b, t)"
    using m r av nz dr bit b(1) by (simp add: nexusrv_trace_consume_tnt_def run_defs t_def)
  moreover have "queue_ok t"
    using ok m(1,2) lt r bit(2) by (simp add: queue_ok_iff t_def msg_outcomes_def)
  moreover have "outcomes t = bs" using b(2) m bit(2) by (simp add: outcomes_def t_def msg_outcomes_def)
  moreover have "same_rest s t" by (simp add: same_rest_def t_def)
  ultimately show ?thesis by blast
qed

text \<open>The front history of the queue: its repetitions, and what is left after one of them.\<close>

definition used_once :: "nexusrv_hist_arr_element \<Rightarrow> nexusrv_hist_array \<Rightarrow> nexusrv_hist_array" where
  "used_once el rest = (if el_repeat el = 1 then rest else el\<lparr>el_repeat := el_repeat el - 1\<rparr> # rest)"

lemma front_outcomes:
  assumes "el_ok el" and "el_hist el \<noteq> 0"
  shows "queue_outcomes (el # rest) = hist_outcomes (el_hist el) @ queue_outcomes (used_once el rest)"
  using el_outcomes_nonempty [OF assms] by (simp add: used_once_def el_outcomes_def)

lemma front_tnts:
  assumes "queue_ok s" and "td_res_hists s = el # rest" and "el_hist el \<noteq> 0"
  shows "el_ok el" and "unat (td_res_tnts s) =
    nexusrv_msg_hist_bits (el_hist el) + length (queue_outcomes (used_once el rest))"
proof -
  from assms(1,2) show el: "el_ok el" by (simp add: queue_ok_iff)
  from assms(1,2) have "unat (td_res_tnts s) = length (queue_outcomes (el # rest))"
    by (simp add: queue_ok_iff)
  then show "unat (td_res_tnts s) =
      nexusrv_msg_hist_bits (el_hist el) + length (queue_outcomes (used_once el rest))"
    by (simp only: front_outcomes [OF el assms(3)] length_append length_hist_outcomes)
qed

text \<open>One more outcome of the front history, which is not the last of it.\<close>

lemma consume_inside:
  assumes ok: "queue_ok s" and front: "td_res_hists s = el # rest" "el_hist el \<noteq> 0"
    and inside: "unat (td_consumed_tnts s) + 1 < nexusrv_msg_hist_bits (el_hist el)"
    and av: "nexusrv_trace_available_tnts s0 = (Inr n, s0)" "n \<noteq> 0" and dr: "drain_empty s0 = (Inr (), s)"
  shows "nexusrv_trace_consume_tnt s0 =
    (Inr (hist_outcomes (el_hist el) ! unat (td_consumed_tnts s)),
     s\<lparr>td_consumed_tnts := td_consumed_tnts s + 1\<rparr>)"
proof -
  from inside have lt: "unat (td_consumed_tnts s) < nexusrv_msg_hist_bits (el_hist el)" by simp
  have r: "td_res_tnts s \<noteq> 0" using front_tnts(2) [OF ok front] lt by auto
  show ?thesis
    using tnt_bit_outcome [OF lt] av dr r lt front inside
    by (simp add: nexusrv_trace_consume_tnt_def run_defs nexusrv_hist_array_size_def Let_def)
qed

text \<open>The last outcome of the front history: a repetition of it is used up.\<close>

lemma consume_finish:
  assumes ok: "queue_ok s" and front: "td_res_hists s = el # rest" "el_hist el \<noteq> 0"
    and fin: "unat (td_consumed_tnts s) + 1 = nexusrv_msg_hist_bits (el_hist el)"
    and av: "nexusrv_trace_available_tnts s0 = (Inr n, s0)" "n \<noteq> 0" and dr: "drain_empty s0 = (Inr (), s)"
  shows "\<exists>ts time. nexusrv_trace_consume_tnt s0 =
    (Inr (hist_outcomes (el_hist el) ! unat (td_consumed_tnts s)),
     s\<lparr>td_res_hists := used_once (el\<lparr>el_timestamp := ts\<rparr>) rest,
       td_res_tnts := td_res_tnts s - of_nat (nexusrv_msg_hist_bits (el_hist el)), td_consumed_tnts := 0,
       td_timestamp := time\<rparr>)"
proof -
  from fin have lt: "unat (td_consumed_tnts s) < nexusrv_msg_hist_bits (el_hist el)" by simp
  note el = front_tnts(1) [OF ok front]
  have "nexusrv_msg_hist_bits (el_hist el) \<le> unat (td_res_tnts s)" using front_tnts(2) [OF ok front] by simp
  then have r: "td_res_tnts s \<ge> of_nat (nexusrv_msg_hist_bits (el_hist el))" "td_res_tnts s \<noteq> 0"
    using lt by (auto simp: word_le_nat_alt unat_of_nat take_bit_nat_eq_self hist_bits_le
        le_less_trans [OF hist_bits_le])
  have rep: "el_repeat el \<noteq> 0" "el_repeat el - 1 = 0 \<longleftrightarrow> el_repeat el = 1" using el front(2) by (auto simp: el_ok_def)
  have "nexusrv_trace_consume_tnt s0 =
    (Inr (hist_outcomes (el_hist el) ! unat (td_consumed_tnts s)),
     s\<lparr>td_res_hists := used_once (el\<lparr>el_timestamp := if quirk_sifive (td_cfg s) then 0 else el_timestamp el\<rparr>) rest,
       td_res_tnts := td_res_tnts s - of_nat (nexusrv_msg_hist_bits (el_hist el)), td_consumed_tnts := 0,
       td_timestamp := stamp (td_cfg s) (el_timestamp el) (td_timestamp s)\<rparr>)"
    using tnt_bit_outcome [OF lt] av dr r lt front fin rep
    by (simp add: nexusrv_trace_consume_tnt_def run_defs nexusrv_hist_array_size_def Let_def used_once_def
        retire_front_timestamp_def retire_timestamp_stamp pop_front_def)
  then show ?thesis by blast
qed

lemma used_once_ok: "el_ok el \<Longrightarrow> \<forall>x \<in> set rest. el_ok x \<Longrightarrow> \<forall>x \<in> set (used_once el rest). el_ok x"
  by (auto simp: used_once_def el_ok_def)

lemma used_once_timestamp [simp]:
  "queue_outcomes (used_once (el\<lparr>el_timestamp := ts\<rparr>) rest) = queue_outcomes (used_once el rest)"
  "el_ok (el\<lparr>el_timestamp := ts\<rparr>) = el_ok el"
  by (simp_all add: used_once_def el_outcomes_def el_ok_def)

lemma fresh_front:
  assumes "\<forall>x \<in> set arr. el_ok x"
  shows "case dropWhile is_empty_el arr of [] \<Rightarrow> 0 \<le> (n :: nat) | el # _ \<Rightarrow> 0 < nexusrv_msg_hist_bits (el_hist el)"
proof (cases "dropWhile is_empty_el arr")
  case (Cons el rest)
  then have "\<not> is_empty_el el" "el \<in> set arr"
    by (metis hd_dropWhile list.distinct(1) list.sel(1), metis Cons set_dropWhileD list.set_intros(1))
  with assms Cons show ?thesis by (auto simp: el_ok_def is_empty_el_def)
next
  case Nil
  show ?thesis unfolding Nil by simp
qed

text \<open>The queue holds a history: the outcome comes from the first one.\<close>

lemma front_drained:
  assumes ok: "queue_ok s" and front: "dropWhile is_empty_el (td_res_hists s) = el # rest"
  obtains s1 where "drain_empty s = (Inr (), s1)" "queue_ok s1" "td_res_hists s1 = el # rest"
    "\<not> is_empty_el el" "el_hist el \<noteq> 0" "outcomes s1 = outcomes s" "same_rest s s1"
proof -
  define s1 where "s1 = s\<lparr>td_res_hists := el # rest, td_timestamp := fold (\<lambda>el. stamp (td_cfg s) (el_timestamp el))
       (takeWhile is_empty_el (td_res_hists s)) (td_timestamp s)\<rparr>"
  have dr: "drain_empty s = (Inr (), s1)"
    using drain_empty_run [of s] ok front by (simp add: queue_ok_iff s1_def)
  have el: "\<not> is_empty_el el" "el_hist el \<noteq> 0" using front by (auto simp: is_empty_el_def dropWhile_eq_Cons_conv)
  have sub: "set (el # rest) \<subseteq> set (td_res_hists s)" unfolding front [symmetric] by (auto dest: set_dropWhileD)
  have q: "queue_outcomes (td_res_hists s) = queue_outcomes (el # rest)"
    using queue_outcomes_skip [of "td_res_hists s"] front by simp
  have "queue_ok s1" using ok front q sub el(1) by (auto simp: queue_ok_iff s1_def msg_outcomes_def)
  moreover have "outcomes s1 = outcomes s" using q by (simp add: outcomes_def s1_def msg_outcomes_def)
  moreover have "same_rest s s1" by (simp add: same_rest_def s1_def)
  ultimately show thesis using that [OF dr] el by (simp add: s1_def)
qed

lemma front_split:
  assumes ok: "queue_ok s" and front: "td_res_hists s = el # rest" "\<not> is_empty_el el" "el_hist el \<noteq> 0"
    and out: "outcomes s = b # bs"
  shows "unat (td_consumed_tnts s) < nexusrv_msg_hist_bits (el_hist el)"
    and "hist_outcomes (el_hist el) ! unat (td_consumed_tnts s) = b"
    and "drop (unat (td_consumed_tnts s) + 1)
      (hist_outcomes (el_hist el) @ queue_outcomes (used_once el rest) @ msg_outcomes s) = bs"
proof -
  show c: "unat (td_consumed_tnts s) < nexusrv_msg_hist_bits (el_hist el)"
    using ok front by (simp add: queue_ok_iff)
  have o: "drop (unat (td_consumed_tnts s))
      (hist_outcomes (el_hist el) @ queue_outcomes (used_once el rest) @ msg_outcomes s) = b # bs"
    using out unfolding outcomes_def front(1) front_outcomes [OF front_tnts(1) [OF ok front(1,3)] front(3), of rest]
    by (simp only: append_assoc)
  show "hist_outcomes (el_hist el) ! unat (td_consumed_tnts s) = b"
    using nth_via_drop [OF o] c by (simp add: nth_append)
  show "drop (unat (td_consumed_tnts s) + 1)
      (hist_outcomes (el_hist el) @ queue_outcomes (used_once el rest) @ msg_outcomes s) = bs"
    using o by (metis Suc_eq_plus1 drop_Suc list.sel(3) tl_drop)
qed

text \<open>What is left when the outcome is not the last of the front history, and when it is.\<close>

lemma left_inside:
  assumes ok: "queue_ok s" and front: "td_res_hists s = el # rest" "\<not> is_empty_el el" "el_hist el \<noteq> 0"
    and out: "outcomes s = b # bs" and inside: "unat (td_consumed_tnts s) + 1 < nexusrv_msg_hist_bits (el_hist el)"
  defines "t \<equiv> s\<lparr>td_consumed_tnts := td_consumed_tnts s + 1\<rparr>"
  shows "queue_ok t" "outcomes t = bs" "same_rest s t"
proof -
  note c = front_split [OF ok front out]
  note k = tnt_bit_outcome(2) [OF c(1)]
  show "queue_ok t" using ok inside k front by (auto simp: queue_ok_iff t_def msg_outcomes_def)
  have "msg_outcomes t = msg_outcomes s" "td_consumed_tnts t = td_consumed_tnts s + 1"
    "queue_outcomes (td_res_hists t) = hist_outcomes (el_hist el) @ queue_outcomes (used_once el rest)"
    using front(1) front_outcomes [OF front_tnts(1) [OF ok front(1,3)] front(3), of rest]
    by (simp_all add: t_def msg_outcomes_def)
  then show "outcomes t = bs" using c(3) k by (simp add: outcomes_def)
  show "same_rest s t" by (simp add: same_rest_def t_def)
qed

lemma left_finish:
  fixes ts time :: u64
  assumes ok: "queue_ok s" and front: "td_res_hists s = el # rest" "\<not> is_empty_el el" "el_hist el \<noteq> 0"
    and out: "outcomes s = b # bs" and fin: "unat (td_consumed_tnts s) + 1 = nexusrv_msg_hist_bits (el_hist el)"
  defines "t \<equiv> s\<lparr>td_res_hists := used_once (el\<lparr>el_timestamp := ts\<rparr>) rest,
      td_res_tnts := td_res_tnts s - of_nat (nexusrv_msg_hist_bits (el_hist el)), td_consumed_tnts := 0, td_timestamp := time\<rparr>"
  shows "queue_ok t" "outcomes t = bs" "same_rest s t"
proof -
  let ?n = "nexusrv_msg_hist_bits (el_hist el)"
  define arr where "arr = used_once (el\<lparr>el_timestamp := ts\<rparr>) rest"
  note tnts = front_tnts [OF ok front(1,3)]
  have arr: "\<forall>x \<in> set arr. el_ok x" "queue_outcomes arr = queue_outcomes (used_once el rest)"
    using used_once_ok [of "el\<lparr>el_timestamp := ts\<rparr>" rest] tnts(1) ok front(1)
    by (auto simp: arr_def queue_ok_iff)
  have "unat (of_nat ?n :: u32) = ?n"
    using hist_bits_le [of "el_hist el"] by (simp add: unat_of_nat take_bit_nat_eq_self)
  then have sub: "unat (td_res_tnts s - of_nat ?n) = length (queue_outcomes arr)"
    using tnts(2) arr(2) by (simp add: unat_sub word_le_nat_alt)
  have mo: "msg_outcomes t = msg_outcomes s" by (simp add: t_def msg_outcomes_def)
  have "length (queue_outcomes arr) \<le> length (queue_outcomes (td_res_hists s))"
    using front(1) front_outcomes [OF tnts(1) front(3), of rest] arr(2) by simp
  moreover have sel: "td_res_hists t = arr" "td_res_tnts t = td_res_tnts s - of_nat ?n"
    "td_consumed_tnts t = 0" "td_msg_present t = td_msg_present s" "td_msg t = td_msg s"
    by (simp_all add: t_def arr_def)
  ultimately show "queue_ok t"
    using arr(1) sub fresh_front [OF arr(1), of "length (msg_outcomes t)"] ok
    unfolding queue_ok_iff [of t] sel unat_0 mo by (simp add: queue_ok_iff)
  show "outcomes t = bs" using front_split(3) [OF ok front out] fin sel mo arr(2) by (simp add: outcomes_def)
  show "same_rest s t" by (simp add: same_rest_def t_def)
qed

lemma consume_from_queue:
  assumes ok: "queue_ok s" and out: "outcomes s = b # bs"
    and front: "dropWhile is_empty_el (td_res_hists s) = el # rest"
  shows "\<exists>t. nexusrv_trace_consume_tnt s = (Inr b, t) \<and> queue_ok t \<and> outcomes t = bs \<and> same_rest s t"
proof -
  obtain s1 where dr: "drain_empty s = (Inr (), s1)" and ok1: "queue_ok s1" and hists: "td_res_hists s1 = el # rest"
    and el: "\<not> is_empty_el el" "el_hist el \<noteq> 0" and same: "outcomes s1 = outcomes s" "same_rest s s1"
    by (rule front_drained [OF ok front])
  note out1 = same(1) [unfolded out]
  note c = front_split [OF ok1 hists el out1]
  have av: "nexusrv_trace_available_tnts s = (Inr (of_nat (length (outcomes s))), s)"
    "(of_nat (length (outcomes s)) :: u32) \<noteq> 0"
    using available_outcomes [OF ok] outcomes_nonzero [OF ok] out by simp_all
  note trans = same_rest_trans [OF same(2)]
  show ?thesis
  proof (cases "unat (td_consumed_tnts s1) + 1 = nexusrv_msg_hist_bits (el_hist el)")
    case False
    with c(1) have inside: "unat (td_consumed_tnts s1) + 1 < nexusrv_msg_hist_bits (el_hist el)" by simp
    from consume_inside [OF ok1 hists el(2) inside av dr] left_inside [OF ok1 hists el out1 inside] c(2) trans
    show ?thesis by blast
  next
    case True
    from consume_finish [OF ok1 hists el(2) True av dr] left_finish [OF ok1 hists el out1 True] c(2) trans
    show ?thesis by blast
  qed
qed

lemma consume_outcome:
  assumes "queue_ok s" and "outcomes s = b # bs"
  shows "\<exists>t. nexusrv_trace_consume_tnt s = (Inr b, t) \<and> queue_ok t \<and> outcomes t = bs \<and> same_rest s t"
  using consume_from_msg [OF assms] consume_from_queue [OF assms]
  by (cases "dropWhile is_empty_el (td_res_hists s)") auto

end
