(* ===== verification/TracePull.thy ===== *)
theory TracePull
  imports TraceQueue MsgStream
begin

text \<open>
  Fetching and pulling messages: what they change, and what a ResourceFull message adds to the
  instruction count and to the branch outcomes that are pending.
\<close>

section \<open>Pending instructions\<close>

definition msg_count :: "nexusrv_trace_decoder \<Rightarrow> nat" where
  "msg_count s = (if td_msg_present s \<and> nexusrv_msg_has_icnt (td_msg s) then unat (icnt (td_msg s)) else 0)"

definition pending :: "nexusrv_trace_decoder \<Rightarrow> nat" where
  "pending s = unat (td_res_icnt s) + msg_count s - unat (td_consumed_icnt s)"

text \<open>
  The invariant: the sum does not wrap, no ResourceFull message is waiting, and instructions of
  the buffered message are consumed only when those of the earlier ones are.
\<close>

definition icnt_ok :: "nexusrv_trace_decoder \<Rightarrow> bool" where
  "icnt_ok s \<longleftrightarrow>
     td_res_icnt s \<le> - 1 - MSG_ICNT_MAX \<and>
     (td_msg_present s \<and> nexusrv_msg_has_icnt (td_msg s) \<longrightarrow> icnt (td_msg s) \<le> MSG_ICNT_MAX) \<and>
     \<not> (td_msg_present s \<and> nexusrv_msg_is_res (td_msg s)) \<and>
     (td_res_icnt s = 0 \<or> td_consumed_icnt s = 0) \<and>
     unat (td_consumed_icnt s) \<le> msg_count s"

lemma icnt_sum:
  assumes "icnt_ok s" and "td_msg_present s" and "nexusrv_msg_has_icnt (td_msg s)"
  shows "unat (td_res_icnt s + icnt (td_msg s)) = unat (td_res_icnt s) + unat (icnt (td_msg s))"
proof -
  from assms have "unat (td_res_icnt s) \<le> 4290772992" "unat (icnt (td_msg s)) \<le> 4194303"
    by (simp_all add: icnt_ok_def MSG_ICNT_MAX_def word_le_nat_alt)
  then show ?thesis by (simp add: unat_word_ariths(1))
qed

lemma available_pending:
  assumes "icnt_ok s"
  shows "nexusrv_trace_available_icnt s = (Inr (of_nat (pending s)), s)"
    and "unat (of_nat (pending s) :: u32) = pending s"
proof -
  define total where "total = (if td_msg_present s \<and> nexusrv_msg_has_icnt (td_msg s)
    then td_res_icnt s + icnt (td_msg s) else td_res_icnt s)"
  have t: "unat total = unat (td_res_icnt s) + msg_count s"
    using icnt_sum [OF assms] by (simp add: total_def msg_count_def)
  have c: "unat (td_consumed_icnt s) \<le> unat total" using assms t by (simp add: icnt_ok_def)
  have d: "unat (total - td_consumed_icnt s) = pending s"
    using c t by (simp add: unat_sub word_le_nat_alt pending_def)
  have w: "total - td_consumed_icnt s = of_nat (pending s)" unfolding d [symmetric] by simp
  from d w show "unat (of_nat (pending s) :: u32) = pending s" by simp
  from assms c w show "nexusrv_trace_available_icnt s = (Inr (of_nat (pending s)), s)"
    by (simp add: nexusrv_trace_available_icnt_def icnt_ok_def Let_def word_le_nat_alt flip: total_def)
qed

text \<open>What consuming instructions leaves alone.\<close>

definition same_but_icnt :: "nexusrv_trace_decoder \<Rightarrow> nexusrv_trace_decoder \<Rightarrow> bool" where
  "same_but_icnt s t \<longleftrightarrow> t = s\<lparr>td_res_icnt := td_res_icnt t, td_consumed_icnt := td_consumed_icnt t\<rparr>"

lemma consume_icnt_pending:
  assumes ok: "icnt_ok s" and n: "unat n \<le> pending s"
  shows "\<exists>t. nexusrv_trace_consume_icnt n s = (Inr (), t) \<and> icnt_ok t \<and> pending t = pending s - unat n \<and>
    same_but_icnt s t"
proof (cases "n \<le> td_res_icnt s")
  case True
  define t where "t = s\<lparr>td_res_icnt := td_res_icnt s - n\<rparr>"
  have sub: "unat (td_res_icnt s - n) = unat (td_res_icnt s) - unat n"
    using True by (simp add: unat_sub word_le_nat_alt)
  have "nexusrv_trace_consume_icnt n s = (Inr (), t)"
    using available_pending [OF ok] n True ok
    by (simp add: nexusrv_trace_consume_icnt_def run_defs t_def icnt_ok_def word_le_nat_alt)
  moreover have "td_res_icnt s = 0 \<Longrightarrow> td_res_icnt s - n = 0"
    using True by (simp add: word_le_nat_alt unat_eq_0)
  moreover have "td_res_icnt s - n \<le> td_res_icnt s"
    using True sub by (auto simp: word_le_nat_alt)
  then have "icnt_ok t"
    using ok by (auto simp: icnt_ok_def t_def msg_count_def)
  moreover have "pending t = pending s - unat n"
    using ok True sub by (auto simp: icnt_ok_def pending_def t_def msg_count_def word_le_nat_alt)
  moreover have "same_but_icnt s t" by (simp add: same_but_icnt_def t_def)
  ultimately show ?thesis by blast
next
  case False
  define t where "t = s\<lparr>td_consumed_icnt := td_consumed_icnt s + (n - td_res_icnt s), td_res_icnt := 0\<rparr>"
  from False have le: "td_res_icnt s \<le> n" by simp
  have sub: "unat (n - td_res_icnt s) = unat n - unat (td_res_icnt s)"
    using le by (simp add: unat_sub word_le_nat_alt)
  from ok have c: "td_res_icnt s = 0 \<or> td_consumed_icnt s = 0" "unat (td_consumed_icnt s) \<le> msg_count s"
    by (simp_all add: icnt_ok_def)
  have m: "0 < msg_count s" "td_msg_present s" "nexusrv_msg_has_icnt (td_msg s)"
    using n False c by (auto simp: pending_def msg_count_def word_le_nat_alt split: if_splits)
  have "msg_count s \<le> 4194303"
    using ok m by (simp add: icnt_ok_def MSG_ICNT_MAX_def word_le_nat_alt msg_count_def)
  then have new: "unat (td_consumed_icnt s + (n - td_res_icnt s)) =
      unat (td_consumed_icnt s) + (unat n - unat (td_res_icnt s))"
    "unat (td_consumed_icnt s) + (unat n - unat (td_res_icnt s)) \<le> msg_count s"
    using n c sub le by (auto simp: pending_def unat_word_ariths(1) word_le_nat_alt)
  have "nexusrv_trace_consume_icnt n s = (Inr (), t)"
    using available_pending [OF ok] n False c(1) m(2)
    by (simp add: nexusrv_trace_consume_icnt_def run_defs t_def word_le_nat_alt)
  moreover have "icnt_ok t"
    using ok new m(2,3) by (simp add: icnt_ok_def t_def msg_count_def)
  moreover have "pending t = pending s - unat n"
    using new n c le by (auto simp: pending_def t_def msg_count_def word_le_nat_alt)
  moreover have "same_but_icnt s t" by (simp add: same_but_icnt_def t_def)
  ultimately show ?thesis by blast
qed

section \<open>Fetching\<close>

text \<open>The tests a fetched message passed.\<close>

definition good_msg :: "nexusrv_msg \<Rightarrow> bool" where
  "good_msg m \<longleftrightarrow> nexusrv_msg_known m \<and> \<not> nexusrv_msg_is_data_acq m \<and>
     (nexusrv_msg_has_icnt m \<longrightarrow> icnt m \<le> MSG_ICNT_MAX) \<and> (nexusrv_msg_has_hist m \<longrightarrow> hist m \<noteq> 0) \<and>
     (nexusrv_msg_is_res m \<longrightarrow> nexusrv_msg_has_hist m \<longrightarrow> hrepeat m \<le> MSG_HREPEAT_MAX)"

lemma check_msg_good: "nexusrv_trace_check_msg m \<Longrightarrow> good_msg m"
  by (auto simp: nexusrv_trace_check_msg_def good_msg_def not_less split: if_splits)

lemma msg_hrepeat_upd [simp]:
  "nexusrv_msg_known (m\<lparr>hrepeat := n\<rparr>) = nexusrv_msg_known m"
  "nexusrv_msg_is_data_acq (m\<lparr>hrepeat := n\<rparr>) = nexusrv_msg_is_data_acq m"
  "nexusrv_msg_has_icnt (m\<lparr>hrepeat := n\<rparr>) = nexusrv_msg_has_icnt m"
  "nexusrv_msg_has_hist (m\<lparr>hrepeat := n\<rparr>) = nexusrv_msg_has_hist m"
  "nexusrv_msg_is_res (m\<lparr>hrepeat := n\<rparr>) = nexusrv_msg_is_res m"
  "nexusrv_msg_is_branch (m\<lparr>hrepeat := n\<rparr>) = nexusrv_msg_is_branch m"
  "nexusrv_msg_is_sync (m\<lparr>hrepeat := n\<rparr>) = nexusrv_msg_is_sync m"
  "icnt (m\<lparr>hrepeat := n\<rparr>) = icnt m"
  "\<not> nexusrv_msg_is_res m \<Longrightarrow> good_msg (m\<lparr>hrepeat := n\<rparr>) = good_msg m"
  by (simp_all add: msg_preds field_readers good_msg_def)

text \<open>
  A fetch changes the stream, the buffered message and its flag only. Unless it fails it leaves
  a message that passed the tests. If it fails then before there was no message; and if there is
  one now, it is a branch that was followed by something the stream decoder refuses.
\<close>

definition fetched :: "nexusrv_trace_decoder \<Rightarrow> nexusrv_trace_decoder \<Rightarrow> bool" where
  "fetched s t \<longleftrightarrow> t = s\<lparr>td_msg_decoder := td_msg_decoder t, td_msg := td_msg t, td_msg_present := td_msg_present t\<rparr>"

lemma fetch_msg_spec:
  assumes ok: "stream_ok S (td_msg_decoder s)" and run: "nexusrv_trace_fetch_msg w s = (r, t)"
  shows "fetched s t" and "stream_ok S (td_msg_decoder t)"
    and "r = Inl e \<Longrightarrow> clean e \<and> \<not> td_msg_present s \<and> (td_msg_present t \<longrightarrow> \<not> nexusrv_msg_is_res (td_msg t))"
    and "r = Inr b \<Longrightarrow> td_msg_present t \<and> (b \<longleftrightarrow> \<not> td_msg_present s)"
    and "\<not> td_msg_present s \<Longrightarrow> td_msg_present t \<Longrightarrow> good_msg (td_msg t)"
    and "td_msg_present s \<Longrightarrow> t = s"
proof -
  have all: "fetched s t \<and> stream_ok S (td_msg_decoder t) \<and>
    (\<forall>e. r = Inl e \<longrightarrow> clean e \<and> \<not> td_msg_present s \<and> (td_msg_present t \<longrightarrow> \<not> nexusrv_msg_is_res (td_msg t))) \<and>
    (\<forall>b. r = Inr b \<longrightarrow> td_msg_present t \<and> (b \<longleftrightarrow> \<not> td_msg_present s)) \<and>
    (\<not> td_msg_present s \<longrightarrow> td_msg_present t \<longrightarrow> good_msg (td_msg t)) \<and> (td_msg_present s \<longrightarrow> t = s)"
  proof (cases "td_msg_present s")
    case True
    with run ok show ?thesis by (auto simp: nexusrv_trace_fetch_msg_def run_defs fetched_def)
  next
    case False
    obtain r1 d1 m1 where n1: "nexusrv_msg_decoder_next (td_msg_decoder s) (td_msg s) = (r1, d1, m1)"
      by (metis surj_pair)
    have ok1: "stream_ok S d1" using file_stream.nxt_ok [OF ok n1] by simp
    obtain d1' where rw1: "nexusrv_msg_decoder_rewind_last d1 = Inr d1'" "stream_ok S d1'"
      using file_stream.rewind_ok [OF ok1] by blast
    obtain r2 d2 m2 where n2: "nexusrv_msg_decoder_next d1 (w_msg2 w) = (r2, d2, m2)"
      by (metis surj_pair)
    have ok2: "stream_ok S d2" using file_stream.nxt_ok [OF ok1 n2] by simp
    obtain d2' where rw2: "nexusrv_msg_decoder_rewind_last d2 = Inr d2'" "stream_ok S d2'"
      using file_stream.rewind_ok [OF ok2] by blast
    have br: "nexusrv_msg_is_branch m1 \<Longrightarrow> \<not> nexusrv_msg_is_res m1" by (auto simp: msg_preds)
    have c1: "\<And>e. r1 = Inl e \<Longrightarrow> clean e" using file_stream.nxt_clean [OF ok] n1 by blast
    have c2: "\<And>e. r2 = Inl e \<Longrightarrow> clean e" using file_stream.nxt_clean [OF ok1] n2 by blast
    note defs = nexusrv_trace_fetch_msg_def run_defs td_next_def td_next_local_def td_rewind_def fetched_def
    show ?thesis
    proof (cases r1)
      case (Inl e)
      with run False n1 ok1 c1 show ?thesis by (auto simp: defs)
    next
      case (Inr n)
      consider "n = 0" | "n \<noteq> 0" "\<not> nexusrv_trace_check_msg m1"
        | "n \<noteq> 0" "nexusrv_trace_check_msg m1" "\<not> nexusrv_msg_is_branch m1 \<or> nexusrv_msg_is_sync m1"
        | "n \<noteq> 0" "nexusrv_trace_check_msg m1" "nexusrv_msg_is_branch m1" "\<not> nexusrv_msg_is_sync m1" by blast
      then show ?thesis
      proof cases
        case 1
        with run False n1 ok1 Inr show ?thesis by (auto simp: defs)
      next
        case 2
        with run False n1 ok1 Inr rw1 show ?thesis by (auto simp: defs)
      next
        case 3
        with run False n1 ok1 Inr show ?thesis by (auto simp: defs check_msg_good)
      next
        case 4
        with run False n1 ok2 Inr n2 rw2 c2 br show ?thesis
          by (cases r2) (auto simp: defs check_msg_good split: if_splits)
      qed
    qed
  qed
  from all show "fetched s t" and "stream_ok S (td_msg_decoder t)" by blast+
  from all show "r = Inl e \<Longrightarrow> clean e \<and> \<not> td_msg_present s \<and> (td_msg_present t \<longrightarrow> \<not> nexusrv_msg_is_res (td_msg t))"
    and "r = Inr b \<Longrightarrow> td_msg_present t \<and> (b \<longleftrightarrow> \<not> td_msg_present s)"
    and "\<not> td_msg_present s \<Longrightarrow> td_msg_present t \<Longrightarrow> good_msg (td_msg t)"
    and "td_msg_present s \<Longrightarrow> t = s" by blast+
qed

lemma fetched_sel:
  assumes "fetched s t"
  shows "td_res_hists t = td_res_hists s" "td_res_icnt t = td_res_icnt s" "td_res_tnts t = td_res_tnts s"
    "td_consumed_icnt t = td_consumed_icnt s" "td_consumed_tnts t = td_consumed_tnts s"
    "td_synced t = td_synced s" "td_full_addr t = td_full_addr s" "td_timestamp t = td_timestamp s"
    "td_return_stack t = td_return_stack s"
  using arg_cong [OF assms [unfolded fetched_def], of td_res_hists]
    arg_cong [OF assms [unfolded fetched_def], of td_res_icnt]
    arg_cong [OF assms [unfolded fetched_def], of td_res_tnts]
    arg_cong [OF assms [unfolded fetched_def], of td_consumed_icnt]
    arg_cong [OF assms [unfolded fetched_def], of td_consumed_tnts]
    arg_cong [OF assms [unfolded fetched_def], of td_synced]
    arg_cong [OF assms [unfolded fetched_def], of td_full_addr]
    arg_cong [OF assms [unfolded fetched_def], of td_timestamp]
    arg_cong [OF assms [unfolded fetched_def], of td_return_stack]
  by simp_all

lemma fetched_drop: "fetched s u \<Longrightarrow> fetched s (u\<lparr>td_msg_present := False\<rparr>)"
  unfolding fetched_def by (cases s; cases u) simp

text \<open>A fetched message that is not a ResourceFull message keeps the invariants and adds what it carries.\<close>

lemma fetched_queue:
  assumes "queue_ok s" and "fetched s t" and "\<not> td_msg_present s"
    and "td_msg_present t \<longrightarrow> \<not> nexusrv_msg_is_res (td_msg t)"
    and "length (queue_outcomes (td_res_hists s)) + length (msg_outcomes t) < 4294967296"
  shows "queue_ok t" and "outcomes t = outcomes s @ msg_outcomes t"
proof -
  have mo: "msg_outcomes s = []" using assms(3) by (simp add: msg_outcomes_def)
  have c: "unat (td_consumed_tnts s) \<le> length (queue_outcomes (td_res_hists s))"
    using front_within [OF assms(1)] mo by simp
  show "queue_ok t"
  proof (cases "dropWhile is_empty_el (td_res_hists s)")
    case Nil
    with assms(1,4,5) mo show ?thesis
      by (simp add: queue_ok_iff fetched_sel [OF assms(2)] del: dropWhile_eq_Nil_conv)
  next
    case (Cons el rest)
    with assms(1,4,5) show ?thesis by (simp add: queue_ok_iff fetched_sel [OF assms(2)])
  qed
  show "outcomes t = outcomes s @ msg_outcomes t"
    using c mo by (simp add: outcomes_def fetched_sel [OF assms(2)])
qed

lemma fetched_icnt:
  assumes "icnt_ok s" and "fetched s t" and "\<not> td_msg_present s"
    and "td_msg_present t \<longrightarrow> \<not> nexusrv_msg_is_res (td_msg t)" and "td_msg_present t \<longrightarrow> good_msg (td_msg t)"
  shows "icnt_ok t" and "pending t = pending s + msg_count t"
proof -
  have mc: "msg_count s = 0" using assms(3) by (simp add: msg_count_def)
  with assms(1) have c: "td_consumed_icnt s = 0" by (simp add: icnt_ok_def unat_eq_0)
  show "icnt_ok t"
    using assms(1,4,5) mc c unfolding icnt_ok_def fetched_sel [OF assms(2)] by (auto simp: good_msg_def)
  show "pending t = pending s + msg_count t"
    using mc c by (simp add: pending_def fetched_sel [OF assms(2)])
qed

section \<open>Pulling\<close>

text \<open>What a ResourceFull message adds.\<close>

definition res_count :: "nexusrv_msg \<Rightarrow> nat" where
  "res_count m = (if nexusrv_msg_has_icnt m then unat (icnt m) else 0)"

definition res_outcomes :: "nexusrv_hw_cfg \<Rightarrow> nexusrv_msg \<Rightarrow> bool list" where
  "res_outcomes cfg m =
     (if nexusrv_msg_has_icnt m then []
      else if nexusrv_msg_has_hist m then
        concat (replicate (if hrepeat m \<noteq> 0 then unat (hrepeat m) else 1) (hist_outcomes (hist m)))
      else if quirk_sifive cfg \<and> res_code m = 8 then replicate (unat (res_data m)) False
      else if quirk_sifive cfg \<and> res_code m = 9 then replicate (unat (res_data m)) True
      else [])"

text \<open>A history that holds the stop bit only has no outcomes; consuming does not get past it.\<close>

definition tame :: "nexusrv_msg \<Rightarrow> bool" where
  "tame m \<longleftrightarrow> (nexusrv_msg_is_res m \<and> nexusrv_msg_has_hist m \<longrightarrow> nexusrv_msg_hist_bits (hist m) \<noteq> 0)"

definition res_element :: "nexusrv_hw_cfg \<Rightarrow> nexusrv_msg \<Rightarrow> nexusrv_hist_arr_element" where
  "res_element cfg m =
     (if nexusrv_msg_has_icnt m then \<lparr>el_hist = 0, el_repeat = 1, el_timestamp = timestamp m\<rparr>
      else if nexusrv_msg_has_hist m then
        \<lparr>el_hist = hist m, el_repeat = (if hrepeat m \<noteq> 0 then hrepeat m else 1), el_timestamp = timestamp m\<rparr>
      else \<lparr>el_hist = (if res_code m = 8 then 2 else 3), el_repeat = res_data m, el_timestamp = timestamp m\<rparr>)"

text \<open>The state behind a pulled ResourceFull message.\<close>

definition with_res :: "nexusrv_hist_arr_element \<Rightarrow> u32 \<Rightarrow> nexusrv_trace_decoder \<Rightarrow> nexusrv_trace_decoder" where
  "with_res el n s = s\<lparr>td_res_icnt := td_res_icnt s + n, td_res_hists := td_res_hists s @ [el],
     td_res_tnts := td_res_tnts s + el_repeat el * of_nat (nexusrv_msg_hist_bits (el_hist el)),
     td_msg_present := False\<rparr>"

lemma hist_2_3 [simp]: "nexusrv_msg_hist_bits 2 = 1" "nexusrv_msg_hist_bits 3 = 1"
  "hist_outcomes 2 = [False]" "hist_outcomes 3 = [True]"
  by code_simp+

lemma pull_msg_cases:
  assumes "nexusrv_trace_pull_msg w s = (r, t)"
  obtains (fetch) e where "nexusrv_trace_fetch_msg w s = (Inl e, t)" "r = Inl e"
  | (front) b where "nexusrv_trace_fetch_msg w s = (Inr b, t)" "\<not> nexusrv_msg_is_res (td_msg t)" "r = Inr False"
  | (fail) b u e where "nexusrv_trace_fetch_msg w s = (Inr b, u)" "nexusrv_msg_is_res (td_msg u)" "r = Inl (Code e)"
      "t = u \<or> t = u\<lparr>td_res_icnt := td_res_icnt u + icnt (td_msg u)\<rparr>"
  | (pull) b u where "nexusrv_trace_fetch_msg w s = (Inr b, u)" "nexusrv_msg_is_res (td_msg u)" "r = Inr True"
      "t = with_res (res_element (td_cfg u) (td_msg u))
         (if nexusrv_msg_has_icnt (td_msg u) then icnt (td_msg u) else 0) u"
      "nexusrv_msg_has_icnt (td_msg u) \<Longrightarrow> td_res_icnt u + icnt (td_msg u) \<le> - 1 - MSG_ICNT_MAX"
      "\<not> nexusrv_msg_has_icnt (td_msg u) \<Longrightarrow> \<not> nexusrv_msg_has_hist (td_msg u) \<Longrightarrow>
         quirk_sifive (td_cfg u) \<and> (res_code (td_msg u) = 8 \<or> res_code (td_msg u) = 9) \<and> res_data (td_msg u) \<noteq> 0"
proof -
  obtain rf u where f: "nexusrv_trace_fetch_msg w s = (rf, u)" by (metis surj_pair)
  show thesis
  proof (cases rf)
    case (Inl e)
    with assms f that(1) show thesis by (auto simp: nexusrv_trace_pull_msg_def run_defs)
  next
    case (Inr b)
    show thesis
    proof (cases "nexusrv_msg_is_res (td_msg u)")
      case False
      with assms f Inr that(2) show thesis by (auto simp: nexusrv_trace_pull_msg_def run_defs)
    next
      case True
      note defs = nexusrv_trace_pull_msg_def run_defs resource_element_def push_element_def
        nexusrv_hist_array_push_def Let_def res_element_def with_res_def
      from assms f Inr True that(3,4) show thesis
        by (auto simp: defs td_cfg_def not_less split: if_splits sum.splits)
    qed
  qed
qed

lemma el_outcomes_res:
  assumes "\<not> nexusrv_msg_has_icnt m \<Longrightarrow> \<not> nexusrv_msg_has_hist m \<Longrightarrow>
      quirk_sifive cfg \<and> (res_code m = 8 \<or> res_code m = 9) \<and> res_data m \<noteq> 0"
  shows "el_outcomes (res_element cfg m) = res_outcomes cfg m"
  using assms by (auto simp: el_outcomes_def res_element_def res_outcomes_def)

lemma el_ok_res:
  assumes "nexusrv_msg_is_res m" "tame m" "nexusrv_msg_has_hist m \<Longrightarrow> hist m \<noteq> 0"
    and "\<not> nexusrv_msg_has_icnt m \<Longrightarrow> \<not> nexusrv_msg_has_hist m \<Longrightarrow>
      quirk_sifive cfg \<and> (res_code m = 8 \<or> res_code m = 9) \<and> res_data m \<noteq> 0"
  shows "el_ok (res_element cfg m)"
  using assms by (auto simp: el_ok_def res_element_def tame_def)

lemma res_no_count: "\<not> td_msg_present s \<Longrightarrow> msg_outcomes s = [] \<and> msg_count s = 0"
  by (simp add: msg_outcomes_def msg_count_def)

text \<open>An element behind the queue.\<close>

lemma with_res_queue:
  assumes ok: "queue_ok s" and el: "el_ok el" and fresh: "msg_outcomes s = []"
    and room: "length (queue_outcomes (td_res_hists s)) + length (el_outcomes el) < 4294967296"
  shows "queue_ok (with_res el n s)" and "outcomes (with_res el n s) = outcomes s @ el_outcomes el"
proof -
  define t where "t = with_res el n s"
  have sel: "td_res_hists t = td_res_hists s @ [el]" "td_consumed_tnts t = td_consumed_tnts s"
    "\<not> td_msg_present t" "td_res_tnts t = td_res_tnts s + el_repeat el * of_nat (nexusrv_msg_hist_bits (el_hist el))"
    by (simp_all add: t_def with_res_def)
  then have mo: "msg_outcomes t = []" by (simp add: msg_outcomes_def)
  have c: "unat (td_consumed_tnts s) \<le> length (queue_outcomes (td_res_hists s))"
    using front_within [OF ok] fresh by simp
  have len: "length (el_outcomes el) = unat (el_repeat el) * nexusrv_msg_hist_bits (el_hist el)"
    by (rule el_outcomes_length)
  have "unat (of_nat (nexusrv_msg_hist_bits (el_hist el)) :: u32) = nexusrv_msg_hist_bits (el_hist el)"
    using hist_bits_le [of "el_hist el"] by (simp add: unat_of_nat take_bit_nat_eq_self)
  then have "unat (el_repeat el * of_nat (nexusrv_msg_hist_bits (el_hist el))) = length (el_outcomes el)"
    using room len by (simp add: unat_word_ariths(2))
  then have tnts: "unat (td_res_tnts t) = length (queue_outcomes (td_res_hists s)) + length (el_outcomes el)"
    using room ok by (simp add: sel queue_ok_iff unat_word_ariths(1))
  have "case dropWhile is_empty_el (td_res_hists t) of
        [] \<Rightarrow> unat (td_consumed_tnts t) \<le> length (msg_outcomes t)
      | el # _ \<Rightarrow> unat (td_consumed_tnts t) < nexusrv_msg_hist_bits (el_hist el)"
  proof (cases "dropWhile is_empty_el (td_res_hists s)")
    case Nil
    then have "queue_outcomes (td_res_hists s) = []" using queue_outcomes_skip [of "td_res_hists s"] unfolding Nil by simp
    with c have "unat (td_consumed_tnts s) = 0" by simp
    moreover have "dropWhile is_empty_el (td_res_hists t) = (if is_empty_el el then [] else [el])"
      using Nil by (auto simp: sel dropWhile_append)
    ultimately show ?thesis using el by (auto simp: sel el_ok_def is_empty_el_def split: if_splits)
  next
    case (Cons e rest)
    then have "e \<in> set (td_res_hists s)" "\<not> is_empty_el e"
      by (metis list.set_intros(1) set_dropWhileD, metis Cons hd_dropWhile list.distinct(1) list.sel(1))
    then have "dropWhile is_empty_el (td_res_hists t) = e # rest @ [el]"
      using Cons by (simp add: sel dropWhile_append1)
    with ok Cons show ?thesis by (simp add: sel queue_ok_iff)
  qed
  with ok el room tnts show "queue_ok (with_res el n s)"
    unfolding t_def [symmetric] queue_ok_iff [of t] using mo sel by (auto simp: queue_ok_iff [of s])
  show "outcomes (with_res el n s) = outcomes s @ el_outcomes el"
    unfolding t_def [symmetric] using c fresh mo sel by (simp add: outcomes_def)
qed

lemma with_res_icnt:
  assumes ok: "icnt_ok s" and fresh: "msg_count s = 0" and no: "td_res_icnt s + n \<le> - 1 - MSG_ICNT_MAX"
    and n: "n \<le> MSG_ICNT_MAX"
  shows "icnt_ok (with_res el n s)" and "pending (with_res el n s) = pending s + unat n"
proof -
  define t where "t = with_res el n s"
  have sel: "td_res_icnt t = td_res_icnt s + n" "td_consumed_icnt t = td_consumed_icnt s" "\<not> td_msg_present t"
    by (simp_all add: t_def with_res_def)
  then have mc: "msg_count t = 0" by (simp add: msg_count_def)
  from ok fresh have c: "td_consumed_icnt s = 0" by (simp add: icnt_ok_def unat_eq_0)
  have "unat (td_res_icnt s) \<le> 4290772992" "unat n \<le> 4194303"
    using ok n by (simp_all add: icnt_ok_def MSG_ICNT_MAX_def word_le_nat_alt)
  then have sum: "unat (td_res_icnt s + n) = unat (td_res_icnt s) + unat n"
    by (simp add: unat_word_ariths(1))
  show "icnt_ok (with_res el n s)"
    unfolding t_def [symmetric] icnt_ok_def using sel mc c no by simp
  show "pending (with_res el n s) = pending s + unat n"
    unfolding t_def [symmetric] pending_def using sel mc c sum fresh by simp
qed

section \<open>The states between two calls\<close>

definition count_ok :: "u8 list \<Rightarrow> nexusrv_trace_decoder \<Rightarrow> bool" where
  "count_ok S s \<longleftrightarrow> stream_ok S (td_msg_decoder s) \<and> icnt_ok s"

definition trace_ok :: "u8 list \<Rightarrow> nexusrv_trace_decoder \<Rightarrow> bool" where
  "trace_ok S s \<longleftrightarrow> count_ok S s \<and> queue_ok s"

lemma with_res_decoder [simp]: "td_msg_decoder (with_res el n s) = td_msg_decoder s"
  "td_msg (with_res el n s) = td_msg s" "td_msg_present (with_res el n s) = False"
  "td_synced (with_res el n s) = td_synced s" "td_full_addr (with_res el n s) = td_full_addr s"
  "td_return_stack (with_res el n s) = td_return_stack s" "td_timestamp (with_res el n s) = td_timestamp s"
  by (simp_all add: with_res_def)

lemma fetch_present: "td_msg_present s \<Longrightarrow> nexusrv_trace_fetch_msg w s = (Inr False, s)"
  by (simp add: nexusrv_trace_fetch_msg_def run_defs)

text \<open>Pulling a ResourceFull message.\<close>

lemma pull_count:
  assumes ok: "count_ok S s" and run: "nexusrv_trace_pull_msg w s = (Inr True, t)"
  shows "count_ok S t" and "pending t = pending s + res_count (td_msg t)" and "\<not> td_msg_present t"
    and "\<not> td_msg_present s" and "nexusrv_msg_is_res (td_msg t)" and "good_msg (td_msg t)"
    and "td_synced t = td_synced s"
proof -
  from ok have st: "stream_ok S (td_msg_decoder s)" and ic: "icnt_ok s" by (simp_all add: count_ok_def)
  from run obtain b u where f: "nexusrv_trace_fetch_msg w s = (Inr b, u)" and r: "nexusrv_msg_is_res (td_msg u)"
    and t: "t = with_res (res_element (td_cfg u) (td_msg u))
         (if nexusrv_msg_has_icnt (td_msg u) then icnt (td_msg u) else 0) u"
    and cnt: "nexusrv_msg_has_icnt (td_msg u) \<Longrightarrow> td_res_icnt u + icnt (td_msg u) \<le> - 1 - MSG_ICNT_MAX"
    by (cases rule: pull_msg_cases) auto
  note spec = fetch_msg_spec [OF st f]
  show np: "\<not> td_msg_present s"
  proof
    assume p: "td_msg_present s"
    with f have "u = s" by (simp add: fetch_present)
    with p r ic show False by (simp add: icnt_ok_def)
  qed
  with spec have good: "good_msg (td_msg u)" by auto
  with t r spec(1) show "good_msg (td_msg t)" "td_synced t = td_synced s" "nexusrv_msg_is_res (td_msg t)"
    "\<not> td_msg_present t" by (simp_all add: fetched_sel)
  let ?n = "if nexusrv_msg_has_icnt (td_msg u) then icnt (td_msg u) else 0"
  define s1 where "s1 = u\<lparr>td_msg_present := False\<rparr>"
  have f1: "fetched s s1" unfolding s1_def by (rule fetched_drop [OF spec(1)])
  have ic1: "icnt_ok s1" "pending s1 = pending s"
    using fetched_icnt [OF ic f1 np] by (simp_all add: s1_def msg_count_def)
  have n: "?n \<le> MSG_ICNT_MAX" "td_res_icnt s1 + ?n \<le> - 1 - MSG_ICNT_MAX"
    using good cnt ic1(1) by (auto simp: good_msg_def icnt_ok_def s1_def)
  have same: "with_res el k s1 = with_res el k u" for el k by (simp add: with_res_def s1_def)
  have mc: "msg_count s1 = 0" by (simp add: msg_count_def s1_def)
  from with_res_icnt [OF ic1(1) mc n(2,1), unfolded same] ic1(2) spec(2)
  show "count_ok S t" and "pending t = pending s + res_count (td_msg t)"
    by (auto simp: count_ok_def res_count_def t)
qed

text \<open>The configuration stays the same.\<close>

lemma next_cfg:
  assumes "stream_ok S d" and "nexusrv_msg_decoder_next d m = (r, d', m')"
  shows "md_cfg d' = md_cfg d"
  using decoder_next_delivers [OF assms(1), of m, unfolded assms(2)] by (simp add: delivers_def)

lemma rewind_cfg: "nexusrv_msg_decoder_rewind_last d = Inr d' \<Longrightarrow> md_cfg d' = md_cfg d"
  by (auto simp: nexusrv_msg_decoder_rewind_last_def Let_def split: if_splits)

lemma fetch_cfg:
  assumes st: "stream_ok S (td_msg_decoder s)" and run: "nexusrv_trace_fetch_msg w s = (r, t)"
  shows "td_cfg t = td_cfg s"
proof (cases "td_msg_present s")
  case True
  with run show ?thesis by (simp add: fetch_present)
next
  case False
  obtain r1 d1 m1 where n1: "nexusrv_msg_decoder_next (td_msg_decoder s) (td_msg s) = (r1, d1, m1)"
    by (metis surj_pair)
  have st1: "stream_ok S d1" using file_stream.nxt_ok [OF st n1] by simp
  obtain r2 d2 m2 where n2: "nexusrv_msg_decoder_next d1 (w_msg2 w) = (r2, d2, m2)"
    by (metis surj_pair)
  obtain d1' d2' where rw: "nexusrv_msg_decoder_rewind_last d1 = Inr d1'"
    "nexusrv_msg_decoder_rewind_last d2 = Inr d2'"
    using file_stream.rewind_ok [OF st1] file_stream.rewind_ok file_stream.nxt_ok [OF st1 n2] by blast
  show ?thesis
    using run False n1 n2 next_cfg [OF st n1] next_cfg [OF st1 n2] rw rewind_cfg [OF rw(1)] rewind_cfg [OF rw(2)]
    by (auto simp: nexusrv_trace_fetch_msg_def run_defs td_next_def td_next_local_def td_rewind_def td_cfg_def
        split: if_splits sum.splits)
qed

lemma pull_cfg:
  assumes st: "stream_ok S (td_msg_decoder s)" and run: "nexusrv_trace_pull_msg w s = (r, t)"
  shows "td_cfg t = td_cfg s"
  using run
proof (cases rule: pull_msg_cases)
  case (fail b u e)
  with fetch_cfg [OF st fail(1)] show ?thesis by (auto simp: td_cfg_def)
next
  case (pull b u)
  with fetch_cfg [OF st pull(1)] show ?thesis by (simp add: td_cfg_def)
qed (auto dest: fetch_cfg [OF st])

text \<open>Its outcomes, if it is tame and there is room for them.\<close>

lemma pull_queue:
  assumes ok: "count_ok S s" "queue_ok s" and run: "nexusrv_trace_pull_msg w s = (Inr True, t)"
    and tame: "tame (td_msg t)"
    and room: "length (queue_outcomes (td_res_hists s)) + length (res_outcomes (td_cfg s) (td_msg t)) < 4294967296"
  shows "queue_ok t" and "outcomes t = outcomes s @ res_outcomes (td_cfg s) (td_msg t)"
    and "queue_outcomes (td_res_hists t) = queue_outcomes (td_res_hists s) @ res_outcomes (td_cfg s) (td_msg t)"
proof -
  from ok have st: "stream_ok S (td_msg_decoder s)" by (simp add: count_ok_def)
  note cnt = pull_count [OF ok(1) run]
  from run obtain b u where f: "nexusrv_trace_fetch_msg w s = (Inr b, u)"
    and t: "t = with_res (res_element (td_cfg u) (td_msg u))
         (if nexusrv_msg_has_icnt (td_msg u) then icnt (td_msg u) else 0) u"
    and quirk: "\<not> nexusrv_msg_has_icnt (td_msg u) \<Longrightarrow> \<not> nexusrv_msg_has_hist (td_msg u) \<Longrightarrow>
         quirk_sifive (td_cfg u) \<and> (res_code (td_msg u) = 8 \<or> res_code (td_msg u) = 9) \<and> res_data (td_msg u) \<noteq> 0"
    by (cases rule: pull_msg_cases) auto
  have m: "td_msg u = td_msg t" "td_cfg u = td_cfg s" using t fetch_cfg [OF st f] by simp_all
  define s1 where "s1 = u\<lparr>td_msg_present := False\<rparr>"
  have f1: "fetched s s1" unfolding s1_def by (rule fetched_drop [OF fetch_msg_spec(1) [OF st f]])
  have mo: "msg_outcomes s1 = []" by (simp add: msg_outcomes_def s1_def)
  have q1: "queue_ok s1" "outcomes s1 = outcomes s"
    using fetched_queue [OF ok(2) f1 cnt(4)] room mo by (simp_all add: s1_def)
  have h1: "td_res_hists s1 = td_res_hists s" using fetched_sel(1) [OF f1] .
  let ?el = "res_element (td_cfg s) (td_msg t)"
  have el: "el_outcomes ?el = res_outcomes (td_cfg s) (td_msg t)"
    using el_outcomes_res [of "td_msg t" "td_cfg s"] quirk m by simp
  have "el_ok ?el"
    using el_ok_res [OF cnt(5) tame, of "td_cfg s"] quirk m cnt(6) by (auto simp: good_msg_def)
  from with_res_queue [OF q1(1) this mo] room el h1 q1(2)
  have "queue_ok (with_res ?el k s1)" "outcomes (with_res ?el k s1) = outcomes s @ res_outcomes (td_cfg s) (td_msg t)"
    for k by simp_all
  moreover have w: "t = with_res ?el (if nexusrv_msg_has_icnt (td_msg t) then icnt (td_msg t) else 0) s1"
    using t unfolding m by (simp add: with_res_def s1_def)
  ultimately show "queue_ok t" and "outcomes t = outcomes s @ res_outcomes (td_cfg s) (td_msg t)"
    by metis+
  have "td_res_hists (with_res e k s1) = td_res_hists s @ [e]" for e k by (simp add: with_res_def h1)
  with w have "td_res_hists t = td_res_hists s @ [?el]" by metis
  with el show "queue_outcomes (td_res_hists t) = queue_outcomes (td_res_hists s) @ res_outcomes (td_cfg s) (td_msg t)"
    by simp
qed

end
