(* ===== verification/TraceReach.thy ===== *)
theory TraceReach
  imports TracePull
begin

text \<open>
  Several messages in a row: the ResourceFull messages pulled between two states of the
  decoder, what they add to the pending instructions and outcomes, and the loops of
  \<^verbatim>\<open>nexusrv_trace_try_retire\<close> and \<^verbatim>\<open>nexusrv_trace_next_tnt\<close> in these terms.
\<close>

lemma pull_cfg_ok: "count_ok S s \<Longrightarrow> nexusrv_trace_pull_msg w s = (r, t) \<Longrightarrow> td_cfg t = td_cfg s"
  using pull_cfg by (auto simp: count_ok_def)

section \<open>The message behind the ResourceFull messages\<close>

lemma pull_front:
  assumes ok: "count_ok S s" and run: "nexusrv_trace_pull_msg w s = (Inr False, t)"
  shows "count_ok S t" and "td_msg_present t" and "\<not> nexusrv_msg_is_res (td_msg t)" and "fetched s t"
    and "td_msg_present s \<Longrightarrow> t = s" and "\<not> td_msg_present s \<Longrightarrow> good_msg (td_msg t)"
    and "\<not> td_msg_present s \<Longrightarrow> pending t = pending s + msg_count t"
proof -
  from ok have st: "stream_ok S (td_msg_decoder s)" and ic: "icnt_ok s" by (simp_all add: count_ok_def)
  from run obtain b where f: "nexusrv_trace_fetch_msg w s = (Inr b, t)" and r: "\<not> nexusrv_msg_is_res (td_msg t)"
    by (cases rule: pull_msg_cases) auto
  note spec = fetch_msg_spec [OF st f]
  from spec r show "td_msg_present t" "\<not> nexusrv_msg_is_res (td_msg t)" "fetched s t"
    "td_msg_present s \<Longrightarrow> t = s" "\<not> td_msg_present s \<Longrightarrow> good_msg (td_msg t)" by auto
  show "\<not> td_msg_present s \<Longrightarrow> pending t = pending s + msg_count t"
    using fetched_icnt(2) [OF ic spec(1)] spec r by auto
  show "count_ok S t"
    using fetched_icnt(1) [OF ic spec(1)] spec r ok by (cases "td_msg_present s") (auto simp: count_ok_def)
qed

lemma pull_front_queue:
  assumes ok: "count_ok S s" "queue_ok s" and run: "nexusrv_trace_pull_msg w s = (Inr False, t)"
    and np: "\<not> td_msg_present s"
    and room: "length (queue_outcomes (td_res_hists s)) + length (msg_outcomes t) < 4294967296"
  shows "queue_ok t" and "outcomes t = outcomes s @ msg_outcomes t"
  using fetched_queue [OF ok(2) pull_front(4) [OF ok(1) run] np _ room] pull_front(3) [OF ok(1) run] by simp_all

section \<open>The messages pulled\<close>

inductive pulls :: "world \<Rightarrow> nexusrv_trace_decoder \<Rightarrow> nexusrv_msg list \<Rightarrow> nexusrv_trace_decoder \<Rightarrow> bool"
  for w :: world where
  pulls_none: "pulls w s [] s"
| pulls_more: "nexusrv_trace_pull_msg w s = (Inr True, u) \<Longrightarrow> pulls w u ms t \<Longrightarrow> pulls w s (td_msg u # ms) t"

inductive_cases pulls_ConsE: "pulls w s (m # ms) t"
inductive_simps pulls_Nil [simp]: "pulls w s [] t"

definition msgs_count :: "nexusrv_msg list \<Rightarrow> nat" where
  "msgs_count ms = sum_list (map res_count ms)"

definition msgs_outcomes :: "nexusrv_hw_cfg \<Rightarrow> nexusrv_msg list \<Rightarrow> bool list" where
  "msgs_outcomes cfg ms = concat (map (res_outcomes cfg) ms)"

lemma msgs_simps [simp]:
  "msgs_count [] = 0" "msgs_count (m # ms) = res_count m + msgs_count ms"
  "msgs_outcomes cfg [] = []" "msgs_outcomes cfg (m # ms) = res_outcomes cfg m @ msgs_outcomes cfg ms"
  by (simp_all add: msgs_count_def msgs_outcomes_def)

lemma pulls_count:
  "pulls w s ms t \<Longrightarrow> count_ok S s \<Longrightarrow>
   count_ok S t \<and> pending t = pending s + msgs_count ms \<and> td_cfg t = td_cfg s \<and> td_synced t = td_synced s \<and>
   (ms \<noteq> [] \<longrightarrow> \<not> td_msg_present s \<and> \<not> td_msg_present t)"
proof (induction rule: pulls.induct)
  case (pulls_more s u ms t)
  note one = pull_count [OF pulls_more.prems pulls_more.hyps(1)]
  from pulls_more.prems have "td_cfg u = td_cfg s"
    using pull_cfg_ok pulls_more.hyps(1) by blast
  with one pulls_more.IH [OF one(1)] pulls_more.hyps(2) show ?case
    by (cases ms) auto
qed simp

lemma pulls_queue:
  "pulls w s ms t \<Longrightarrow> count_ok S s \<Longrightarrow> queue_ok s \<Longrightarrow> list_all tame ms \<Longrightarrow>
   length (queue_outcomes (td_res_hists s)) + length (msgs_outcomes (td_cfg s) ms) < 4294967296 \<Longrightarrow>
   queue_ok t \<and> outcomes t = outcomes s @ msgs_outcomes (td_cfg s) ms \<and>
   queue_outcomes (td_res_hists t) = queue_outcomes (td_res_hists s) @ msgs_outcomes (td_cfg s) ms"
proof (induction rule: pulls.induct)
  case (pulls_more s u ms t)
  from pulls_more.prems have cfg: "td_cfg u = td_cfg s"
    using pull_cfg_ok pulls_more.hyps(1) by blast
  from pulls_more.prems have room:
    "length (queue_outcomes (td_res_hists s)) + length (res_outcomes (td_cfg s) (td_msg u)) < 4294967296" by simp
  from pulls_more.prems have tame: "tame (td_msg u)" by simp
  note one = pull_queue [OF pulls_more.prems(1,2) pulls_more.hyps(1) tame room]
  from pulls_more.IH [OF pull_count(1) [OF pulls_more.prems(1) pulls_more.hyps(1)] one(1)]
  show ?case using pulls_more.prems one cfg by simp
qed simp

text \<open>
  The states the loops look at: behind some pulled messages, with or without the next message
  that is not a ResourceFull message.
\<close>

definition sees :: "world \<Rightarrow> nexusrv_trace_decoder \<Rightarrow> nexusrv_msg list \<Rightarrow> nexusrv_trace_decoder \<Rightarrow> bool" where
  "sees w s ms v \<longleftrightarrow> (\<exists>u. pulls w s ms u \<and> (v = u \<or> nexusrv_trace_pull_msg w u = (Inr False, v)))"

text \<open>What lies between: the ResourceFull messages, and the next message if it was fetched now.\<close>

definition new_count :: "nexusrv_trace_decoder \<Rightarrow> nexusrv_msg list \<Rightarrow> nexusrv_trace_decoder \<Rightarrow> nat" where
  "new_count s ms v = msgs_count ms + (if td_msg_present s then 0 else msg_count v)"

definition new_outcomes :: "nexusrv_trace_decoder \<Rightarrow> nexusrv_msg list \<Rightarrow> nexusrv_trace_decoder \<Rightarrow> bool list" where
  "new_outcomes s ms v = msgs_outcomes (td_cfg s) ms @ (if td_msg_present s then [] else msg_outcomes v)"

lemma sees_count:
  assumes "sees w s ms v" and "count_ok S s"
  shows "count_ok S v" and "pending v = pending s + new_count s ms v"
    and "td_synced v = td_synced s" and "td_cfg v = td_cfg s"
proof -
  from assms(1) obtain u where p: "pulls w s ms u" and v: "v = u \<or> nexusrv_trace_pull_msg w u = (Inr False, v)"
    by (auto simp: sees_def)
  note u = pulls_count [OF p assms(2)]
  have new: "ms \<noteq> [] \<or> \<not> td_msg_present s \<Longrightarrow> \<not> td_msg_present u" using u p by (cases ms) auto
  have "count_ok S v \<and> pending v = pending s + new_count s ms v \<and> td_synced v = td_synced s \<and> td_cfg v = td_cfg s"
    using v
  proof
    assume "v = u"
    with u new p show ?thesis by (cases ms) (auto simp: new_count_def msg_count_def)
  next
    assume run: "nexusrv_trace_pull_msg w u = (Inr False, v)"
    from u have ok: "count_ok S u" by simp
    note f = pull_front [OF ok run]
    have "td_cfg v = td_cfg u" by (rule pull_cfg_ok [OF ok run])
    moreover have "td_synced v = td_synced u" by (rule fetched_sel(6) [OF f(4)])
    moreover have "pending v = pending s + new_count s ms v"
    proof (cases "td_msg_present u")
      case True
      with f(5) u p new show ?thesis by (cases ms) (auto simp: new_count_def)
    next
      case False
      have "\<not> td_msg_present s" using False u p by (cases ms) auto
      with f(7) False u show ?thesis by (simp add: new_count_def)
    qed
    ultimately show ?thesis using f(1) u by simp
  qed
  then show "count_ok S v" "pending v = pending s + new_count s ms v"
    "td_synced v = td_synced s" "td_cfg v = td_cfg s" by simp_all
qed

definition fits :: "nexusrv_trace_decoder \<Rightarrow> nexusrv_msg list \<Rightarrow> nexusrv_trace_decoder \<Rightarrow> bool" where
  "fits s ms v \<longleftrightarrow> list_all tame ms \<and>
     length (queue_outcomes (td_res_hists s)) + length (new_outcomes s ms v) < 4294967296"

lemma sees_queue:
  assumes "sees w s ms v" and "count_ok S s" "queue_ok s" and "fits s ms v"
  shows "queue_ok v" and "outcomes v = outcomes s @ new_outcomes s ms v"
proof -
  from assms(1) obtain u where p: "pulls w s ms u" and v: "v = u \<or> nexusrv_trace_pull_msg w u = (Inr False, v)"
    by (auto simp: sees_def)
  note u = pulls_count [OF p assms(2)]
  from assms(4) have fit: "list_all tame ms"
    "length (queue_outcomes (td_res_hists s)) + length (msgs_outcomes (td_cfg s) ms) < 4294967296"
    by (auto simp: fits_def new_outcomes_def)
  note q = pulls_queue [OF p assms(2,3) fit]
  have new: "ms \<noteq> [] \<or> \<not> td_msg_present s \<Longrightarrow> \<not> td_msg_present u" using u p by (cases ms) auto
  have "queue_ok v \<and> outcomes v = outcomes s @ new_outcomes s ms v" using v
  proof
    assume "v = u"
    with u new p q show ?thesis by (cases ms) (auto simp: new_outcomes_def msg_outcomes_def)
  next
    assume run: "nexusrv_trace_pull_msg w u = (Inr False, v)"
    from u have ok: "count_ok S u" by simp
    show ?thesis
    proof (cases "td_msg_present u")
      case True
      with pull_front(5) [OF ok run] u p q show ?thesis
        by (cases ms) (auto simp: new_outcomes_def)
    next
      case False
      have np: "\<not> td_msg_present s" using False u p by (cases ms) auto
      have "length (queue_outcomes (td_res_hists u)) + length (msg_outcomes v) < 4294967296"
        using assms(4) q np by (simp add: fits_def new_outcomes_def)
      with pull_front_queue [OF ok _ run False] q np show ?thesis by (simp add: new_outcomes_def)
    qed
  qed
  then show "queue_ok v" "outcomes v = outcomes s @ new_outcomes s ms v" by simp_all
qed

section \<open>The loops\<close>

lemma pull_clean: "count_ok S s \<Longrightarrow> nexusrv_trace_pull_msg w s = (Inl e, t) \<Longrightarrow> clean e"
  by (erule pull_msg_cases) (auto simp: count_ok_def dest: fetch_msg_spec(3))

lemma count_ok_consumed: "count_ok S s \<Longrightarrow> same_but_icnt s t \<Longrightarrow> icnt_ok t \<Longrightarrow> count_ok S t"
  unfolding same_but_icnt_def count_ok_def by (metis nexusrv_trace_decoder.ext_inject nexusrv_trace_decoder.surjective
      nexusrv_trace_decoder.update_convs(3,5))

lemma available_count:
  "count_ok S s \<Longrightarrow> nexusrv_trace_available_icnt s = (Inr (of_nat (pending s)), s)"
  "count_ok S s \<Longrightarrow> unat (of_nat (pending s) :: u32) = pending s"
  "count_ok S s \<Longrightarrow> (n :: u32) < of_nat (pending s) \<longleftrightarrow> unat n < pending s"
  using available_pending by (simp_all add: count_ok_def word_less_nat_alt)

text \<open>A pass after the last message: it retires the count or leaves the loop.\<close>

lemma retire_loop_last:
  assumes "count_ok S s" and "retire_loop w n False s = (r, t)"
  shows "\<exists>all. r = Inr all \<and> (if all then unat n < pending s \<and> nexusrv_trace_consume_icnt n s = (Inr (), t)
    else pending s \<le> unat n \<and> t = s)"
proof (cases "unat n < pending s")
  case True
  obtain u where "nexusrv_trace_consume_icnt n s = (Inr (), u)"
    using consume_icnt_pending [of s n] True assms(1) by (auto simp: count_ok_def)
  with True assms(2) available_count(1,2) [OF assms(1)] available_count(3) [OF assms(1), of n] show ?thesis
    by (subst (asm) retire_loop.simps) (auto split: prod.splits sum.splits)
next
  case False
  with assms(2) available_count(1,2) [OF assms(1)] available_count(3) [OF assms(1), of n] show ?thesis
    by (subst (asm) retire_loop.simps) auto
qed

lemma retire_loop_sees:
  "count_ok S s \<Longrightarrow> retire_loop w n True s = (r, t) \<Longrightarrow>
   case r of
     Inl e \<Rightarrow> clean e
   | Inr all \<Rightarrow> \<exists>ms v. sees w s ms v \<and>
       (if all then unat n < pending v \<and> nexusrv_trace_consume_icnt n v = (Inr (), t)
        else pending v \<le> unat n \<and> t = v \<and> td_msg_present v)"
proof (induction "todo s" arbitrary: s rule: less_induct)
  case less
  note av = available_count [OF less.prems(1)]
  show ?case
  proof (cases "unat n < pending s")
    case True
    obtain u where c: "nexusrv_trace_consume_icnt n s = (Inr (), u)"
      using consume_icnt_pending [of s n] True less.prems(1) by (auto simp: count_ok_def)
    with True less.prems(2) av(1) av(3) [of n] have "r = Inr True" "t = u"
      by (subst (asm) retire_loop.simps, auto split: prod.splits sum.splits)+
    moreover have "sees w s [] s" by (auto simp: sees_def)
    ultimately show ?thesis using True c by auto
  next
    case False
    obtain r1 u where p: "nexusrv_trace_pull_msg w s = (r1, u)" by (metis surj_pair)
    show ?thesis
    proof (cases r1)
      case (Inl e)
      with p False less.prems(2) av(1) av(3) [of n] have "r = Inl e"
        by (subst (asm) retire_loop.simps) auto
      with pull_clean [OF less.prems(1)] p Inl show ?thesis by simp
    next
      case (Inr b)
      with p False less.prems(2) av(1) av(3) [of n] have loop: "retire_loop w n b u = (r, t)"
        by (subst (asm) retire_loop.simps) auto
      show ?thesis
      proof (cases b)
        case False
        with p Inr have run: "nexusrv_trace_pull_msg w s = (Inr False, u)" by simp
        note f = pull_front [OF less.prems(1) run]
        have "sees w s [] u" using run by (auto simp: sees_def)
        moreover have "retire_loop w n False u = (r, t)" using loop False by simp
        from retire_loop_last [OF f(1) this] obtain all where "r = Inr all" "if all
            then unat n < pending u \<and> nexusrv_trace_consume_icnt n u = (Inr (), t)
            else pending u \<le> unat n \<and> t = u" by blast
        ultimately show ?thesis using f(2) by (cases all) auto
      next
        case True
        with p Inr have run: "nexusrv_trace_pull_msg w s = (Inr True, u)" by simp
        note one = pull_count(1) [OF less.prems(1) run]
        from less.hyps [OF pull_msg_todo [OF run] one] loop True
        have rec: "case r of Inl e \<Rightarrow> clean e
          | Inr all \<Rightarrow> \<exists>ms v. sees w u ms v \<and>
             (if all then unat n < pending v \<and> nexusrv_trace_consume_icnt n v = (Inr (), t)
              else pending v \<le> unat n \<and> t = v \<and> td_msg_present v)" by simp
        have "sees w s (td_msg u # ms) v" if "sees w u ms v" for ms v
          using that pulls_more [OF run] by (auto simp: sees_def)
        with rec show ?thesis by (cases r) (simp, simp, metis)
      qed
    qed
  qed
qed

text \<open>Without outcomes left the queue holds none, so the outcomes of one more message fit.\<close>

lemma no_outcomes_queue:
  assumes ok: "queue_ok s" and none: "outcomes s = []"
  shows "td_msg_present s \<or> queue_outcomes (td_res_hists s) = []"
proof (cases "dropWhile is_empty_el (td_res_hists s)")
  case Nil
  then show ?thesis using queue_outcomes_skip [of "td_res_hists s"] unfolding Nil by simp
next
  case (Cons el rest)
  then have el: "\<not> is_empty_el el" "el \<in> set (td_res_hists s)"
    by (metis hd_dropWhile list.distinct(1) list.sel(1), metis Cons set_dropWhileD list.set_intros(1))
  with ok have "el_ok el" by (simp add: queue_ok_iff)
  moreover have "length (queue_outcomes (td_res_hists s)) = length (el_outcomes el) + length (queue_outcomes rest)"
    using queue_outcomes_skip [of "td_res_hists s"] Cons by (metis length_append queue_outcomes_simps(2))
  ultimately have "nexusrv_msg_hist_bits (el_hist el) \<le> length (queue_outcomes (td_res_hists s))"
    using el_outcomes_nonempty [of el] el(1) by (simp add: is_empty_el_def)
  moreover have "unat (td_consumed_tnts s) < nexusrv_msg_hist_bits (el_hist el)"
    using Cons ok by (simp add: queue_ok_iff)
  ultimately show ?thesis using none by (simp add: outcomes_def)
qed

lemma res_outcomes_bound:
  assumes "good_msg m" and "nexusrv_msg_is_res m"
  shows "length (res_outcomes cfg m) < 4294967296"
proof -
  have h: "length (concat (replicate k (hist_outcomes (hist m)))) = k * nexusrv_msg_hist_bits (hist m)" for k
    by (simp add: length_concat sum_list_replicate)
  have bits: "nexusrv_msg_hist_bits (hist m) \<le> 31" by (rule hist_bits_le)
  have data: "unat (res_data m) < 4294967296" using unsigned_less [of "res_data m", where 'a = nat] by simp
  show ?thesis
  proof (cases "nexusrv_msg_has_hist m")
    case True
    with assms have "unat (hrepeat m) \<le> 262143"
      by (simp add: good_msg_def MSG_HREPEAT_MAX_def word_le_nat_alt)
    then have "unat (hrepeat m) * nexusrv_msg_hist_bits (hist m) \<le> 262143 * 31"
      using bits by (rule mult_le_mono)
    with bits True show ?thesis by (simp add: res_outcomes_def h)
  next
    case False
    with data show ?thesis by (simp add: res_outcomes_def)
  qed
qed

definition tnt_result :: "bool option result \<Rightarrow> nexusrv_trace_decoder \<Rightarrow> nexusrv_trace_decoder \<Rightarrow> bool" where
  "tnt_result r v t =
     (case r of
        Inl e \<Rightarrow> clean e
      | Inr (Some b) \<Rightarrow> outcomes v = b # outcomes t \<and> queue_ok t \<and> same_rest v t
      | Inr None \<Rightarrow> outcomes v = [] \<and> t = v \<and> td_msg_present v)"

lemma available_none: "queue_ok s \<Longrightarrow> outcomes s = [] \<Longrightarrow> nexusrv_trace_available_tnts s = (Inr 0, s)"
  using available_outcomes [of s] by simp

lemma available_some:
  "queue_ok s \<Longrightarrow> outcomes s \<noteq> [] \<Longrightarrow> \<exists>n. nexusrv_trace_available_tnts s = (Inr n, s) \<and> n \<noteq> 0"
  using available_outcomes [of s] outcomes_nonzero [of s] by auto

lemma tnt_loop_now:
  assumes ok: "queue_ok s" and some: "outcomes s \<noteq> []" and run: "tnt_loop w rc s = (r, t)"
  shows "tnt_result r s t"
proof -
  obtain b bs where o: "outcomes s = b # bs" using some by (cases "outcomes s") auto
  obtain n where "nexusrv_trace_available_tnts s = (Inr n, s)" "n \<noteq> 0"
    using available_some [OF ok some] by blast
  moreover obtain u where u: "nexusrv_trace_consume_tnt s = (Inr b, u)" "queue_ok u" "outcomes u = bs" "same_rest s u"
    using consume_outcome [OF ok o] by blast
  ultimately have "r = Inr (Some b)" "t = u" using run by (subst (asm) tnt_loop.simps, auto)+
  with u o show ?thesis by (simp add: tnt_result_def)
qed

lemma tnt_loop_last:
  assumes ok: "queue_ok s" and p: "td_msg_present s" and run: "tnt_loop w False s = (r, t)"
  shows "tnt_result r s t"
proof (cases "outcomes s = []")
  case True
  with run available_none [OF ok] have "r = Inr None" "t = s" by (subst (asm) tnt_loop.simps, auto)+
  with True p show ?thesis by (simp add: tnt_result_def)
qed (use tnt_loop_now [OF ok _ run] in simp)

lemma tnt_front:
  assumes ok: "count_ok S s" "queue_ok s" and none: "outcomes s = []"
    and run: "nexusrv_trace_pull_msg w s = (Inr False, u)"
  shows "sees w s [] u" and "queue_ok u" and "fits s [] u"
proof -
  show "sees w s [] u" using run by (auto simp: sees_def)
  note f = pull_front [OF ok(1) run]
  have "queue_ok u \<and> fits s [] u"
  proof (cases "td_msg_present s")
    case True
    with f(5) ok(2) show ?thesis by (simp add: fits_def new_outcomes_def queue_ok_iff)
  next
    case np: False
    with no_outcomes_queue [OF ok(2) none] have "queue_outcomes (td_res_hists s) = []" by simp
    moreover have "length (msg_outcomes u) < 4294967296"
      using hist_bits_le [of "hist (td_msg u)"] by (simp add: msg_outcomes_def)
    ultimately show ?thesis using pull_front_queue(1) [OF ok run np] np
      by (simp add: fits_def new_outcomes_def)
  qed
  then show "queue_ok u" "fits s [] u" by simp_all
qed

lemma tnt_pulled:
  assumes ok: "count_ok S s" "queue_ok s" and none: "outcomes s = []"
    and run: "nexusrv_trace_pull_msg w s = (Inr True, u)" and tm: "tame (td_msg u)"
  shows "queue_ok u" and "fits u ms v \<Longrightarrow> fits s (td_msg u # ms) v"
proof -
  note one = pull_count [OF ok(1) run]
  note q = pull_queue [OF ok run tm]
  have "queue_outcomes (td_res_hists s) = []" using no_outcomes_queue [OF ok(2) none] one(4) by simp
  then have fit: "length (queue_outcomes (td_res_hists s)) + length (res_outcomes (td_cfg s) (td_msg u)) < 4294967296"
    using res_outcomes_bound [OF one(6,5)] by simp
  from q(1) [OF fit] show "queue_ok u" .
  show "fits s (td_msg u # ms) v" if "fits u ms v"
    using that q(3) [OF fit] one(3,4) tm pull_cfg_ok [OF ok(1) run] by (simp add: fits_def new_outcomes_def)
qed

lemma tnt_loop_sees:
  "count_ok S s \<Longrightarrow> queue_ok s \<Longrightarrow> tnt_loop w True s = (r, t) \<Longrightarrow>
   \<exists>ms v. sees w s ms v \<and> (outcomes s \<noteq> [] \<longrightarrow> ms = [] \<and> v = s) \<and>
     (list_all tame ms \<longrightarrow> fits s ms v \<and> tnt_result r v t)"
proof (induction "todo s" arbitrary: s rule: less_induct)
  case less
  have here: "sees w s [] s" "fits s [] s"
    using less.prems(2) by (auto simp: sees_def fits_def new_outcomes_def msg_outcomes_def queue_ok_iff)
  show ?case
  proof (cases "outcomes s = []")
    case False
    with tnt_loop_now [OF less.prems(2) _ less.prems(3)] here show ?thesis by blast
  next
    case True
    obtain r1 u where p: "nexusrv_trace_pull_msg w s = (r1, u)" by (metis surj_pair)
    note av = available_none [OF less.prems(2) True]
    consider (fail) e where "r1 = Inl e" | (front) "r1 = Inr False" | (more) "r1 = Inr True"
      by (metis obj_sumE)
    then show ?thesis
    proof cases
      case fail
      with p av less.prems(3) have "r = Inl e" by (subst (asm) tnt_loop.simps) auto
      with pull_clean [OF less.prems(1)] p fail here True show ?thesis
        by (intro exI [of _ "[]"] exI [of _ s]) (auto simp: tnt_result_def)
    next
      case front
      with p have run: "nexusrv_trace_pull_msg w s = (Inr False, u)" by simp
      with av less.prems(3) have "tnt_loop w False u = (r, t)" by (subst (asm) tnt_loop.simps) auto
      from tnt_loop_last [OF _ pull_front(2) [OF less.prems(1) run] this] tnt_front [OF less.prems(1,2) True run] True
      show ?thesis by blast
    next
      case more
      with p have run: "nexusrv_trace_pull_msg w s = (Inr True, u)" by simp
      with av less.prems(3) have loop: "tnt_loop w True u = (r, t)" by (subst (asm) tnt_loop.simps) auto
      have seen: "sees w s (td_msg u # ms) v" if "sees w u ms v" for ms v
        using that pulls_more [OF run] by (auto simp: sees_def)
      show ?thesis
      proof (cases "tame (td_msg u)")
        case False
        have "sees w s [td_msg u] u" by (rule seen) (auto simp: sees_def)
        with False True show ?thesis by (intro exI [of _ "[td_msg u]"] exI [of _ u]) simp
      next
        case tm: True
        note pulled = tnt_pulled [OF less.prems(1,2) True run tm]
        from less.hyps [OF pull_msg_todo [OF run] pull_count(1) [OF less.prems(1) run] pulled(1) loop]
        obtain ms v where "sees w u ms v" "list_all tame ms \<longrightarrow> fits u ms v \<and> tnt_result r v t" by blast
        with seen pulled(2) True show ?thesis
          by (intro exI [of _ "td_msg u # ms"] exI [of _ v]) simp
      qed
    qed
  qed
qed

end
