(* ===== verification/TraceProps.thy ===== *)
theory TraceProps
  imports TraceReach
begin

text \<open>
  What the calls of the trace decoder do: branch outcomes in their order, instruction counts and
  events, and the calls that synchronise or end a trace.
\<close>

section \<open>Retiring the buffered message\<close>

definition retired :: "nexusrv_trace_decoder \<Rightarrow> unit result \<times> nexusrv_trace_decoder" where
  "retired v =
     (let s = v\<lparr>td_consumed_icnt := 0, td_consumed_tnts := 0\<rparr>; m = td_msg v in
      if nexusrv_msg_is_branch m then retire_branch s
      else if nexusrv_msg_is_sync m then
        (Inr (), s\<lparr>td_timestamp := timestamp m, td_full_addr := xaddr m,
           td_return_stack := nexusrv_retstack_clear (td_return_stack s), td_msg_present := False\<rparr>)
      else (Inr (), (retire_msg_timestamp s)\<lparr>td_msg_present := False\<rparr>))"

lemma none_pending:
  assumes "icnt_ok v" and "pending v = 0"
  shows "td_res_icnt v = 0" and "unat (td_consumed_icnt v) = msg_count v"
  using assms by (auto simp: icnt_ok_def pending_def unat_eq_0)

lemma none_left:
  assumes "queue_ok v" and "outcomes v = []" and "td_res_hists v = []"
  shows "unat (td_consumed_tnts v) = length (msg_outcomes v)"
  using assms by (simp add: queue_ok_iff outcomes_def)

lemma retire_msg_run:
  assumes ic: "icnt_ok v" "pending v = 0" and p: "td_msg_present v"
    and q: "td_res_hists v = [] \<Longrightarrow> unat (td_consumed_tnts v) = length (msg_outcomes v)"
  shows "nexusrv_trace_retire_msg v = (if td_res_hists v = [] then retired v else (Inl Abort, v))"
proof -
  have a: "tcode (td_msg v) \<noteq> TCODE_ResourceFull" using ic p by (auto simp: icnt_ok_def nexusrv_msg_is_res_def)
  note n = none_pending [OF ic]
  have b: "if nexusrv_msg_has_icnt (td_msg v) then td_consumed_icnt v = icnt (td_msg v) else td_consumed_icnt v = 0"
    using n(2) p by (auto simp: msg_count_def word_unat_eq_iff split: if_splits)
  show ?thesis
  proof (cases "td_res_hists v = []")
    case False
    with a p n show ?thesis
      by (simp add: nexusrv_trace_retire_msg_def run_defs nexusrv_hist_array_size_def)
  next
    case True
    have c: "if nexusrv_msg_has_hist (td_msg v) then unat (td_consumed_tnts v) = nexusrv_msg_hist_bits (hist (td_msg v))
        else td_consumed_tnts v = 0"
      using q [OF True] p by (simp add: msg_outcomes_def unat_eq_0 split: if_splits)
    show ?thesis
      using True a b c p n(1)
      by (simp add: nexusrv_trace_retire_msg_def run_defs nexusrv_hist_array_size_def retired_def Let_def)
  qed
qed

text \<open>The one fault of retiring a branch: the repetitions of a branch with synchronisation.\<close>

lemma retired_clean:
  "retired v = (Inl e, t) \<Longrightarrow> nexusrv_msg_is_branch (td_msg v) \<and> nexusrv_msg_is_sync (td_msg v) \<and> hrepeat (td_msg v) \<noteq> 0"
  by (auto simp: retired_def retire_branch_def Let_def split: if_splits)

section \<open>Branch outcomes\<close>

definition direct_branch :: "nexusrv_msg \<Rightarrow> bool" where
  "direct_branch m \<longleftrightarrow> nexusrv_msg_is_branch m \<and> \<not> nexusrv_msg_is_indir_branch m"

text \<open>What \<^verbatim>\<open>nexusrv_trace_next_tnt\<close> does in the state \<open>v\<close> it looks at last.\<close>

definition tnt_step :: "nexusrv_trace_decoder \<Rightarrow> bool result \<Rightarrow> nexusrv_trace_decoder \<Rightarrow> bool" where
  "tnt_step v r t \<longleftrightarrow>
     (case r of
        Inl e \<Rightarrow> clean e \<or>
          (outcomes v = [] \<and> pending v = 0 \<and> direct_branch (td_msg v) \<and>
           (td_res_hists v \<noteq> [] \<or> nexusrv_msg_is_sync (td_msg v) \<and> hrepeat (td_msg v) \<noteq> 0))
      | Inr b \<Rightarrow>
          if outcomes v \<noteq> [] then outcomes v = b # outcomes t \<and> pending t = pending v
          else if pending v \<noteq> 0 then \<not> b \<and> t = v
          else b \<and> direct_branch (td_msg v) \<and> retired v = (Inr (), t))"

lemma same_rest_pending: "same_rest v t \<Longrightarrow> pending t = pending v"
  by (simp add: pending_def msg_count_def same_rest_sel)

lemma next_tnt_step:
  assumes ok: "count_ok S v" "queue_ok v" and p: "outcomes v = [] \<longrightarrow> td_msg_present v"
    and loop: "tnt_loop w True s = (r', u)" and res: "tnt_result r' v u"
    and run: "nexusrv_trace_next_tnt w s = (r, t)" and synced: "td_synced s"
  shows "tnt_step v r t"
proof (cases r')
  case (Inl e)
  with run loop synced have "r = Inl e" by (auto simp: nexusrv_trace_next_tnt_def need_sync_def run_defs)
  with res Inl show ?thesis by (simp add: tnt_result_def tnt_step_def)
next
  case (Inr o')
  show ?thesis
  proof (cases o')
    case (Some b)
    with Inr res have o: "outcomes v = b # outcomes u" "same_rest v u" by (simp_all add: tnt_result_def)
    from run loop synced Inr Some have "r = Inr b" "t = u"
      by (auto simp: nexusrv_trace_next_tnt_def need_sync_def run_defs)
    with o same_rest_pending [OF o(2)] show ?thesis by (simp add: tnt_step_def)
  next
    case None
    with Inr res have o: "outcomes v = []" "u = v" "td_msg_present v" by (simp_all add: tnt_result_def)
    note av = available_count(1) [OF ok(1)]
    have nz: "(of_nat (pending v) :: u32) = 0 \<longleftrightarrow> pending v = 0"
      using available_count(2) [OF ok(1)] by (metis of_nat_0 unat_eq_0 unsigned_0)
    have ic: "icnt_ok v" using ok(1) by (simp add: count_ok_def)
    show ?thesis
    proof (cases "pending v = 0 \<and> direct_branch (td_msg v)")
      case False
      with run loop synced Inr None o av nz show ?thesis
        by (auto simp: nexusrv_trace_next_tnt_def need_sync_def run_defs tnt_step_def direct_branch_def split: if_splits)
    next
      case True
      have "nexusrv_trace_retire_msg v = (if td_res_hists v = [] then retired v else (Inl Abort, v))"
        by (rule retire_msg_run [OF ic conjunct1 [OF True] o(3) none_left [OF ok(2) o(1)]])
      with run loop synced Inr None o av nz True retired_clean [of v] show ?thesis
        by (auto simp: nexusrv_trace_next_tnt_def need_sync_def run_defs tnt_step_def direct_branch_def
            split: if_splits sum.splits prod.splits)
    qed
  qed
qed

text \<open>Examples: traces without source and time fields, of a core with 64-bit addresses.\<close>

definition ex_cfg :: nexusrv_hw_cfg where
  "ex_cfg = \<lparr>src_bits = 0, ts_bits = 0, addr_bits = 64, max_stack = 32, timer_freq = 0,
     HTM = False, VAO = False, quirk_sifive = False\<rparr>"

definition ex_msg :: nexusrv_msg where
  "ex_msg = \<lparr>timestamp = 0, src = 0, tcode = 0, tagbits = 0, word0 = 0, hist = 0, hrepeat = 0, dword1 = 0\<rparr>"

definition ex_world :: world where
  "ex_world = \<lparr>w_msg2 = ex_msg, w_alloc = (\<lambda>n. True)\<rparr>"

definition ex_start :: "u8 list \<Rightarrow> nexusrv_trace_decoder" where
  "ex_start bytes = snd (nexusrv_trace_decoder_init True True
     (nexusrv_msg_decoder_init ex_cfg [Data bytes] (- 1) (replicate 64 0) 64))"

text \<open>Their messages, as the encoder writes them.\<close>

definition ex_sync :: "u8 list" where "ex_sync = [36, 5, 0, 0, 7]"
definition ex_res_icnt_5 :: "u8 list" where "ex_res_icnt_5 = [108, 64, 7]"
definition ex_res_hist_6 :: "u8 list" where "ex_res_hist_6 = [108, 132, 7]"
definition ex_res_hist_1 :: "u8 list" where "ex_res_hist_1 = [108, 71]"
definition ex_direct_4 :: "u8 list" where "ex_direct_4 = [12, 19]"
definition ex_indirect_7 :: "u8 list" where "ex_indirect_7 = [16, 113, 140, 19]"
definition ex_error :: "u8 list" where "ex_error = [32, 203]"

lemma ex_start_ok: "trace_ok bytes (ex_start bytes)" "trace_ok bytes ((ex_start bytes)\<lparr>td_synced := True\<rparr>)"
proof -
  have "stream_ok bytes (nexusrv_msg_decoder_init ex_cfg [Data bytes] (- 1) (replicate 64 0) 64)"
    using init_stream_ok [of "[Data bytes]" "replicate 64 0" 64 ex_cfg "- 1"] by (simp add: regular_def)
  then show "trace_ok bytes (ex_start bytes)" "trace_ok bytes ((ex_start bytes)\<lparr>td_synced := True\<rparr>)"
    by (simp_all add: trace_ok_def count_ok_def ex_start_def nexusrv_trace_decoder_init_def td_zero_def
        nexusrv_hist_array_new_def Let_def icnt_ok_def queue_ok_iff msg_count_def msg_outcomes_def
        split: prod.splits)
qed

text \<open>
  C8. Branch outcomes come in order. A successful or failing call of
  \<^verbatim>\<open>nexusrv_trace_next_tnt\<close> between two calls looks at a state behind some ResourceFull messages
  (none, if outcomes are pending) and perhaps behind the next other message. The pending outcomes
  there are the old ones followed by those of the messages in between, in their order, and the
  pending instructions are the old ones plus theirs. If outcomes are pending the call returns the
  first one and leaves the others; else, if instructions are pending, it returns not taken; else
  it retires a direct branch and returns taken. It never fails other than with an error code, but
  for a direct branch that is retired with time stamps left in the queue, or one with
  synchronisation that is repeated. (All messages in between have to be tame: no history without
  an outcome.)
\<close>

theorem next_tnt_in_order:
  assumes "trace_ok S s" and "td_synced s" and "nexusrv_trace_next_tnt w s = (r, t)"
  shows "\<exists>ms v. sees w s ms v \<and> (outcomes s \<noteq> [] \<longrightarrow> ms = [] \<and> v = s) \<and>
    (list_all tame ms \<longrightarrow>
       outcomes v = outcomes s @ new_outcomes s ms v \<and> pending v = pending s + new_count s ms v \<and>
       tnt_step v r t)"
proof -
  from assms(1) have ok: "count_ok S s" "queue_ok s" by (simp_all add: trace_ok_def)
  obtain r' u where loop: "tnt_loop w True s = (r', u)" by (metis surj_pair)
  from tnt_loop_sees [OF ok loop] obtain ms v where sees: "sees w s ms v"
    and lazy: "outcomes s \<noteq> [] \<longrightarrow> ms = [] \<and> v = s" and res: "list_all tame ms \<longrightarrow> fits s ms v \<and> tnt_result r' v u"
    by blast
  note c = sees_count [OF sees ok(1)]
  have "outcomes v = outcomes s @ new_outcomes s ms v \<and> tnt_step v r t" if tame: "list_all tame ms"
  proof -
    from res tame have fits: "fits s ms v" and tr: "tnt_result r' v u" by simp_all
    note q = sees_queue [OF sees ok fits]
    show ?thesis
    proof (cases r')
      case (Inl e)
      with assms(2,3) loop have "r = Inl e" by (auto simp: nexusrv_trace_next_tnt_def need_sync_def run_defs)
      with tr Inl q show ?thesis by (simp add: tnt_result_def tnt_step_def)
    next
      case (Inr o')
      then have "outcomes v = [] \<longrightarrow> td_msg_present v"
        using tr by (cases o') (auto simp: tnt_result_def)
      from next_tnt_step [OF c(1) q(1) this loop tr assms(3,2)] q show ?thesis by simp
    qed
  qed
  with sees lazy c show ?thesis by blast
qed

lemma next_tnt_in_order_witness:
  "\<exists>t. nexusrv_trace_next_tnt ex_world ((ex_start (ex_res_hist_6 @ ex_direct_4))\<lparr>td_synced := True\<rparr>) = (Inr True, t) \<and>
    (let s = (ex_start (ex_res_hist_6 @ ex_direct_4))\<lparr>td_synced := True\<rparr> in
     \<exists>ms v. sees ex_world s ms v \<and> (outcomes s \<noteq> [] \<longrightarrow> ms = [] \<and> v = s) \<and>
    (list_all tame ms \<longrightarrow>
       outcomes v = outcomes s @ new_outcomes s ms v \<and> pending v = pending s + new_count s ms v \<and>
       tnt_step v (Inr True) t))"
proof -
  let ?s = "(ex_start (ex_res_hist_6 @ ex_direct_4))\<lparr>td_synced := True\<rparr>"
  have "fst (nexusrv_trace_next_tnt ex_world ?s) = Inr True" by code_simp
  then obtain t where run: "nexusrv_trace_next_tnt ex_world ?s = (Inr True, t)" by (metis prod.exhaust_sel)
  from run next_tnt_in_order [OF ex_start_ok(2) _ run] show ?thesis by auto
qed

text \<open>Synchronising, retiring up to an event, and three outcomes.\<close>

definition ex_run :: "u8 list \<Rightarrow> nexusrv_trace_sync option result \<times> (u32 \<times> nexusrv_trace_events) result \<times> bool result list" where
  "ex_run bytes =
     (case nexusrv_trace_sync_reset ex_world (ex_start (ex_sync @ bytes @ ex_direct_4)) of (r1, s1) \<Rightarrow>
      case nexusrv_trace_try_retire ex_world 100 s1 of (r2, s2) \<Rightarrow>
      case nexusrv_trace_next_tnt ex_world s2 of (r3, s3) \<Rightarrow>
      case nexusrv_trace_next_tnt ex_world s3 of (r4, s4) \<Rightarrow>
        (r1, r2, [r3, r4, fst (nexusrv_trace_next_tnt ex_world s4)]))"

text \<open>
  Time stamps in the queue stop a correct trace. A ResourceFull message for the
  instruction count, or one with a history without outcomes, leaves an element in the queue that
  only consuming an outcome or an error message takes out. The first two traces, synchronisation,
  such a message and a direct branch, are retired up to the branch, and then asking for its
  outcome fails an assertion; with a history of two outcomes in the queue the branch is taken,
  behind the two. (Both kinds of element carry the time of their message.)
\<close>

theorem stamp_in_queue_aborts:
  "(case ex_run ex_res_icnt_5 of (r1, r2, r3) \<Rightarrow>
      (r1, r2, hd r3) = (Inr (Some \<lparr>sy_addr = 0x2000, sy_sync = 1\<rparr>), Inr (9, Event_Direct), Inl Abort))
   \<and> (case ex_run ex_res_hist_1 of (r1, r2, r3) \<Rightarrow> (r2, hd r3) = (Inr (4, Event_Direct), Inl Abort))
   \<and> (case ex_run ex_res_hist_6 of (r1, r2, r3) \<Rightarrow>
      (r2, r3) = (Inr (4, Event_Direct), [Inr True, Inr False, Inr True]))"
  by (intro conjI) code_simp+

end
