(* ===== verification/TraceSync.thy ===== *)
theory TraceSync
  imports TraceProps
begin

text \<open>
  The calls that synchronise a trace, end it, or follow an indirect branch.
\<close>

section \<open>Addresses\<close>

text \<open>
  The address a message carries is extended from the width of the configuration by its sign:
  for an address that fits the width the result is its signed reading.
\<close>

theorem extend_addr_signed:
  assumes "bits \<noteq> 0" and "take_bit (unat bits) addr = addr"
  shows "extend_addr_bits addr bits = Inr (signed_take_bit (min 63 (unat bits - 1)) addr)"
proof (cases "bits \<ge> 64")
  case True
  then have "min 63 (unat bits - 1) = 63" by (simp add: word_le_nat_alt)
  moreover have "signed_take_bit 63 addr = addr"
    by (rule bit_word_eqI) (auto simp: bit_signed_take_bit_iff min_def le_less)
  ultimately show ?thesis using True by (simp add: extend_addr_bits_def)
next
  case False
  then have n: "unat bits < 64" by (simp add: word_le_nat_alt)
  have p: "0 < unat bits" using assms(1) by (simp add: unat_gt_0)
  define k where "k = unat bits"
  have above: "\<not> bit addr i" if "k \<le> i" for i
    using assms(2) that by (metis bit_take_bit_iff k_def not_less)
  have sign: "addr AND push_bit (k - 1) 1 \<noteq> 0 \<longleftrightarrow> bit addr (k - 1)"
  proof -
    have "addr AND push_bit (k - 1) 1 = (if bit addr (k - 1) then push_bit (k - 1) 1 else 0)"
      by (rule bit_word_eqI) (auto simp: bit_and_iff bit_push_bit_iff bit_1_iff bit_exp_iff)
    moreover have "push_bit (k - 1) 1 \<noteq> (0 :: u64)" using n k_def by (simp add: push_bit_eq_mult)
    ultimately show ?thesis by auto
  qed
  have "signed_take_bit (k - 1) addr =
      (if bit addr (k - 1) then addr OR push_bit k (- 1) else addr)"
  proof (rule bit_word_eqI)
    fix i assume i: "i < LENGTH(64)"
    consider "i < k - 1" | "i = k - 1" | "k \<le> i" by linarith
    then show "bit (signed_take_bit (k - 1) addr) i = bit (if bit addr (k - 1) then addr OR push_bit k (- 1) else addr) i"
      using i n p above [of i] k_def
      by cases (auto simp: bit_signed_take_bit_iff bit_or_iff bit_not_iff bit_mask_iff min_def)
  qed
  with False assms(1) n sign show ?thesis by (simp add: extend_addr_bits_def k_def min_absorb2)
qed

lemma extend_addr_signed_witness:
  "extend_addr_bits 0x800000000000 48 = Inr (signed_take_bit (min 63 (unat (48 :: u32) - 1)) 0x800000000000)"
  by (rule extend_addr_signed) (simp_all add: take_bit_eq_mod)

section \<open>Synchronising\<close>

text \<open>The state of a decoder that has just been synchronised or has left a trace.\<close>

definition idle_state :: "u8 list \<Rightarrow> nexusrv_trace_decoder \<Rightarrow> bool" where
  "idle_state S t \<longleftrightarrow> trace_ok S t \<and> \<not> td_msg_present t \<and> td_res_hists t = [] \<and> outcomes t = [] \<and> pending t = 0"

lemma idle_stateI:
  assumes "stream_ok S (td_msg_decoder t)" "\<not> td_msg_present t" "td_res_hists t = []" "td_res_icnt t = 0"
    "td_res_tnts t = 0" "td_consumed_icnt t = 0" "td_consumed_tnts t = 0"
  shows "idle_state S t"
  using assms by (simp add: idle_state_def trace_ok_def count_ok_def icnt_ok_def queue_ok_iff outcomes_def
      pending_def msg_count_def msg_outcomes_def)

text \<open>
  The messages a decoder goes past, one fetch after the other, when it looks for one that
  synchronises: each is dropped when the next is fetched.
\<close>

inductive goes_past :: "world \<Rightarrow> nexusrv_trace_decoder \<Rightarrow> nexusrv_msg list \<Rightarrow> nexusrv_trace_decoder \<Rightarrow> bool" for w where
  past_none: "goes_past w s [] s"
| past_one: "nexusrv_trace_fetch_msg w s = (Inr b, t) \<Longrightarrow> \<not> nexusrv_msg_is_sync (td_msg t) \<Longrightarrow>
    goes_past w (t\<lparr>td_msg_present := False\<rparr>) ms v \<Longrightarrow> goes_past w s (td_msg t # ms) v"

text \<open>They change the stream and the buffered message only.\<close>

lemma fetched_trans: "fetched s t \<Longrightarrow> fetched t v \<Longrightarrow> fetched s v"
  unfolding fetched_def by (cases s; cases t; cases v) simp

lemma past_keeps:
  "goes_past w s ms v \<Longrightarrow> stream_ok S (td_msg_decoder s) \<Longrightarrow>
   stream_ok S (td_msg_decoder v) \<and> td_cfg v = td_cfg s \<and> fetched s v \<and> (\<forall>m \<in> set ms. \<not> nexusrv_msg_is_sync m)"
proof (induction rule: goes_past.induct)
  case (past_none s)
  then show ?case by (simp add: fetched_def)
next
  case (past_one s b t ms v)
  note spec = fetch_msg_spec [OF past_one.prems past_one.hyps(1)]
  have "fetched s (t\<lparr>td_msg_present := False\<rparr>)" by (rule fetched_drop [OF spec(1)])
  with fetched_trans [OF this] past_one.IH spec(2) past_one.hyps(2)
    fetch_cfg [OF past_one.prems past_one.hyps(1)] show ?case by auto
qed

text \<open>The search goes past messages until a fetch fails or a message synchronises.\<close>

lemma sync_search_past:
  "sync_search w s = (r, u) \<Longrightarrow> \<exists>ms v f. goes_past w s ms v \<and> nexusrv_trace_fetch_msg w v = (f, u) \<and>
    (case f of Inl e \<Rightarrow> r = Inl e | Inr _ \<Rightarrow> r = Inr () \<and> nexusrv_msg_is_sync (td_msg u))"
proof (induction s rule: sync_search.induct)
  case (1 w s)
  obtain f t where f: "nexusrv_trace_fetch_msg w s = (f, t)" by (metis surj_pair)
  show ?case
  proof (cases "\<exists>b. f = Inr b \<and> \<not> nexusrv_msg_is_sync (td_msg t)")
    case False
    with f "1.prems" have "u = t" "case f of Inl e \<Rightarrow> r = Inl e | Inr _ \<Rightarrow> r = Inr () \<and> nexusrv_msg_is_sync (td_msg t)"
      by (subst (asm) sync_search.simps, auto split: sum.splits if_splits)+
    with f show ?thesis by (blast intro: past_none)
  next
    case True
    then obtain b where b: "f = Inr b" "\<not> nexusrv_msg_is_sync (td_msg t)" by blast
    with f "1.prems" have "sync_search w (t\<lparr>td_msg_present := False\<rparr>) = (r, u)" by (subst (asm) sync_search.simps) simp
    with "1.IH" [of f t b] f b obtain ms v f' where "goes_past w (t\<lparr>td_msg_present := False\<rparr>) ms v"
      "nexusrv_trace_fetch_msg w v = (f', u)"
      "case f' of Inl e \<Rightarrow> r = Inl e | Inr _ \<Rightarrow> r = Inr () \<and> nexusrv_msg_is_sync (td_msg u)" by auto
    moreover from this f b have "goes_past w s (td_msg t # ms) v" by (blast intro: past_one)
    ultimately show ?thesis by blast
  qed
qed

text \<open>What the message that synchronises says.\<close>

definition sync_of :: "nexusrv_trace_decoder \<Rightarrow> nexusrv_trace_sync result" where
  "sync_of u =
     (case extend_addr_bits (push_bit 1 (xaddr (td_msg u))) (addr_bits (td_cfg u)) of
        Inl e \<Rightarrow> Inl e
      | Inr a \<Rightarrow> Inr \<lparr>sy_addr = a, sy_sync = sync_type (td_msg u)\<rparr>)"

lemma extend_defined: "bits \<noteq> 0 \<Longrightarrow> \<exists>a. extend_addr_bits x bits = Inr a"
  by (simp add: extend_addr_bits_def)

text \<open>A message that has become a plain synchronisation without instructions is retired at once.\<close>

lemma next_sync_plain:
  assumes "td_synced s" "td_msg_present s" "td_res_hists s = []" "td_res_icnt s = 0" "td_res_tnts s = 0"
    "td_consumed_icnt s = 0" "td_consumed_tnts s = 0" and m: "tcode (td_msg s) = TCODE_ProgTraceSync"
    "icnt (td_msg s) = 0" and bits: "addr_bits (td_cfg s) \<noteq> 0"
  shows "\<exists>sy. sync_of s = Inr sy \<and> nexusrv_trace_next_sync w s =
    (Inr sy, s\<lparr>td_timestamp := timestamp (td_msg s), td_full_addr := xaddr (td_msg s),
       td_return_stack := nexusrv_retstack_clear (td_return_stack s), td_msg_present := False\<rparr>)"
proof -
  obtain a where a: "extend_addr_bits (push_bit 1 (xaddr (td_msg s))) (addr_bits (td_cfg s)) = Inr a"
    using extend_defined [OF bits] by blast
  have p: "\<not> nexusrv_msg_is_res (td_msg s)" "nexusrv_msg_is_sync (td_msg s)" "\<not> nexusrv_msg_is_branch (td_msg s)"
    "nexusrv_msg_has_icnt (td_msg s)" "\<not> nexusrv_msg_has_hist (td_msg s)" "tcode (td_msg s) \<noteq> TCODE_ResourceFull"
    using m(1) by (simp_all add: msg_preds)
  have av: "nexusrv_trace_available_icnt s = (Inr 0, s)" "nexusrv_trace_available_tnts s = (Inr 0, s)"
    using assms p by (simp_all add: nexusrv_trace_available_icnt_def nexusrv_trace_available_tnts_def Let_def)
  show ?thesis
    using assms(1-7) m(2) p av a
    by (simp add: nexusrv_trace_next_sync_def need_sync_def nothing_pending_def fetch_present run_defs sync_of_def
        nexusrv_trace_retire_msg_def nexusrv_hist_array_size_def)
qed



end
