(* ===== verification/TraceLeave.thy ===== *)
theory TraceLeave
  imports TraceSync
begin

text \<open>
  Errors and indirect branches: \<^verbatim>\<open>nexusrv_trace_next_error\<close> and \<^verbatim>\<open>nexusrv_trace_next_indirect\<close>.
\<close>

section \<open>Errors\<close>

lemma drain_all_run:
  "drain_all s = s\<lparr>td_res_hists := [],
     td_timestamp := fold (\<lambda>el. stamp (td_cfg s) (el_timestamp el)) (td_res_hists s) (td_timestamp s)\<rparr>"
proof (induction s rule: drain_all.induct)
  case (1 s)
  show ?case
  proof (cases "td_res_hists s")
    case Nil
    then show ?thesis by (subst drain_all.simps) simp
  next
    case (Cons el rest)
    with "1.IH" [OF Cons] show ?thesis
      by (subst drain_all.simps) (simp add: retire_front_timestamp_def retire_timestamp_stamp)
  qed
qed

lemma next_error_run:
  assumes "stream_ok S (td_msg_decoder s)" and "td_synced s" and "nexusrv_trace_next_error w s = (r, t)"
  shows "\<exists>f u. nexusrv_trace_fetch_msg w s = (f, u) \<and>
    (case r of
       Inl e \<Rightarrow> clean e \<and> (f = Inl e \<or> tcode (td_msg u) \<noteq> TCODE_Error \<and> e = Code nexus_trace_mismatch)
     | Inr er \<Rightarrow> tcode (td_msg u) = TCODE_Error \<and> er = \<lparr>er_ecode = error_code (td_msg u), er_etype = error_type (td_msg u)\<rparr> \<and>
         \<not> td_synced t \<and> idle_state S t \<and>
         td_timestamp t = stamp (td_cfg u) (timestamp (td_msg u))
           (fold (\<lambda>el. stamp (td_cfg u) (el_timestamp el)) (td_res_hists u) (td_timestamp u)))"
proof -
  obtain f u where fetch: "nexusrv_trace_fetch_msg w s = (f, u)" by (metis surj_pair)
  note spec = fetch_msg_spec [OF assms(1) fetch]
  note defs = nexusrv_trace_next_error_def need_sync_def run_defs
  show ?thesis
  proof (cases f)
    case (Inl e)
    with assms(2,3) fetch spec show ?thesis by (auto simp: defs)
  next
    case (Inr b)
    show ?thesis
    proof (cases "tcode (td_msg u) = TCODE_Error")
      case False
      with Inr assms(2,3) fetch show ?thesis by (auto simp: defs)
    next
      case True
      then have m: "\<not> nexusrv_msg_has_icnt (td_msg u)" "\<not> nexusrv_msg_has_hist (td_msg u)"
        "\<not> nexusrv_msg_is_branch (td_msg u)" "\<not> nexusrv_msg_is_sync (td_msg u)"
        by (simp_all add: msg_preds)
      have p: "td_msg_present u" using spec(4) [OF Inr] by simp
      let ?time = "fold (\<lambda>el. stamp (td_cfg u) (el_timestamp el)) (td_res_hists u) (td_timestamp u)"
      define v where "v = u\<lparr>td_res_icnt := 0, td_res_tnts := 0, td_res_hists := [], td_timestamp := ?time,
        td_consumed_icnt := 0, td_consumed_tnts := 0\<rparr>"
      have drained: "drain_all (u\<lparr>td_res_icnt := 0, td_res_tnts := 0, td_consumed_icnt := 0, td_consumed_tnts := 0\<rparr>) = v"
        unfolding drain_all_run v_def by (cases u) (simp add: td_cfg_def)
      have "nexusrv_trace_retire_msg v = (Inr (), (retire_msg_timestamp v)\<lparr>td_msg_present := False\<rparr>)"
        using True m p
        by (simp add: nexusrv_trace_retire_msg_def run_defs v_def nexusrv_hist_array_size_def)
      with assms(2,3) fetch Inr True drained
      have r: "r = Inr \<lparr>er_ecode = error_code (td_msg u), er_etype = error_type (td_msg u)\<rparr>"
        "t = (retire_msg_timestamp v)\<lparr>td_msg_present := False, td_synced := False\<rparr>"
        by (auto simp: defs)
      have "idle_state S t"
        by (rule idle_stateI) (use spec(2) in \<open>simp_all add: r retire_msg_timestamp_def retire_timestamp_stamp v_def\<close>)
      then show ?thesis
        using fetch True r
        by (auto simp: retire_msg_timestamp_def retire_timestamp_stamp v_def td_cfg_def)
    qed
  qed
qed

text \<open>
  C11. An error message ends the trace in any state. On a synchronised decoder
  \<^verbatim>\<open>nexusrv_trace_next_error\<close> returns an error code, which is a mismatch unless the stream fails
  or the message is not supported, or it has the codes of the pending error message. Then all that
  was pending is gone, the decoder is no longer synchronised and its invariants hold; the time has
  taken in the time stamps of the queue and then that of the message. No assertion fails.
\<close>

theorem next_error_recovers:
  assumes "stream_ok S (td_msg_decoder s)" and "td_synced s" and "nexusrv_trace_next_error w s = (r, t)"
  shows "\<exists>f u. nexusrv_trace_fetch_msg w s = (f, u) \<and>
    (case r of
       Inl e \<Rightarrow> clean e \<and> (f = Inl e \<or> tcode (td_msg u) \<noteq> TCODE_Error \<and> e = Code nexus_trace_mismatch)
     | Inr er \<Rightarrow> tcode (td_msg u) = TCODE_Error \<and> er = \<lparr>er_ecode = error_code (td_msg u), er_etype = error_type (td_msg u)\<rparr> \<and>
         \<not> td_synced t \<and> idle_state S t \<and>
         td_timestamp t = stamp (td_cfg u) (timestamp (td_msg u))
           (fold (\<lambda>el. stamp (td_cfg u) (el_timestamp el)) (td_res_hists u) (td_timestamp u)))"
  by (rule next_error_run [OF assms])

lemma next_error_recovers_witness:
  "\<exists>t. nexusrv_trace_next_error ex_world ((ex_start ex_error)\<lparr>td_synced := True, td_consumed_icnt := 7\<rparr>) =
      (Inr \<lparr>er_ecode = 3, er_etype = 2\<rparr>, t) \<and> \<not> td_synced t \<and> idle_state ex_error t"
proof -
  let ?s = "(ex_start ex_error)\<lparr>td_synced := True, td_consumed_icnt := 7\<rparr>"
  have "fst (nexusrv_trace_next_error ex_world ?s) = Inr \<lparr>er_ecode = 3, er_etype = 2\<rparr>" by code_simp
  then obtain t where run: "nexusrv_trace_next_error ex_world ?s = (Inr \<lparr>er_ecode = 3, er_etype = 2\<rparr>, t)"
    by (metis prod.exhaust_sel)
  have st: "stream_ok ex_error (td_msg_decoder ?s)"
    using ex_start_ok(1) [of ex_error] by (simp add: trace_ok_def count_ok_def)
  from next_error_recovers [OF st _ run] run show ?thesis by auto
qed

section \<open>Indirect branches\<close>

lemma nothing_pending_run:
  assumes "trace_ok S s"
  shows "nothing_pending s =
    (if pending s = 0 \<and> outcomes s = [] then Inr () else Inl (Code nexus_trace_mismatch), s)"
proof -
  from assms have ok: "count_ok S s" "queue_ok s" by (simp_all add: trace_ok_def)
  note av = available_count(1,2) [OF ok(1)]
  have nz: "(of_nat (pending s) :: u32) = 0 \<longleftrightarrow> pending s = 0"
    using av(2) by (metis of_nat_0 unat_eq_0 unsigned_0)
  show ?thesis
    using av(1) nz available_outcomes [OF ok(2)] outcomes_nonzero [OF ok(2)]
    by (simp add: nothing_pending_def run_defs)
qed

text \<open>The address behind an indirect branch, and what kind of branch it is.\<close>

definition next_full_addr :: "nexusrv_trace_decoder \<Rightarrow> u64" where
  "next_full_addr s =
     (if nexusrv_msg_is_sync (td_msg s) then xaddr (td_msg s) else td_full_addr s XOR xaddr (td_msg s))"

definition indirect_of :: "nexusrv_trace_decoder \<Rightarrow> nexusrv_trace_indirect \<Rightarrow> bool" where
  "indirect_of s i \<longleftrightarrow>
     extend_addr_bits (push_bit 1 (next_full_addr s)) (addr_bits (td_cfg s)) = Inr (in_target i) \<and>
     (in_interrupt i, in_exception i) =
       (if branch_type (td_msg s) = 1 then (True, True)
        else if branch_type (td_msg s) = 2 then (False, True)
        else if branch_type (td_msg s) = 3 then (True, False)
        else (False, False))"

definition indirect_msg :: "nexusrv_msg \<Rightarrow> bool" where
  "indirect_msg m \<longleftrightarrow> nexusrv_msg_is_branch m \<and> nexusrv_msg_is_indir_branch m"

definition step_indirect :: "nexusrv_trace_decoder \<Rightarrow> nexusrv_trace_decoder" where
  "step_indirect s =
     (if nexusrv_msg_is_sync (td_msg s) then s\<lparr>td_full_addr := xaddr (td_msg s)\<rparr>
      else s\<lparr>td_full_addr := td_full_addr s XOR xaddr (td_msg s), td_msg := (td_msg s)\<lparr>dword1 := 0\<rparr>\<rparr>)"

lemma dword1_preds [simp]:
  "nexusrv_msg_has_icnt (m\<lparr>dword1 := a\<rparr>) = nexusrv_msg_has_icnt m"
  "nexusrv_msg_has_hist (m\<lparr>dword1 := a\<rparr>) = nexusrv_msg_has_hist m"
  "nexusrv_msg_is_res (m\<lparr>dword1 := a\<rparr>) = nexusrv_msg_is_res m"
  "nexusrv_msg_is_branch (m\<lparr>dword1 := a\<rparr>) = nexusrv_msg_is_branch m"
  "nexusrv_msg_is_sync (m\<lparr>dword1 := a\<rparr>) = nexusrv_msg_is_sync m"
  "icnt (m\<lparr>dword1 := a\<rparr>) = icnt m" "branch_type (m\<lparr>dword1 := a\<rparr>) = branch_type m"
  by (simp_all add: msg_preds field_readers)

lemma step_indirect_same:
  "icnt_ok (step_indirect s) = icnt_ok s" "pending (step_indirect s) = pending s"
  "msg_outcomes (step_indirect s) = msg_outcomes s" "td_res_hists (step_indirect s) = td_res_hists s"
  "td_consumed_tnts (step_indirect s) = td_consumed_tnts s" "td_msg_present (step_indirect s) = td_msg_present s"
  "td_cfg (step_indirect s) = td_cfg s" "td_msg_decoder (step_indirect s) = td_msg_decoder s"
  "td_full_addr (step_indirect s) = next_full_addr s"
  by (auto simp: step_indirect_def icnt_ok_def pending_def msg_count_def msg_outcomes_def td_cfg_def next_full_addr_def)

lemma indirect_refused:
  assumes "icnt_ok s" "td_msg_present s" "indirect_msg (td_msg s)" "pending s = 0"
    and "td_res_hists s = [] \<Longrightarrow> unat (td_consumed_tnts s) = length (msg_outcomes s)"
    and "td_res_hists s \<noteq> [] \<or> nexusrv_msg_is_sync (td_msg s) \<and> hrepeat (td_msg s) \<noteq> 0"
  shows "fst (nexusrv_trace_retire_msg (step_indirect s)) = Inl Abort"
proof -
  let ?s1 = "step_indirect s"
  have "nexusrv_trace_retire_msg ?s1 = (if td_res_hists s = [] then retired ?s1 else (Inl Abort, ?s1))"
    using retire_msg_run [of ?s1] step_indirect_same [of s] assms(1-5) by simp
  with assms(3,6) show ?thesis
    by (auto simp: retired_def retire_branch_def step_indirect_def indirect_msg_def Let_def)
qed

text \<open>The call in parts: up to the test of the message, its address and its retirement, and the lookahead.\<close>

definition of_branch :: "nexusrv_trace_decoder \<Rightarrow> u64 \<Rightarrow> nexusrv_trace_indirect \<Rightarrow> nexusrv_trace_indirect" where
  "of_branch s a i = i\<lparr>in_target := a,
     in_interrupt := (branch_type (td_msg s) = 1 \<or> branch_type (td_msg s) = 3),
     in_exception := (branch_type (td_msg s) = 1 \<or> branch_type (td_msg s) = 2)\<rparr>"

definition look_ahead ::
    "world \<Rightarrow> nexusrv_trace_decoder \<Rightarrow> nexusrv_trace_indirect \<Rightarrow>
     unit result \<times> nexusrv_trace_decoder \<times> nexusrv_trace_indirect" where
  "look_ahead w v i =
     (case nexusrv_msg_decoder_next (td_msg_decoder v) (w_msg2 w) of
        (Inl e, d, m) \<Rightarrow> (Inl e, v\<lparr>td_msg_decoder := d\<rparr>, i)
      | (Inr _, d, m) \<Rightarrow>
          if tcode m \<noteq> TCODE_Ownership then
            (case nexusrv_msg_decoder_rewind_last d of
               Inl e \<Rightarrow> (Inl e, v\<lparr>td_msg_decoder := d\<rparr>, i)
             | Inr d' \<Rightarrow> (Inr (), v\<lparr>td_msg_decoder := d'\<rparr>, i))
          else (Inr (), v\<lparr>td_msg_decoder := d\<rparr>, i\<lparr>in_ownership := True, in_ownership_fmt := ownership_fmt m,
             in_ownership_priv := ownership_priv m, in_ownership_v := ownership_v m, in_context := context_field m\<rparr>))"

lemma on_td_run [comp_simps]: "on_td m (s, i) = (case m s of (r, t) \<Rightarrow> (r, t, i))"
  by (simp add: on_td_def)

lemma set_indir_run [comp_simps]: "set_indir f (s, i) = (Inr (), s, f i)"
  by (simp add: set_indir_def modS_def)

lemma next_indirect_parts:
  assumes "td_synced s" and "nexusrv_trace_fetch_msg w s = (Inr b, u)"
    and np: "nothing_pending u = (x, u)" and a: "indirect_msg (td_msg u) \<Longrightarrow>
      extend_addr_bits (push_bit 1 (next_full_addr u)) (addr_bits (td_cfg u)) = Inr a"
  shows "nexusrv_trace_next_indirect w (s, i) =
    (case x of Inl e \<Rightarrow> (Inl e, u, i)
     | Inr _ \<Rightarrow>
         if \<not> indirect_msg (td_msg u) then (Inl (Code nexus_trace_mismatch), u, i)
         else case nexusrv_trace_retire_msg (step_indirect u) of
             (Inl e, v) \<Rightarrow> (Inl e, v, of_branch u a i)
           | (Inr _, v) \<Rightarrow> look_ahead w v ((of_branch u a i)\<lparr>in_ownership := False\<rparr>))"
proof (cases x)
  case (Inl e)
  with assms(1-3) show ?thesis
    by (simp add: nexusrv_trace_next_indirect_def on_td_def need_sync_def run_defs)
next
  case (Inr y)
  show ?thesis
  proof (cases "indirect_msg (td_msg u)")
    case False
    with Inr assms(1-3) show ?thesis
      by (auto simp: nexusrv_trace_next_indirect_def on_td_def need_sync_def run_defs indirect_msg_def)
  next
    case True
    obtain r v where ret: "nexusrv_trace_retire_msg (step_indirect u) = (r, v)" by (metis surj_pair)
    obtain r2 d m where nx: "nexusrv_msg_decoder_next (td_msg_decoder v) (w_msg2 w) = (r2, d, m)" by (metis surj_pair)
    have br: "nexusrv_msg_is_branch (td_msg u)" "nexusrv_msg_is_indir_branch (td_msg u)"
      using True by (simp_all add: indirect_msg_def)
    have look: "bindS (on_td (td_next_local (w_msg2 w))) (\<lambda>(n2, m2).
        if tcode m2 \<noteq> TCODE_Ownership then on_td td_rewind
        else set_indir (\<lambda>i. i\<lparr>in_ownership := True, in_ownership_fmt := ownership_fmt m2,
               in_ownership_priv := ownership_priv m2, in_ownership_v := ownership_v m2,
               in_context := context_field m2\<rparr>)) (v, k) = look_ahead w v k" for k
      by (cases r2; cases "nexusrv_msg_decoder_rewind_last d")
        (simp_all add: bindS_def on_td_def td_next_local_def nx td_rewind_def set_indir_def modS_def look_ahead_def)
    have "nexusrv_trace_next_indirect w (s, i) =
      (case nexusrv_trace_retire_msg (step_indirect u) of
         (Inl e, v) \<Rightarrow> (Inl e, v, of_branch u a i)
       | (Inr _, v) \<Rightarrow> look_ahead w v ((of_branch u a i)\<lparr>in_ownership := False\<rparr>))"
    proof (cases r)
      case (Inl e)
      then show ?thesis
        using assms(1-3) Inr br a [OF True] ret step_indirect_same(7,9) [of u]
        by (simp add: nexusrv_trace_next_indirect_def on_td_def set_indir_def need_sync_def run_defs of_branch_def
            flip: step_indirect_def)
    next
      case r: (Inr z)
      show ?thesis
        using assms(1-3) Inr br a [OF True] ret r step_indirect_same(7,9) [of u] look
        by (simp add: nexusrv_trace_next_indirect_def on_td_run set_indir_run comp_simps need_sync_def of_branch_def
            flip: step_indirect_def)
    qed
    with True Inr show ?thesis by simp
  qed
qed

text \<open>Whether something is pending, when there may be too many outcomes to count.\<close>

lemma nothing_pending_some:
  assumes "count_ok S s"
  shows "\<exists>x. nothing_pending s = (x, s) \<and> (x = Inr () \<longrightarrow> pending s = 0) \<and>
    (x = Inr () \<or> x = Inl (Code nexus_trace_mismatch) \<or> x = Inl Abort)"
proof -
  note av = available_count(1,2) [OF assms]
  have nz: "(of_nat (pending s) :: u32) = 0 \<longleftrightarrow> pending s = 0"
    using av(2) by (metis of_nat_0 unat_eq_0 unsigned_0)
  obtain a where tn: "nexusrv_trace_available_tnts s = (a, s)" "\<And>e. a = Inl e \<Longrightarrow> e = Abort"
    using available_same(2) [of s]
    by (cases "nexusrv_trace_available_tnts s")
      (fastforce simp: nexusrv_trace_available_tnts_def Let_def split: if_splits)
  from av(1) nz tn show ?thesis
    by (cases a) (auto simp: nothing_pending_def run_defs)
qed

lemma fetched_state:
  assumes ok: "trace_ok S s" and fetch: "nexusrv_trace_fetch_msg w s = (Inr b, u)"
  shows "td_msg_present u" and "\<not> nexusrv_msg_is_res (td_msg u) \<Longrightarrow> count_ok S u"
    and "td_cfg u = td_cfg s"
    and "\<not> nexusrv_msg_is_res (td_msg u) \<Longrightarrow>
      length (queue_outcomes (td_res_hists u)) + length (msg_outcomes u) < 4294967296 \<Longrightarrow> queue_ok u"
proof -
  have st: "stream_ok S (td_msg_decoder s)" and ic: "icnt_ok s" and q: "queue_ok s"
    using ok by (simp_all add: trace_ok_def count_ok_def)
  note spec = fetch_msg_spec [OF st fetch]
  show p: "td_msg_present u" using spec(4) by simp
  show "td_cfg u = td_cfg s" by (rule fetch_cfg [OF st fetch])
  show "count_ok S u" if "\<not> nexusrv_msg_is_res (td_msg u)"
  proof (cases "td_msg_present s")
    case True
    with spec(6) ok show ?thesis by (simp add: trace_ok_def)
  next
    case False
    with fetched_icnt(1) [OF ic spec(1)] that spec(2,5) show ?thesis by (simp add: count_ok_def)
  qed
  show "queue_ok u" if "\<not> nexusrv_msg_is_res (td_msg u)"
    "length (queue_outcomes (td_res_hists u)) + length (msg_outcomes u) < 4294967296"
  proof (cases "td_msg_present s")
    case True
    with spec(6) q show ?thesis by simp
  next
    case False
    with fetched_queue(1) [OF q spec(1)] that fetched_sel(1) [OF spec(1)] show ?thesis by simp
  qed
qed

text \<open>What the caller's struct has of the message behind the branch.\<close>

definition process_of :: "nexusrv_msg \<Rightarrow> nexusrv_trace_indirect \<Rightarrow> bool" where
  "process_of m j \<longleftrightarrow> in_ownership j \<and> in_ownership_fmt j = ownership_fmt m \<and>
     in_ownership_priv j = ownership_priv m \<and> in_ownership_v j = ownership_v m \<and> in_context j = context_field m"

definition no_process :: "nexusrv_trace_indirect \<Rightarrow> nexusrv_trace_indirect \<Rightarrow> bool" where
  "no_process i j \<longleftrightarrow> \<not> in_ownership j \<and> in_ownership_fmt j = in_ownership_fmt i \<and>
     in_ownership_priv j = in_ownership_priv i \<and> in_ownership_v j = in_ownership_v i \<and> in_context j = in_context i"

text \<open>The branch is taken: its address, what is left of its message, and the time.\<close>

definition branch_left :: "nexusrv_trace_decoder \<Rightarrow> nexusrv_trace_decoder \<Rightarrow> bool" where
  "branch_left u t \<longleftrightarrow>
     td_full_addr t = next_full_addr u \<and> td_consumed_icnt t = 0 \<and> td_consumed_tnts t = 0 \<and>
     td_res_icnt t = 0 \<and> td_res_hists t = [] \<and> td_res_tnts t = td_res_tnts u \<and> td_synced t = td_synced u \<and>
     td_return_stack t = td_return_stack u \<and>
     td_timestamp t = (if nexusrv_msg_is_sync (td_msg u) then timestamp (td_msg u)
                       else stamp (td_cfg u) (timestamp (td_msg u)) (td_timestamp u)) \<and>
     (td_msg_present t \<longleftrightarrow> nexusrv_msg_is_sync (td_msg u) \<or> hrepeat (td_msg u) \<noteq> 0) \<and>
     (nexusrv_msg_is_sync (td_msg u) \<longrightarrow> tcode (td_msg t) = TCODE_ProgTraceSync \<and> icnt (td_msg t) = 0 \<and>
        xaddr (td_msg t) = xaddr (td_msg u) \<and> sync_type (td_msg t) = sync_type (td_msg u)) \<and>
     (\<not> nexusrv_msg_is_sync (td_msg u) \<and> hrepeat (td_msg u) \<noteq> 0 \<longrightarrow>
        next_full_addr t = next_full_addr u \<and> hrepeat (td_msg t) = hrepeat (td_msg u) - 1 \<and> indirect_msg (td_msg t))"

text \<open>The lookahead behind it.\<close>

definition looked_ahead ::
    "world \<Rightarrow> nexusrv_trace_decoder \<Rightarrow> nexusrv_trace_indirect \<Rightarrow> unit result \<Rightarrow> nexusrv_trace_decoder \<Rightarrow>
     nexusrv_trace_indirect \<Rightarrow> bool" where
  "looked_ahead w u i r t j \<longleftrightarrow>
     (case nexusrv_msg_decoder_next (td_msg_decoder u) (w_msg2 w) of
        (Inl e, d, m) \<Rightarrow> clean e \<and> r = Inl e \<and> td_msg_decoder t = d \<and> no_process i j
      | (Inr _, d, m) \<Rightarrow> r = Inr () \<and>
          (if tcode m = TCODE_Ownership then td_msg_decoder t = d \<and> process_of m j
           else nexusrv_msg_decoder_rewind_last d = Inr (td_msg_decoder t) \<and> no_process i j))"

lemma branch_left_decoder [simp]: "branch_left u (v\<lparr>td_msg_decoder := d\<rparr>) = branch_left u v"
  by (simp add: branch_left_def next_full_addr_def)

lemma indirect_retired:
  assumes "icnt_ok s" "queue_ok s" "td_msg_present s" "indirect_msg (td_msg s)" "pending s = 0" "outcomes s = []"
    and good: "td_res_hists s = []" "\<not> (nexusrv_msg_is_sync (td_msg s) \<and> hrepeat (td_msg s) \<noteq> 0)"
  obtains v where "nexusrv_trace_retire_msg (step_indirect s) = (Inr (), v)" "branch_left s v"
    "td_msg_decoder v = td_msg_decoder s"
proof -
  let ?s1 = "step_indirect s" and ?m = "td_msg s"
  note same = step_indirect_same [of s]
  have ret: "nexusrv_trace_retire_msg ?s1 = retired ?s1"
    using retire_msg_run [of ?s1] same assms none_left by simp
  obtain v where v: "retired ?s1 = (Inr (), v)" "branch_left s v" "td_msg_decoder v = td_msg_decoder s"
  proof (cases "nexusrv_msg_is_sync ?m")
    case True
    with good assms(3,4) that none_pending(1) [OF assms(1,5)] show thesis
      by (simp add: retired_def retire_branch_def step_indirect_def branch_left_def indirect_msg_def next_full_addr_def
          icnt_def xaddr_def sync_type_def)
  next
    case False
    with assms(3,4) good(1) that none_pending(1) [OF assms(1,5)] show thesis
      by (cases "hrepeat ?m = 0")
        (simp_all add: retired_def retire_branch_def step_indirect_def branch_left_def indirect_msg_def
          next_full_addr_def retire_msg_timestamp_def retire_timestamp_stamp Let_def xaddr_def td_cfg_def
          msg_preds)
  qed
  with ret that show thesis by simp
qed

lemma looked_ahead_run:
  assumes st: "stream_ok S (td_msg_decoder u)" and v: "td_msg_decoder v = td_msg_decoder u" "branch_left u v"
    and run: "look_ahead w v ((of_branch u a i)\<lparr>in_ownership := False\<rparr>) = (r, t, j)"
    and a: "extend_addr_bits (push_bit 1 (next_full_addr u)) (addr_bits (td_cfg u)) = Inr a"
  shows "branch_left u t \<and> indirect_of u j \<and> looked_ahead w u i r t j"
proof -
  obtain r2 d m where nx: "nexusrv_msg_decoder_next (td_msg_decoder u) (w_msg2 w) = (r2, d, m)" by (metis surj_pair)
  have c: "clean e" if "r2 = Inl e" for e using file_stream.nxt_clean st nx that by metis
  obtain d' where rw: "nexusrv_msg_decoder_rewind_last d = Inr d'"
    using file_stream.rewind_ok file_stream.nxt_ok [OF st nx] by blast
  show ?thesis
    using run v nx c rw a
    by (cases r2) (auto simp: look_ahead_def looked_ahead_def indirect_of_def of_branch_def no_process_def process_of_def
        split: if_splits)
qed

lemma indirect_cases:
  assumes p: "td_msg_present u" and ok: "\<not> nexusrv_msg_is_res (td_msg u) \<Longrightarrow> count_ok S u"
    and q: "\<not> nexusrv_msg_is_res (td_msg u) \<Longrightarrow>
      length (queue_outcomes (td_res_hists u)) + length (msg_outcomes u) < 4294967296 \<Longrightarrow> queue_ok u"
    and sy: "td_synced s" and fetch: "nexusrv_trace_fetch_msg w s = (Inr b, u)"
    and a: "extend_addr_bits (push_bit 1 (next_full_addr u)) (addr_bits (td_cfg u)) = Inr a"
    and run: "nexusrv_trace_next_indirect w (s, i) = (r, t, j)"
  shows "if nexusrv_msg_is_res (td_msg u) then r = Inl Abort \<and> (t, j) = (u, i)
        else if 4294967296 \<le> length (queue_outcomes (td_res_hists u)) + length (msg_outcomes u)
        then r = Inl Abort \<or> r = Inl (Code nexus_trace_mismatch) \<and> (t, j) = (u, i)
        else if \<not> (indirect_msg (td_msg u) \<and> pending u = 0 \<and> outcomes u = [])
        then r = Inl (Code nexus_trace_mismatch) \<and> (t, j) = (u, i)
        else if td_res_hists u \<noteq> [] \<or> nexusrv_msg_is_sync (td_msg u) \<and> hrepeat (td_msg u) \<noteq> 0
        then r = Inl Abort
        else branch_left u t \<and> indirect_of u j \<and> looked_ahead w u i r t j"
proof -
  note parts = next_indirect_parts [OF sy fetch _ a, of _ i, unfolded run]
  consider (res) "nexusrv_msg_is_res (td_msg u)"
    | (many) "\<not> nexusrv_msg_is_res (td_msg u)"
        "4294967296 \<le> length (queue_outcomes (td_res_hists u)) + length (msg_outcomes u)"
    | (fits) "\<not> nexusrv_msg_is_res (td_msg u)"
        "length (queue_outcomes (td_res_hists u)) + length (msg_outcomes u) < 4294967296" by linarith
  then show ?thesis
  proof cases
    case res
    then have "nothing_pending u = (Inl Abort, u)"
      using p by (simp add: nothing_pending_def run_defs nexusrv_trace_available_icnt_def Let_def)
    from parts [OF this] res show ?thesis by simp
  next
    case many
    have ic: "icnt_ok u" using ok many(1) by (simp add: count_ok_def)
    from nothing_pending_some [OF ok [OF many(1)]] obtain x where x: "nothing_pending u = (x, u)"
      "x = Inr () \<Longrightarrow> pending u = 0" "x = Inr () \<or> x = Inl (Code nexus_trace_mismatch) \<or> x = Inl Abort" by blast
    have "length (msg_outcomes u) \<le> 31" using hist_bits_le by (simp add: msg_outcomes_def)
    with many(2) have full: "td_res_hists u \<noteq> []" by (cases "td_res_hists u") simp_all
    show ?thesis
    proof (cases "x = Inr () \<and> indirect_msg (td_msg u)")
      case False
      with parts [OF x(1)] x(3) many show ?thesis by (auto split: if_splits)
    next
      case True
      with indirect_refused [OF ic p _ x(2)] full obtain v where
        "nexusrv_trace_retire_msg (step_indirect u) = (Inl Abort, v)" by (metis prod.exhaust_sel)
      with parts [OF x(1)] True many show ?thesis by simp
    qed
  next
    case fits
    have c: "count_ok S u" "queue_ok u" using ok q fits by simp_all
    then have tr: "trace_ok S u" and ic: "icnt_ok u" and st: "stream_ok S (td_msg_decoder u)"
      by (simp_all add: trace_ok_def count_ok_def)
    note np = nothing_pending_run [OF tr]
    show ?thesis
    proof (cases "indirect_msg (td_msg u) \<and> pending u = 0 \<and> outcomes u = []")
      case False
      with parts [OF np] fits show ?thesis by (auto split: if_splits)
    next
      case True
      then have m: "indirect_msg (td_msg u)" "pending u = 0" "outcomes u = []" by simp_all
      show ?thesis
      proof (cases "td_res_hists u \<noteq> [] \<or> nexusrv_msg_is_sync (td_msg u) \<and> hrepeat (td_msg u) \<noteq> 0")
        case bad: True
        from indirect_refused [OF ic p m(1,2) none_left [OF c(2) m(3)] bad] obtain v where
          "nexusrv_trace_retire_msg (step_indirect u) = (Inl Abort, v)" by (metis prod.exhaust_sel)
        with parts [OF np] m bad fits show ?thesis by simp
      next
        case False
        then have good: "td_res_hists u = []" "\<not> (nexusrv_msg_is_sync (td_msg u) \<and> hrepeat (td_msg u) \<noteq> 0)" by simp_all
        obtain v where v: "nexusrv_trace_retire_msg (step_indirect u) = (Inr (), v)" "branch_left u v"
          "td_msg_decoder v = td_msg_decoder u" by (rule indirect_retired [OF ic c(2) p m good])
        with parts [OF np] m have "look_ahead w v ((of_branch u a i)\<lparr>in_ownership := False\<rparr>) = (r, t, j)" by simp
        from looked_ahead_run [OF st v(3,2) this a] m good fits show ?thesis by auto
      qed
    qed
  qed
qed

text \<open>
  C9. Indirect branches lead to the addresses of the trace, on every branch of
  \<^verbatim>\<open>nexusrv_trace_next_indirect\<close>, from any sound state. A decoder that is not synchronised is
  refused; then a message is fetched, unless one is buffered, and an error of the fetch is returned. If
  the message is a ResourceFull message, an assertion fails. Unless it is an indirect branch with no
  instructions and no outcomes pending, it is refused as a mismatch; in these cases nothing but the
  fetch changes the decoder, and nothing the caller's struct. Time stamps left in the queue and
  repetitions of a branch that synchronises make an assertion fail. Else the address is that of the
  message, if it synchronises, or the last one changed by the message, and the target put into the
  struct is the extension of twice that address, with the kind of the branch as its type says. The
  address is kept for the next branch, the time takes in that of the message, and a repeated branch
  leads to the same target again. The message behind the branch is taken off the stream if it is an
  ownership message, whose process is put into the struct, and left there otherwise; if the stream
  fails there, its error is returned, and the branch is gone. (With 4294967296 outcomes or more pending,
  which cannot be counted, the call is a mismatch or fails an assertion.)
\<close>

theorem next_indirect_follows:
  assumes "trace_ok S s" and bits: "addr_bits (td_cfg s) \<noteq> 0"
    and run: "nexusrv_trace_next_indirect w (s, i) = (r, t, j)" and fetch: "nexusrv_trace_fetch_msg w s = (f, u)"
  shows "if \<not> td_synced s then r = Inl (Code nexus_trace_not_synced) \<and> (t, j) = (s, i)
    else case f of
      Inl e \<Rightarrow> clean e \<and> r = Inl e \<and> (t, j) = (u, i)
    | Inr _ \<Rightarrow>
        if nexusrv_msg_is_res (td_msg u) then r = Inl Abort \<and> (t, j) = (u, i)
        else if 4294967296 \<le> length (queue_outcomes (td_res_hists u)) + length (msg_outcomes u)
        then r = Inl Abort \<or> r = Inl (Code nexus_trace_mismatch) \<and> (t, j) = (u, i)
        else if \<not> (indirect_msg (td_msg u) \<and> pending u = 0 \<and> outcomes u = [])
        then r = Inl (Code nexus_trace_mismatch) \<and> (t, j) = (u, i)
        else if td_res_hists u \<noteq> [] \<or> nexusrv_msg_is_sync (td_msg u) \<and> hrepeat (td_msg u) \<noteq> 0
        then r = Inl Abort
        else branch_left u t \<and> indirect_of u j \<and> looked_ahead w u i r t j"
proof (cases "td_synced s")
  case False
  with run show ?thesis by (auto simp: nexusrv_trace_next_indirect_def on_td_def need_sync_def run_defs)
next
  case sy: True
  have st: "stream_ok S (td_msg_decoder s)" using assms(1) by (simp add: trace_ok_def count_ok_def)
  show ?thesis
  proof (cases f)
    case (Inl e)
    with run fetch sy fetch_msg_spec(3) [OF st fetch] show ?thesis
      by (auto simp: nexusrv_trace_next_indirect_def on_td_def need_sync_def run_defs)
  next
    case (Inr b)
    note ft = fetched_state [OF assms(1) fetch [unfolded Inr]]
    have "addr_bits (td_cfg u) \<noteq> 0" using bits ft(3) by simp
    then obtain a where a: "extend_addr_bits (push_bit 1 (next_full_addr u)) (addr_bits (td_cfg u)) = Inr a"
      using extend_defined by blast
    from indirect_cases [OF ft(1,2,4) sy fetch [unfolded Inr] a run] sy Inr show ?thesis by simp
  qed
qed

definition ex_indirect :: nexusrv_trace_decoder where
  "ex_indirect = (ex_start ex_direct_4)\<lparr>td_synced := True, td_msg_present := True, td_full_addr := 0x1000,
     td_consumed_icnt := 7,
     td_msg := ex_msg\<lparr>tcode := TCODE_IndirectBranch, tagbits := 32, word0 := 7, dword1 := 0x123\<rparr>\<rparr>"

lemma ex_indirect_ok: "trace_ok ex_direct_4 ex_indirect"
proof -
  let ?s = "ex_start ex_direct_4"
  have ok: "trace_ok ex_direct_4 ?s" by (rule ex_start_ok)
  have "td_res_hists ?s = []" "td_res_icnt ?s = 0" "td_res_tnts ?s = 0" "td_consumed_tnts ?s = 0" by code_simp+
  with ok show ?thesis
    by (simp add: trace_ok_def count_ok_def icnt_ok_def queue_ok_iff ex_indirect_def ex_msg_def msg_count_def
        msg_outcomes_def msg_preds icnt_def MSG_ICNT_MAX_def)
qed

lemma next_indirect_follows_witness:
  "\<exists>t j. nexusrv_trace_next_indirect ex_world (ex_indirect,
      \<lparr>in_target = 0, in_context = 0, in_interrupt = False, in_exception = False, in_ownership = False,
        in_ownership_fmt = 0, in_ownership_priv = 0, in_ownership_v = 0\<rparr>) = (Inr (), t, j) \<and>
    in_target j = 0x2246 \<and> branch_left ex_indirect t \<and> indirect_of ex_indirect j \<and> \<not> in_ownership j"
proof -
  let ?i = "\<lparr>in_target = 0, in_context = 0, in_interrupt = False, in_exception = False, in_ownership = False,
        in_ownership_fmt = 0, in_ownership_priv = 0, in_ownership_v = 0\<rparr>"
  let ?run = "nexusrv_trace_next_indirect ex_world (ex_indirect, ?i)"
  have val: "fst ?run = Inr ()" "in_target (snd (snd ?run)) = 0x2246" "\<not> in_ownership (snd (snd ?run))" by code_simp+
  obtain r t j where run: "?run = (r, t, j)" by (metis surj_pair)
  have s: "td_synced ex_indirect" "td_msg_present ex_indirect" "addr_bits (td_cfg ex_indirect) \<noteq> 0"
    "indirect_msg (td_msg ex_indirect)" "td_res_hists ex_indirect = []" "pending ex_indirect = 0"
    "outcomes ex_indirect = []" "\<not> nexusrv_msg_is_sync (td_msg ex_indirect)"
    "\<not> nexusrv_msg_is_res (td_msg ex_indirect)" "msg_outcomes ex_indirect = []" by code_simp+
  from next_indirect_follows [OF ex_indirect_ok s(3) run fetch_present [OF s(2)]] s
  have "branch_left ex_indirect t" "indirect_of ex_indirect j" by simp_all
  with val run show ?thesis by auto
qed

end
