(* ===== verification/TraceEvents.thy ===== *)
theory TraceEvents
  imports TraceProps
begin

text \<open>
  \<^verbatim>\<open>nexusrv_trace_try_retire\<close>: the instructions it retires are those the messages report, and the
  event it returns is that of the message behind them.
\<close>

section \<open>Retiring instructions\<close>

text \<open>The event of each kind of message, when no outcomes are pending.\<close>

definition msg_event :: "nexusrv_msg \<Rightarrow> nexusrv_trace_events" where
  "msg_event m =
     (if tcode m = TCODE_DirectBranch then Event_Direct
      else if tcode m = TCODE_DirectBranchSync then Event_DirectSync
      else if tcode m = TCODE_IndirectBranch \<or> tcode m = TCODE_IndirectBranchHist then
        (if branch_type m = 0 then Event_Indirect else Event_Trap)
      else if tcode m = TCODE_IndirectBranchSync \<or> tcode m = TCODE_IndirectBranchHistSync then
        (if branch_type m = 0 then Event_IndirectSync else Event_Trap)
      else if tcode m = TCODE_ProgTraceSync then Event_Sync
      else if tcode m = TCODE_ProgTraceCorrelation then Event_Stop
      else Event_None)"

definition event_of :: "nexusrv_trace_decoder \<Rightarrow> nexusrv_trace_events" where
  "event_of v =
     (if tcode (td_msg v) = TCODE_Error then Event_Error
      else if outcomes v \<noteq> [] then Event_Direct
      else msg_event (td_msg v))"

lemma all_consumed:
  assumes ok: "queue_ok v" and none: "outcomes v = []" and p: "td_msg_present v"
    and h: "nexusrv_msg_has_hist (td_msg v)"
  shows "unat (td_consumed_tnts v) = nexusrv_msg_hist_bits (hist (td_msg v))"
proof (cases "dropWhile is_empty_el (td_res_hists v)")
  case Nil
  have "queue_outcomes (td_res_hists v) = []" using queue_outcomes_skip [of "td_res_hists v"] unfolding Nil by simp
  moreover have "unat (td_consumed_tnts v) \<le> length (msg_outcomes v)"
    using ok Nil by (simp add: queue_ok_iff del: dropWhile_eq_Nil_conv)
  ultimately show ?thesis using none p h by (simp add: outcomes_def msg_outcomes_def)
next
  case (Cons el rest)
  then have el: "\<not> is_empty_el el" "el \<in> set (td_res_hists v)"
    by (metis hd_dropWhile list.distinct(1) list.sel(1), metis Cons set_dropWhileD list.set_intros(1))
  with ok have "el_ok el" by (simp add: queue_ok_iff)
  then have "nexusrv_msg_hist_bits (el_hist el) \<le> length (el_outcomes el)"
    using el_outcomes_nonempty [of el] el(1) by (simp add: is_empty_el_def)
  moreover have "length (queue_outcomes (td_res_hists v)) = length (el_outcomes el) + length (queue_outcomes rest)"
    using queue_outcomes_skip [of "td_res_hists v"] Cons by (metis length_append queue_outcomes_simps(2))
  moreover have "unat (td_consumed_tnts v) < nexusrv_msg_hist_bits (el_hist el)"
    using Cons ok by (simp add: queue_ok_iff)
  ultimately show ?thesis using none by (simp add: outcomes_def)
qed

lemma pending_event_run:
  assumes ok: "queue_ok v" and p: "td_msg_present v"
  shows "pending_event v = (Inr (event_of v), v)"
proof (cases "outcomes v = []")
  case False
  then obtain n where "nexusrv_trace_available_tnts v = (Inr n, v)" "n \<noteq> 0"
    using available_some [OF ok] by blast
  with False show ?thesis
    by (simp add: pending_event_def run_defs event_of_def nexusrv_msg_is_error_def)
next
  case True
  note av = available_none [OF ok True]
  have c: "nexusrv_msg_has_hist (td_msg v) \<longrightarrow> unat (td_consumed_tnts v) = nexusrv_msg_hist_bits (hist (td_msg v))"
    using all_consumed [OF ok True p] by blast
  show ?thesis
    using True av c
    by (simp add: pending_event_def run_defs event_of_def msg_event_def nexusrv_msg_is_error_def
        nexusrv_msg_is_branch_def nexusrv_msg_is_indir_branch_def nexusrv_msg_is_sync_def nexusrv_msg_is_stop_def)
qed

lemma same_but_icnt_sel:
  assumes "same_but_icnt s t"
  shows "td_msg t = td_msg s" "td_msg_present t = td_msg_present s" "td_res_hists t = td_res_hists s"
    "td_res_tnts t = td_res_tnts s" "td_consumed_tnts t = td_consumed_tnts s" "td_msg_decoder t = td_msg_decoder s"
    "td_synced t = td_synced s"
  using arg_cong [OF assms [unfolded same_but_icnt_def], of td_msg]
    arg_cong [OF assms [unfolded same_but_icnt_def], of td_msg_present]
    arg_cong [OF assms [unfolded same_but_icnt_def], of td_res_hists]
    arg_cong [OF assms [unfolded same_but_icnt_def], of td_res_tnts]
    arg_cong [OF assms [unfolded same_but_icnt_def], of td_consumed_tnts]
    arg_cong [OF assms [unfolded same_but_icnt_def], of td_msg_decoder]
    arg_cong [OF assms [unfolded same_but_icnt_def], of td_synced]
  by simp_all

lemma same_but_icnt_queue:
  assumes "same_but_icnt s t"
  shows "outcomes t = outcomes s" "queue_ok t = queue_ok s" "event_of t = event_of s"
proof -
  note sel = same_but_icnt_sel [OF assms]
  have mo: "msg_outcomes t = msg_outcomes s" by (simp add: msg_outcomes_def sel)
  show o: "outcomes t = outcomes s" by (simp add: outcomes_def sel mo)
  show "queue_ok t = queue_ok s" by (simp only: queue_ok_def sel mo)
  show "event_of t = event_of s" by (simp add: event_of_def sel o)
qed

text \<open>What a call does in the state \<open>v\<close> it looks at last, with the request capped.\<close>

definition retire_step :: "u32 \<Rightarrow> nexusrv_trace_decoder \<Rightarrow> u32 \<times> nexusrv_trace_events \<Rightarrow> nexusrv_trace_decoder \<Rightarrow> bool" where
  "retire_step n v res t \<longleftrightarrow>
     (let cap = min (unat n) 2147483647; k = unat (fst res) in
      k = min cap (pending v) \<and> pending t = pending v - k \<and> same_but_icnt v t \<and>
      (if cap < pending v then snd res = Event_None
       else td_msg_present v \<and> (queue_ok v \<longrightarrow> snd res = event_of v)))"

lemma cap_unat: "unat (if n > INT32_MAX then INT32_MAX else n) = min (unat n) 2147483647"
  by (simp add: INT32_MAX_def word_less_nat_alt)

lemma try_retire_run:
  assumes ok: "count_ok S s" and synced: "td_synced s" and run: "nexusrv_trace_try_retire w n s = (r, t)"
  shows "\<exists>ms v. sees w s ms v \<and>
    (case r of Inl e \<Rightarrow> clean e \<or> \<not> queue_ok v | Inr res \<Rightarrow> retire_step n v res t)"
proof -
  define cap where "cap = (if n > INT32_MAX then INT32_MAX else n)"
  have cap: "unat cap = min (unat n) 2147483647" by (simp only: cap_def cap_unat)
  obtain r1 u where loop: "retire_loop w cap True s = (r1, u)" by (metis surj_pair)
  note spec = retire_loop_sees [OF ok loop]
  have here: "sees w s [] s" by (auto simp: sees_def)
  note defs = nexusrv_trace_try_retire_def need_sync_def run_defs Let_def
  show ?thesis
  proof (cases r1)
    case (Inl e)
    with run loop synced have "r = Inl e" by (auto simp: defs simp flip: cap_def)
    with Inl spec here show ?thesis by auto
  next
    case (Inr all)
    with spec obtain ms v where sees: "sees w s ms v" and st: "if all
        then unat cap < pending v \<and> nexusrv_trace_consume_icnt cap v = (Inr (), u)
        else pending v \<le> unat cap \<and> u = v \<and> td_msg_present v" by auto
    have ok_v: "count_ok S v" by (rule sees_count(1) [OF sees ok])
    then have ic: "icnt_ok v" by (simp add: count_ok_def)
    show ?thesis
    proof (cases all)
      case True
      with run loop synced Inr have "r = Inr (cap, Event_None)" "t = u" by (auto simp: defs simp flip: cap_def)
      moreover from st True obtain u' where "nexusrv_trace_consume_icnt cap v = (Inr (), u')"
        "pending u' = pending v - unat cap" "same_but_icnt v u'"
        using consume_icnt_pending [OF ic, of cap] by auto
      ultimately have "r = Inr (cap, Event_None)" "retire_step n v (cap, Event_None) t"
        using st True cap by (simp_all add: retire_step_def Let_def)
      then show ?thesis using sees by auto
    next
      case False
      with st have v: "u = v" "pending v \<le> unat cap" "td_msg_present v" by simp_all
      note av = available_count(1,2) [OF ok_v]
      obtain u' where c: "nexusrv_trace_consume_icnt (of_nat (pending v)) v = (Inr (), u')"
        "pending u' = pending v - pending v" "same_but_icnt v u'"
        using consume_icnt_pending [OF ic, of "of_nat (pending v)"] av(2) by auto
      have p': "td_msg_present u'" using v(3) same_but_icnt_sel [OF c(3)] by simp
      show ?thesis
      proof (cases "queue_ok v")
        case True
        then have "queue_ok u'" using same_but_icnt_queue(2) [OF c(3)] by simp
        from pending_event_run [OF this p'] same_but_icnt_queue(3) [OF c(3)] run loop synced Inr False v(1,3) av(1) c(1)
        have "r = Inr (of_nat (pending v), event_of v)" "t = u'" by (auto simp: defs simp flip: cap_def)
        moreover have "retire_step n v (of_nat (pending v), event_of v) u'"
          using v cap av(2) c by (auto simp: retire_step_def Let_def)
        ultimately show ?thesis using sees by auto
      next
        case bad: False
        have ev: "\<And>r' t'. pending_event u' = (r', t') \<Longrightarrow> t' = u'"
          by (auto simp: pending_event_def run_defs nexusrv_trace_available_tnts_def Let_def split: if_splits)
        obtain r' where "pending_event u' = (r', u')" using ev by (metis surj_pair)
        with run loop synced Inr False v(1,3) av(1) c(1)
        have "r = (case r' of Inl e \<Rightarrow> Inl e | Inr e \<Rightarrow> Inr (of_nat (pending v), e))" "t = u'"
          by (auto simp: defs simp flip: cap_def split: sum.splits)
        moreover have "retire_step n v (of_nat (pending v), e) u'" for e
          using v cap av(2) c bad by (auto simp: retire_step_def Let_def)
        ultimately show ?thesis using sees bad by (cases r') auto
      qed
    qed
  qed
qed

section \<open>Properties\<close>

text \<open>
  C7. Instructions are neither lost nor made up. \<^verbatim>\<open>nexusrv_trace_try_retire\<close> looks at a state
  behind some ResourceFull messages and perhaps the next other message. The pending instructions
  there are those that were pending plus those of the messages in between. The call returns the
  request (at most \<^verbatim>\<open>INT32_MAX\<close>) or, if there are not more, all that are pending, and exactly these
  are gone afterwards; nothing else in the state changes. Only if more instructions are pending no
  event is reported; else the event is that of the next message, where an error comes first
  and pending outcomes count as a direct branch. No assertion fails and nothing overflows. (For the
  event and the assertions, the messages in between have to fit the queue.)
\<close>

theorem try_retire_conserves:
  assumes "trace_ok S s" and "td_synced s" and "nexusrv_trace_try_retire w n s = (r, t)"
  shows "\<exists>ms v. sees w s ms v \<and> pending v = pending s + new_count s ms v \<and>
    (fits s ms v \<longrightarrow> outcomes v = outcomes s @ new_outcomes s ms v \<and> queue_ok v) \<and>
    (case r of Inl e \<Rightarrow> fits s ms v \<longrightarrow> clean e | Inr res \<Rightarrow> retire_step n v res t)"
proof -
  from assms(1) have ok: "count_ok S s" "queue_ok s" by (simp_all add: trace_ok_def)
  from try_retire_run [OF ok(1) assms(2,3)] obtain ms v where sees: "sees w s ms v"
    and res: "case r of Inl e \<Rightarrow> clean e \<or> \<not> queue_ok v | Inr res \<Rightarrow> retire_step n v res t" by blast
  from sees_count(2) [OF sees ok(1)] sees_queue [OF sees ok] sees res show ?thesis
    by (intro exI [of _ ms] exI [of _ v]) (auto split: sum.splits)
qed

lemma try_retire_conserves_witness:
  "\<exists>t. nexusrv_trace_try_retire ex_world 100 ((ex_start (ex_res_icnt_5 @ ex_direct_4))\<lparr>td_synced := True\<rparr>) =
      (Inr (9, Event_Direct), t) \<and>
    (let s = (ex_start (ex_res_icnt_5 @ ex_direct_4))\<lparr>td_synced := True\<rparr> in
     \<exists>ms v. sees ex_world s ms v \<and> pending v = pending s + new_count s ms v \<and>
    (fits s ms v \<longrightarrow> outcomes v = outcomes s @ new_outcomes s ms v \<and> queue_ok v) \<and>
    retire_step 100 v (9, Event_Direct) t)"
proof -
  let ?s = "(ex_start (ex_res_icnt_5 @ ex_direct_4))\<lparr>td_synced := True\<rparr>"
  have "fst (nexusrv_trace_try_retire ex_world 100 ?s) = Inr (9, Event_Direct)" by code_simp
  then obtain t where run: "nexusrv_trace_try_retire ex_world 100 ?s = (Inr (9, Event_Direct), t)"
    by (metis prod.exhaust_sel)
  from run try_retire_conserves [OF ex_start_ok(2) _ run] show ?thesis by auto
qed

end
