(* ===== verification/TraceCalls.thy ===== *)
theory TraceCalls
  imports TraceLeave TraceEvents
begin

text \<open>
  The trace decoder as a state machine: its calls in any order, from the initialised decoder on,
  and the invariant of its instruction counts.
\<close>

section \<open>The invariant\<close>

definition counts_ok :: "u8 list \<Rightarrow> nexusrv_trace_decoder \<Rightarrow> bool" where
  "counts_ok S s \<longleftrightarrow> count_ok S s \<and> (\<not> td_synced s \<longrightarrow> td_res_icnt s = 0 \<and> td_consumed_icnt s = 0)"

text \<open>The errors behind which a decoder may be used on; the others end its use.\<close>

definition recoverable :: "fault \<Rightarrow> bool" where
  "recoverable e \<longleftrightarrow> e \<notin> set [Abort, Undef, Code nexus_no_mem, Code nexus_trace_hist_overflow,
     Code nexus_trace_icnt_overflow]"

lemma recoverable_simps [simp]:
  "\<not> recoverable Abort" "\<not> recoverable Undef" "\<not> recoverable (Code nexus_no_mem)"
  "\<not> recoverable (Code nexus_trace_hist_overflow)" "\<not> recoverable (Code nexus_trace_icnt_overflow)"
  "recoverable (Code nexus_trace_mismatch)" "recoverable (Code nexus_trace_not_synced)"
  by (simp_all add: recoverable_def)

definition left_ok :: "u8 list \<Rightarrow> fault \<Rightarrow> nexusrv_trace_decoder \<Rightarrow> bool" where
  "left_ok S e s \<longleftrightarrow> (recoverable e \<longrightarrow> counts_ok S s)"

text \<open>
  A ResourceFull message that was fetched and not pulled. A call that pulls or needs one message stops
  there; a decoder that is used on behind an error may be in such a state too.
\<close>

definition blocked :: "u8 list \<Rightarrow> nexusrv_trace_decoder \<Rightarrow> bool" where
  "blocked S s \<longleftrightarrow> stream_ok S (td_msg_decoder s) \<and> td_synced s \<and> td_msg_present s \<and> nexusrv_msg_is_res (td_msg s)"

definition state_ok :: "u8 list \<Rightarrow> nexusrv_trace_decoder \<Rightarrow> bool" where
  "state_ok S s \<longleftrightarrow> counts_ok S s \<or> blocked S s"

definition pull_left :: "u8 list \<Rightarrow> fault \<Rightarrow> nexusrv_trace_decoder \<Rightarrow> bool" where
  "pull_left S e s \<longleftrightarrow> (recoverable e \<longrightarrow> state_ok S s)"

lemma left_pull: "left_ok S e s \<Longrightarrow> pull_left S e s"
  by (simp add: left_ok_def pull_left_def state_ok_def)

text \<open>Behind a fetch: the message may be a ResourceFull message.\<close>

definition fetched_ok :: "u8 list \<Rightarrow> nexusrv_trace_decoder \<Rightarrow> bool" where
  "fetched_ok S s \<longleftrightarrow> td_msg_present s \<and> stream_ok S (td_msg_decoder s) \<and>
     (\<not> nexusrv_msg_is_res (td_msg s) \<longrightarrow> counts_ok S s)"

lemma fetched_counts:
  assumes ok: "counts_ok S s" and f: "fetched s t" and st: "stream_ok S (td_msg_decoder t)"
    and m: "td_msg_present t \<longrightarrow> \<not> nexusrv_msg_is_res (td_msg t) \<and> good_msg (td_msg t)"
    and np: "\<not> td_msg_present s"
  shows "counts_ok S t"
  using fetched_icnt(1) [of s t] ok f st m np fetched_sel [OF f] by (auto simp: counts_ok_def count_ok_def)

lemma fetch_counts: "triple (counts_ok S) (nexusrv_trace_fetch_msg w) (\<lambda>_. fetched_ok S) (left_ok S)"
proof
  fix s assume ok: "counts_ok S s"
  obtain r t where run: "nexusrv_trace_fetch_msg w s = (r, t)" by (metis surj_pair)
  have st: "stream_ok S (td_msg_decoder s)" using ok by (simp add: counts_ok_def count_ok_def)
  note spec = fetch_msg_spec [OF st run]
  show "case nexusrv_trace_fetch_msg w s of (Inl e, t) \<Rightarrow> left_ok S e t | (Inr x, t) \<Rightarrow> fetched_ok S t"
  proof (cases r)
    case (Inl e)
    have "counts_ok S t" by (rule fetched_counts [OF ok spec(1,2)]) (use spec(3) [OF Inl] spec(5) in auto)
    with run Inl show ?thesis by (simp add: left_ok_def)
  next
    case (Inr b)
    have "counts_ok S t" if "\<not> nexusrv_msg_is_res (td_msg t)"
    proof (cases "td_msg_present s")
      case True
      with spec(6) ok show ?thesis by simp
    next
      case False
      show ?thesis by (rule fetched_counts [OF ok spec(1,2)]) (use that False spec(5) in auto)
    qed
    with run Inr spec(2) spec(4) [OF Inr] show ?thesis by (simp add: fetched_ok_def)
  qed
qed

lemma nothing_pending_counts:
  "triple (fetched_ok S) nothing_pending (\<lambda>_ s. counts_ok S s \<and> td_msg_present s) (left_ok S)"
proof
  fix s assume ok: "fetched_ok S s"
  show "case nothing_pending s of (Inl e, t) \<Rightarrow> left_ok S e t | (Inr x, t) \<Rightarrow> counts_ok S t \<and> td_msg_present t"
    using ok
    by (auto simp: nothing_pending_def run_defs nexusrv_trace_available_icnt_def nexusrv_trace_available_tnts_def
        Let_def fetched_ok_def left_ok_def split: if_splits)
qed

definition quiet :: "u8 list \<Rightarrow> nexusrv_trace_decoder \<Rightarrow> bool" where
  "quiet S s \<longleftrightarrow> counts_ok S s \<and> td_res_icnt s = 0 \<and> td_consumed_icnt s = 0"

lemma retire_counts:
  "triple (\<lambda>s. counts_ok S s \<and> td_msg_present s) nexusrv_trace_retire_msg (\<lambda>_. quiet S) (left_ok S)"
proof
  fix s assume "counts_ok S s \<and> td_msg_present s"
  then have ok: "counts_ok S s" "td_msg_present s" by simp_all
  show "case nexusrv_trace_retire_msg s of (Inl e, t) \<Rightarrow> left_ok S e t | (Inr x, t) \<Rightarrow> quiet S t"
    using ok
    apply (simp add: nexusrv_trace_retire_msg_def run_defs quiet_def counts_ok_def count_ok_def left_ok_def
        icnt_ok_def retire_branch_def retire_msg_timestamp_def retire_timestamp_stamp Let_def msg_count_def)
    by (auto simp: msg_preds icnt_def)
qed

section \<open>The calls that fetch one message\<close>

lemma need_sync_counts: "triple (counts_ok S) need_sync (\<lambda>_. counts_ok S) (left_ok S)"
  by (simp add: triple_def need_sync_def run_defs left_ok_def)

lemma quiet_counts: "quiet S s \<Longrightarrow> counts_ok S s"
  by (simp add: quiet_def)

lemma quiet_unsync: "quiet S s \<Longrightarrow> quiet S (s\<lparr>td_synced := False\<rparr>)"
  by (simp add: quiet_def counts_ok_def count_ok_def icnt_ok_def msg_count_def)

lemma retire_result:
  assumes "counts_ok S s" "td_msg_present s"
  obtains (fail) e u where "nexusrv_trace_retire_msg s = (Inl e, u)" "left_ok S e u"
  | (ret) u where "nexusrv_trace_retire_msg s = (Inr (), u)" "quiet S u"
proof -
  obtain r u where run: "nexusrv_trace_retire_msg s = (r, u)" by (metis surj_pair)
  show thesis
    using tripleD [OF retire_counts, of S s "()" u] tripleD_error [OF retire_counts, of S s _ u] assms run that
    by (cases r) auto
qed

text \<open>A call made of a fetch, a test that nothing is pending, and a rest.\<close>

lemma fetch_call:
  assumes "triple (\<lambda>s. counts_ok S s \<and> td_msg_present s) k (\<lambda>_. counts_ok S) (left_ok S)"
  shows "triple (counts_ok S) (thenS need_sync (thenS (nexusrv_trace_fetch_msg w) (thenS nothing_pending k)))
    (\<lambda>_. counts_ok S) (left_ok S)"
  by (rule triple_thenS [OF need_sync_counts triple_thenS [OF fetch_counts triple_thenS [OF nothing_pending_counts assms]]])

lemma no_recover_extend: "extend_addr_bits a b = Inl e \<Longrightarrow> \<not> recoverable e"
  by (auto simp: extend_addr_bits_def split: if_splits)

lemma next_sync_counts: "triple (counts_ok S) (nexusrv_trace_next_sync w) (\<lambda>_. counts_ok S) (left_ok S)"
  unfolding nexusrv_trace_next_sync_def
proof (rule fetch_call, rule tripleI, elim conjE)
  fix s assume ok: "counts_ok S s" and p: "td_msg_present s"
  show "case bindS (readS td_msg) (\<lambda>m.
      if \<not> nexusrv_msg_is_sync m \<or> nexusrv_msg_is_branch m then throwS (Code nexus_trace_mismatch)
      else bindS (readS (\<lambda>s. addr_bits (td_cfg s))) (\<lambda>bits.
           bindS (liftS (extend_addr_bits (push_bit 1 (xaddr m)) bits)) (\<lambda>addr.
             thenS nexusrv_trace_retire_msg
              (thenS (checkS (\<lambda>s. \<not> td_msg_present s)) (retS \<lparr>sy_addr = addr, sy_sync = sync_type m\<rparr>))))) s of
      (Inl e, t) \<Rightarrow> left_ok S e t | (Inr x, t) \<Rightarrow> counts_ok S t"
    using ok by (cases rule: retire_result [OF ok p])
      (auto simp: run_defs left_ok_def quiet_counts dest: no_recover_extend split: sum.splits)
qed

lemma next_stop_counts: "triple (counts_ok S) (nexusrv_trace_next_stop w) (\<lambda>_. counts_ok S) (left_ok S)"
  unfolding nexusrv_trace_next_stop_def
proof (rule fetch_call, rule tripleI, elim conjE)
  fix s assume ok: "counts_ok S s" and p: "td_msg_present s"
  show "case bindS (readS td_msg) (\<lambda>m.
      if tcode m \<noteq> TCODE_ProgTraceCorrelation then throwS (Code nexus_trace_mismatch)
      else thenS nexusrv_trace_retire_msg
            (thenS (checkS (\<lambda>s. \<not> td_msg_present s))
              (thenS (modS (\<lambda>s. s\<lparr>td_synced := False\<rparr>)) (retS \<lparr>st_evcode = stop_code m\<rparr>)))) s of
      (Inl e, t) \<Rightarrow> left_ok S e t | (Inr x, t) \<Rightarrow> counts_ok S t"
    using ok by (cases rule: retire_result [OF ok p])
      (auto simp: run_defs left_ok_def intro: quiet_counts quiet_unsync)
qed

text \<open>Behind a mismatch of this call a ResourceFull message may be buffered.\<close>

lemma next_error_counts:
  "triple (counts_ok S) (nexusrv_trace_next_error w) (\<lambda>_. counts_ok S) (pull_left S)"
proof
  fix s assume ok: "counts_ok S s"
  then have st: "stream_ok S (td_msg_decoder s)" by (simp add: counts_ok_def count_ok_def)
  obtain r t where run: "nexusrv_trace_next_error w s = (r, t)" by (metis surj_pair)
  show "case nexusrv_trace_next_error w s of (Inl e, t) \<Rightarrow> pull_left S e t | (Inr x, t) \<Rightarrow> counts_ok S t"
  proof (cases "td_synced s")
    case False
    with ok show ?thesis
      by (simp add: nexusrv_trace_next_error_def need_sync_def run_defs pull_left_def state_ok_def)
  next
    case True
    from next_error_run [OF st True run] obtain f u where f: "nexusrv_trace_fetch_msg w s = (f, u)"
      and res: "case r of
       Inl e \<Rightarrow> clean e \<and> (f = Inl e \<or> tcode (td_msg u) \<noteq> TCODE_Error \<and> e = Code nexus_trace_mismatch)
     | Inr er \<Rightarrow> \<not> td_synced t \<and> idle_state S t" by (force split: sum.splits)
    have sy: "td_synced u" using True fetched_sel(6) [OF fetch_msg_spec(1) [OF st f]] by simp
    show ?thesis
    proof (cases r)
      case (Inl e)
      have t: "t = u" using run True f Inl res
        by (auto simp: nexusrv_trace_next_error_def need_sync_def run_defs split: sum.splits if_splits prod.splits)
      have "pull_left S e u"
      proof (cases f)
        case (Inl e')
        with tripleD_error [OF fetch_counts ok] f \<open>r = Inl e\<close> run True show ?thesis
          by (auto simp: nexusrv_trace_next_error_def need_sync_def run_defs intro: left_pull)
      next
        case (Inr b)
        with tripleD [OF fetch_counts ok] f have "fetched_ok S u" by simp
        with sy show ?thesis by (auto simp: fetched_ok_def pull_left_def state_ok_def blocked_def)
      qed
      with run Inl t show ?thesis by simp
    next
      case (Inr er)
      with res have "idle_state S t" by simp
      then have "td_res_icnt t = 0" "td_consumed_icnt t = 0" "count_ok S t"
        by (auto simp: idle_state_def pending_def msg_count_def trace_ok_def count_ok_def icnt_ok_def unat_eq_0)
      with run Inr show ?thesis by (simp add: counts_ok_def)
    qed
  qed
qed

section \<open>Synchronising\<close>

definition unsynced_ok :: "u8 list \<Rightarrow> nexusrv_trace_decoder \<Rightarrow> bool" where
  "unsynced_ok S s \<longleftrightarrow> counts_ok S s \<and> \<not> td_synced s"

lemma sync_search_counts:
  "unsynced_ok S s \<Longrightarrow> sync_search w s = (r, u) \<Longrightarrow>
   case r of Inl e \<Rightarrow> left_ok S e u | Inr _ \<Rightarrow> td_msg_present u \<and> stream_ok S (td_msg_decoder u)"
proof (induction s rule: sync_search.induct)
  case (1 w s)
  have ok: "counts_ok S s" "\<not> td_synced s" using "1.prems"(1) by (simp_all add: unsynced_ok_def)
  have st: "stream_ok S (td_msg_decoder s)" using ok by (simp add: counts_ok_def count_ok_def)
  obtain r1 t where f: "nexusrv_trace_fetch_msg w s = (r1, t)" by (metis surj_pair)
  note spec = fetch_msg_spec [OF st f]
  show ?case
  proof (cases r1)
    case (Inl e)
    with f "1.prems"(2) have "r = Inl e" "u = t" by (subst (asm) sync_search.simps, simp)+
    with tripleD_error [OF fetch_counts ok(1)] f Inl show ?thesis by simp
  next
    case (Inr b)
    show ?thesis
    proof (cases "nexusrv_msg_is_sync (td_msg t)")
      case True
      with Inr f "1.prems"(2) have "r = Inr ()" "u = t" by (subst (asm) sync_search.simps, simp)+
      with spec(2) spec(4) [OF Inr] show ?thesis by simp
    next
      case False
      let ?t = "t\<lparr>td_msg_present := False\<rparr>"
      from False Inr f "1.prems"(2) have "sync_search w ?t = (r, u)" by (subst (asm) sync_search.simps) simp
      moreover have "unsynced_ok S ?t"
        using ok spec(2) fetched_sel [OF spec(1)]
        by (auto simp: unsynced_ok_def counts_ok_def count_ok_def icnt_ok_def msg_count_def)
      ultimately show ?thesis using "1.IH" [of r1 t b] f Inr False by auto
    qed
  qed
qed

lemma sync_reset_counts: "triple (counts_ok S) (nexusrv_trace_sync_reset w) (\<lambda>_. counts_ok S) (left_ok S)"
proof
  fix s assume ok: "counts_ok S s"
  obtain r1 u where run: "sync_search w s = (r1, u)" by (metis surj_pair)
  show "case nexusrv_trace_sync_reset w s of (Inl e, t) \<Rightarrow> left_ok S e t | (Inr x, t) \<Rightarrow> counts_ok S t"
  proof (cases "td_synced s")
    case True
    with ok show ?thesis by (simp add: nexusrv_trace_sync_reset_def run_defs)
  next
    case False
    with ok have "unsynced_ok S s" by (simp add: unsynced_ok_def)
    note spec = sync_search_counts [OF this run]
    show ?thesis
    proof (cases r1)
      case (Inl e)
      with False run spec show ?thesis by (simp add: nexusrv_trace_sync_reset_def run_defs)
    next
      case (Inr x)
      define v where "v = u\<lparr>td_res_hists := nexusrv_hist_array_clear (td_res_hists u), td_res_tnts := 0,
        td_res_icnt := 0, td_consumed_tnts := 0, td_consumed_icnt := 0, td_synced := True,
        td_msg := (td_msg u)\<lparr>tcode := TCODE_ProgTraceSync, word0 := 0\<rparr>\<rparr>"
      have "counts_ok S v" using spec Inr
        by (simp add: v_def counts_ok_def count_ok_def icnt_ok_def msg_preds icnt_def)
      then have n: "case nexusrv_trace_next_sync w v of (Inl e, t) \<Rightarrow> left_ok S e t | (Inr x, t) \<Rightarrow> counts_ok S t"
        using next_sync_counts [of S w] by (simp add: triple_def)
      obtain r2 t where "nexusrv_trace_next_sync w v = (r2, t)" by (metis surj_pair)
      with n False run Inr show ?thesis unfolding v_def
        by (cases r2) (simp_all add: nexusrv_trace_sync_reset_def run_defs)
    qed
  qed
qed

section \<open>The calls that pull messages\<close>

definition active_ok :: "u8 list \<Rightarrow> nexusrv_trace_decoder \<Rightarrow> bool" where
  "active_ok S s \<longleftrightarrow> count_ok S s \<and> td_synced s"

lemma active_counts: "active_ok S s \<Longrightarrow> counts_ok S s"
  by (simp add: active_ok_def counts_ok_def)

lemma pull_active: "triple (active_ok S) (nexusrv_trace_pull_msg w) (\<lambda>_. active_ok S) (pull_left S)"
proof
  fix s assume ok: "active_ok S s"
  then have c: "count_ok S s" "td_synced s" by (simp_all add: active_ok_def)
  obtain r t where run: "nexusrv_trace_pull_msg w s = (r, t)" by (metis surj_pair)
  from run have "case r of Inl e \<Rightarrow> pull_left S e t | Inr x \<Rightarrow> active_ok S t"
  proof (cases rule: pull_msg_cases)
    case (fetch e)
    with tripleD_error [OF fetch_counts active_counts [OF ok] fetch(1)] show ?thesis by (simp add: left_pull)
  next
    case (front b)
    with run have "nexusrv_trace_pull_msg w s = (Inr False, t)" by simp
    note spec = pull_front [OF c(1) this]
    with c(2) fetched_sel [OF spec(4)] front show ?thesis by (simp add: active_ok_def)
  next
    case (fail b u e)
    have st: "stream_ok S (td_msg_decoder s)" using c(1) by (simp add: count_ok_def)
    note spec = fetch_msg_spec [OF st fail(1)]
    have "blocked S t"
      using fail(2,4) spec(2) spec(4) c(2) fetched_sel(6) [OF spec(1)] by (auto simp: blocked_def)
    with fail(3) show ?thesis by (simp add: pull_left_def state_ok_def)
  next
    case (pull b u)
    with run have "nexusrv_trace_pull_msg w s = (Inr True, t)" by simp
    note spec = pull_count [OF c(1) this]
    with c(2) pull show ?thesis by (simp add: active_ok_def)
  qed
  with run show "case nexusrv_trace_pull_msg w s of (Inl e, t) \<Rightarrow> pull_left S e t | (Inr x, t) \<Rightarrow> active_ok S t"
    by (cases r) auto
qed

lemma available_active: "active_ok S s \<Longrightarrow> nexusrv_trace_available_icnt s = (Inr (of_nat (pending s)), s)"
  using available_pending(1) by (simp add: active_ok_def count_ok_def)

lemma consume_active:
  assumes "active_ok S s" and "unat n \<le> pending s"
  shows "\<exists>t. nexusrv_trace_consume_icnt n s = (Inr (), t) \<and> active_ok S t \<and> td_msg_present t = td_msg_present s"
proof -
  from assms(1) have ic: "icnt_ok s" and rest: "stream_ok S (td_msg_decoder s)" "td_synced s"
    by (simp_all add: active_ok_def count_ok_def)
  from consume_icnt_pending [OF ic assms(2)] obtain t where
    "nexusrv_trace_consume_icnt n s = (Inr (), t)" "icnt_ok t" "same_but_icnt s t" by blast
  with rest show ?thesis by (auto simp: active_ok_def count_ok_def same_but_icnt_sel)
qed

lemma retire_loop_active:
  "active_ok S s \<Longrightarrow> retire_loop w n rc s = (r, t) \<Longrightarrow>
   case r of Inl e \<Rightarrow> pull_left S e t | Inr _ \<Rightarrow> active_ok S t"
proof (induction w n rc s rule: retire_loop.induct)
  case (1 w n rc s)
  note ok = "1.prems"(1)
  note av = available_active [OF ok]
  have un: "unat (of_nat (pending s) :: u32) = pending s"
    using ok available_pending(2) by (simp add: active_ok_def count_ok_def)
  note run = "1.prems"(2) [unfolded retire_loop.simps [of w n rc s] av]
  show ?case
  proof (cases "n < (of_nat (pending s) :: u32)")
    case True
    then have "unat n \<le> pending s" using un by (simp add: word_less_nat_alt)
    from consume_active [OF ok this] obtain u where "nexusrv_trace_consume_icnt n s = (Inr (), u)" "active_ok S u"
      by blast
    with run True show ?thesis by auto
  next
    case False
    show ?thesis
    proof (cases rc)
      case no: False
      with False run ok show ?thesis by auto
    next
      case True
      obtain r1 u where p: "nexusrv_trace_pull_msg w s = (r1, u)" by (metis surj_pair)
      show ?thesis
      proof (cases r1)
        case (Inl e)
        with run False True p tripleD_error [OF pull_active ok] show ?thesis by auto
      next
        case (Inr rc')
        from p Inr have "active_ok S u" using tripleD [OF pull_active ok] by simp
        moreover from run False True p Inr have "retire_loop w n rc' u = (r, t)" by simp
        ultimately show ?thesis using "1.IH" False True p Inr av by auto
      qed
    qed
  qed
qed

lemma pending_event_same: "pending_event s = (r, t) \<Longrightarrow> t = s \<and> (\<forall>e. r = Inl e \<longrightarrow> e = Abort)"
  by (auto simp: pending_event_def run_defs nexusrv_trace_available_tnts_def Let_def split: if_splits)

lemma try_retire_active: "triple (active_ok S) (nexusrv_trace_try_retire w n) (\<lambda>_. active_ok S) (pull_left S)"
proof
  fix s assume ok: "active_ok S s"
  define cap where "cap = (if n > INT32_MAX then INT32_MAX else n)"
  obtain r1 u where loop: "retire_loop w cap True s = (r1, u)" by (metis surj_pair)
  note spec = retire_loop_active [OF ok loop]
  have sy: "td_synced s" using ok by (simp add: active_ok_def)
  note defs = nexusrv_trace_try_retire_def need_sync_def run_defs Let_def
  show "case nexusrv_trace_try_retire w n s of (Inl e, t) \<Rightarrow> pull_left S e t | (Inr x, t) \<Rightarrow> active_ok S t"
  proof (cases r1)
    case (Inl e)
    with spec loop sy show ?thesis by (simp add: defs flip: cap_def)
  next
    case (Inr all)
    show ?thesis
    proof (cases "all \<or> \<not> td_msg_present u")
      case True
      with Inr spec loop sy show ?thesis by (auto simp: defs pull_left_def simp flip: cap_def)
    next
      case False
      from Inr spec have a: "active_ok S u" by simp
      then have un: "unat (of_nat (pending u) :: u32) = pending u"
        using available_pending(2) by (simp add: active_ok_def count_ok_def)
      from consume_active [OF a, of "of_nat (pending u)"] un obtain v where
        v: "nexusrv_trace_consume_icnt (of_nat (pending u)) u = (Inr (), v)" "active_ok S v" by auto
      obtain r2 where e: "pending_event v = (r2, v)" "\<And>e. r2 = Inl e \<Longrightarrow> e = Abort"
        using pending_event_same [of v] by (metis surj_pair)
      from e(2) False Inr loop sy available_active [OF a] v e(1) show ?thesis
        by (cases r2) (auto simp: defs pull_left_def simp flip: cap_def)
    qed
  qed
qed

text \<open>Consuming an outcome leaves the instructions alone; its errors are failed assertions.\<close>

definition same_but_tnts :: "nexusrv_trace_decoder \<Rightarrow> nexusrv_trace_decoder \<Rightarrow> bool" where
  "same_but_tnts s t \<longleftrightarrow> td_msg_decoder t = td_msg_decoder s \<and> td_res_icnt t = td_res_icnt s \<and>
     td_consumed_icnt t = td_consumed_icnt s \<and> td_synced t = td_synced s \<and>
     td_msg_present t = td_msg_present s \<and> td_msg t = td_msg s"

lemma same_but_tnts_active: "same_but_tnts s t \<Longrightarrow> active_ok S s \<Longrightarrow> active_ok S t"
  by (auto simp: same_but_tnts_def active_ok_def count_ok_def icnt_ok_def msg_count_def)

lemma retire_front_same: "same_but_tnts s (retire_front_timestamp s)"
  by (simp add: same_but_tnts_def retire_front_timestamp_def nexusrv_trace_retire_timestamp_def split: list.splits)

lemma drain_empty_same: "drain_empty s = (r, t) \<Longrightarrow> same_but_tnts s t \<and> (\<forall>e. r = Inl e \<longrightarrow> e = Abort)"
proof (induction s rule: drain_empty.induct)
  case (1 s)
  show ?case
  proof (cases "td_res_hists s")
    case Nil
    with "1.prems" show ?thesis by (auto simp: drain_empty.simps [of s] same_but_tnts_def)
  next
    case (Cons el rest)
    let ?u = "(retire_front_timestamp s)\<lparr>td_res_hists := rest\<rparr>"
    show ?thesis
    proof (cases "el_hist el \<noteq> 0 \<or> el_repeat el \<noteq> 1")
      case True
      with "1.prems" Cons show ?thesis by (auto simp: drain_empty.simps [of s] same_but_tnts_def split: if_splits)
    next
      case False
      with "1.prems" Cons have "drain_empty ?u = (r, t)" by (simp add: drain_empty.simps [of s])
      from "1.IH" [OF Cons _ _ this] False have "same_but_tnts ?u t" "\<forall>e. r = Inl e \<longrightarrow> e = Abort" by auto
      with retire_front_same [of s] show ?thesis by (auto simp: same_but_tnts_def)
    qed
  qed
qed

lemma keeps_consume_tnt: "keeps (same_but_tnts s0) (Not \<circ> recoverable) nexusrv_trace_consume_tnt"
proof -
  have keeps_check [inv_intros]: "keeps I (Not \<circ> recoverable) (checkS p)" for I p
    by (simp add: keeps_def checkS_def)
  have keeps_assert [inv_intros]: "keeps I (Not \<circ> recoverable) (assertS b)" for I :: "nexusrv_trace_decoder \<Rightarrow> bool" and b
    by (simp add: keeps_def assertS_def run_defs)
  have keeps_available [inv_intros]: "keeps I (Not \<circ> recoverable) nexusrv_trace_available_tnts" for I
    by (simp add: keeps_def nexusrv_trace_available_tnts_def Let_def)
  have keeps_drain [inv_intros]: "keeps (same_but_tnts s0) (Not \<circ> recoverable) drain_empty"
  proof
    fix s assume "same_but_tnts s0 s"
    moreover obtain r t where "drain_empty s = (r, t)" by (metis surj_pair)
    ultimately show "same_but_tnts s0 (snd (drain_empty s)) \<and> (\<forall>e. fst (drain_empty s) = Inl e \<longrightarrow> (Not \<circ> recoverable) e)"
      using drain_empty_same by (fastforce simp: same_but_tnts_def)
  qed
  have keeps_pop [inv_intros]: "keeps (same_but_tnts s0) (Not \<circ> recoverable) pop_front"
    by (auto simp: keeps_def pop_front_def nexusrv_hist_array_pop_def same_but_tnts_def split: sum.splits list.splits)
  have front: "same_but_tnts s0 s \<Longrightarrow> same_but_tnts s0 (retire_front_timestamp (s\<lparr>td_consumed_tnts := 0\<rparr>))" for s
    using retire_front_same [of "s\<lparr>td_consumed_tnts := 0\<rparr>"] by (simp add: same_but_tnts_def)
  show ?thesis
    unfolding nexusrv_trace_consume_tnt_def Let_def
    by (intro inv_intros front) (simp_all add: same_but_tnts_def)
qed

lemma consume_tnt_same:
  assumes "nexusrv_trace_consume_tnt s = (r, t)"
  shows "same_but_tnts s t" and "r = Inl e \<Longrightarrow> \<not> recoverable e"
proof -
  have "same_but_tnts s s" by (simp add: same_but_tnts_def)
  from keepsD_state [OF keeps_consume_tnt this assms] show "same_but_tnts s t" .
  show "r = Inl e \<Longrightarrow> \<not> recoverable e"
    using keepsD_error [OF keeps_consume_tnt \<open>same_but_tnts s s\<close>] assms by auto
qed

lemma available_tnts_stuck: "nexusrv_trace_available_tnts s = (r, t) \<Longrightarrow> t = s \<and> (\<forall>e. r = Inl e \<longrightarrow> e = Abort)"
  by (auto simp: nexusrv_trace_available_tnts_def Let_def split: if_splits)

lemma tnt_loop_active:
  "active_ok S s \<Longrightarrow> tnt_loop w rc s = (r, t) \<Longrightarrow>
   case r of Inl e \<Rightarrow> pull_left S e t | Inr _ \<Rightarrow> active_ok S t"
proof (induction w rc s rule: tnt_loop.induct)
  case (1 w rc s)
  note ok = "1.prems"(1)
  obtain a where av: "nexusrv_trace_available_tnts s = (a, s)" "\<And>e. a = Inl e \<Longrightarrow> e = Abort"
    using available_tnts_stuck by (metis surj_pair)
  note run = "1.prems"(2) [unfolded tnt_loop.simps [of w rc s] av(1)]
  show ?case
  proof (cases a)
    case (Inl e)
    with run av(2) show ?thesis by (auto simp: pull_left_def)
  next
    case (Inr n)
    obtain r1 u where c: "nexusrv_trace_consume_tnt s = (r1, u)" by (metis surj_pair)
    obtain r2 v where p: "nexusrv_trace_pull_msg w s = (r2, v)" by (metis surj_pair)
    consider "n \<noteq> 0" | "n = 0" "\<not> rc" | (more) "n = 0" rc by blast
    then show ?thesis
    proof cases
      case 1
      with run Inr c same_but_tnts_active [OF consume_tnt_same(1) [OF c] ok] consume_tnt_same(2) [OF c]
      show ?thesis by (cases r1) (auto simp: pull_left_def)
    next
      case 2
      with run Inr ok show ?thesis by auto
    next
      case more
      show ?thesis
      proof (cases r2)
        case (Inl e)
        with run more \<open>a = Inr n\<close> p tripleD_error [OF pull_active ok] show ?thesis by auto
      next
        case (Inr rc')
        from p Inr have "active_ok S v" using tripleD [OF pull_active ok] by simp
        moreover from run more \<open>a = Inr n\<close> p Inr have "tnt_loop w rc' v = (r, t)" by simp
        ultimately show ?thesis using "1.IH" more \<open>a = Inr n\<close> p Inr av(1) by auto
      qed
    qed
  qed
qed

lemma quiet_active: "quiet S s \<Longrightarrow> td_synced s \<Longrightarrow> active_ok S s"
  by (simp add: quiet_def active_ok_def counts_ok_def)

lemma next_tnt_counts: "triple (active_ok S) (nexusrv_trace_next_tnt w) (\<lambda>_. counts_ok S) (pull_left S)"
proof
  fix s assume ok: "active_ok S s"
  then have sy: "td_synced s" by (simp add: active_ok_def)
  obtain r1 u where loop: "tnt_loop w True s = (r1, u)" by (metis surj_pair)
  note spec = tnt_loop_active [OF ok loop]
  note defs = nexusrv_trace_next_tnt_def need_sync_def run_defs pull_left_def
  show "case nexusrv_trace_next_tnt w s of (Inl e, t) \<Rightarrow> pull_left S e t | (Inr x, t) \<Rightarrow> counts_ok S t"
  proof (cases r1)
    case (Inl e)
    with spec loop sy show ?thesis by (simp add: defs)
  next
    case (Inr o')
    with spec have a: "active_ok S u" by simp
    show ?thesis
    proof (cases o')
      case (Some b)
      with a loop sy Inr show ?thesis by (simp add: defs active_counts)
    next
      case None
      show ?thesis
      proof (cases "td_msg_present u")
        case False
        with None loop sy Inr show ?thesis by (simp add: defs)
      next
        case True
        from a active_counts [OF a] None loop sy Inr True available_active [OF a] show ?thesis
          by (cases rule: retire_result [OF active_counts [OF a] True]) (auto simp: defs quiet_counts state_ok_def left_ok_def)
      qed
    qed
  qed
qed

text \<open>A synchronised decoder is needed by these calls; others are refused.\<close>

lemma synced_call:
  assumes "triple (active_ok S) (thenS need_sync k) (\<lambda>_. counts_ok S) (pull_left S)"
  shows "triple (counts_ok S) (thenS need_sync k) (\<lambda>_. counts_ok S) (pull_left S)"
proof
  fix s assume ok: "counts_ok S s"
  show "case thenS need_sync k s of (Inl e, t) \<Rightarrow> pull_left S e t | (Inr x, t) \<Rightarrow> counts_ok S t"
  proof (cases "td_synced s")
    case True
    with ok have "active_ok S s" by (simp add: active_ok_def counts_ok_def)
    with assms show ?thesis by (simp add: triple_def)
  next
    case False
    with ok show ?thesis by (simp add: need_sync_def run_defs pull_left_def state_ok_def)
  qed
qed

lemma quiet_decoder: "quiet S s \<Longrightarrow> stream_ok S d \<Longrightarrow> quiet S (s\<lparr>td_msg_decoder := d\<rparr>)"
  by (simp add: quiet_def counts_ok_def count_ok_def icnt_ok_def msg_count_def)

lemma quiet_stream: "quiet S s \<Longrightarrow> stream_ok S (td_msg_decoder s)"
  by (simp add: quiet_def counts_ok_def count_ok_def)

lemma next_local_quiet: "triple (quiet S) (td_next_local m2) (\<lambda>_. quiet S) (left_ok S)"
proof
  fix s assume q: "quiet S s"
  obtain r d m where nx: "nexusrv_msg_decoder_next (td_msg_decoder s) m2 = (r, d, m)" by (metis surj_pair)
  then have "stream_ok S d" using file_stream.nxt_ok quiet_stream [OF q] by metis
  from quiet_decoder [OF q this] nx
  show "case td_next_local m2 s of (Inl e, t) \<Rightarrow> left_ok S e t | (Inr x, t) \<Rightarrow> quiet S t"
    by (cases r) (simp_all add: td_next_local_def left_ok_def quiet_counts)
qed

lemma rewind_quiet: "triple (quiet S) td_rewind (\<lambda>_. quiet S) (left_ok S)"
proof
  fix s assume q: "quiet S s"
  obtain d where "nexusrv_msg_decoder_rewind_last (td_msg_decoder s) = Inr d" "stream_ok S d"
    using file_stream.rewind_ok [OF quiet_stream [OF q]] by blast
  with quiet_decoder [OF q]
  show "case td_rewind s of (Inl e, t) \<Rightarrow> left_ok S e t | (Inr x, t) \<Rightarrow> quiet S t"
    by (simp add: td_rewind_def)
qed

lemma step_counts:
  "counts_ok S s \<Longrightarrow> counts_ok S (step_indirect s)"
  "td_msg_present (step_indirect s) = td_msg_present s"
  by (auto simp: step_indirect_def counts_ok_def count_ok_def icnt_ok_def msg_count_def msg_preds icnt_def)

lemma next_indirect_counts:
  "triple (counts_ok S) (next_indirect w i) (\<lambda>_. counts_ok S) (left_ok S)"
proof -
  let ?looked = "\<lambda>m indir0 target. let indir = indir0\<lparr>in_target := target,
             in_interrupt := (branch_type m = 1 \<or> branch_type m = 3),
             in_exception := (branch_type m = 1 \<or> branch_type m = 2), in_ownership := False\<rparr> in
       thenS nexusrv_trace_retire_msg
      (bindS (td_next_local (w_msg2 w)) (\<lambda>(n2, m2).
       if tcode m2 \<noteq> TCODE_Ownership then thenS td_rewind (retS indir)
       else retS (indir\<lparr>in_ownership := True, in_ownership_fmt := ownership_fmt m2,
                    in_ownership_priv := ownership_priv m2, in_ownership_v := ownership_v m2,
                    in_context := context_field m2\<rparr>)))"
  have tail: "triple (\<lambda>s. counts_ok S s \<and> td_msg_present s) (?looked m i0 a) (\<lambda>_. counts_ok S) (left_ok S)" for m i0 a
    unfolding Let_def
    by (rule triple_thenS [OF retire_counts], rule triple_bindS [OF next_local_quiet], clarify,
        intro triple_if triple_thenS [OF rewind_quiet] triple_retS quiet_counts)
  show ?thesis
    unfolding next_indirect_eq
  proof (rule fetch_call, rule triple_read, rule triple_if, goal_cases)
    case (1 m)
    show ?case by (rule triple_throwS) (simp add: left_ok_def)
  next
    case (2 m)
    show ?case
    proof (rule triple_thenS [where R = "\<lambda>s. counts_ok S s \<and> td_msg_present s"], goal_cases)
      case 1
      show ?case
        by (rule triple_modS, elim conjE, hypsubst) (simp add: step_counts flip: step_indirect_def)
    next
      case 2
      show ?case
      proof (rule triple_read, clarify)
        fix addr bits
        show "triple (\<lambda>s. (counts_ok S s \<and> td_msg_present s) \<and> (td_full_addr s, addr_bits (td_cfg s)) = (addr, bits))
          (bindS (liftS (extend_addr_bits (push_bit 1 addr) bits)) (?looked m i)) (\<lambda>_. counts_ok S) (left_ok S)"
        proof (cases "extend_addr_bits (push_bit 1 addr) bits")
          case (Inl e)
          then show ?thesis by (auto simp: triple_def run_defs left_ok_def dest: no_recover_extend)
        next
          case (Inr a)
          have "bindS (liftS (Inr a)) (?looked m i) = ?looked m i a" by (rule ext) (simp add: run_defs)
          moreover have "triple (\<lambda>s. counts_ok S s \<and> td_msg_present s) (?looked m i a) (\<lambda>_. counts_ok S) (left_ok S)"
            by (rule tail)
          ultimately show ?thesis unfolding Inr by (simp only:) (auto elim: triple_conseq)
        qed
      qed
    qed
  qed
qed

section \<open>The machine\<close>

datatype trace_call =
    Sync_reset
  | Try_retire u32
  | Next_tnt
  | Next_indirect nexusrv_trace_indirect
  | Next_sync
  | Next_error
  | Next_stop
  | Push_call bool u64
  | Pop_ret
  | Add_timestamp u64
  | Msg_next nexusrv_msg

text \<open>
  A call without its result. The last one is the user's own call of \<^verbatim>\<open>nexusrv_msg_decoder_next\<close>, by
  which messages that the trace decoder does not support are handled.
\<close>

fun run_call :: "world \<Rightarrow> trace_call \<Rightarrow> unit td" where
  "run_call w Sync_reset = bindS (nexusrv_trace_sync_reset w) (\<lambda>_. retS ())"
| "run_call w (Try_retire n) = bindS (nexusrv_trace_try_retire w n) (\<lambda>_. retS ())"
| "run_call w Next_tnt = bindS (nexusrv_trace_next_tnt w) (\<lambda>_. retS ())"
| "run_call w (Next_indirect i) = bindS (next_indirect w i) (\<lambda>_. retS ())"
| "run_call w Next_sync = bindS (nexusrv_trace_next_sync w) (\<lambda>_. retS ())"
| "run_call w Next_error = bindS (nexusrv_trace_next_error w) (\<lambda>_. retS ())"
| "run_call w Next_stop = bindS (nexusrv_trace_next_stop w) (\<lambda>_. retS ())"
| "run_call w (Push_call alloc a) = nexusrv_trace_push_call alloc a"
| "run_call w Pop_ret = bindS nexusrv_trace_pop_ret (\<lambda>_. retS ())"
| "run_call w (Add_timestamp ts) = modS (nexusrv_trace_add_timestamp ts)"
| "run_call w (Msg_next m) = bindS (td_next_local m) (\<lambda>_. retS ())"

text \<open>The decoder is used on behind every error that is recoverable.\<close>

inductive trace_step :: "nexusrv_trace_decoder \<Rightarrow> nexusrv_trace_decoder \<Rightarrow> bool" where
  step_ok: "run_call w c s = (Inr (), t) \<Longrightarrow> trace_step s t"
| step_failed: "run_call w c s = (Inl e, t) \<Longrightarrow> recoverable e \<Longrightarrow> trace_step s t"

inductive reachable :: "nexusrv_trace_decoder \<Rightarrow> nexusrv_trace_decoder \<Rightarrow> bool" for s where
  reach_start: "reachable s s"
| reach_step: "reachable s t \<Longrightarrow> trace_step t u \<Longrightarrow> reachable s u"

lemma discard: "triple P m (\<lambda>_. Q) E \<Longrightarrow> triple P (bindS m (\<lambda>_. retS ())) (\<lambda>_. Q) E"
  by (erule triple_bindS) (rule triple_retS)

lemma keeps_stack:
  "triple (counts_ok S) (nexusrv_trace_push_call alloc a) (\<lambda>_. counts_ok S) (left_ok S)"
  "triple (counts_ok S) nexusrv_trace_pop_ret (\<lambda>_. counts_ok S) (left_ok S)"
  "triple (counts_ok S) (modS (nexusrv_trace_add_timestamp ts)) (\<lambda>_. counts_ok S) (left_ok S)"
  by (auto simp: triple_def nexusrv_trace_push_call_def nexusrv_trace_pop_ret_def nexusrv_trace_add_timestamp_def
      nexusrv_trace_retire_timestamp_def run_defs counts_ok_def count_ok_def icnt_ok_def msg_count_def left_ok_def
      split: prod.splits sum.splits)

lemma try_retire_counts: "triple (counts_ok S) (nexusrv_trace_try_retire w n) (\<lambda>_. counts_ok S) (pull_left S)"
proof -
  have "triple (active_ok S) (nexusrv_trace_try_retire w n) (\<lambda>_. counts_ok S) (pull_left S)"
    by (rule triple_conseq [OF try_retire_active]) (simp_all add: active_counts)
  then show ?thesis unfolding nexusrv_trace_try_retire_def by (rule synced_call)
qed

lemma next_tnt_counts': "triple (counts_ok S) (nexusrv_trace_next_tnt w) (\<lambda>_. counts_ok S) (pull_left S)"
  unfolding nexusrv_trace_next_tnt_def
  by (rule synced_call) (rule next_tnt_counts [unfolded nexusrv_trace_next_tnt_def])

lemma msg_next_counts: "triple (counts_ok S) (td_next_local m) (\<lambda>_. counts_ok S) (left_ok S)"
proof
  fix s assume ok: "counts_ok S s"
  then have st: "stream_ok S (td_msg_decoder s)" by (simp add: counts_ok_def count_ok_def)
  obtain r d m' where nx: "nexusrv_msg_decoder_next (td_msg_decoder s) m = (r, d, m')" by (metis surj_pair)
  have "stream_ok S d" using file_stream.nxt_ok [OF st nx] by simp
  with ok have "counts_ok S (s\<lparr>td_msg_decoder := d\<rparr>)"
    by (auto simp: counts_ok_def count_ok_def icnt_ok_def msg_count_def split: if_splits)
  with nx show "case td_next_local m s of (Inl e, t) \<Rightarrow> left_ok S e t | (Inr x, t) \<Rightarrow> counts_ok S t"
    by (cases r) (simp_all add: td_next_local_def left_ok_def)
qed

lemma left_goes: "triple P m Q (left_ok S) \<Longrightarrow> triple P m Q (pull_left S)"
  by (erule triple_conseq) (simp_all add: left_pull)

lemma call_counts:
  "triple (counts_ok S) (run_call w c) (\<lambda>_. counts_ok S) (pull_left S)"
  by (cases c) (simp_all add: left_goes discard try_retire_counts next_tnt_counts' next_error_counts sync_reset_counts
      next_indirect_counts next_sync_counts next_stop_counts keeps_stack msg_next_counts)

text \<open>In front of a ResourceFull message a call fails an assertion or leaves it there.\<close>

lemma blocked_call:
  assumes "blocked S s" and "run_call w c s = (r, t)"
  shows "r = Inl Abort \<or> blocked S t"
proof -
  from assms(1) have b: "stream_ok S (td_msg_decoder s)" "td_synced s" "td_msg_present s" "nexusrv_msg_is_res (td_msg s)"
    by (simp_all add: blocked_def)
  have av: "nexusrv_trace_available_icnt s = (Inl Abort, s)" "nexusrv_trace_available_tnts s = (Inl Abort, s)"
    using b by (simp_all add: nexusrv_trace_available_icnt_def nexusrv_trace_available_tnts_def Let_def)
  have loops: "retire_loop w n True s = (Inl Abort, s)" "tnt_loop w True s = (Inl Abort, s)" for n
    using av by (simp_all add: retire_loop.simps [of w n True s] tnt_loop.simps [of w True s])
  have code: "tcode (td_msg s) \<noteq> TCODE_Error" using b(4) by (simp add: msg_preds)
  note defs = need_sync_def nothing_pending_def run_defs b(2) av fetch_present [OF b(3)] loops
  show ?thesis
  proof (cases c)
    case Sync_reset
    with assms b(2) show ?thesis by (auto simp: nexusrv_trace_sync_reset_def run_defs)
  next
    case (Try_retire n)
    with assms show ?thesis by (auto simp: nexusrv_trace_try_retire_def defs Let_def)
  next
    case Next_tnt
    with assms show ?thesis by (auto simp: nexusrv_trace_next_tnt_def defs)
  next
    case (Next_indirect i)
    with assms show ?thesis by (auto simp: next_indirect_eq defs)
  next
    case Next_sync
    with assms show ?thesis by (auto simp: nexusrv_trace_next_sync_def defs)
  next
    case Next_error
    with assms code show ?thesis by (auto simp: nexusrv_trace_next_error_def defs)
  next
    case Next_stop
    with assms show ?thesis by (auto simp: nexusrv_trace_next_stop_def defs)
  next
    case (Push_call alloc a)
    with assms show ?thesis by (auto simp: nexusrv_trace_push_call_def blocked_def split: prod.splits)
  next
    case Pop_ret
    with assms show ?thesis by (auto simp: nexusrv_trace_pop_ret_def run_defs blocked_def split: prod.splits sum.splits)
  next
    case (Add_timestamp ts)
    with assms show ?thesis
      by (auto simp: nexusrv_trace_add_timestamp_def nexusrv_trace_retire_timestamp_def run_defs blocked_def)
  next
    case (Msg_next m)
    obtain r2 d m' where nx: "nexusrv_msg_decoder_next (td_msg_decoder s) m = (r2, d, m')" by (metis surj_pair)
    with file_stream.nxt_ok [OF b(1) nx] Msg_next assms show ?thesis
      by (cases r2) (auto simp: td_next_local_def run_defs blocked_def)
  qed
qed

lemma step_state:
  assumes "state_ok S s" and "run_call w c s = (r, t)" and "\<And>e. r = Inl e \<Longrightarrow> recoverable e"
  shows "state_ok S t"
proof (cases "counts_ok S s")
  case True
  show ?thesis
  proof (cases r)
    case (Inl e)
    with tripleD_error [OF call_counts True] assms(2,3) show ?thesis by (auto simp: pull_left_def)
  next
    case (Inr x)
    with tripleD [OF call_counts True] assms(2) show ?thesis by (auto simp: state_ok_def)
  qed
next
  case False
  with assms(1) have "blocked S s" by (simp add: state_ok_def)
  from blocked_call [OF this assms(2)] assms(3) show ?thesis by (auto simp: state_ok_def)
qed

lemma reachable_state: "reachable s t \<Longrightarrow> state_ok S s \<Longrightarrow> state_ok S t"
proof (induction rule: reachable.induct)
  case (reach_step t u)
  from reach_step.hyps(2) reach_step.IH [OF reach_step.prems] show ?case
    by cases (auto elim: step_state)
qed

lemma init_counts:
  assumes "stream_ok S md" and "nexusrv_trace_decoder_init a1 a2 md = (Inr (), s)"
  shows "counts_ok S s"
  using assms
  by (auto simp: nexusrv_trace_decoder_init_def td_zero_def counts_ok_def count_ok_def icnt_ok_def msg_count_def
      Let_def split: option.splits prod.splits)

section \<open>Property\<close>

text \<open>
  C12. The count of instructions never wraps. A user makes calls of an initialised decoder over a
  regular file, in any order, takes messages off the stream in between, and goes on behind any
  error but a failed assertion and the three hard errors of the trace decoder: no memory, and too many
  resources or instructions. Then the 32-bit sums of \<^verbatim>\<open>nexusrv_trace_available_icnt\<close> and its difference
  are exact, its assertions hold, and as many instructions as it returns can be consumed. The one
  exception is a decoder in which a ResourceFull message is buffered (behind an error of a call that
  cannot pull it): there an assertion of this function fails.
\<close>

theorem counts_never_wrap:
  assumes "regular fd" and "length buf = bufsz" and "0 < bufsz" and "6 * bufsz < 4294967296"
    and "nexusrv_trace_decoder_init a1 a2 (nexusrv_msg_decoder_init cfg fd flt buf bufsz) = (Inr (), s0)"
    and "reachable s0 s"
  shows "if td_msg_present s \<and> nexusrv_msg_is_res (td_msg s)
    then nexusrv_trace_available_icnt s = (Inl Abort, s)
    else \<exists>n. nexusrv_trace_available_icnt s = (Inr n, s) \<and>
      unat n + unat (td_consumed_icnt s) = unat (td_res_icnt s) +
        (if td_msg_present s \<and> nexusrv_msg_has_icnt (td_msg s) then unat (icnt (td_msg s)) else 0) \<and>
      (\<forall>k. k \<le> n \<longrightarrow> fst (nexusrv_trace_consume_icnt k s) = Inr ())"
proof (cases "td_msg_present s \<and> nexusrv_msg_is_res (td_msg s)")
  case True
  then show ?thesis by (simp add: nexusrv_trace_available_icnt_def Let_def)
next
  case False
  have "state_ok (fd_bytes fd) s"
    by (rule reachable_state [OF assms(6)]) (simp add: state_ok_def init_counts [OF init_stream_ok [OF assms(1-4)] assms(5)])
  with False have "counts_ok (fd_bytes fd) s" by (auto simp: state_ok_def blocked_def)
  then have ic: "icnt_ok s" by (simp add: counts_ok_def count_ok_def)
  note av = available_pending [OF ic]
  have "fst (nexusrv_trace_consume_icnt k s) = Inr ()" if "k \<le> of_nat (pending s)" for k
    using consume_icnt_pending [OF ic, of k] that av(2) by (auto simp: word_le_nat_alt)
  then have "\<exists>n. nexusrv_trace_available_icnt s = (Inr n, s) \<and>
      unat n + unat (td_consumed_icnt s) = unat (td_res_icnt s) +
        (if td_msg_present s \<and> nexusrv_msg_has_icnt (td_msg s) then unat (icnt (td_msg s)) else 0) \<and>
      (\<forall>k. k \<le> n \<longrightarrow> fst (nexusrv_trace_consume_icnt k s) = Inr ())"
    using av ic by (intro exI [of _ "of_nat (pending s)"]) (simp add: pending_def msg_count_def icnt_ok_def)
  with False show ?thesis by (simp only: if_False)
qed

text \<open>Synchronising and retiring one instruction of nine.\<close>

lemma counts_never_wrap_witness:
  "\<exists>t n. reachable (ex_start (ex_sync @ ex_res_icnt_5 @ ex_direct_4)) t \<and> td_synced t \<and>
     \<not> (td_msg_present t \<and> nexusrv_msg_is_res (td_msg t)) \<and> nexusrv_trace_available_icnt t = (Inr n, t)"
proof -
  let ?bytes = "ex_sync @ ex_res_icnt_5 @ ex_direct_4"
  let ?s = "ex_start ?bytes"
  let ?calls = "bindS (run_call ex_world Sync_reset) (\<lambda>_. run_call ex_world (Try_retire 1))"
  have reg: "regular [Data ?bytes]" by (simp add: regular_def)
  have len: "length (replicate 64 0 :: u8 list) = 64" "0 < (64 :: nat)" "6 * 64 < (4294967296 :: nat)" by simp_all
  obtain r1 u where u: "run_call ex_world Sync_reset ?s = (r1, u)" by (metis surj_pair)
  obtain r2 t where t: "run_call ex_world (Try_retire 1) u = (r2, t)" by (metis surj_pair)
  have "(case ?calls ?s of (r, v) \<Rightarrow> r = Inr () \<and> td_synced v \<and>
      \<not> (td_msg_present v \<and> nexusrv_msg_is_res (td_msg v)))" by code_simp
  with u t have r: "r1 = Inr ()" "r2 = Inr ()" "td_synced t"
    "\<not> (td_msg_present t \<and> nexusrv_msg_is_res (td_msg t))"
    by (cases r1; auto simp: run_defs)+
  have reach: "reachable ?s t"
    by (rule reach_step [OF reach_step [OF reach_start]]) (use u t r in \<open>blast intro: step_ok\<close>)+
  have "fst (nexusrv_trace_decoder_init True True
    (nexusrv_msg_decoder_init ex_cfg [Data ?bytes] (- 1) (replicate 64 0) 64)) = Inr ()" by code_simp
  then have "nexusrv_trace_decoder_init True True
    (nexusrv_msg_decoder_init ex_cfg [Data ?bytes] (- 1) (replicate 64 0) 64) = (Inr (), ?s)"
    unfolding ex_start_def by (metis prod.exhaust_sel)
  from counts_never_wrap [OF reg len this reach] r(4) have "\<exists>n. nexusrv_trace_available_icnt t = (Inr n, t)"
    by (simp only: if_False) blast
  with reach r show ?thesis by blast
qed

end
