(* ===== verification/TraceLimits.thy ===== *)
theory TraceLimits
  imports TraceCalls
begin

text \<open>
  Branches that synchronise, and the limits of the trace decoder: runs in which a correct use of
  it fails an assertion or reads what was never written.
\<close>

section \<open>Direct branches that synchronise\<close>

definition sync_step :: "nexusrv_trace_decoder \<Rightarrow> nexusrv_trace_decoder" where
  "sync_step s = s\<lparr>td_consumed_icnt := 0, td_consumed_tnts := 0, td_timestamp := timestamp (td_msg s),
     td_msg := (td_msg s)\<lparr>tcode := TCODE_ProgTraceSync, word0 := 0, hist := 0\<rparr>\<rparr>"

lemma branch_sync_msg:
  assumes "nexusrv_msg_is_branch m" "nexusrv_msg_is_sync m"
  shows "\<not> nexusrv_msg_is_res m" "\<not> nexusrv_msg_is_indir_branch m \<Longrightarrow> tcode m = TCODE_DirectBranchSync"
  using assms by (auto simp: msg_preds)

lemma next_tnt_branch_sync:
  assumes ok: "trace_ok S s" and s: "td_synced s" "td_msg_present s" and m: "nexusrv_msg_is_branch (td_msg s)"
    "nexusrv_msg_is_sync (td_msg s)" "\<not> nexusrv_msg_is_indir_branch (td_msg s)"
    and n: "pending s = 0" "outcomes s = []"
  shows "nexusrv_trace_next_tnt w s =
    (if td_res_hists s = [] \<and> hrepeat (td_msg s) = 0 then (Inr True, sync_step s)
     else (Inl Abort, snd (nexusrv_trace_next_tnt w s)))"
proof -
  from ok have cq: "count_ok S s" "queue_ok s" by (simp_all add: trace_ok_def)
  then have ic: "icnt_ok s" by (simp add: count_ok_def)
  note av = available_none [OF cq(2) n(2)] available_pending(1) [OF ic]
  note res = branch_sync_msg(1) [OF m(1,2)]
  have pull: "nexusrv_trace_pull_msg w s = (Inr False, s)"
    using res s(2) by (simp add: nexusrv_trace_pull_msg_def fetch_present run_defs)
  have "tnt_loop w False s = (Inr None, s)" using av by (subst tnt_loop.simps) simp
  then have loop: "tnt_loop w True s = (Inr None, s)" using av pull by (subst tnt_loop.simps) simp
  have run: "nexusrv_trace_next_tnt w s = thenS nexusrv_trace_retire_msg (retS True) s"
    using loop av s m res n(1) by (simp add: nexusrv_trace_next_tnt_def need_sync_def run_defs)
  have ret: "nexusrv_trace_retire_msg s = (if td_res_hists s = [] then retired s else (Inl Abort, s))"
    by (rule retire_msg_run [OF ic n(1) s(2) none_left [OF cq(2) n(2)]])
  show ?thesis
    unfolding run using ret m
    by (simp add: run_defs retired_def retire_branch_def Let_def sync_step_def)
qed

lemma sync_step_ok:
  assumes ok: "trace_ok S s" and p: "td_msg_present s" and q: "td_res_hists s = []" "pending s = 0"
  shows "trace_ok S (sync_step s)" and "pending (sync_step s) = 0" and "outcomes (sync_step s) = []"
proof -
  from ok have cq: "icnt_ok s" "queue_ok s" "stream_ok S (td_msg_decoder s)" by (simp_all add: trace_ok_def count_ok_def)
  have "td_res_icnt s = 0" using none_pending(1) [OF cq(1) q(2)] .
  moreover have "td_res_tnts s = 0" using cq(2) q(1) by (simp add: queue_ok_iff unat_eq_0)
  ultimately show "trace_ok S (sync_step s)" and "pending (sync_step s) = 0" and "outcomes (sync_step s) = []"
    using cq(3) q(1)
    by (simp_all add: trace_ok_def count_ok_def icnt_ok_def queue_ok_iff sync_step_def msg_count_def
        msg_outcomes_def pending_def outcomes_def msg_preds icnt_def)
qed

lemma next_sync_behind:
  assumes ok: "trace_ok S s" and s: "td_synced s" "td_msg_present s" and q: "td_res_hists s = []" "pending s = 0"
    and a: "extend_addr_bits (push_bit 1 (xaddr (td_msg s))) (addr_bits (td_cfg s)) = Inr a"
  shows "\<exists>u. nexusrv_trace_next_sync w (sync_step s) =
    (Inr \<lparr>sy_addr = a, sy_sync = sync_type (td_msg s)\<rparr>, u) \<and> \<not> td_msg_present u \<and> td_full_addr u = xaddr (td_msg s)"
proof -
  let ?t = "sync_step s"
  note t = sync_step_ok [OF ok s(2) q]
  have sel: "td_synced ?t" "td_msg_present ?t" "td_res_hists ?t = []" "xaddr (td_msg ?t) = xaddr (td_msg s)"
    "td_cfg ?t = td_cfg s" "sync_type (td_msg ?t) = sync_type (td_msg s)"
    using s q by (simp_all add: sync_step_def xaddr_def td_cfg_def sync_type_def)
  have m: "nexusrv_msg_is_sync (td_msg ?t)" "\<not> nexusrv_msg_is_branch (td_msg ?t)"
    by (simp_all add: sync_step_def msg_preds)
  have ic: "icnt_ok ?t" "queue_ok ?t" using t(1) by (simp_all add: trace_ok_def count_ok_def)
  have "nexusrv_trace_retire_msg ?t = retired ?t"
    using retire_msg_run [OF ic(1) t(2) sel(2) none_left [OF ic(2) t(3)]] sel(3) by simp
  moreover have "\<exists>u. retired ?t = (Inr (), u) \<and> \<not> td_msg_present u \<and> td_full_addr u = xaddr (td_msg s)"
    using m sel(4) by (simp add: retired_def)
  ultimately show ?thesis
    using m sel a t nothing_pending_run [OF t(1)] fetch_present [OF sel(2)]
    by (auto simp: nexusrv_trace_next_sync_def need_sync_def run_defs)
qed

text \<open>
  The header says that asking for the synchronisation of such a message discards the branch. The
  call is refused instead, and changes nothing.
\<close>

theorem branch_sync_refused:
  assumes "trace_ok S s" and "td_synced s" and "td_msg_present s" and "nexusrv_msg_is_branch (td_msg s)"
    and "pending s = 0" and "outcomes s = []"
  shows "nexusrv_trace_next_sync w s = (Inl (Code nexus_trace_mismatch), s)"
  using nothing_pending_run [OF assms(1)] fetch_present [OF assms(3)] assms(2-)
  by (simp add: nexusrv_trace_next_sync_def need_sync_def run_defs)

text \<open>An indirect branch leaves its synchronisation buffered.\<close>

lemma next_sync_left:
  assumes ok: "trace_ok S s" and b: "branch_left s t" "looked_ahead w s i r t j" and s: "td_synced s" "td_msg_present s"
    "nexusrv_msg_is_sync (td_msg s)" and q: "td_res_hists s = []" and bits: "addr_bits (td_cfg s) \<noteq> 0"
    and a: "extend_addr_bits (push_bit 1 (xaddr (td_msg s))) (addr_bits (td_cfg s)) = Inr a"
  shows "\<exists>u. nexusrv_trace_next_sync w' t = (Inr \<lparr>sy_addr = a, sy_sync = sync_type (td_msg s)\<rparr>, u) \<and>
    \<not> td_msg_present u \<and> td_full_addr u = xaddr (td_msg s)"
proof -
  have st: "stream_ok S (td_msg_decoder s)" and qk: "queue_ok s" using ok by (simp_all add: trace_ok_def count_ok_def)
  obtain r2 d m where nx: "nexusrv_msg_decoder_next (td_msg_decoder s) (w_msg2 w) = (r2, d, m)" by (metis surj_pair)
  have "md_cfg (td_msg_decoder t) = md_cfg d"
    using b(2) nx by (cases r2) (auto simp: looked_ahead_def rewind_cfg split: if_splits)
  then have cfg: "td_cfg t = td_cfg s" using next_cfg [OF st nx] by (simp add: td_cfg_def)
  have z: "td_res_tnts t = 0" using b(1) qk q by (simp add: branch_left_def queue_ok_iff unat_eq_0)
  have t: "td_synced t" "td_msg_present t" "td_res_hists t = []" "td_res_icnt t = 0" "td_consumed_icnt t = 0"
    "td_consumed_tnts t = 0" "tcode (td_msg t) = TCODE_ProgTraceSync" "icnt (td_msg t) = 0"
    "xaddr (td_msg t) = xaddr (td_msg s)" "sync_type (td_msg t) = sync_type (td_msg s)"
    using b(1) s by (simp_all add: branch_left_def)
  from next_sync_plain [OF t(1-4) z t(5-8), of w'] bits a t cfg show ?thesis by (auto simp: sync_of_def)
qed

text \<open>
  C13. A branch that synchronises is two events, in this order: first the branch, then the
  synchronisation. Let a branch message with synchronisation be buffered, with no instructions and no
  outcomes pending. With time stamps left in the queue or repetitions of the branch, asking for the
  branch fails an assertion. Otherwise a direct branch is reported as taken, and an indirect one leads
  to the extended address of the message, even if the lookahead behind it fails. The message stays
  buffered, and asking for the synchronisation then returns the same address and the reason of the
  message and retires it.
\<close>

theorem branch_sync_in_order:
  assumes "trace_ok S s" and "td_synced s" and "td_msg_present s" and "nexusrv_msg_is_branch (td_msg s)"
    and "nexusrv_msg_is_sync (td_msg s)" and "pending s = 0" and "outcomes s = []" and "addr_bits (td_cfg s) \<noteq> 0"
    and indir: "nexusrv_trace_next_indirect w (s, i) = (r, v, j)" and tnt: "nexusrv_trace_next_tnt w s = (b, t)"
  shows "if td_res_hists s \<noteq> [] \<or> hrepeat (td_msg s) \<noteq> 0
    then (if nexusrv_msg_is_indir_branch (td_msg s) then r = Inl Abort else b = Inl Abort)
    else \<exists>a. extend_addr_bits (push_bit 1 (xaddr (td_msg s))) (addr_bits (td_cfg s)) = Inr a \<and>
      (if nexusrv_msg_is_indir_branch (td_msg s) then in_target j = a \<and> td_msg_present v else b = Inr True \<and> td_msg_present t) \<and>
      (\<exists>u. nexusrv_trace_next_sync w' (if nexusrv_msg_is_indir_branch (td_msg s) then v else t) =
          (Inr \<lparr>sy_addr = a, sy_sync = sync_type (td_msg s)\<rparr>, u) \<and>
        \<not> td_msg_present u \<and> td_full_addr u = xaddr (td_msg s))"
proof -
  from assms(1) have cq: "count_ok S s" "queue_ok s" by (simp_all add: trace_ok_def)
  note res = branch_sync_msg [OF assms(4,5)]
  obtain a where a: "extend_addr_bits (push_bit 1 (xaddr (td_msg s))) (addr_bits (td_cfg s)) = Inr a"
    using extend_defined [OF assms(8)] by blast
  have full: "next_full_addr s = xaddr (td_msg s)" using assms(5) by (simp add: next_full_addr_def)
  show ?thesis
  proof (cases "nexusrv_msg_is_indir_branch (td_msg s)")
    case False
    note run = next_tnt_branch_sync [OF assms(1-5) False assms(6,7), of w, unfolded tnt]
    have "td_msg_present (sync_step s)" using assms(3) by (simp add: sync_step_def)
    with run False a next_sync_behind [OF assms(1-3) _ assms(6) a, of w'] show ?thesis
      by (auto split: if_splits)
  next
    case True
    have fits: "length (queue_outcomes (td_res_hists s)) + length (msg_outcomes s) < 4294967296"
      using cq(2) by (simp add: queue_ok_iff)
    have "indirect_msg (td_msg s)" using True assms(4) by (simp add: indirect_msg_def)
    with indirect_cases [OF assms(3) cq(1) cq(2) assms(2) fetch_present [OF assms(3)] a [folded full] indir] fits res
      assms(5-7) have run: "if td_res_hists s \<noteq> [] \<or> hrepeat (td_msg s) \<noteq> 0 then r = Inl Abort
        else branch_left s v \<and> indirect_of s j \<and> looked_ahead w s i r v j" by auto
    show ?thesis
    proof (cases "td_res_hists s \<noteq> [] \<or> hrepeat (td_msg s) \<noteq> 0")
      case bad: True
      with run True show ?thesis by simp
    next
      case good: False
      with run have l: "branch_left s v" "indirect_of s j" "looked_ahead w s i r v j" by simp_all
      have "in_target j = a" using l(2) a full by (simp add: indirect_of_def)
      moreover have "td_msg_present v" using l(1) assms(5) by (simp add: branch_left_def)
      moreover note next_sync_left [OF assms(1) l(1,3) assms(2,3,5) _ assms(8) a, of w']
      ultimately show ?thesis using good True a by auto
    qed
  qed
qed

definition ex_branch_sync :: nexusrv_trace_decoder where
  "ex_branch_sync = (ex_start ex_direct_4)\<lparr>td_synced := True, td_msg_present := True, td_consumed_icnt := 7,
     td_msg := ex_msg\<lparr>tcode := TCODE_DirectBranchSync, tagbits := 5, word0 := 7, dword1 := 0x123\<rparr>\<rparr>"

lemma branch_sync_in_order_witness:
  "\<exists>t u. nexusrv_trace_next_tnt ex_world ex_branch_sync = (Inr True, t) \<and> td_msg_present t \<and>
     nexusrv_trace_next_sync ex_world t = (Inr \<lparr>sy_addr = 0x246, sy_sync = 5\<rparr>, u) \<and> \<not> td_msg_present u"
proof -
  let ?s = "ex_start ex_direct_4"
  let ?i = "\<lparr>in_target = 0, in_context = 0, in_interrupt = False, in_exception = False, in_ownership = False,
        in_ownership_fmt = 0, in_ownership_priv = 0, in_ownership_v = 0\<rparr>"
  have ok: "trace_ok ex_direct_4 ?s" by (rule ex_start_ok)
  have e: "td_res_hists ?s = []" "td_res_icnt ?s = 0" "td_res_tnts ?s = 0" "td_consumed_tnts ?s = 0" by code_simp+
  have m: "nexusrv_msg_is_branch (td_msg ex_branch_sync)" "nexusrv_msg_is_sync (td_msg ex_branch_sync)"
    "extend_addr_bits (push_bit 1 (xaddr (td_msg ex_branch_sync))) (addr_bits (td_cfg ex_branch_sync)) = Inr 0x246"
    "sync_type (td_msg ex_branch_sync) = 5" "td_synced ex_branch_sync" "td_msg_present ex_branch_sync"
    "\<not> nexusrv_msg_is_indir_branch (td_msg ex_branch_sync)" "hrepeat (td_msg ex_branch_sync) = 0"
    "addr_bits (td_cfg ex_branch_sync) \<noteq> 0"
    by code_simp+
  have s: "trace_ok ex_direct_4 ex_branch_sync" "pending ex_branch_sync = 0" "outcomes ex_branch_sync = []"
    "td_res_hists ex_branch_sync = []"
    using ok e by (simp_all add: trace_ok_def count_ok_def icnt_ok_def queue_ok_iff ex_branch_sync_def ex_msg_def
        msg_count_def msg_outcomes_def msg_preds icnt_def MSG_ICNT_MAX_def pending_def outcomes_def)
  obtain r v j where ind: "nexusrv_trace_next_indirect ex_world (ex_branch_sync, ?i) = (r, v, j)" by (metis surj_pair)
  obtain b t where tnt: "nexusrv_trace_next_tnt ex_world ex_branch_sync = (b, t)" by (metis surj_pair)
  from branch_sync_in_order [OF s(1) m(5,6,1,2) s(2,3) m(9) ind tnt, of ex_world] m s(4) tnt show ?thesis by auto
qed

section \<open>Limits\<close>

definition two_calls :: "world \<Rightarrow> u8 list \<Rightarrow> trace_call \<Rightarrow> trace_call \<Rightarrow> unit result list" where
  "two_calls w bytes c d =
     (case run_call w c ((ex_start bytes)\<lparr>td_synced := True\<rparr>) of (r, t) \<Rightarrow> [r, fst (run_call w d t)])"

text \<open>
  A ResourceFull message that is not pulled stops the decoder. Asking for a synchronisation,
  an error or a stop while the next message of the stream is one fails an assertion or is a
  mismatch behind which retiring fails one; so does retiring again behind the error code that the
  resource is not supported, although the header says that the caller can go on behind both.
\<close>

theorem resource_front_aborts:
  "two_calls ex_world ex_res_icnt_5 Next_sync Next_sync = [Inl Abort, Inl Abort]
   \<and> two_calls ex_world ex_res_icnt_5 Next_stop Next_stop = [Inl Abort, Inl Abort]
   \<and> two_calls ex_world ex_res_icnt_5 Next_error (Try_retire 4) = [Inl (Code nexus_trace_mismatch), Inl Abort]
   \<and> two_calls ex_world [108, 96, 7] (Try_retire 4) (Try_retire 4) = [Inl (Code nexus_msg_unsupported), Inl Abort]
   \<and> two_calls ex_world [108, 96, 7] Next_tnt Next_tnt = [Inl (Code nexus_msg_unsupported), Inl Abort]"
  by (intro conjI) code_simp+

text \<open>
  At the end of the file the decoder looks at memory it has not written. The stream decoder
  reports the end with 0 and leaves the local message alone; the lookahead behind an indirect branch
  that is the last message goes by its type: with the type of an ownership message there the result
  has a process, with any other it has none. The lookahead behind a direct branch takes the
  repetitions of the branch from there, and with them a second branch that the trace does not have.
\<close>

theorem end_reads_unwritten:
  "map (\<lambda>tc. case nexusrv_trace_fetch_msg (ex_world\<lparr>w_msg2 := ex_msg\<lparr>tcode := tc, hrepeat := 9, dword1 := 77\<rparr>\<rparr>)
       (ex_start ex_direct_4) of (r, t) \<Rightarrow> (r, hrepeat (td_msg t)))
     [TCODE_Ownership, TCODE_RepeatBranch] = [(Inr True, 0), (Inr True, 9)]
   \<and> map (\<lambda>tc. case next_indirect (ex_world\<lparr>w_msg2 := ex_msg\<lparr>tcode := tc, hrepeat := 9, dword1 := 77\<rparr>\<rparr>)
       \<lparr>in_target = 0, in_context = 0, in_interrupt = False, in_exception = False, in_ownership = False,
         in_ownership_fmt = 0, in_ownership_priv = 0, in_ownership_v = 0\<rparr>
       (ex_indirect\<lparr>td_msg_decoder := td_msg_decoder (ex_start [])\<rparr>) of
         (Inl e, t) \<Rightarrow> None | (Inr i, t) \<Rightarrow> Some (in_target i, in_ownership i, in_context i))
     [TCODE_Ownership, TCODE_RepeatBranch] = [Some (0x2246, True, 77), Some (0x2246, False, 0)]"
  by (intro conjI) code_simp+

end
