(* ===== verification/TextNum.thy ===== *)
theory TextNum
  imports Errors
begin

text \<open>
  Numbers in text, as the C library prints and scans them: the digits of a base from 2 to 16,
  the white space and the sign in front of a number, and \<^verbatim>\<open>atoi\<close> and \<^verbatim>\<open>strtoul\<close>.
\<close>

section \<open>Characters\<close>

definition isspace :: "char \<Rightarrow> bool" where
  "isspace c \<longleftrightarrow> c \<in> set [CHR '' '', CHR 0x09, CHR 0x0A, CHR 0x0B, CHR 0x0C, CHR 0x0D]"

definition digit_val :: "char \<Rightarrow> int option" where
  "digit_val c =
     (let v = of_char c :: int in
      if 48 \<le> v \<and> v \<le> 57 then Some (v - 48)
      else if 97 \<le> v \<and> v \<le> 102 then Some (v - 87)
      else if 65 \<le> v \<and> v \<le> 70 then Some (v - 55)
      else None)"

definition digit_char :: "int \<Rightarrow> char" where
  "digit_char d = (if d < 10 then char_of (d + 48) else char_of (d + 87))"

definition is_digit :: "int \<Rightarrow> char \<Rightarrow> bool" where
  "is_digit b c = (case digit_val c of Some d \<Rightarrow> d < b | None \<Rightarrow> False)"

lemma digit_val_char [simp]:
  assumes "0 \<le> d" and "d < 16"
  shows "digit_val (digit_char d) = Some d"
proof -
  have "of_char (digit_char d) = (if d < 10 then d + 48 else d + 87)"
    using assms by (simp add: digit_char_def)
  then show ?thesis using assms by (simp add: digit_val_def Let_def)
qed

lemma digit_val_mod: "2 \<le> b \<Longrightarrow> b \<le> 16 \<Longrightarrow> digit_val (digit_char (n mod b)) = Some (n mod b)"
  using pos_mod_bound [of b n] pos_mod_sign [of b n] by (intro digit_val_char) linarith+

lemma is_digit_char: "0 \<le> d \<Longrightarrow> d < b \<Longrightarrow> b \<le> 16 \<Longrightarrow> is_digit b (digit_char d)"
  by (simp add: is_digit_def)

lemma digit_val_range: "digit_val c = Some d \<Longrightarrow> 0 \<le> d \<and> d < 16"
  by (auto simp: digit_val_def Let_def split: if_splits)

text \<open>A digit is not white space, nor a sign, nor the separators of the formats.\<close>

lemma digit_not_special:
  "is_digit b c \<Longrightarrow> \<not> isspace c"
  "is_digit b c \<Longrightarrow> c \<noteq> CHR ''-''" "is_digit b c \<Longrightarrow> c \<noteq> CHR ''+''"
  "is_digit b c \<Longrightarrow> c \<noteq> CHR '',''" "is_digit b c \<Longrightarrow> c \<noteq> CHR ''x''" "is_digit b c \<Longrightarrow> c \<noteq> CHR ''X''"
  by (auto simp: is_digit_def isspace_def digit_val_def Let_def)

section \<open>Printing\<close>

function show_base :: "int \<Rightarrow> int \<Rightarrow> string" where
  "show_base b n =
     (if b < 2 \<or> n < b then [digit_char n] else show_base b (n div b) @ [digit_char (n mod b)])"
  by pat_completeness auto
termination
  by (relation "measure (\<lambda>(b, n). nat n)") (auto simp: nat_less_iff int_div_less_self)

declare show_base.simps [simp del]

lemma show_base_digits:
  "2 \<le> b \<Longrightarrow> b \<le> 16 \<Longrightarrow> 0 \<le> n \<Longrightarrow> \<forall>c \<in> set (show_base b n). is_digit b c"
proof (induction b n rule: show_base.induct)
  case (1 b n)
  show ?case
  proof (cases "n < b")
    case True
    with 1 show ?thesis by (subst show_base.simps) (simp add: is_digit_char)
  next
    case False
    with 1 show ?thesis
      by (subst show_base.simps) (auto simp: is_digit_char pos_imp_zdiv_nonneg_iff)
  qed
qed

lemma show_base_nonempty [simp]: "show_base b n \<noteq> []"
  by (subst show_base.simps) simp

text \<open>The first digit is zero only for zero.\<close>

lemma show_base_hd:
  "2 \<le> b \<Longrightarrow> b \<le> 16 \<Longrightarrow> 0 < n \<Longrightarrow> hd (show_base b n) \<noteq> CHR ''0''"
proof (induction b n rule: show_base.induct)
  case (1 b n)
  show ?case
  proof (cases "n < b")
    case True
    with 1 have "digit_val (digit_char n) \<noteq> Some 0" by simp
    moreover have "digit_val CHR ''0'' = Some 0" by (simp add: digit_val_def Let_def)
    ultimately have "digit_char n \<noteq> CHR ''0''" by metis
    then show ?thesis using True by (subst show_base.simps) simp
  next
    case False
    with 1 have "0 < n div b" by (simp add: pos_imp_zdiv_pos_iff)
    with False 1 show ?thesis by (subst show_base.simps) simp
  qed
qed

lemma show_base_0: "2 \<le> b \<Longrightarrow> show_base b 0 = ''0''"
  by (subst show_base.simps) (simp add: digit_char_def char_of_def)

section \<open>Scanning\<close>

fun scan_digits :: "int \<Rightarrow> int \<Rightarrow> string \<Rightarrow> int \<times> string" where
  "scan_digits b acc [] = (acc, [])"
| "scan_digits b acc (c # cs) =
     (case digit_val c of
        Some d \<Rightarrow> if d < b then scan_digits b (acc * b + d) cs else (acc, c # cs)
      | None \<Rightarrow> (acc, c # cs))"

definition ends_number :: "int \<Rightarrow> string \<Rightarrow> bool" where
  "ends_number b s = (case s of [] \<Rightarrow> True | c # _ \<Rightarrow> \<not> is_digit b c)"

lemma scan_digits_stop: "ends_number b s \<Longrightarrow> scan_digits b acc s = (acc, s)"
  by (cases s) (auto simp: ends_number_def is_digit_def split: option.splits)

lemma scan_digits_show:
  "2 \<le> b \<Longrightarrow> b \<le> 16 \<Longrightarrow> 0 \<le> n \<Longrightarrow>
   scan_digits b acc (show_base b n @ s) = scan_digits b (acc * b ^ length (show_base b n) + n) s"
proof (induction b n arbitrary: s rule: show_base.induct)
  case (1 b n)
  show ?case
  proof (cases "n < b")
    case True
    with 1 have "show_base b n = [digit_char n]" by (subst show_base.simps) simp
    with True 1 show ?thesis by simp
  next
    case False
    let ?p = "show_base b (n div b)"
    from False 1 have e: "show_base b n = ?p @ [digit_char (n mod b)]" by (subst show_base.simps) simp
    have "scan_digits b acc (show_base b n @ s) =
        scan_digits b (acc * b ^ length ?p + n div b) (digit_char (n mod b) # s)"
      using "1.IH" [of "digit_char (n mod b) # s"] False "1.prems" e by (simp add: pos_imp_zdiv_nonneg_iff)
    also have "\<dots> = scan_digits b ((acc * b ^ length ?p + n div b) * b + n mod b) s"
      using "1.prems" by (simp add: digit_val_mod)
    also have "(acc * b ^ length ?p + n div b) * b + n mod b = acc * b ^ length (show_base b n) + n"
      using mult_div_mod_eq [of b n] by (simp add: e algebra_simps)
    finally show ?thesis .
  qed
qed

definition skip_space :: "string \<Rightarrow> string" where
  "skip_space s = dropWhile isspace s"

definition take_sign :: "string \<Rightarrow> bool \<times> string" where
  "take_sign s =
     (case s of
        c # cs \<Rightarrow> if c = CHR ''-'' then (True, cs) else if c = CHR ''+'' then (False, cs) else (False, s)
      | [] \<Rightarrow> (False, []))"

text \<open>
  A number with its sign: none, if no digit follows. The prefix of a hexadecimal number is
  left to the caller, who gives the way to strip it.
\<close>

definition scan_number :: "int \<Rightarrow> (string \<Rightarrow> string) \<Rightarrow> string \<Rightarrow> (int \<times> string) option" where
  "scan_number b strip s =
     (case take_sign (skip_space s) of (neg, u) \<Rightarrow>
        let v = strip u in
        if ends_number b v then None
        else case scan_digits b 0 v of (n, rest) \<Rightarrow> Some (if neg then - n else n, rest))"

lemma scan_number_show:
  assumes "2 \<le> b" "b \<le> 16" "0 \<le> n" "ends_number b s" "strip (show_base b n @ s) = show_base b n @ s"
  shows "scan_number b strip (show_base b n @ s) = Some (n, s)"
proof -
  obtain c cs where e: "show_base b n = c # cs" by (metis show_base_nonempty list.exhaust)
  with show_base_digits [OF assms(1-3)] have c: "is_digit b c" by simp
  from e c have "skip_space (show_base b n @ s) = show_base b n @ s"
    by (simp add: skip_space_def digit_not_special)
  moreover from e c have "take_sign (show_base b n @ s) = (False, show_base b n @ s)"
    by (auto simp: take_sign_def dest: digit_not_special)
  moreover from e c have "\<not> ends_number b (show_base b n @ s)" by (simp add: ends_number_def)
  ultimately show ?thesis
    using assms scan_digits_show [OF assms(1-3), of 0 s]
    by (simp add: scan_number_def scan_digits_stop Let_def)
qed

text \<open>\<^verbatim>\<open>atoi\<close>: a number that does not fit an \<^verbatim>\<open>int\<close> has no defined result.\<close>

definition atoi :: "string \<Rightarrow> int result" where
  "atoi s =
     (case scan_number 10 id s of
        None \<Rightarrow> Inr 0
      | Some (n, _) \<Rightarrow> if - 2147483648 \<le> n \<and> n \<le> 2147483647 then Inr n else Inl Undef)"

text \<open>
  \<^verbatim>\<open>strtoul\<close> in base 10: the value, saturated at the largest one, and the text behind it. A
  negative number is negated in the unsigned type.
\<close>

definition strtoul10 :: "string \<Rightarrow> u64 \<times> string" where
  "strtoul10 s =
     (case scan_number 10 id s of
        None \<Rightarrow> (0, s)
      | Some (n, rest) \<Rightarrow> (if \<bar>n\<bar> \<le> 18446744073709551615 then word_of_int n else - 1, rest))"

lemma atoi_show:
  assumes "0 \<le> n" "n \<le> 2147483647" "ends_number 10 s"
  shows "atoi (show_base 10 n @ s) = Inr n"
  using assms by (simp add: atoi_def scan_number_show)

lemma strtoul10_show:
  assumes "ends_number 10 s"
  shows "strtoul10 (show_base 10 (uint w) @ s) = (w, s)"
proof -
  have "uint w < 18446744073709551616" using uint_lt2p [of w] by simp
  then show ?thesis using assms by (simp add: strtoul10_def scan_number_show)
qed

end
