(* ===== verification/HwCfg.thy ===== *)
theory HwCfg
  imports MsgTypes TextNum "HOL-Library.Sublist"
begin

text \<open>
  The hardware configuration string: \<^verbatim>\<open>nexusrv_hwcfg_parse\<close> of \<^verbatim>\<open>lib/msg-decoder.c\<close>. The loop
  cuts the string at its commas and works on one option after the other, so the model runs over
  the list of the options; a model name runs it on the options of that model in between.
\<close>

section \<open>Options\<close>

definition MODEL_HWCFG_GENERIC32 :: string where
  "MODEL_HWCFG_GENERIC32 = ''addr=32,maxstack=32''"
definition MODEL_HWCFG_GENERIC64 :: string where
  "MODEL_HWCFG_GENERIC64 = ''addr=64,maxstack=32''"
definition MODEL_HWCFG_P550x4 :: string where
  "MODEL_HWCFG_P550x4 = ''src=2,ts=40,addr=48,maxstack=1024,quirk-sifive''"
definition MODEL_HWCFG_P550x8 :: string where
  "MODEL_HWCFG_P550x8 = ''src=2,ts=40,addr=48,maxstack=1024,quirk-sifive''"

fun split_opts :: "string \<Rightarrow> string list" where
  "split_opts [] = [[]]"
| "split_opts (c # cs) =
     (if c = CHR '','' then [] # split_opts cs
      else case split_opts cs of [] \<Rightarrow> [[c]] | opt # opts \<Rightarrow> (c # opt) # opts)"

text \<open>An option with an integer: an \<^verbatim>\<open>int\<close> is assigned to an unsigned field.\<close>

definition int_option ::
    "(u32 \<Rightarrow> nexusrv_hw_cfg \<Rightarrow> nexusrv_hw_cfg) \<Rightarrow> string \<Rightarrow> (nexusrv_hw_cfg, unit) proc" where
  "int_option upd s = bindS (liftS (atoi s)) (\<lambda>n. modS (upd (word_of_int n)))"

definition freq_option :: "string \<Rightarrow> (nexusrv_hw_cfg, unit) proc" where
  "freq_option s =
     (case strtoul10 s of (freq, unit_name) \<Rightarrow>
        thenS (modS (\<lambda>c. c\<lparr>timer_freq := freq\<rparr>))
       (if freq = 0 then throwS (Code nexus_hwcfg_invalid)
        else if unit_name = ''GHz'' then modS (\<lambda>c. c\<lparr>timer_freq := timer_freq c * 1000000000\<rparr>)
        else if unit_name = ''Mhz'' then modS (\<lambda>c. c\<lparr>timer_freq := timer_freq c * 1000000\<rparr>)
        else if unit_name = ''Khz'' then modS (\<lambda>c. c\<lparr>timer_freq := timer_freq c * 1000\<rparr>)
        else if unit_name \<noteq> ''Hz'' then throwS (Code nexus_hwcfg_invalid)
        else retS ()))"

definition negated :: "string \<Rightarrow> bool" where
  "negated opt = prefix ''no-'' opt"

definition option_body :: "string \<Rightarrow> string" where
  "option_body opt = (if negated opt then drop 3 opt else opt)"

text \<open>The options but those that name a model; \<open>None\<close> if it is none of them.\<close>

definition plain_option :: "bool \<Rightarrow> string \<Rightarrow> (nexusrv_hw_cfg, unit) proc option" where
  "plain_option negate opt =
     (if prefix ''ts='' opt then Some (int_option (\<lambda>n c. c\<lparr>ts_bits := n\<rparr>) (drop 3 opt))
      else if prefix ''src='' opt then Some (int_option (\<lambda>n c. c\<lparr>src_bits := n\<rparr>) (drop 4 opt))
      else if prefix ''addr='' opt then Some (int_option (\<lambda>n c. c\<lparr>addr_bits := n\<rparr>) (drop 5 opt))
      else if prefix ''maxstack='' opt then Some (int_option (\<lambda>n c. c\<lparr>max_stack := n\<rparr>) (drop 9 opt))
      else if opt = ''quirk-sifive'' then Some (modS (\<lambda>c. c\<lparr>quirk_sifive := \<not> negate\<rparr>))
      else if prefix ''timerfreq='' opt then Some (freq_option (drop 10 opt))
      else None)"

definition model_hwcfg :: "string \<Rightarrow> string option" where
  "model_hwcfg name =
     (if name = ''generic32'' then Some MODEL_HWCFG_GENERIC32
      else if name = ''generic64'' then Some MODEL_HWCFG_GENERIC64
      else if name = ''p550x4'' then Some MODEL_HWCFG_P550x4
      else if name = ''p550x8'' then Some MODEL_HWCFG_P550x8
      else None)"

text \<open>
  The loop runs once more for each option of a model, and these name no model. The weight of an
  option is more than the number of options it stands for.
\<close>

definition opt_weight :: "string \<Rightarrow> nat" where
  "opt_weight opt = (if prefix ''model='' (option_body opt) then 7 else 1)"

lemma split_models:
  "split_opts MODEL_HWCFG_GENERIC32 = [''addr=32'', ''maxstack=32'']"
  "split_opts MODEL_HWCFG_GENERIC64 = [''addr=64'', ''maxstack=32'']"
  "split_opts MODEL_HWCFG_P550x4 = [''src=2'', ''ts=40'', ''addr=48'', ''maxstack=1024'', ''quirk-sifive'']"
  "split_opts MODEL_HWCFG_P550x8 = [''src=2'', ''ts=40'', ''addr=48'', ''maxstack=1024'', ''quirk-sifive'']"
  by (simp_all add: MODEL_HWCFG_GENERIC32_def MODEL_HWCFG_GENERIC64_def MODEL_HWCFG_P550x4_def
      MODEL_HWCFG_P550x8_def)

lemma model_weight:
  "model_hwcfg name = Some str \<Longrightarrow> sum_list (map opt_weight (split_opts str)) < 7"
  by (auto simp: model_hwcfg_def split_models opt_weight_def option_body_def negated_def split: if_splits)

function hwcfg_loop :: "string list \<Rightarrow> nexusrv_hw_cfg \<Rightarrow> unit result \<times> nexusrv_hw_cfg" where
  "hwcfg_loop [] cfg = (Inr (), cfg)"
| "hwcfg_loop (opt # opts) cfg =
     (if opt = [] then hwcfg_loop opts cfg
      else case plain_option (negated opt) (option_body opt) of
        Some act \<Rightarrow>
          (case act cfg of (Inl e, cfg1) \<Rightarrow> (Inl e, cfg1) | (Inr _, cfg1) \<Rightarrow> hwcfg_loop opts cfg1)
      | None \<Rightarrow>
          if prefix ''model='' (option_body opt) then
            case model_hwcfg (drop 6 (option_body opt)) of
              None \<Rightarrow> (Inl (Code nexus_hwcfg_invalid), cfg)
            | Some str \<Rightarrow>
                (case hwcfg_loop (split_opts str) cfg of
                   (Inl e, cfg1) \<Rightarrow> (Inl e, cfg1)
                 | (Inr _, cfg1) \<Rightarrow> hwcfg_loop opts cfg1)
          else (Inl (Code nexus_hwcfg_invalid), cfg))"
  by pat_completeness auto
termination
  by (relation "measure (\<lambda>(opts, cfg). sum_list (map opt_weight opts))")
    (auto simp: opt_weight_def intro: trans_less_add1 dest: model_weight)

declare hwcfg_loop.simps [simp del]

definition hwcfg_zero :: nexusrv_hw_cfg where
  "hwcfg_zero = \<lparr>src_bits = 0, ts_bits = 0, addr_bits = 0, max_stack = 0, timer_freq = 0,
     HTM = False, VAO = False, quirk_sifive = False\<rparr>"

text \<open>The result, and what it leaves in the caller's struct.\<close>

definition nexusrv_hwcfg_parse :: "string \<Rightarrow> unit result \<times> nexusrv_hw_cfg" where
  "nexusrv_hwcfg_parse str = hwcfg_loop (split_opts str) hwcfg_zero"

section \<open>What the options mean\<close>

text \<open>The options are worked on from left to right.\<close>

lemma hwcfg_loop_append:
  "hwcfg_loop (xs @ ys) cfg =
     (case hwcfg_loop xs cfg of (Inl e, c) \<Rightarrow> (Inl e, c) | (Inr _, c) \<Rightarrow> hwcfg_loop ys c)"
  by (induction xs arbitrary: cfg) (auto simp: hwcfg_loop.simps split: option.splits prod.splits sum.splits)

lemma split_opts_nonempty [simp]: "split_opts s \<noteq> []"
  by (cases s) (auto split: list.splits)

lemma split_opts_comma: "split_opts (a @ '','' @ b) = split_opts a @ split_opts b"
proof (induction a)
  case (Cons c a)
  then show ?case using split_opts_nonempty [of a] by (cases "split_opts a") auto
qed simp

lemma split_opts_single: "CHR '','' \<notin> set s \<Longrightarrow> split_opts s = [s]"
  by (induction s) auto

text \<open>The options that print a configuration.\<close>

definition show_int_opt :: "string \<Rightarrow> u32 \<Rightarrow> string" where
  "show_int_opt key n = key @ show_base 10 (uint n)"

definition cfg_options :: "nexusrv_hw_cfg \<Rightarrow> string list" where
  "cfg_options c =
     [show_int_opt ''src='' (src_bits c), show_int_opt ''ts='' (ts_bits c),
      show_int_opt ''addr='' (addr_bits c), show_int_opt ''maxstack='' (max_stack c),
      (if quirk_sifive c then ''quirk-sifive'' else ''no-quirk-sifive'')] @
     (if timer_freq c = 0 then [] else [''timerfreq='' @ show_base 10 (uint (timer_freq c)) @ ''Hz''])"

fun join_opts :: "string list \<Rightarrow> string" where
  "join_opts [] = []"
| "join_opts [opt] = opt"
| "join_opts (opt # opts) = opt @ '','' @ join_opts opts"

definition hwcfg_print :: "nexusrv_hw_cfg \<Rightarrow> string" where
  "hwcfg_print c = join_opts (cfg_options c)"

lemma split_join:
  "opts \<noteq> [] \<Longrightarrow> \<forall>opt \<in> set opts. CHR '','' \<notin> set opt \<Longrightarrow> split_opts (join_opts opts) = opts"
  by (induction opts rule: join_opts.induct) (simp_all only: join_opts.simps split_opts_comma, auto simp: split_opts_single)

lemma show_base_no_comma: "CHR '','' \<notin> set (show_base 10 (uint n))"
  using show_base_digits [of 10 "uint n"] digit_not_special(4) by fastforce

lemma atoi_show_u32: "uint (n :: u32) \<le> 2147483647 \<Longrightarrow> atoi (show_base 10 (uint n)) = Inr (uint n)"
  using atoi_show [of "uint n" "[]"] by (simp add: ends_number_def)

text \<open>One option of each kind, in front of others.\<close>

lemma int_opt_step:
  assumes "uint n \<le> 2147483647"
  shows "hwcfg_loop (show_int_opt ''src='' n # opts) c = hwcfg_loop opts (c\<lparr>src_bits := n\<rparr>)"
    and "hwcfg_loop (show_int_opt ''ts='' n # opts) c = hwcfg_loop opts (c\<lparr>ts_bits := n\<rparr>)"
    and "hwcfg_loop (show_int_opt ''addr='' n # opts) c = hwcfg_loop opts (c\<lparr>addr_bits := n\<rparr>)"
    and "hwcfg_loop (show_int_opt ''maxstack='' n # opts) c = hwcfg_loop opts (c\<lparr>max_stack := n\<rparr>)"
  using atoi_show_u32 [OF assms]
  by (simp_all add: hwcfg_loop.simps show_int_opt_def option_body_def negated_def plain_option_def
      int_option_def comp_simps bindS_def liftS_def modS_def)

lemma quirk_step:
  "hwcfg_loop (''quirk-sifive'' # opts) c = hwcfg_loop opts (c\<lparr>quirk_sifive := True\<rparr>)"
  "hwcfg_loop (''no-quirk-sifive'' # opts) c = hwcfg_loop opts (c\<lparr>quirk_sifive := False\<rparr>)"
  by (simp_all add: hwcfg_loop.simps option_body_def negated_def plain_option_def modS_def)

lemma freq_step:
  assumes "f \<noteq> 0"
  shows "hwcfg_loop ((''timerfreq='' @ show_base 10 (uint f) @ ''Hz'') # opts) c =
    hwcfg_loop opts (c\<lparr>timer_freq := f\<rparr>)"
proof -
  have "strtoul10 (show_base 10 (uint f) @ ''Hz'') = (f, ''Hz'')"
    by (rule strtoul10_show) (simp add: ends_number_def is_digit_def digit_val_def Let_def)
  with assms show ?thesis
    by (simp add: hwcfg_loop.simps option_body_def negated_def plain_option_def freq_option_def
        thenS_def bindS_def modS_def retS_def throwS_def)
qed

definition cfg_printable :: "nexusrv_hw_cfg \<Rightarrow> bool" where
  "cfg_printable c \<longleftrightarrow> uint (src_bits c) \<le> 2147483647 \<and> uint (ts_bits c) \<le> 2147483647 \<and>
     uint (addr_bits c) \<le> 2147483647 \<and> uint (max_stack c) \<le> 2147483647 \<and> \<not> HTM c \<and> \<not> VAO c"

lemma hwcfg_loop_options:
  assumes "cfg_printable c"
  shows "hwcfg_loop (cfg_options c) hwcfg_zero = (Inr (), c)"
proof -
  from assms have c: "uint (src_bits c) \<le> 2147483647" "uint (ts_bits c) \<le> 2147483647"
    "uint (addr_bits c) \<le> 2147483647" "uint (max_stack c) \<le> 2147483647" "\<not> HTM c" "\<not> VAO c"
    by (simp_all add: cfg_printable_def)
  note steps = int_opt_step(1) [OF c(1)] int_opt_step(2) [OF c(2)] int_opt_step(3) [OF c(3)]
    int_opt_step(4) [OF c(4)]
  have "\<lparr>src_bits = src_bits c, ts_bits = ts_bits c, addr_bits = addr_bits c, max_stack = max_stack c,
      timer_freq = timer_freq c, HTM = False, VAO = False, quirk_sifive = quirk_sifive c\<rparr> = c"
    using c(5,6) by (cases c) simp
  then show ?thesis
    using freq_step [of "timer_freq c" "[]"]
    by (cases "quirk_sifive c"; cases "timer_freq c = 0")
      (simp_all add: cfg_options_def steps quirk_step hwcfg_zero_def hwcfg_loop.simps(1))
qed

lemma cfg_options_no_comma: "\<forall>opt \<in> set (cfg_options c). CHR '','' \<notin> set opt"
  by (auto simp: cfg_options_def show_int_opt_def show_base_no_comma)

section \<open>Properties\<close>

text \<open>
  C23. Round trip: the string that lists the fields of a configuration is parsed to exactly
  that configuration, for fields that an \<^verbatim>\<open>int\<close> holds. (No option sets \<^verbatim>\<open>HTM\<close> and \<^verbatim>\<open>VAO\<close>.)
\<close>

theorem hwcfg_roundtrip:
  assumes "cfg_printable c"
  shows "nexusrv_hwcfg_parse (hwcfg_print c) = (Inr (), c)"
proof -
  have "cfg_options c \<noteq> []" by (simp add: cfg_options_def)
  then have "split_opts (hwcfg_print c) = cfg_options c"
    by (simp add: hwcfg_print_def split_join cfg_options_no_comma)
  with hwcfg_loop_options [OF assms] show ?thesis by (simp add: nexusrv_hwcfg_parse_def)
qed

definition p550_cfg :: nexusrv_hw_cfg where
  "p550_cfg = \<lparr>src_bits = 2, ts_bits = 40, addr_bits = 48, max_stack = 1024, timer_freq = 0,
     HTM = False, VAO = False, quirk_sifive = True\<rparr>"

lemma hwcfg_roundtrip_witness:
  "nexusrv_hwcfg_parse (hwcfg_print (p550_cfg\<lparr>timer_freq := 1000000\<rparr>)) =
    (Inr (), p550_cfg\<lparr>timer_freq := 1000000\<rparr>)"
  by (rule hwcfg_roundtrip) (simp add: cfg_printable_def p550_cfg_def)

text \<open>
  The options are applied in order, so that later ones override earlier ones: parsing
  \<^verbatim>\<open>a,b\<close> is parsing \<^verbatim>\<open>a\<close> and then, if that went well, applying the options of \<^verbatim>\<open>b\<close> to its
  result. A model name stands for its options: with it in front, the options behind it amend
  the model.
\<close>

theorem hwcfg_in_order:
  "nexusrv_hwcfg_parse (a @ '','' @ b) =
     (case nexusrv_hwcfg_parse a of (Inl e, c) \<Rightarrow> (Inl e, c) | (Inr _, c) \<Rightarrow> hwcfg_loop (split_opts b) c)
   \<and> nexusrv_hwcfg_parse ''model=generic64'' = nexusrv_hwcfg_parse MODEL_HWCFG_GENERIC64
   \<and> nexusrv_hwcfg_parse ''model=p550x4,src=3,no-quirk-sifive'' =
      (Inr (), p550_cfg\<lparr>src_bits := 3, quirk_sifive := False\<rparr>)"
proof (intro conjI)
  show "nexusrv_hwcfg_parse (a @ '','' @ b) =
      (case nexusrv_hwcfg_parse a of (Inl e, c) \<Rightarrow> (Inl e, c) | (Inr _, c) \<Rightarrow> hwcfg_loop (split_opts b) c)"
    by (simp only: nexusrv_hwcfg_parse_def split_opts_comma hwcfg_loop_append)
qed code_simp+

text \<open>
  The models: \<^verbatim>\<open>p550x8\<close> is the same configuration as \<^verbatim>\<open>p550x4\<close>, with 2 source bits and a
  stack of 1024 entries. A bare model name, the default of every utility, is refused, and so are
  the names \<^verbatim>\<open>stack\<close> and \<^verbatim>\<open>ext-sifive\<close> and the units \<^verbatim>\<open>MHz\<close> and \<^verbatim>\<open>KHz\<close> of the documentation.
\<close>

theorem hwcfg_names:
  "nexusrv_hwcfg_parse ''model=p550x4'' = (Inr (), p550_cfg)
   \<and> nexusrv_hwcfg_parse ''model=p550x8'' = (Inr (), p550_cfg)
   \<and> map (fst \<circ> nexusrv_hwcfg_parse)
        [''generic64'', ''stack=32'', ''ext-sifive'', ''timerfreq=1MHz'', ''timerfreq=1KHz'',
         ''timerfreq=0Hz'', ''model=p550''] =
      replicate 7 (Inl (Code nexus_hwcfg_invalid))
   \<and> nexusrv_hwcfg_parse ''timerfreq=1Mhz'' = (Inr (), hwcfg_zero\<lparr>timer_freq := 1000000\<rparr>)"
  by (intro conjI) code_simp+

end
