(* ===== verification/MsgText.thy ===== *)
theory MsgText
  imports Codec TextNum
begin

text \<open>
  Messages as text: the formats of \<^verbatim>\<open>lib/msg-format.h\<close>, the printer of \<^verbatim>\<open>lib/msg-printer.c\<close> and
  the reader of \<^verbatim>\<open>lib/msg-reader.c\<close>.

  A format is the text in front of one conversion, with the conversion. What \<^verbatim>\<open>fscanf\<close> leaves in
  the stream when it fails is not part of the model: the reader returns the rest of the input
  when it succeeds.
\<close>

section \<open>Formats\<close>

text \<open>The conversions \<^verbatim>\<open>%u\<close> and \<^verbatim>\<open>%x\<close> with the width of their argument.\<close>

datatype conversion = Dec nat | Hex nat

type_synonym fmt = "string \<times> conversion"

definition NEXUS_FMT_SRC :: fmt where "NEXUS_FMT_SRC = ('' Src='', Dec 32)"
definition NEXUS_FMT_TIMESTAMP :: fmt where "NEXUS_FMT_TIMESTAMP = ('' Time='', Dec 64)"
definition NEXUS_FMT_TCODE :: fmt where "NEXUS_FMT_TCODE = ('' TCODE='', Dec 32)"
definition NEXUS_FMT_OWNER_FORMAT :: fmt where "NEXUS_FMT_OWNER_FORMAT = ('' FORMAT='', Dec 32)"
definition NEXUS_FMT_OWNER_PRV :: fmt where "NEXUS_FMT_OWNER_PRV = ('' PRV='', Dec 32)"
definition NEXUS_FMT_OWNER_V :: fmt where "NEXUS_FMT_OWNER_V = ('' V='', Dec 32)"
definition NEXUS_FMT_OWNER_CONTEXT :: fmt where "NEXUS_FMT_OWNER_CONTEXT = ('' CONTEXT=0x'', Hex 64)"
definition NEXUS_FMT_ERROR_ETYPE :: fmt where "NEXUS_FMT_ERROR_ETYPE = ('' ETYPE='', Dec 32)"
definition NEXUS_FMT_ERROR_ECODE :: fmt where "NEXUS_FMT_ERROR_ECODE = ('' ECODE=0x'', Hex 32)"
definition NEXUS_FMT_DA_IDTAG :: fmt where "NEXUS_FMT_DA_IDTAG = ('' IDTAG='', Dec 32)"
definition NEXUS_FMT_DA_DQDATA :: fmt where "NEXUS_FMT_DA_DQDATA = ('' DQDATA=0x'', Hex 64)"
definition NEXUS_FMT_ICNT :: fmt where "NEXUS_FMT_ICNT = ('' ICNT='', Dec 32)"
definition NEXUS_FMT_SYNC :: fmt where "NEXUS_FMT_SYNC = ('' SYNC='', Dec 32)"
definition NEXUS_FMT_BTYPE :: fmt where "NEXUS_FMT_BTYPE = ('' BTYPE='', Dec 32)"
definition NEXUS_FMT_XADDR :: fmt where "NEXUS_FMT_XADDR = ('' XADDR=0x'', Hex 64)"
definition NEXUS_FMT_HIST :: fmt where "NEXUS_FMT_HIST = ('' HIST=0x'', Hex 32)"
definition NEXUS_FMT_RCODE :: fmt where "NEXUS_FMT_RCODE = ('' RCODE='', Dec 32)"
definition NEXUS_FMT_RDATA :: fmt where "NEXUS_FMT_RDATA = ('' RDATA=0x'', Hex 32)"
definition NEXUS_FMT_HREPEAT :: fmt where "NEXUS_FMT_HREPEAT = ('' HREPEAT='', Dec 32)"
definition NEXUS_FMT_EVCODE :: fmt where "NEXUS_FMT_EVCODE = ('' EVCODE='', Dec 32)"
definition NEXUS_FMT_CDF :: fmt where "NEXUS_FMT_CDF = ('' CDF='', Dec 32)"
definition NEXUS_FMT_CKSRC :: fmt where "NEXUS_FMT_CKSRC = ('' CKSRC='', Dec 32)"
definition NEXUS_FMT_CKDF :: fmt where "NEXUS_FMT_CKDF = ('' CKDF='', Dec 32)"
definition NEXUS_FMT_CKDATA0 :: fmt where "NEXUS_FMT_CKDATA0 = ('' CKDATA0=0x'', Hex 64)"
definition NEXUS_FMT_CKDATA1 :: fmt where "NEXUS_FMT_CKDATA1 = ('' CKDATA1=0x'', Hex 64)"

lemmas fmt_defs =
  NEXUS_FMT_SRC_def NEXUS_FMT_TIMESTAMP_def NEXUS_FMT_TCODE_def NEXUS_FMT_OWNER_FORMAT_def
  NEXUS_FMT_OWNER_PRV_def NEXUS_FMT_OWNER_V_def NEXUS_FMT_OWNER_CONTEXT_def NEXUS_FMT_ERROR_ETYPE_def
  NEXUS_FMT_ERROR_ECODE_def NEXUS_FMT_DA_IDTAG_def NEXUS_FMT_DA_DQDATA_def NEXUS_FMT_ICNT_def
  NEXUS_FMT_SYNC_def NEXUS_FMT_BTYPE_def NEXUS_FMT_XADDR_def NEXUS_FMT_HIST_def NEXUS_FMT_RCODE_def
  NEXUS_FMT_RDATA_def NEXUS_FMT_HREPEAT_def NEXUS_FMT_EVCODE_def NEXUS_FMT_CDF_def
  NEXUS_FMT_CKSRC_def NEXUS_FMT_CKDF_def NEXUS_FMT_CKDATA0_def NEXUS_FMT_CKDATA1_def

fun conv_base :: "conversion \<Rightarrow> int" where
  "conv_base (Dec w) = 10"
| "conv_base (Hex w) = 16"

fun conv_width :: "conversion \<Rightarrow> nat" where
  "conv_width (Dec w) = w"
| "conv_width (Hex w) = w"

definition printf_field :: "fmt \<Rightarrow> u64 \<Rightarrow> string" where
  "printf_field f v = fst f @ show_base (conv_base (snd f)) (uint v)"

text \<open>White space in a format skips any amount of it; another character has to be there.\<close>

fun scan_label :: "string \<Rightarrow> string \<Rightarrow> string option" where
  "scan_label [] s = Some s"
| "scan_label (l # ls) s =
     (if isspace l then scan_label ls (skip_space s)
      else case s of [] \<Rightarrow> None | c # cs \<Rightarrow> if c = l then scan_label ls cs else None)"

text \<open>A conversion to base 16 accepts the prefix of a hexadecimal literal once more.\<close>

definition strip_0x :: "string \<Rightarrow> string" where
  "strip_0x s = (if take 2 s = ''0x'' \<or> take 2 s = ''0X'' then drop 2 s else s)"

definition conv_strip :: "conversion \<Rightarrow> string \<Rightarrow> string" where
  "conv_strip k s = (case k of Dec w \<Rightarrow> s | Hex w \<Rightarrow> strip_0x s)"

text \<open>A number that does not fit the argument has no defined result.\<close>

definition fscanf_field :: "fmt \<Rightarrow> string \<Rightarrow> (u64 \<times> string) result" where
  "fscanf_field f s =
     (case scan_label (fst f) s of
        None \<Rightarrow> Inl (Code nexus_msg_missing_field)
      | Some u \<Rightarrow>
          (case scan_number (conv_base (snd f)) (conv_strip (snd f)) u of
             None \<Rightarrow> Inl (Code nexus_msg_missing_field)
           | Some (n, rest) \<Rightarrow>
               if \<bar>n\<bar> < 2 ^ conv_width (snd f) then Inr (take_bit (conv_width (snd f)) (word_of_int n), rest)
               else Inl Undef))"

section \<open>The printer\<close>

text \<open>
  The output stream: the text written, and which of the coming calls of \<^verbatim>\<open>fprintf\<close> succeed (all
  of them after the end of the list). A failing call returns a negative number, which the
  printer returns at once.
\<close>

record ofile =
  of_text :: string
  of_calls :: "bool list"

type_synonym 'a printer = "(ofile, int, 'a) comp"

definition CHECK_PRINTF :: "string \<Rightarrow> int printer" where
  "CHECK_PRINTF txt = (\<lambda>f.
     case of_calls f of
       [] \<Rightarrow> (Inr (int (length txt)), f\<lparr>of_text := of_text f @ txt\<rparr>)
     | ok # rest \<Rightarrow>
         if ok then (Inr (int (length txt)), f\<lparr>of_text := of_text f @ txt, of_calls := rest\<rparr>)
         else (Inl (- 1), f\<lparr>of_calls := rest\<rparr>))"

text \<open>The calls in their order; the result is the number of characters of all of them.\<close>

fun print_calls :: "string list \<Rightarrow> int printer" where
  "print_calls [] = retS 0"
| "print_calls (txt # txts) =
     bindS (CHECK_PRINTF txt) (\<lambda>n. bindS (print_calls txts) (\<lambda>k. retS (n + k)))"

definition head_texts :: "nexusrv_msg \<Rightarrow> string list" where
  "head_texts m =
     [nexusrv_tcode_str (tcode m) @ printf_field NEXUS_FMT_TIMESTAMP (timestamp m) @
        printf_field NEXUS_FMT_TCODE (ucast (tcode m))] @
     (if nexusrv_msg_has_src m then [printf_field NEXUS_FMT_SRC (ucast (src m))] else [])"

definition branch_texts :: "nexusrv_msg \<Rightarrow> string list" where
  "branch_texts m =
     (if nexusrv_msg_is_sync m then [printf_field NEXUS_FMT_SYNC (ucast (sync_type m))] else []) @
     (if nexusrv_msg_is_indir_branch m then [printf_field NEXUS_FMT_BTYPE (ucast (branch_type m))] else []) @
     (if nexusrv_msg_has_icnt m then [printf_field NEXUS_FMT_ICNT (ucast (icnt m))] else []) @
     (if nexusrv_msg_has_xaddr m then [printf_field NEXUS_FMT_XADDR (xaddr m)] else []) @
     (if nexusrv_msg_has_hist m then [printf_field NEXUS_FMT_HIST (ucast (hist m))] else [])"

definition rest_texts :: "nexusrv_msg \<Rightarrow> string list" where
  "rest_texts m =
     (if tcode m = TCODE_Ownership then
        [printf_field NEXUS_FMT_OWNER_FORMAT (ucast (ownership_fmt m)) @
         printf_field NEXUS_FMT_OWNER_PRV (ucast (ownership_priv m)) @
         printf_field NEXUS_FMT_OWNER_V (ucast (ownership_v m)) @
         printf_field NEXUS_FMT_OWNER_CONTEXT (context_field m)]
      else if tcode m = TCODE_Error then
        [printf_field NEXUS_FMT_ERROR_ETYPE (ucast (error_type m)) @
         printf_field NEXUS_FMT_ERROR_ECODE (ucast (error_code m))]
      else if tcode m = TCODE_DataAcquisition then
        [printf_field NEXUS_FMT_DA_IDTAG (ucast (idtag m)) @ printf_field NEXUS_FMT_DA_DQDATA (dqdata m)]
      else if tcode m = TCODE_ResourceFull then
        printf_field NEXUS_FMT_RCODE (ucast (res_code m)) #
        (if res_code m > 2 then [printf_field NEXUS_FMT_RDATA (ucast (res_data m))]
         else if res_code m = 0 then [printf_field NEXUS_FMT_ICNT (ucast (icnt m))]
         else if res_code m = 1 then [printf_field NEXUS_FMT_HIST (ucast (hist m))]
         else if res_code m = 2 then
           [printf_field NEXUS_FMT_HIST (ucast (hist m)), printf_field NEXUS_FMT_HREPEAT (ucast (hrepeat m))]
         else [])
      else if tcode m = TCODE_RepeatBranch then [printf_field NEXUS_FMT_HREPEAT (ucast (hrepeat m))]
      else if tcode m = TCODE_ProgTraceCorrelation then
        [printf_field NEXUS_FMT_EVCODE (ucast (stop_code m)) @ printf_field NEXUS_FMT_CDF (ucast (cdf m)) @
           printf_field NEXUS_FMT_ICNT (ucast (icnt m))] @
        (if cdf m = 1 then [printf_field NEXUS_FMT_HIST (ucast (hist m))] else [])
      else if tcode m = TCODE_ICT then
        [printf_field NEXUS_FMT_CKSRC (ucast (cksrc m)) @ printf_field NEXUS_FMT_CKDF (ucast (ckdf m)) @
           printf_field NEXUS_FMT_CKDATA0 (ckdata0 m)] @
        (if ckdf m > 0 then [printf_field NEXUS_FMT_CKDATA1 (ckdata1 m)] else [])
      else [])"

definition msg_texts :: "nexusrv_msg \<Rightarrow> string list" where
  "msg_texts m =
     head_texts m @
     (if tcode m = TCODE_Idle then []
      else if tcode m \<in> set [TCODE_Ownership, TCODE_Error, TCODE_DataAcquisition, TCODE_ResourceFull,
                TCODE_RepeatBranch, TCODE_ProgTraceCorrelation, TCODE_ICT]
      then rest_texts m
      else branch_texts m)"

definition nexusrv_print_msg :: "nexusrv_msg \<Rightarrow> int printer" where
  "nexusrv_print_msg m = print_calls (msg_texts m)"

section \<open>The reader\<close>

record reader =
  rd_in :: string
  rd_msg :: nexusrv_msg

type_synonym 'a read = "(reader, 'a) proc"

definition CHECK_SCANF :: "fmt \<Rightarrow> (u64 \<Rightarrow> nexusrv_msg \<Rightarrow> nexusrv_msg) \<Rightarrow> unit read" where
  "CHECK_SCANF f upd = (\<lambda>s.
     case fscanf_field f (rd_in s) of
       Inl e \<Rightarrow> (Inl e, s)
     | Inr (v, rest) \<Rightarrow> (Inr (), s\<lparr>rd_in := rest, rd_msg := upd v (rd_msg s)\<rparr>))"

definition assign :: "(nexusrv_msg \<Rightarrow> nexusrv_msg) \<Rightarrow> unit read" where
  "assign f = modS (\<lambda>s. s\<lparr>rd_msg := f (rd_msg s)\<rparr>)"

definition when_msg :: "(nexusrv_msg \<Rightarrow> bool) \<Rightarrow> unit read \<Rightarrow> unit read" where
  "when_msg p act = bindS (readS rd_msg) (\<lambda>m. whenS (p m) act)"

definition read_branch :: "unit read" where
  "read_branch =
     thenS (when_msg nexusrv_msg_is_sync (CHECK_SCANF NEXUS_FMT_SYNC set_sync_type))
    (thenS (when_msg nexusrv_msg_is_indir_branch (CHECK_SCANF NEXUS_FMT_BTYPE set_branch_type))
    (thenS (bindS (readS rd_msg) (\<lambda>m. assertS (nexusrv_msg_has_icnt m)))
    (thenS (assign (set_hrepeat 0))
    (thenS (CHECK_SCANF NEXUS_FMT_ICNT set_icnt)
    (thenS (when_msg nexusrv_msg_has_xaddr (CHECK_SCANF NEXUS_FMT_XADDR set_xaddr))
           (when_msg nexusrv_msg_has_hist (CHECK_SCANF NEXUS_FMT_HIST set_hist)))))))"

definition clear_counts :: "nexusrv_msg \<Rightarrow> nexusrv_msg" where
  "clear_counts m = set_hrepeat 0 (set_hist 0 (set_icnt 0 m))"

definition read_resource :: "unit read" where
  "read_resource =
     thenS (CHECK_SCANF NEXUS_FMT_RCODE set_res_code)
    (bindS (readS rd_msg) (\<lambda>m.
       if res_code m > 2 then CHECK_SCANF NEXUS_FMT_RDATA set_res_data
       else
         thenS (assign clear_counts)
        (if res_code m = 0 then CHECK_SCANF NEXUS_FMT_ICNT set_icnt
         else if res_code m = 1 then CHECK_SCANF NEXUS_FMT_HIST set_hist
         else if res_code m = 2 then
           thenS (CHECK_SCANF NEXUS_FMT_HIST set_hist) (CHECK_SCANF NEXUS_FMT_HREPEAT set_hrepeat)
         else retS ())))"

definition read_correlation :: "unit read" where
  "read_correlation =
     thenS (assign clear_counts)
    (thenS (CHECK_SCANF NEXUS_FMT_EVCODE set_stop_code)
    (thenS (CHECK_SCANF NEXUS_FMT_CDF set_cdf)
    (thenS (CHECK_SCANF NEXUS_FMT_ICNT set_icnt)
           (when_msg (\<lambda>m. cdf m = 1) (CHECK_SCANF NEXUS_FMT_HIST set_hist)))))"

definition read_ict :: "unit read" where
  "read_ict =
     thenS (CHECK_SCANF NEXUS_FMT_CKSRC set_cksrc)
    (thenS (CHECK_SCANF NEXUS_FMT_CKDF set_ckdf)
    (thenS (CHECK_SCANF NEXUS_FMT_CKDATA0 set_ckdata0)
           (when_msg (\<lambda>m. ckdf m > 0) (CHECK_SCANF NEXUS_FMT_CKDATA1 set_ckdata1))))"

definition read_ownership :: "unit read" where
  "read_ownership =
     thenS (CHECK_SCANF NEXUS_FMT_OWNER_FORMAT set_ownership_fmt)
    (thenS (CHECK_SCANF NEXUS_FMT_OWNER_PRV set_ownership_priv)
    (thenS (CHECK_SCANF NEXUS_FMT_OWNER_V set_ownership_v)
           (CHECK_SCANF NEXUS_FMT_OWNER_CONTEXT set_context)))"

definition read_rest :: "u8 \<Rightarrow> unit read" where
  "read_rest tc =
     (if tc = TCODE_Ownership then read_ownership
      else if tc = TCODE_Error then
        thenS (CHECK_SCANF NEXUS_FMT_ERROR_ETYPE set_error_type) (CHECK_SCANF NEXUS_FMT_ERROR_ECODE set_error_code)
      else if tc = TCODE_ResourceFull then read_resource
      else if tc = TCODE_RepeatBranch then CHECK_SCANF NEXUS_FMT_HREPEAT set_hrepeat
      else if tc = TCODE_ProgTraceCorrelation then read_correlation
      else if tc = TCODE_ICT then read_ict
      else retS ())"

definition read_fields :: "unit read" where
  "read_fields =
     thenS (CHECK_SCANF NEXUS_FMT_TIMESTAMP set_timestamp)
    (thenS (CHECK_SCANF NEXUS_FMT_TCODE set_tcode)
    (bindS (readS (\<lambda>s. tcode (rd_msg s))) (\<lambda>tc.
       if tc = TCODE_Idle then retS ()
       else
         thenS (CHECK_SCANF NEXUS_FMT_SRC set_src)
        (if tc \<in> set [TCODE_DirectBranch, TCODE_DirectBranchSync, TCODE_IndirectBranch,
               TCODE_IndirectBranchSync, TCODE_IndirectBranchHist, TCODE_IndirectBranchHistSync,
               TCODE_ProgTraceSync]
         then read_branch else read_rest tc))))"

text \<open>The rest of the input, or the fault, and the caller's message.\<close>

definition nexusrv_read_msg :: "string \<Rightarrow> nexusrv_msg \<Rightarrow> string result \<times> nexusrv_msg" where
  "nexusrv_read_msg inp m =
     (case read_fields \<lparr>rd_in = inp, rd_msg = m\<rparr> of
        (Inl e, s) \<Rightarrow> (Inl e, rd_msg s)
      | (Inr _, s) \<Rightarrow> (Inr (rd_in s), rd_msg s))"

end
