(* ===== verification/MsgTextProps.thy ===== *)
theory MsgTextProps
  imports MsgText
begin

text \<open>
  Printing a message and reading the text back.
\<close>

section \<open>One field\<close>

definition fmt_ok :: "fmt \<Rightarrow> bool" where
  "fmt_ok f \<longleftrightarrow> (case fst f of [] \<Rightarrow> False | c # cs \<Rightarrow> isspace c \<and> cs \<noteq> [] \<and> (\<forall>d \<in> set cs. \<not> isspace d))
     \<and> conv_width (snd f) \<le> 64"

definition fmt_fits :: "fmt \<Rightarrow> u64 \<Rightarrow> bool" where
  "fmt_fits f v \<longleftrightarrow> uint v < 2 ^ conv_width (snd f)"

definition field_end :: "string \<Rightarrow> bool" where
  "field_end s = (case s of [] \<Rightarrow> True | c # _ \<Rightarrow> isspace c)"

lemma field_end_number: "field_end s \<Longrightarrow> ends_number b s"
  by (cases s) (auto simp: field_end_def ends_number_def dest: digit_not_special(1))

lemma conv_base_range: "2 \<le> conv_base k" "conv_base k \<le> 16"
  by (cases k; simp)+

lemma scan_label_same:
  "\<forall>d \<in> set cs. \<not> isspace d \<Longrightarrow> scan_label cs (cs @ s) = Some s"
  by (induction cs) auto

lemma strip_show: "field_end s \<Longrightarrow> conv_strip k (show_base (conv_base k) (uint v) @ s) = show_base (conv_base k) (uint v) @ s"
proof (cases k)
  case (Hex w)
  assume s: "field_end s"
  obtain c cs where e: "show_base 16 (uint v) = c # cs" by (metis show_base_nonempty list.exhaust)
  show ?thesis
  proof (cases "v = 0")
    case True
    with s show ?thesis
      by (cases s) (auto simp: Hex conv_strip_def strip_0x_def show_base_0 field_end_def isspace_def)
  next
    case False
    then have "0 < uint v" by (simp add: word_neq_0_conv word_less_def)
    then have "c \<noteq> CHR ''0''" using show_base_hd [of 16 "uint v"] e by simp
    then show ?thesis by (auto simp: Hex conv_strip_def strip_0x_def e)
  qed
qed (simp add: conv_strip_def)

lemma take_bit_fits:
  assumes "uint v < 2 ^ n" shows "take_bit n (v :: u64) = v"
proof -
  have "uint (take_bit n v) = take_bit n (uint v)" by (simp add: unsigned_take_bit_eq)
  also have "\<dots> = uint v" using assms by (simp add: take_bit_int_eq_self)
  finally show ?thesis by (simp add: word_uint_eq_iff)
qed

lemma scan_printed:
  assumes f: "fmt_ok f" and v: "fmt_fits f v" and s: "field_end s"
  shows "fscanf_field f (printf_field f v @ s) = Inr (v, s)"
proof -
  let ?b = "conv_base (snd f)"
  let ?n = "show_base ?b (uint v) @ s"
  obtain c cs where lab: "fst f = c # cs" "isspace c" "cs \<noteq> []" "\<forall>d \<in> set cs. \<not> isspace d"
    using f by (auto simp: fmt_ok_def split: list.splits)
  have "skip_space (c # cs @ ?n) = cs @ ?n"
    using lab by (cases cs) (auto simp: skip_space_def)
  then have "scan_label (fst f) (fst f @ ?n) = Some ?n"
    using lab scan_label_same [OF lab(4), of ?n] by simp
  moreover have "scan_number ?b (conv_strip (snd f)) ?n = Some (uint v, s)"
    using s by (intro scan_number_show conv_base_range field_end_number strip_show) simp_all
  ultimately show ?thesis
    using v take_bit_fits [of v "conv_width (snd f)"]
    by (simp add: fscanf_field_def printf_field_def fmt_fits_def)
qed

lemma fmt_ok_all [simp]:
  "fmt_ok NEXUS_FMT_SRC" "fmt_ok NEXUS_FMT_TIMESTAMP" "fmt_ok NEXUS_FMT_TCODE"
  "fmt_ok NEXUS_FMT_OWNER_FORMAT" "fmt_ok NEXUS_FMT_OWNER_PRV" "fmt_ok NEXUS_FMT_OWNER_V"
  "fmt_ok NEXUS_FMT_OWNER_CONTEXT" "fmt_ok NEXUS_FMT_ERROR_ETYPE" "fmt_ok NEXUS_FMT_ERROR_ECODE"
  "fmt_ok NEXUS_FMT_ICNT" "fmt_ok NEXUS_FMT_SYNC" "fmt_ok NEXUS_FMT_BTYPE" "fmt_ok NEXUS_FMT_XADDR"
  "fmt_ok NEXUS_FMT_HIST" "fmt_ok NEXUS_FMT_RCODE" "fmt_ok NEXUS_FMT_RDATA" "fmt_ok NEXUS_FMT_HREPEAT"
  "fmt_ok NEXUS_FMT_EVCODE" "fmt_ok NEXUS_FMT_CDF" "fmt_ok NEXUS_FMT_CKSRC" "fmt_ok NEXUS_FMT_CKDF"
  "fmt_ok NEXUS_FMT_DA_IDTAG" "fmt_ok NEXUS_FMT_DA_DQDATA" "fmt_ok NEXUS_FMT_CKDATA0" "fmt_ok NEXUS_FMT_CKDATA1"
  by (simp_all add: fmt_ok_def fmt_defs isspace_def)

lemma fmt_fits_wide:
  "fmt_fits NEXUS_FMT_TIMESTAMP v" "fmt_fits NEXUS_FMT_OWNER_CONTEXT v" "fmt_fits NEXUS_FMT_XADDR v"
  "fmt_fits NEXUS_FMT_CKDATA0 v" "fmt_fits NEXUS_FMT_CKDATA1 v"
  using uint_lt2p [of v] by (simp_all add: fmt_fits_def fmt_defs)

lemma fmt_fits_narrow:
  assumes "LENGTH('a) \<le> 32" and "32 \<le> conv_width (snd f)"
  shows "fmt_fits f (ucast (v :: 'a::len word))"
proof -
  have "uint v < 2 ^ LENGTH('a)" by (rule uint_lt2p)
  also have "(2 :: int) ^ LENGTH('a) \<le> 2 ^ conv_width (snd f)" using assms by (intro power_increasing) simp_all
  finally have "uint v < 2 ^ conv_width (snd f)" .
  moreover have "uint (ucast v :: u64) = uint v"
    using assms(1) by (intro uint_up_ucast) (simp add: is_up)
  ultimately show ?thesis by (simp add: fmt_fits_def)
qed

lemma field_end_field [simp]: "fmt_ok f \<Longrightarrow> field_end (printf_field f v @ s)"
  by (auto simp: fmt_ok_def field_end_def printf_field_def split: list.splits)

lemma check_scanf_printed:
  assumes "fmt_ok f" "fmt_fits f v" "field_end s"
  shows "CHECK_SCANF f upd \<lparr>rd_in = printf_field f v @ s, rd_msg = m\<rparr> =
    (Inr (), \<lparr>rd_in = s, rd_msg = upd v m\<rparr>)"
  using scan_printed [OF assms] by (simp add: CHECK_SCANF_def)

section \<open>A whole message\<close>

text \<open>The text behind the name of the message.\<close>

definition fields_text :: "nexusrv_msg \<Rightarrow> string" where
  "fields_text m = drop (length (nexusrv_tcode_str (tcode m))) (concat (msg_texts m))"

lemma narrow_all [simp]:
  "fmt_fits NEXUS_FMT_SRC (ucast (a :: u16))" "fmt_fits NEXUS_FMT_TCODE (ucast (b :: u8))"
  "fmt_fits NEXUS_FMT_OWNER_FORMAT (ucast b)" "fmt_fits NEXUS_FMT_OWNER_PRV (ucast b)"
  "fmt_fits NEXUS_FMT_OWNER_V (ucast b)" "fmt_fits NEXUS_FMT_ERROR_ETYPE (ucast b)"
  "fmt_fits NEXUS_FMT_ERROR_ECODE (ucast (c :: u32))" "fmt_fits NEXUS_FMT_ICNT (ucast c)"
  "fmt_fits NEXUS_FMT_SYNC (ucast b)" "fmt_fits NEXUS_FMT_BTYPE (ucast b)"
  "fmt_fits NEXUS_FMT_HIST (ucast c)" "fmt_fits NEXUS_FMT_RCODE (ucast b)"
  "fmt_fits NEXUS_FMT_RDATA (ucast c)" "fmt_fits NEXUS_FMT_HREPEAT (ucast c)"
  "fmt_fits NEXUS_FMT_EVCODE (ucast b)" "fmt_fits NEXUS_FMT_CDF (ucast b)"
  "fmt_fits NEXUS_FMT_CKSRC (ucast b)" "fmt_fits NEXUS_FMT_CKDF (ucast b)"
  by (rule fmt_fits_narrow; simp add: fmt_defs)+

lemma fits_1:
  "fmt_fits NEXUS_FMT_CDF 1" "fmt_fits NEXUS_FMT_RCODE 0" "fmt_fits NEXUS_FMT_RCODE 1" "fmt_fits NEXUS_FMT_RCODE 2"
  "fmt_fits NEXUS_FMT_TCODE 63"
  by (simp_all add: fmt_fits_def fmt_defs)

lemmas scan_steps = check_scanf_printed fmt_fits_wide field_end_field

lemma take_bit_field: "take_bit n (bf_get i n b) = bf_get i n b"
  by (simp add: bf_get_def)

lemma take_bit_field_1: "bf_get i (Suc 0) b mod 2 = bf_get i (Suc 0) b"
  using take_bit_field [of 1 i b] by (simp add: take_bit_eq_mod)

lemma ucast_back:
  "ucast (ucast (v :: u32) :: u64) = v" "ucast (ucast (w :: u16) :: u64) = w" "ucast (ucast (x :: u8) :: u64) = x"
  by (rule bit_word_eqI; auto simp: bit_ucast_iff dest: bit_imp_le_length)+

lemmas field_agree = take_bit_field_1 ucast_back same_fields_def msg_preds field_readers field_writers bf_get_set_same bf_get_set_other
  take_bit_field

lemmas read_parts = read_branch_def branch_texts_def read_rest_def rest_texts_def read_resource_def
  read_correlation_def read_ict_def read_ownership_def when_msg_def assign_def clear_counts_def

lemma read_branch_printed:
  assumes m: "tcode m \<in> set [TCODE_DirectBranch, TCODE_DirectBranchSync, TCODE_IndirectBranch,
      TCODE_IndirectBranchSync, TCODE_IndirectBranchHist, TCODE_IndirectBranchHistSync, TCODE_ProgTraceSync]"
    and t: "tcode m0 = tcode m" "src m0 = src m" "timestamp m0 = timestamp m" and s: "field_end s"
  shows "\<exists>m1. read_branch \<lparr>rd_in = concat (branch_texts m) @ s, rd_msg = m0\<rparr> =
      (Inr (), \<lparr>rd_in = s, rd_msg = m1\<rparr>) \<and> same_fields cfg m m1 \<and> timestamp m1 = timestamp m"
  using m t(1) unfolding list.set insert_iff empty_iff
  by (elim disjE)
    (simp_all add: read_parts msg_preds scan_steps s comp_simps, simp_all add: field_agree t)

lemma small_codes:
  "\<not> 2 < res_code m \<Longrightarrow> res_code m = 0 \<or> res_code m = 1 \<or> res_code m = 2"
  by unat_arith

lemma read_rest_printed:
  assumes m: "tcode m \<in> set [TCODE_Ownership, TCODE_Error, TCODE_RepeatBranch]"
    and t: "tcode m0 = tcode m" "src m0 = src m" "timestamp m0 = timestamp m" and s: "field_end s"
  shows "\<exists>m1. read_rest (tcode m) \<lparr>rd_in = concat (rest_texts m) @ s, rd_msg = m0\<rparr> =
      (Inr (), \<lparr>rd_in = s, rd_msg = m1\<rparr>) \<and> same_fields cfg m m1 \<and> timestamp m1 = timestamp m"
  using m t(1) unfolding list.set insert_iff empty_iff
  by (elim disjE)
    (simp_all add: read_parts msg_preds scan_steps s comp_simps, simp_all add: field_agree t)

lemma read_resource_printed:
  assumes m: "tcode m = TCODE_ResourceFull"
    and t: "tcode m0 = tcode m" "src m0 = src m" "timestamp m0 = timestamp m" and s: "field_end s"
  shows "\<exists>m1. read_resource \<lparr>rd_in = concat (rest_texts m) @ s, rd_msg = m0\<rparr> =
      (Inr (), \<lparr>rd_in = s, rd_msg = m1\<rparr>) \<and> same_fields cfg m m1 \<and> timestamp m1 = timestamp m"
proof -
  have rc: "res_code (set_res_code (ucast (res_code m)) m0) = res_code m"
    by (simp add: field_agree)
  show ?thesis
  proof (cases "2 < res_code m")
    case True
    then have "res_code m \<noteq> 0" "res_code m \<noteq> 1" "res_code m \<noteq> 2" by auto
    with True m t rc show ?thesis
      by (simp add: read_parts scan_steps s comp_simps) (simp add: field_agree)
  next
    case False
    from small_codes [OF this] show ?thesis
      using m t rc
      by (elim disjE)
       (simp_all add: read_parts scan_steps fits_1 s comp_simps, simp_all add: field_agree)
  qed
qed

lemma read_correlation_printed:
  assumes m: "tcode m = TCODE_ProgTraceCorrelation"
    and t: "tcode m0 = tcode m" "src m0 = src m" "timestamp m0 = timestamp m" and s: "field_end s"
  shows "\<exists>m1. read_correlation \<lparr>rd_in = concat (rest_texts m) @ s, rd_msg = m0\<rparr> =
      (Inr (), \<lparr>rd_in = s, rd_msg = m1\<rparr>) \<and> same_fields cfg m m1 \<and> timestamp m1 = timestamp m"
proof -
  have rc: "cdf (set_icnt a (set_cdf (ucast (cdf m)) b)) = cdf m" for a b
    by (simp add: field_agree)
  show ?thesis
    using m t rc
    by (cases "cdf m = 1")
      (simp_all add: read_parts scan_steps fits_1 s comp_simps, simp_all add: field_agree)
qed

lemma read_ict_printed:
  assumes m: "tcode m = TCODE_ICT" "0 < ckdf m"
    and t: "tcode m0 = tcode m" "src m0 = src m" "timestamp m0 = timestamp m" and s: "field_end s"
  shows "\<exists>m1. read_ict \<lparr>rd_in = concat (rest_texts m) @ s, rd_msg = m0\<rparr> =
      (Inr (), \<lparr>rd_in = s, rd_msg = m1\<rparr>) \<and> same_fields cfg m m1 \<and> timestamp m1 = timestamp m"
proof -
  have rc: "ckdf (set_ckdata0 a (set_ckdf (ucast (ckdf m)) b)) = ckdf m" for a b
    by (simp add: field_agree)
  have data0: "ckdata0 (set_dword1 b (set_ckdata0 a m')) = a" for a b m'
    using ckdata0_set_ckdata0 [of a m'] by (simp add: ckdata0_def set_dword1_def)
  have rest: "tagbits (set_ckdata0 a m') = tagbits m'" "src (set_ckdata0 a m') = src m'"
    "timestamp (set_ckdata0 a m') = timestamp m'" for a m'
    by (simp_all add: set_ckdata0_def)
  have keep: "ckdata0 (m'\<lparr>dword1 := b\<rparr>) = ckdata0 m'" for b m'
    by (simp add: ckdata0_def)
  show ?thesis
    using m t rc
    by (simp add: read_parts scan_steps s comp_simps)
      (simp add: field_agree data0 keep rest del: ckdata0_def set_ckdata0_def)
qed

lemma concat_msg_texts: "concat (msg_texts m) = nexusrv_tcode_str (tcode m) @ fields_text m"
  by (simp add: fields_text_def msg_texts_def head_texts_def)

lemma print_calls_all:
  "print_calls txts \<lparr>of_text = out, of_calls = []\<rparr> =
    (Inr (int (length (concat txts))), \<lparr>of_text = out @ concat txts, of_calls = []\<rparr>)"
  by (induction txts arbitrary: out) (simp_all add: CHECK_PRINTF_def comp_simps)

lemma branch_texts_other:
  "tcode m \<notin> set [TCODE_DirectBranch, TCODE_DirectBranchSync, TCODE_IndirectBranch,
      TCODE_IndirectBranchSync, TCODE_IndirectBranchHist, TCODE_IndirectBranchHistSync, TCODE_ProgTraceSync,
      TCODE_ResourceFull, TCODE_ProgTraceCorrelation] \<Longrightarrow> branch_texts m = []"
  by (simp add: branch_texts_def msg_preds)

definition body_texts :: "nexusrv_msg \<Rightarrow> string list" where
  "body_texts m =
     (if tcode m \<in> set [TCODE_Ownership, TCODE_Error, TCODE_DataAcquisition, TCODE_ResourceFull,
           TCODE_RepeatBranch, TCODE_ProgTraceCorrelation, TCODE_ICT]
      then rest_texts m else branch_texts m)"

lemma read_body_printed:
  assumes "tcode m \<noteq> TCODE_DataAcquisition" "tcode m = TCODE_ICT \<longrightarrow> 0 < ckdf m" "tcode m \<noteq> TCODE_Idle"
    and t: "tcode m0 = tcode m" "src m0 = src m" "timestamp m0 = timestamp m" and s: "field_end s"
  shows "\<exists>m1. (if tcode m \<in> set [TCODE_DirectBranch, TCODE_DirectBranchSync, TCODE_IndirectBranch,
               TCODE_IndirectBranchSync, TCODE_IndirectBranchHist, TCODE_IndirectBranchHistSync,
               TCODE_ProgTraceSync]
         then read_branch else read_rest (tcode m)) \<lparr>rd_in = concat (body_texts m) @ s, rd_msg = m0\<rparr> =
      (Inr (), \<lparr>rd_in = s, rd_msg = m1\<rparr>) \<and> same_fields cfg m m1 \<and> timestamp m1 = timestamp m"
proof -
  let ?B = "{TCODE_DirectBranch, TCODE_DirectBranchSync, TCODE_IndirectBranch,
    TCODE_IndirectBranchSync, TCODE_IndirectBranchHist, TCODE_IndirectBranchHistSync, TCODE_ProgTraceSync}"
  consider "tcode m \<in> ?B" | "tcode m \<in> {TCODE_Ownership, TCODE_Error, TCODE_RepeatBranch}"
    | "tcode m = TCODE_ResourceFull" | "tcode m = TCODE_ProgTraceCorrelation" | "tcode m = TCODE_ICT"
    | "tcode m \<notin> ?B \<union> {TCODE_Ownership, TCODE_Error, TCODE_RepeatBranch, TCODE_ResourceFull,
         TCODE_ProgTraceCorrelation, TCODE_ICT}" by blast
  then show ?thesis
  proof cases
    case 1
    then have "body_texts m = branch_texts m" by (auto simp: body_texts_def)
    with 1 read_branch_printed [OF _ t s, of cfg] show ?thesis by simp
  next
    case 2
    then have "body_texts m = rest_texts m" "tcode m \<notin> ?B" by (auto simp: body_texts_def)
    with 2 read_rest_printed [OF _ t s, of cfg] show ?thesis by (simp del: insert_iff)
  next
    case 3
    with read_resource_printed [OF _ t s, of cfg] show ?thesis by (simp add: body_texts_def read_rest_def)
  next
    case 4
    with read_correlation_printed [OF _ t s, of cfg] show ?thesis by (simp add: body_texts_def read_rest_def)
  next
    case 5
    with read_ict_printed [OF _ _ t s, of cfg] assms(2) show ?thesis by (simp add: body_texts_def read_rest_def)
  next
    case 6
    with assms(1) have "body_texts m = []" by (simp add: body_texts_def branch_texts_other)
    with 6 t show ?thesis by (simp add: read_rest_def comp_simps same_fields_def msg_preds)
  qed
qed

lemma read_printed:
  assumes "tcode m \<noteq> TCODE_DataAcquisition" "tcode m = TCODE_ICT \<longrightarrow> 0 < ckdf m" and s: "field_end s"
  shows "\<exists>m1. nexusrv_read_msg (fields_text m @ s) m0 = (Inr s, m1) \<and> same_fields cfg m m1 \<and>
    timestamp m1 = timestamp m"
proof (cases "tcode m = TCODE_Idle")
  case True
  then show ?thesis
    by (simp add: nexusrv_read_msg_def read_fields_def fields_text_def msg_texts_def head_texts_def msg_preds
        scan_steps fits_1 s comp_simps set_timestamp_def set_tcode_def same_fields_def)
next
  case False
  have fields: "fields_text m @ s = printf_field NEXUS_FMT_TIMESTAMP (timestamp m) @
      printf_field NEXUS_FMT_TCODE (ucast (tcode m)) @ printf_field NEXUS_FMT_SRC (ucast (src m)) @
      concat (body_texts m) @ s"
    using False by (auto simp: fields_text_def msg_texts_def head_texts_def msg_preds body_texts_def)
  have end_body: "field_end (concat (body_texts m) @ s)"
    using s by (auto simp: body_texts_def rest_texts_def branch_texts_def)
  define m2 where "m2 = set_src (ucast (src m)) (set_tcode (ucast (tcode m)) (set_timestamp (timestamp m) m0))"
  have m2: "tcode m2 = tcode m" "src m2 = src m" "timestamp m2 = timestamp m"
    by (simp_all add: m2_def field_writers ucast_back)
  have tc: "tcode (set_tcode (ucast (tcode m)) x) = tcode m" for x by (simp add: set_tcode_def ucast_back)
  from read_body_printed [OF assms(1,2) False m2 s, of cfg] obtain m1 where
    "(if tcode m \<in> set [TCODE_DirectBranch, TCODE_DirectBranchSync, TCODE_IndirectBranch,
               TCODE_IndirectBranchSync, TCODE_IndirectBranchHist, TCODE_IndirectBranchHistSync,
               TCODE_ProgTraceSync]
         then read_branch else read_rest (tcode m)) \<lparr>rd_in = concat (body_texts m) @ s, rd_msg = m2\<rparr> =
      (Inr (), \<lparr>rd_in = s, rd_msg = m1\<rparr>)" "same_fields cfg m m1" "timestamp m1 = timestamp m"
    by blast
  then show ?thesis
    using False
    by (simp add: nexusrv_read_msg_def read_fields_def fields scan_steps end_body comp_simps tc m2_def
        del: list.set insert_iff)
qed

text \<open>Messages with the same fields have the same layout.\<close>

lemma same_fields_layout:
  assumes same: "same_fields cfg m m1" and enc: "encodable m"
  shows "layout cfg m1 = layout cfg m"
proof (cases "tcode m = TCODE_Idle")
  case True
  with same show ?thesis by (simp add: layout_def same_fields_def)
next
  case busy: False
  have res: "tcode m = TCODE_ResourceFull \<Longrightarrow> res_code m \<noteq> 0 \<Longrightarrow> res_code m \<noteq> 1 \<Longrightarrow> res_code m \<noteq> 2 \<Longrightarrow>
      res_data m1 = res_data m"
    using same small_codes [of m] by (auto simp: same_fields_def msg_preds)
  note f = same [unfolded same_fields_def msg_preds]
  have "body_layout cfg m1 = body_layout cfg m"
  proof (cases "tcode m \<in> set [TCODE_Ownership, TCODE_Error, TCODE_RepeatBranch, TCODE_ICT, TCODE_ResourceFull,
      TCODE_ProgTraceCorrelation]")
    case True
    then show ?thesis using f res unfolding list.set insert_iff empty_iff
      by (elim disjE) (simp_all add: body_layout_def cong: if_cong)
  next
    case False
    with f enc busy show ?thesis
      unfolding encodable_def list.set insert_iff empty_iff
      by (elim disjE) (simp_all add: body_layout_def branch_layout_def msg_preds)
  qed
  moreover have "time_layout cfg m1 = time_layout cfg m"
    using same busy by (simp add: time_layout_def same_fields_def msg_preds)
  ultimately show ?thesis using same busy by (simp add: layout_def same_fields_def msg_preds)
qed

lemma encodable_same_fields:
  assumes "same_fields cfg m m1" "encodable m" shows "encodable m1"
proof -
  from assms(1) have "tcode m1 = tcode m" "tcode m = TCODE_ProgTraceCorrelation \<Longrightarrow> cdf m1 = cdf m"
    "tcode m = TCODE_ICT \<Longrightarrow> cksrc m1 = cksrc m \<and> ckdf m1 = ckdf m"
    unfolding same_fields_def nexusrv_msg_is_stop_def by blast+
  with assms(2) show ?thesis unfolding encodable_def by metis
qed

text \<open>The same fields are encoded to the same bytes.\<close>

lemma same_fields_encode:
  assumes "same_fields cfg m m1" and "encodable m" and "src_bits cfg \<le> 64" "limit \<le> length buf"
    and "length (wire (layout cfg m)) \<le> limit"
  shows "nexusrv_msg_encode cfg buf limit m1 = nexusrv_msg_encode cfg buf limit m"
  using encode_run_spec [OF assms(4,2,3)] encode_run_spec [OF assms(4) encodable_same_fields [OF assms(1,2)] assms(3)]
    assms(5) same_fields_layout [OF assms(1,2)]
  by (simp add: encode_spec_def Let_def)

section \<open>Properties\<close>

text \<open>
  Round trip through text. Printing a message writes its name and its fields and returns
  their length; reading the text behind the name back, whatever text that does not go on with
  the last number follows it, consumes exactly this text and gives a message with the same time
  and the same fields. Data acquisitions are not covered (the reader does not know their
  fields), nor are correlations with one data word (whose second one is not printed).
\<close>

theorem print_read:
  assumes "tcode m \<noteq> TCODE_DataAcquisition" "tcode m = TCODE_ICT \<longrightarrow> 0 < ckdf m" and "field_end rest"
  shows "let name = nexusrv_tcode_str (tcode m); txt = name @ fields_text m in
    nexusrv_print_msg m \<lparr>of_text = out, of_calls = []\<rparr> =
      (Inr (int (length txt)), \<lparr>of_text = out @ txt, of_calls = []\<rparr>) \<and>
    (\<exists>m1. nexusrv_read_msg (fields_text m @ rest) m0 = (Inr rest, m1) \<and>
       timestamp m1 = timestamp m \<and> same_fields cfg m m1)"
  using read_printed [OF assms, of m0 cfg]
  by (auto simp: nexusrv_print_msg_def print_calls_all concat_msg_texts Let_def)

definition text_msg :: nexusrv_msg where
  "text_msg = \<lparr>timestamp = 1000, src = 1, tcode = TCODE_IndirectBranchHistSync, tagbits = 18,
     word0 = 77, hist = 5, hrepeat = 0, dword1 = 0xFFFFFFFF80001234\<rparr>"

lemma print_read_witness:
  "let name = nexusrv_tcode_str (tcode text_msg); txt = name @ fields_text text_msg in
    nexusrv_print_msg text_msg \<lparr>of_text = [], of_calls = []\<rparr> =
      (Inr (int (length txt)), \<lparr>of_text = [] @ txt, of_calls = []\<rparr>) \<and>
    (\<exists>m1. nexusrv_read_msg (fields_text text_msg @ [CHR 0x0A]) wit_msg = (Inr [CHR 0x0A], m1) \<and>
       timestamp m1 = timestamp text_msg \<and> same_fields wit_cfg text_msg m1)"
  by (rule print_read) (simp_all add: text_msg_def field_end_def isspace_def)

text \<open>The text of a correlation with one data word does not show the other one.\<close>

lemma ict_text_same:
  "tcode m = TCODE_ICT \<Longrightarrow> ckdf m = 0 \<Longrightarrow> msg_texts (m\<lparr>dword1 := x\<rparr>) = msg_texts m"
  by (simp add: msg_texts_def head_texts_def rest_texts_def branch_texts_def msg_preds field_readers)

text \<open>
  C22. Printing a message, reading the text back and encoding what was read gives the bytes of the message. Printed to a
  file whose writes succeed, a message that can be encoded is its name and its fields; and the reader, put behind the name,
  takes exactly the fields, up to whatever follows them, and leaves a message that is encoded to the same bytes, whatever was in its
  struct before. The one exception is an in-circuit trace message whose count \<^verbatim>\<open>ckdf\<close> says that it has one data word: the encoder
  writes a second one all the same, and the text is the same for any second one, so that no reader can give it back.
\<close>

theorem print_read_encode:
  assumes "encodable m" and "field_end rest" and "src_bits cfg \<le> 64" "limit \<le> length buf" "length (wire (layout cfg m)) \<le> limit"
  shows "\<exists>fields. nexusrv_print_msg m \<lparr>of_text = out, of_calls = []\<rparr> =
      (Inr (int (length (nexusrv_tcode_str (tcode m) @ fields))),
       \<lparr>of_text = out @ nexusrv_tcode_str (tcode m) @ fields, of_calls = []\<rparr>) \<and>
    (if tcode m = TCODE_ICT \<and> ckdf m = 0
     then nexusrv_print_msg (m\<lparr>dword1 := x\<rparr>) \<lparr>of_text = out, of_calls = []\<rparr> =
       nexusrv_print_msg m \<lparr>of_text = out, of_calls = []\<rparr>
     else \<exists>m1. nexusrv_read_msg (fields @ rest) m0 = (Inr rest, m1) \<and>
       nexusrv_msg_encode cfg buf limit m1 = nexusrv_msg_encode cfg buf limit m)"
proof (intro exI [of _ "fields_text m"] conjI)
  show "nexusrv_print_msg m \<lparr>of_text = out, of_calls = []\<rparr> =
      (Inr (int (length (nexusrv_tcode_str (tcode m) @ fields_text m))),
       \<lparr>of_text = out @ nexusrv_tcode_str (tcode m) @ fields_text m, of_calls = []\<rparr>)"
    by (simp add: nexusrv_print_msg_def print_calls_all concat_msg_texts)
  show "if tcode m = TCODE_ICT \<and> ckdf m = 0
     then nexusrv_print_msg (m\<lparr>dword1 := x\<rparr>) \<lparr>of_text = out, of_calls = []\<rparr> =
       nexusrv_print_msg m \<lparr>of_text = out, of_calls = []\<rparr>
     else \<exists>m1. nexusrv_read_msg (fields_text m @ rest) m0 = (Inr rest, m1) \<and>
       nexusrv_msg_encode cfg buf limit m1 = nexusrv_msg_encode cfg buf limit m"
  proof (cases "tcode m = TCODE_ICT \<and> ckdf m = 0")
    case True
    then show ?thesis by (simp add: nexusrv_print_msg_def ict_text_same)
  next
    case False
    then have ict: "tcode m = TCODE_ICT \<longrightarrow> 0 < ckdf m" by (auto simp: word_gt_0)
    from assms(1) have "tcode m \<noteq> TCODE_DataAcquisition" by (auto simp: encodable_def)
    from read_printed [OF this ict assms(2), of m0 cfg] obtain m1 where
      read: "nexusrv_read_msg (fields_text m @ rest) m0 = (Inr rest, m1)" "same_fields cfg m m1" by blast
    with same_fields_encode [OF read(2) assms(1,3,4,5)] False show ?thesis by auto
  qed
qed

lemma print_read_encode_witness:
  "\<exists>fields. nexusrv_print_msg text_msg \<lparr>of_text = ''#0 '', of_calls = []\<rparr> =
      (Inr (int (length (nexusrv_tcode_str (tcode text_msg) @ fields))),
       \<lparr>of_text = ''#0 '' @ nexusrv_tcode_str (tcode text_msg) @ fields, of_calls = []\<rparr>) \<and>
    (\<exists>m1. nexusrv_read_msg (fields @ []) wit_msg = (Inr [], m1) \<and>
       nexusrv_msg_encode wit_cfg (replicate 38 0) 38 m1 = nexusrv_msg_encode wit_cfg (replicate 38 0) 38 text_msg)"
proof -
  have m: "encodable text_msg" "field_end []" "src_bits wit_cfg \<le> 64" "38 \<le> length (replicate 38 (0 :: u8))"
    "length (wire (layout wit_cfg text_msg)) \<le> 38" "\<not> (tcode text_msg = TCODE_ICT \<and> ckdf text_msg = 0)"
    using wire_size [of wit_cfg text_msg]
    by (simp_all add: text_msg_def encodable_def field_end_def wit_cfg_def)
  from print_read_encode [OF m(1-5), of "''#0 ''" 0 wit_msg] show ?thesis unfolding if_not_P [OF m(6)] .
qed

definition acq_msg :: nexusrv_msg where
  "acq_msg = \<lparr>timestamp = 7, src = 0, tcode = TCODE_DataAcquisition, tagbits = 5, word0 = 0, hist = 0,
     hrepeat = 0, dword1 = 66\<rparr>"

text \<open>
  What the text does not carry over. A data acquisition is printed with its tag and its
  data, but the reader leaves both in the input and reports success. The text of a correlation
  with one data word does not tell apart messages that are encoded differently. And if an output
  fails, the printer stops there with the negative result of that call.
\<close>

theorem text_loses:
  "fields_text acq_msg = '' Time=7 TCODE=7 Src=0 IDTAG=5 DQDATA=0x42''
   \<and> fst (nexusrv_read_msg (fields_text acq_msg) wit_msg) = Inr '' IDTAG=5 DQDATA=0x42''
   \<and> fields_text (ict_msg\<lparr>dword1 := 1\<rparr>) = fields_text ict_msg
   \<and> fst (nexusrv_msg_encode ict_cfg (replicate 38 0) 38 (ict_msg\<lparr>dword1 := 1\<rparr>)) \<noteq>
      fst (nexusrv_msg_encode ict_cfg (replicate 38 0) 38 ict_msg)
   \<and> nexusrv_print_msg acq_msg \<lparr>of_text = [], of_calls = [True, False]\<rparr> =
      (Inl (- 1), \<lparr>of_text = ''DataAcquisition Time=7 TCODE=7'', of_calls = []\<rparr>)"
  by (intro conjI) code_simp+

end
