(* ===== verification/ToolBase.thy ===== *)
theory ToolBase
  imports MsgStream MsgTextProps
begin

text \<open>
  What the command line utilities under \<^verbatim>\<open>util/\<close> share: how they end, and the loop over the messages
  of a file in \<^verbatim>\<open>util/dump.c\<close> and \<^verbatim>\<open>util/split.c\<close>, which passes every message that the
  stream decoder returns to the code of the utility.
\<close>

section \<open>How a utility stops\<close>

text \<open>
  \<^verbatim>\<open>error(3)\<close> ends the process with its first argument as the status unless that is 0. A failed
  assertion or undefined behaviour is a \<open>Crash\<close>.
\<close>

datatype stop = Exit int | Crash

type_synonym ('s, 'a) tool = "('s, stop, 'a) comp"

definition error_call :: "int \<Rightarrow> ('s, unit) tool" where
  "error_call status = (if status = 0 then retS () else throwS (Exit status))"

text \<open>\<^verbatim>\<open>error(-rc, ...)\<close> for a call that returned the fault \<open>e\<close>.\<close>

fun fault_stop :: "fault \<Rightarrow> stop" where
  "fault_stop (Code c) = Exit (err_code c)"
| "fault_stop Abort = Crash"
| "fault_stop Undef = Crash"

section \<open>The loop over the messages of a file\<close>

text \<open>
  The message is a local of the loop that nothing initialises: \<open>w i\<close> is what it holds in front of the
  \<open>i\<close>-th call. The result is the number of messages and of their bytes.
\<close>

function msg_loop ::
    "(nat \<Rightarrow> nexusrv_msg) \<Rightarrow> (nat \<Rightarrow> nat \<Rightarrow> nexusrv_msg_decoder \<Rightarrow> nexusrv_msg \<Rightarrow> ('s, unit) tool) \<Rightarrow>
     nat \<Rightarrow> nat \<Rightarrow> nexusrv_msg_decoder \<Rightarrow> 's \<Rightarrow> (stop + nat \<times> nat) \<times> 's" where
  "msg_loop w body i tot d st =
     (case nexusrv_msg_decoder_next d (w i) of
        (Inl e, d', m) \<Rightarrow> (Inl (fault_stop e), st)
      | (Inr n, d', m) \<Rightarrow>
          if n = 0 then (Inr (i, tot), st)
          else case body i n d' m st of
            (Inl x, st') \<Rightarrow> (Inl x, st')
          | (Inr _, st') \<Rightarrow> msg_loop w body (i + 1) (tot + n) d' st')"
  by pat_completeness auto
termination
  by (relation "measure (\<lambda>(w, body, i, tot, d, st). backlog d)")
    (auto dest!: decoder_next_shrinks [OF sym])

declare msg_loop.simps [simp del]

section \<open>The messages of a file\<close>

text \<open>
  \<open>messages cfg flt S p xs\<close>: from position \<open>p\<close> on the file \<open>S\<close> has the messages \<open>xs\<close>, each with its
  offset and its length, up to the end of the file. It follows the specification of the stream
  decoder.
\<close>

type_synonym found = "nat \<times> nat \<times> nexusrv_msg"

inductive messages :: "nexusrv_hw_cfg \<Rightarrow> int \<Rightarrow> u8 list \<Rightarrow> nat \<Rightarrow> found list \<Rightarrow> bool"
  for cfg :: nexusrv_hw_cfg and flt :: int and S :: "u8 list" where
  messages_end: "stream_next cfg flt S p m (Inr 0) q m' \<Longrightarrow> messages cfg flt S p []"
| messages_more: "stream_next cfg flt S p m (Inr n) q m' \<Longrightarrow> 0 < n \<Longrightarrow> messages cfg flt S q xs \<Longrightarrow>
    messages cfg flt S p ((q - n, n, m') # xs)"

inductive_simps messages_Nil: "messages cfg flt S p []"
inductive_cases messages_ConsE: "messages cfg flt S p (x # xs)"

definition raw :: "u8 list \<Rightarrow> found \<Rightarrow> u8 list" where
  "raw S x = (case x of (off, n, m) \<Rightarrow> take n (drop off S))"

lemma raw_simp [simp]: "raw S (off, n, m) = take n (drop off S)"
  by (simp add: raw_def)

text \<open>Without a filter the messages cover the file.\<close>

lemma next_delivers:
  "stream_next cfg flt S p m r q m' \<Longrightarrow> r = Inr n \<Longrightarrow> p \<le> length S \<Longrightarrow>
   q \<le> length S \<and> (n = 0 \<longrightarrow> q = length S) \<and> (flt < 0 \<longrightarrow> q = p + n) \<and> n \<le> q - p"
proof (induction rule: stream_next.induct)
  case (deliver p m m0 k m')
  from decode_progress [OF deliver.hyps(3)] deliver.prems deliver.hyps(1) show ?case by auto
next
  case (skip p m m0 k m' r q m'')
  from decode_progress [OF skip.hyps(3)] have "p + k \<le> length S" using skip.hyps(1) by linarith
  with skip show ?case by (auto simp: skips_def)
qed auto

lemma messages_cover:
  "messages cfg flt S p xs \<Longrightarrow> p \<le> length S \<Longrightarrow> flt < 0 \<Longrightarrow> concat (map (raw S) xs) = drop p S"
proof (induction rule: messages.induct)
  case (messages_end p m q m')
  from next_delivers [OF messages_end(1) refl] messages_end.prems show ?case by auto
next
  case (messages_more p m n q m' xs)
  from next_delivers [OF messages_more(1) refl] messages_more.prems have q: "q \<le> length S" "q = p + n" by auto
  with messages_more.IH [OF q(1) messages_more.prems(2)] have "concat (map (raw S) xs) = drop n (drop p S)"
    by (simp add: q(2) add.commute)
  then show ?case by (simp add: q(2) del: drop_drop)
qed

lemma messages_size:
  "messages cfg flt S p xs \<Longrightarrow> p \<le> length S \<Longrightarrow> flt < 0 \<Longrightarrow> sum_list (map (\<lambda>(off, n, m). n) xs) = length S - p"
proof (induction rule: messages.induct)
  case (messages_end p m q m')
  from next_delivers [OF messages_end(1) refl] messages_end.prems show ?case by auto
next
  case (messages_more p m n q m' xs)
  from next_delivers [OF messages_more(1) refl] messages_more.prems have q: "q \<le> length S" "q = p + n" by auto
  with messages_more show ?case by simp
qed

section \<open>The loop runs over them\<close>

text \<open>
  A body that looks at the decoder only for the offset and the bytes of the last message
  (\<open>step\<close> says what it does with them).
\<close>

definition on_found ::
    "u8 list \<Rightarrow> (nat \<Rightarrow> found \<Rightarrow> ('s, unit) tool) \<Rightarrow> (nat \<Rightarrow> nat \<Rightarrow> nexusrv_msg_decoder \<Rightarrow> nexusrv_msg \<Rightarrow> ('s, unit) tool) \<Rightarrow> bool" where
  "on_found S step body \<longleftrightarrow>
     (\<forall>i n d m. stream_ok S d \<and> md_lastmsg_len d = n \<and> 0 < n \<longrightarrow>
        body i n d m = step i (nexusrv_msg_decoder_offset d, n, m))"

fun run_steps :: "(nat \<Rightarrow> found \<Rightarrow> ('s, unit) tool) \<Rightarrow> nat \<Rightarrow> found list \<Rightarrow> ('s, unit) tool" where
  "run_steps step i [] = retS ()"
| "run_steps step i (x # xs) = thenS (step i x) (run_steps step (i + 1) xs)"

lemma next_spec:
  assumes "stream_ok S d" and "nexusrv_msg_decoder_next d m = (Inr n, d', m')"
  shows "stream_next (md_cfg d) (md_src_filter d) S (at_pos d) m (Inr n) (at_pos d') m'" and "stream_ok S d'"
    and "nexusrv_msg_decoder_offset d' = at_pos d' - n" and "md_lastmsg_len d' = n"
    and "md_cfg d' = md_cfg d" and "md_src_filter d' = md_src_filter d"
  using decoder_next_delivers [OF assms(1), of m] assms(2)
  by (auto simp: delivers_def nexusrv_msg_decoder_offset_def at_pos_def)

lemma at_pos_le: "stream_ok S d \<Longrightarrow> at_pos d \<le> length S"
  by (simp add: stream_ok_def reads_file_def)

lemma msg_loop_messages:
  "on_found S step body \<Longrightarrow> stream_ok S d \<Longrightarrow> msg_loop w body i tot d st = (Inr (k, sz), st') \<Longrightarrow>
    \<exists>xs. messages (md_cfg d) (md_src_filter d) S (at_pos d) xs \<and> k = i + length xs \<and>
      sz = tot + sum_list (map (\<lambda>(off, n, m). n) xs) \<and> run_steps step i xs st = (Inr (), st')"
proof (induction w body i tot d st rule: msg_loop.induct)
  case (1 w body i tot d st)
  obtain r d' m where nx: "nexusrv_msg_decoder_next d (w i) = (r, d', m)" by (metis surj_pair)
  note run = "1.prems"(3) [unfolded msg_loop.simps [of w body i tot d st] nx]
  show ?case
  proof (cases r)
    case (Inl e)
    with run show ?thesis by simp
  next
    case (Inr n)
    note spec = next_spec [OF "1.prems"(2) nx [unfolded Inr]]
    show ?thesis
    proof (cases "n = 0")
      case True
      with run Inr spec(1) show ?thesis by (auto intro!: exI [of _ "[]"] messages_end simp: retS_def)
    next
      case False
      then have b: "body i n d' m = step i (at_pos d' - n, n, m)"
      using "1.prems"(1) [unfolded on_found_def, rule_format, of d' n i m] spec(2-4) by simp
      obtain r1 st1 where bo: "body i n d' m st = (r1, st1)" by (metis surj_pair)
      with run Inr False obtain u where r1: "r1 = Inr u" and go: "msg_loop w body (i + 1) (tot + n) d' st1 = (Inr (k, sz), st')"
        by (cases r1) auto
      from "1.IH" [OF nx [symmetric] Inr refl False bo [symmetric] r1 "1.prems"(1) spec(2)] go obtain xs where
        xs: "messages (md_cfg d) (md_src_filter d) S (at_pos d') xs" "k = i + 1 + length xs"
          "sz = tot + n + sum_list (map (\<lambda>(off, n, m). n) xs)" "run_steps step (i + 1) xs st1 = (Inr (), st')"
        using spec(5,6) by auto
      let ?x = "(at_pos d' - n, n, m)"
      have "messages (md_cfg d) (md_src_filter d) S (at_pos d) (?x # xs)"
        using messages_more [OF spec(1) _ xs(1)] False by simp
      moreover have "run_steps step i (?x # xs) st = (Inr (), st')"
        using bo b r1 xs(4) by (simp add: thenS_def bindS_def)
      ultimately show ?thesis using xs(2,3) by (intro exI [of _ "?x # xs"]) simp
    qed
  qed
qed

text \<open>The loop does not crash if the steps do not, on the messages that the decoder delivers.\<close>

lemma msg_loop_no_crash:
  "on_found S step body \<Longrightarrow>
   (\<And>p m n q m'. stream_next (md_cfg d) (md_src_filter d) S p m (Inr n) q m' \<Longrightarrow> 0 < n \<Longrightarrow> good (q - n, n, m')) \<Longrightarrow>
   (\<And>i x st. I st \<Longrightarrow> good x \<Longrightarrow> case step i x st of (Inl e, t) \<Rightarrow> e \<noteq> Crash | (Inr _, t) \<Rightarrow> I t) \<Longrightarrow>
   stream_ok S d \<Longrightarrow> I st \<Longrightarrow> fst (msg_loop w body i tot d st) \<noteq> Inl Crash"
proof (induction w body i tot d st rule: msg_loop.induct)
  case (1 w body i tot d st)
  obtain r d' m where nx: "nexusrv_msg_decoder_next d (w i) = (r, d', m)" by (metis surj_pair)
  show ?case
  proof (cases r)
    case (Inl e)
    with file_stream.nxt_clean "1.prems"(4) nx have "clean e" by metis
    then have "fault_stop e \<noteq> Crash" by (auto simp: clean_def)
    with nx Inl show ?thesis by (simp add: msg_loop.simps [of w])
  next
    case (Inr n)
    note spec = next_spec [OF "1.prems"(4) nx [unfolded Inr]]
    show ?thesis
    proof (cases "n = 0")
      case True
      with nx Inr show ?thesis by (simp add: msg_loop.simps [of w])
    next
      case False
      let ?x = "(at_pos d' - n, n, m)"
      have b: "body i n d' m = step i ?x"
        using "1.prems"(1) [unfolded on_found_def, rule_format, of d' n i m] spec(2-4) False by simp
      have g: "good ?x" using "1.prems"(2) [OF spec(1)] False by simp
      obtain r1 st1 where bo: "body i n d' m st = (r1, st1)" by (metis surj_pair)
      note st = "1.prems"(3) [OF "1.prems"(5) g, of i, folded b, unfolded bo]
      show ?thesis
      proof (cases r1)
        case (Inl x)
        with st nx \<open>r = Inr n\<close> False bo show ?thesis by (simp add: msg_loop.simps [of w])
      next
        case (Inr u)
        from st Inr have "I st1" by simp
        from "1.IH" [OF nx [symmetric] \<open>r = Inr n\<close> refl False bo [symmetric] Inr "1.prems"(1) _ _ spec(2) this]
          "1.prems"(2,3) spec(5,6)
        have "fst (msg_loop w body (i + 1) (tot + n) d' st1) \<noteq> Inl Crash" by auto
        with nx \<open>r = Inr n\<close> False bo Inr show ?thesis by (simp add: msg_loop.simps [of w])
      qed
    qed
  qed
qed

end
