(* ===== verification/SplitTool.thy ===== *)
theory SplitTool
  imports ToolBase
begin

text \<open>
  The utility of \<^verbatim>\<open>util/split.c\<close>: the messages of a file are distributed over one file for each source.
\<close>

section \<open>The source field is within the width of the configuration\<close>

lemma of_bits_less:
  assumes "length bs < LENGTH('a::len)"
  shows "unat (of_bits bs :: 'a word) < 2 ^ length bs"
proof -
  have "of_bits bs = take_bit (length bs) (of_bits bs :: 'a word)"
    by (rule bit_word_eqI) (auto simp: bit_take_bit_iff bit_of_bits)
  then have "unat (of_bits bs :: 'a word) = take_bit (length bs) (unat (of_bits bs :: 'a word))"
    by (metis unsigned_take_bit_eq)
  then show ?thesis by (metis take_bit_nat_less_exp)
qed

lemma unpack_bits_less:
  assumes "unpack_bits buf base off n = Inr v" and "0 < n" "n < 64" and "off + n \<le> 6 * (length buf - base)"
  shows "unat v < 2 ^ n"
proof -
  let ?bs = "take n (drop off (payload (drop base buf)))"
  have "v = of_bits ?bs" using unpack_bits_payload [OF assms(2,4)] assms(1) by simp
  moreover have "unat (of_bits ?bs :: u64) < 2 ^ length ?bs" using assms(3) by (intro of_bits_less) simp
  moreover have "(2 :: nat) ^ length ?bs \<le> 2 ^ n" by (rule power_increasing) simp_all
  ultimately show ?thesis by (metis order.strict_trans2)
qed

definition src_below :: "nat \<Rightarrow> dec_state \<Rightarrow> bool" where
  "src_below k s \<longleftrightarrow> unat (src (d_msg s)) < k"

lemma src_writers [simp]:
  "src (set_timestamp v m) = src m" "src (set_tcode v m) = src m" "src (set_bits i n v m) = src m"
  "src (set_word0 v m) = src m" "src (set_hist v m) = src m" "src (set_hrepeat v m) = src m"
  "src (set_ckdata0 v m) = src m" "src (set_dword1 v m) = src m"
  by (simp_all add: field_writers)

lemma src_below_steps [inv_intros]:
  "keeps (src_below k) (\<lambda>_. True) CONSUME_BYTES"
  "(\<And>v m. src (wr v m) = src m) \<Longrightarrow> keeps (src_below k) (\<lambda>_. True) (UNPACK_FIXED n wr)"
  "(\<And>v m. src (wr v m) = src m) \<Longrightarrow> keeps (src_below k) (\<lambda>_. True) (UNPACK_VAR wr)"
  "(\<And>m. src (f m) = src m) \<Longrightarrow> keeps (src_below k) (\<lambda>_. True) (update_msg f)"
  by (auto simp: keeps_def src_below_def CONSUME_BYTES_def UNPACK_FIXED_def UNPACK_VAR_def update_msg_def
      modS_def Let_def split: sum.splits)

lemma src_below_derived [inv_intros]:
  "(\<And>v m. src (wr v m) = src m) \<Longrightarrow> keeps (src_below k) (\<lambda>_. True) (UNPACK_VAR_REQ wr)"
  "keeps (src_below k) (\<lambda>_. True) UNPACK_XADDR_VAO"
  "keeps (src_below k) (\<lambda>_. True) (assertS b)"
  unfolding UNPACK_VAR_REQ_def UNPACK_XADDR_VAO_def
  by ((intro inv_intros; simp add: src_below_def)+)

lemma src_below_skip [inv_intros]: "keeps (src_below k) (\<lambda>_. True) skip_to_eom"
proof
  fix s show "src_below k s \<Longrightarrow> src_below k (snd (skip_to_eom s)) \<and> (\<forall>e. fst (skip_to_eom s) = Inl e \<longrightarrow> True)"
  proof (induction s rule: skip_to_eom.induct)
    case (1 s)
    obtain r t where run: "CONSUME_BYTES s = (r, t)" by fastforce
    then have "src_below k t" using keepsD_state [OF src_below_steps(1) "1.prems"] by simp
    with 1 run show ?case by (subst skip_to_eom.simps) (auto split: sum.splits)
  qed
qed

lemma src_below_rest:
  "keeps (src_below k) (\<lambda>_. True)
     (if t \<in> set branch_tcodes then thenS (decode_branch cfg) (decode_timestamp cfg)
      else bindS decode_rest (\<lambda>fin. if fin then retS () else decode_timestamp cfg))"
  unfolding decode_branch_def decode_rest_def decode_resource_def decode_correlation_def decode_ict_def
    decode_timestamp_def
  by (intro inv_intros) auto

lemma unpack_src:
  assumes "src_bits cfg \<noteq> 0" "src_bits cfg \<le> 16" and wf: "d_consumed s \<le> d_pos s" "d_pos s \<le> length (d_buf s)"
    and run: "UNPACK_FIXED (unat (src_bits cfg)) set_src s = (Inr x, t)"
  shows "src_below (2 ^ unat (src_bits cfg)) t" and "tcode (d_msg t) = tcode (d_msg s)"
proof -
  let ?n = "unat (src_bits cfg)"
  have n: "0 < ?n" "?n \<le> 16" using assms(1,2) by (simp_all add: unat_gt_0 word_le_nat_alt)
  from run obtain v where v: "unpack_bits (d_buf s) (d_pos s - d_consumed s) (d_off s) ?n = Inr v"
    and t: "t = s\<lparr>d_msg := set_src v (d_msg s), d_off := d_off s + ?n\<rparr>" and left: "\<not> bits_left s < ?n"
    by (auto simp: UNPACK_FIXED_def split: if_splits sum.splits)
  have "d_off s + ?n \<le> 6 * (length (d_buf s) - (d_pos s - d_consumed s))"
  proof -
    have "d_off s + ?n \<le> 6 * d_consumed s" using left n(1) by (simp add: bits_left_def NEXUS_RV_MDO_BITS_def)
    moreover have "d_consumed s \<le> length (d_buf s) - (d_pos s - d_consumed s)" using wf by simp
    ultimately show ?thesis by linarith
  qed
  from unpack_bits_less [OF v n(1) _ this] n have "unat v < 2 ^ ?n" by simp
  moreover have "unat (ucast v :: u16) \<le> unat v" by (simp add: unsigned_ucast_eq)
  ultimately show "src_below (2 ^ ?n) t" by (simp add: t src_below_def set_src_def)
  show "tcode (d_msg t) = tcode (d_msg s)" by (simp add: t)
qed

lemma tcode_idle:
  assumes "decode_run cfg (dec_init buf limit m0) = (Inr x, s)" and "limit \<le> length buf"
    and small: "src_bits cfg \<le> 16"
  shows "tcode (d_msg s) = TCODE_Idle \<or> src_below (2 ^ unat (src_bits cfg)) s"
proof -
  obtain s1 where c: "CONSUME_BYTES (dec_init buf limit m0) = (Inr (), s1)"
    using assms(1) by (auto simp: decode_run_def thenS_def bindS_def split: prod.splits sum.splits)
  obtain s2 where u: "UNPACK_FIXED NEXUS_RV_BITS_TCODE set_tcode s1 = (Inr (), s2)" and f: "decode_fields cfg s2 = (Inr x, s)"
    using assms(1) c by (auto simp: decode_run_def thenS_def bindS_def split: prod.splits sum.splits)
  have wf2: "d_consumed s2 \<le> d_pos s2" "d_pos s2 \<le> length (d_buf s2)"
    using c u assms(2)
    by (auto simp: CONSUME_BYTES_def dec_init_def UNPACK_FIXED_def split: if_splits sum.splits dest: consume_bytes_bounds)
  show ?thesis
  proof (cases "tcode (d_msg s2) = TCODE_Idle")
    case True
    with f show ?thesis by (auto simp: decode_fields_def thenS_def bindS_def readS_def modS_def ensureS_def retS_def throwS_def whenS_def split: if_splits)
  next
    case False
    let ?rest = "if tcode (d_msg s2) \<in> set branch_tcodes then thenS (decode_branch cfg) (decode_timestamp cfg)
      else bindS decode_rest (\<lambda>fin. if fin then retS () else decode_timestamp cfg)"
    let ?s3 = "s2\<lparr>d_msg := set_src 0 (d_msg s2)\<rparr>"
    have wf3: "d_consumed ?s3 \<le> d_pos ?s3" "d_pos ?s3 \<le> length (d_buf ?s3)" using wf2 by simp_all
    obtain s4 where s4: "?rest s4 = (Inr x, s)" "src_below (2 ^ unat (src_bits cfg)) s4"
    proof (cases "src_bits cfg = 0")
      case True
      have "?rest ?s3 = (Inr x, s)" using f False True
        by (simp add: decode_fields_def thenS_def bindS_def readS_def modS_def ensureS_def retS_def throwS_def whenS_def update_msg_def)
      moreover have "src_below (2 ^ unat (src_bits cfg)) ?s3" by (simp add: src_below_def set_src_def)
      ultimately show ?thesis by (rule that)
    next
      case sb: False
      obtain r s4 where u4: "UNPACK_FIXED (unat (src_bits cfg)) set_src ?s3 = (r, s4)" by (metis surj_pair)
      from f False sb u4 have r: "r = Inr ()" and "?rest s4 = (Inr x, s)"
        by (cases r; simp add: decode_fields_def thenS_def bindS_def readS_def modS_def ensureS_def retS_def throwS_def whenS_def update_msg_def)+
      with unpack_src(1) [OF sb small wf3 u4 [unfolded r]] show ?thesis by (intro that)
    qed
    from keepsD_state [OF src_below_rest s4(2,1)] show ?thesis by simp
  qed
qed

lemma decode_src:
  assumes "nexusrv_msg_decode cfg buf limit m0 = (Inr n, m)" and "limit \<le> length buf"
    and "src_bits cfg \<le> 16" and "tcode m \<noteq> TCODE_Idle"
  shows "unat (src m) < 2 ^ unat (src_bits cfg)"
  using tcode_idle [OF _ assms(2,3), of m0] assms(1,4)
  by (auto simp: nexusrv_msg_decode_def src_below_def split: prod.splits sum.splits)

lemma next_src:
  "stream_next cfg flt S p m r q m' \<Longrightarrow> r = Inr n \<Longrightarrow> 0 < n \<Longrightarrow> src_bits cfg \<le> 16 \<Longrightarrow>
   tcode m' \<noteq> TCODE_Idle \<Longrightarrow> unat (src m') < 2 ^ unat (src_bits cfg)"
proof (induction rule: stream_next.induct)
  case (deliver p m m0 k m')
  from decode_src [OF deliver.hyps(3) _ deliver.prems(3,4)] show ?case by simp
qed simp_all

section \<open>The utility\<close>

text \<open>
  The arrays of the code, indexed by source: the open files (with their names and what was
  written to them, \<open>None\<close> for \<^verbatim>\<open>NULL\<close>), bytes and messages.
\<close>

record split_state =
  fp_array :: "(string \<times> u8 list) option list"
  decoded_src :: "nat list"
  msgid_src :: "nat list"

text \<open>What the system does: which files can be opened, and whether the \<open>i\<close>-th message is written.\<close>

record split_os =
  os_malloc :: bool
  os_fopen :: "nat \<Rightarrow> bool"
  os_fwrite :: "nat \<Rightarrow> bool"

definition split_name :: "string \<Rightarrow> nat \<Rightarrow> string" where
  "split_name prefix k = prefix @ ''.'' @ show_base 10 (int k)"

definition open_file :: "split_os \<Rightarrow> string \<Rightarrow> nat \<Rightarrow> (split_state, unit) tool" where
  "open_file os prefix k =
     bindS (readS (\<lambda>st. fp_array st ! k)) (\<lambda>fp.
     if fp \<noteq> None then retS ()
     else if \<not> os_fopen os k then throwS (Exit (- 1))
     else modS (\<lambda>st. st\<lparr>fp_array := (fp_array st)[k := Some (split_name prefix k, [])]\<rparr>))"

definition write_file :: "nat \<Rightarrow> u8 list \<Rightarrow> split_state \<Rightarrow> split_state" where
  "write_file k bs st =
     st\<lparr>fp_array := (fp_array st)[k := map_option (\<lambda>(name, old). (name, old @ bs)) (fp_array st ! k)]\<rparr>"

text \<open>The body of the loop. An index outside of the arrays and a null pointer are undefined.\<close>

definition split_msg :: "split_os \<Rightarrow> string \<Rightarrow> nat \<Rightarrow> nat \<Rightarrow> nexusrv_msg_decoder \<Rightarrow> nexusrv_msg \<Rightarrow> (split_state, unit) tool" where
  "split_msg os prefix i n d m =
     (if \<not> nexusrv_msg_known m then retS ()
      else if nexusrv_msg_idle m then retS ()
      else
        let k = unat (src m) in
        bindS (readS (\<lambda>st. k < length (fp_array st))) (\<lambda>inside.
        if \<not> inside then throwS Crash
        else
          thenS (modS (\<lambda>st. st\<lparr>decoded_src := (decoded_src st)[k := decoded_src st ! k + n],
                              msgid_src := (msgid_src st)[k := msgid_src st ! k + 1]\<rparr>))
         (thenS (open_file os prefix k)
            (case nexusrv_msg_decoder_lastmsg d of
               Inl e \<Rightarrow> throwS (fault_stop e)
             | Inr None \<Rightarrow> throwS Crash
             | Inr (Some p) \<Rightarrow>
                 if length (md_buffer d) < p + n then throwS Crash
                 else if \<not> os_fwrite os i then throwS (Exit (- 1))
                 else modS (write_file k (take n (drop p (md_buffer d))))))))"

text \<open>The number of messages and of their bytes, and the files.\<close>

definition split_tool ::
    "(nat \<Rightarrow> nexusrv_msg) \<Rightarrow> split_os \<Rightarrow> nexusrv_hw_cfg \<Rightarrow> fd_state \<Rightarrow> u8 list \<Rightarrow> nat \<Rightarrow> string \<Rightarrow>
     (stop + nat \<times> nat) \<times> split_state" where
  "split_tool w os cfg fd buf bufsz prefix =
     (let n = 2 ^ unat (src_bits cfg);
          st = \<lparr>fp_array = replicate n None, decoded_src = replicate n 0, msgid_src = replicate n 0\<rparr>
      in if \<not> os_malloc os then (Inl (Exit (- 1)), st)
         else msg_loop w (split_msg os prefix) 0 0 (nexusrv_msg_decoder_init cfg fd (- 1) buf bufsz) st)"

section \<open>What it does with a message\<close>

definition split_step :: "split_os \<Rightarrow> string \<Rightarrow> u8 list \<Rightarrow> nat \<Rightarrow> found \<Rightarrow> (split_state, unit) tool" where
  "split_step os prefix S i x =
     (case x of (off, n, m) \<Rightarrow>
        if \<not> nexusrv_msg_known m \<or> nexusrv_msg_idle m then retS ()
        else
          let k = unat (src m) in
          bindS (readS (\<lambda>st. k < length (fp_array st))) (\<lambda>inside.
          if \<not> inside then throwS Crash
          else
            thenS (modS (\<lambda>st. st\<lparr>decoded_src := (decoded_src st)[k := decoded_src st ! k + n],
                                msgid_src := (msgid_src st)[k := msgid_src st ! k + 1]\<rparr>))
           (thenS (open_file os prefix k)
              (if \<not> os_fwrite os i then throwS (Exit (- 1)) else modS (write_file k (raw S x))))))"

lemma split_on_found: "on_found S (split_step os prefix S) (split_msg os prefix)"
  unfolding on_found_def
proof (intro allI impI, elim conjE)
  fix i n d m assume ok: "stream_ok S d" and n: "md_lastmsg_len d = n" "0 < n"
  from lastmsg_bytes [OF ok] n obtain k where k: "nexusrv_msg_decoder_lastmsg d = Inr (Some k)"
    "k + n \<le> length (md_buffer d)" "take n (drop k (md_buffer d)) = take n (drop (nexusrv_msg_decoder_offset d) S)"
    by (auto split: option.splits)
  then show "split_msg os prefix i n d m = split_step os prefix S i (nexusrv_msg_decoder_offset d, n, m)"
    by (simp add: split_msg_def split_step_def Let_def cong: if_cong)
qed

definition mine :: "nat \<Rightarrow> found list \<Rightarrow> found list" where
  "mine k xs = filter (\<lambda>(off, n, m). nexusrv_msg_known m \<and> \<not> nexusrv_msg_idle m \<and> unat (src m) = k) xs"

definition file_add :: "(string \<times> u8 list) option \<Rightarrow> string \<Rightarrow> u8 list list \<Rightarrow> (string \<times> u8 list) option" where
  "file_add f name bss =
     (if bss = [] then f
      else Some (case f of None \<Rightarrow> (name, concat bss) | Some (nm, old) \<Rightarrow> (nm, old @ concat bss)))"

lemma file_add_append: "file_add (file_add f name bss) name css = file_add f name (bss @ css)"
  by (auto simp: file_add_def split: option.splits)

definition arrays :: "nat \<Rightarrow> split_state \<Rightarrow> bool" where
  "arrays N st \<longleftrightarrow> length (fp_array st) = N \<and> length (decoded_src st) = N \<and> length (msgid_src st) = N"

definition adds :: "string \<Rightarrow> u8 list \<Rightarrow> found list \<Rightarrow> split_state \<Rightarrow> split_state \<Rightarrow> bool" where
  "adds prefix S xs st t \<longleftrightarrow>
     (\<forall>k < length (fp_array st).
        fp_array t ! k = file_add (fp_array st ! k) (split_name prefix k) (map (raw S) (mine k xs)) \<and>
        decoded_src t ! k = decoded_src st ! k + sum_list (map (\<lambda>(off, n, m). n) (mine k xs)) \<and>
        msgid_src t ! k = msgid_src st ! k + length (mine k xs))"

lemma split_step_adds:
  assumes "arrays N st" and "split_step os prefix S i x st = (Inr (), t)"
  shows "arrays N t \<and> adds prefix S [x] st t"
proof -
  obtain off n m where x: "x = (off, n, m)" by (metis surj_pair)
  show ?thesis
  proof (cases "\<not> nexusrv_msg_known m \<or> nexusrv_msg_idle m")
    case True
    with assms x show ?thesis by (auto simp: split_step_def retS_def adds_def mine_def file_add_def)
  next
    case False
    define k where "k = unat (src m)"
    have mine: "mine j [(off, n, m)] = (if j = k then [(off, n, m)] else [])" for j
      using False by (auto simp: mine_def k_def)
    from assms False x have k: "k < N"
      by (auto simp: split_step_def k_def arrays_def Let_def bindS_def readS_def throwS_def split: if_splits)
    let ?f = "case fp_array st ! k of None \<Rightarrow> Some (split_name prefix k, raw S x) | Some (nm, old) \<Rightarrow> Some (nm, old @ raw S x)"
    have "t = st\<lparr>decoded_src := (decoded_src st)[k := decoded_src st ! k + n],
        msgid_src := (msgid_src st)[k := msgid_src st ! k + 1], fp_array := (fp_array st)[k := ?f]\<rparr>"
      using assms False x k
      by (auto simp: split_step_def k_def [symmetric] arrays_def Let_def bindS_def readS_def throwS_def thenS_def
          modS_def retS_def open_file_def write_file_def raw_def split: if_splits option.splits)
    with assms(1) k x show ?thesis
      by (auto simp: arrays_def adds_def mine file_add_def nth_list_update split: option.splits)
  qed
qed

lemma run_split:
  "arrays N st \<Longrightarrow> run_steps (split_step os prefix S) i xs st = (Inr (), t) \<Longrightarrow> arrays N t \<and> adds prefix S xs st t"
proof (induction xs arbitrary: i st)
  case Nil
  then show ?case by (simp add: retS_def adds_def mine_def file_add_def)
next
  case (Cons x xs)
  then obtain u where u: "split_step os prefix S i x st = (Inr (), u)"
    "run_steps (split_step os prefix S) (i + 1) xs u = (Inr (), t)"
    by (auto elim: thenS_eq_InrE)
  note a = split_step_adds [OF Cons.prems(1) u(1)]
  from Cons.IH [OF conjunct1 [OF a] u(2)] a have b: "arrays N t" "adds prefix S xs u t" by simp_all
  have mine: "mine k (x # xs) = mine k [x] @ mine k xs" for k by (simp add: mine_def)
  from a b Cons.prems(1) have "adds prefix S (x # xs) st t"
    by (auto simp: adds_def mine [of _] arrays_def file_add_append)
  with b show ?case by simp
qed

lemma split_step_safe:
  assumes "arrays (2 ^ b) st" and "tcode m \<noteq> TCODE_Idle \<longrightarrow> unat (src m) < 2 ^ b"
  shows "case split_step os prefix S i (off, n, m) st of (Inl e, t) \<Rightarrow> e \<noteq> Crash | (Inr _, t) \<Rightarrow> arrays (2 ^ b) t"
proof -
  obtain r t where run: "split_step os prefix S i (off, n, m) st = (r, t)" by (metis surj_pair)
  have "r \<noteq> Inl Crash"
    using run assms
    by (auto simp: split_step_def arrays_def Let_def bindS_def readS_def throwS_def thenS_def nexusrv_msg_idle_def
        modS_def retS_def open_file_def split: if_splits)
  with run split_step_adds [OF assms(1), of os prefix S i "(off, n, m)" t] show ?thesis by (cases r) auto
qed

section \<open>Property\<close>

text \<open>
  C24. Splitting distributes a trace over its sources and loses nothing. On a regular file and with
  a width of the source field of at most 16 the utility never indexes outside of its arrays, nor
  crashes otherwise. If it ends with success, then it has gone through the messages of the
  whole file, counted them and their bytes, and for every source: there is a file, named by the
  prefix and the number of the source, if the trace has a known message of the source that is not
  idle; it holds the bytes of these messages in the order of the trace; and the counts of the
  source are those of the messages in its file.
\<close>

theorem split_partitions:
  assumes "src_bits cfg \<le> 16" and "regular fd" and "length buf = bufsz" and "0 < bufsz" and "6 * bufsz < 4294967296"
    and "split_tool w os cfg fd buf bufsz prefix = (r, t)"
  shows "r \<noteq> Inl Crash \<and>
    (\<forall>k sz. r = Inr (k, sz) \<longrightarrow>
      (\<exists>xs. messages cfg (- 1) (fd_bytes fd) 0 xs \<and> concat (map (raw (fd_bytes fd)) xs) = fd_bytes fd \<and>
        k = length xs \<and> sz = length (fd_bytes fd) \<and>
        (\<forall>s < 2 ^ unat (src_bits cfg).
          fp_array t ! s = (if mine s xs = [] then None
            else Some (split_name prefix s, concat (map (raw (fd_bytes fd)) (mine s xs)))) \<and>
          msgid_src t ! s = length (mine s xs) \<and>
          decoded_src t ! s = sum_list (map (\<lambda>(off, n, m). n) (mine s xs)))))"
proof -
  let ?S = "fd_bytes fd" and ?N = "2 ^ unat (src_bits cfg) :: nat"
  let ?st = "\<lparr>fp_array = replicate ?N None, decoded_src = replicate ?N 0, msgid_src = replicate ?N 0\<rparr>"
  let ?d = "nexusrv_msg_decoder_init cfg fd (- 1) buf bufsz"
  have ok: "stream_ok ?S ?d" by (rule init_stream_ok [OF assms(2-5)])
  have d: "at_pos ?d = 0" "md_cfg ?d = cfg" "md_src_filter ?d = - 1"
    by (simp_all add: nexusrv_msg_decoder_init_def at_pos_def)
  have ar: "arrays ?N ?st" by (simp add: arrays_def)
  show ?thesis
  proof (cases "os_malloc os")
    case False
    with assms(6) show ?thesis by (auto simp: split_tool_def Let_def)
  next
    case True
    with assms(6) have run: "msg_loop w (split_msg os prefix) 0 0 ?d ?st = (r, t)" by (simp add: split_tool_def Let_def)
    have "fst (msg_loop w (split_msg os prefix) 0 0 ?d ?st) \<noteq> Inl Crash"
    proof (rule msg_loop_no_crash [where I = "arrays ?N" and
          good = "\<lambda>(off, n, m). tcode m \<noteq> TCODE_Idle \<longrightarrow> unat (src m) < ?N", OF split_on_found _ _ ok ar])
      fix p m n q m' assume "stream_next (md_cfg ?d) (md_src_filter ?d) ?S p m (Inr n) q m'" "0 < n"
      from next_src [OF this(1) refl this(2)] assms(1) d(2)
      show "(\<lambda>(off, n, m). tcode m \<noteq> TCODE_Idle \<longrightarrow> unat (src m) < ?N) (q - n, n, m')" by simp
    next
      fix i and x :: found and st assume "arrays ?N st" "(\<lambda>(off, n, m). tcode m \<noteq> TCODE_Idle \<longrightarrow> unat (src m) < ?N) x"
      then show "case split_step os prefix ?S i x st of (Inl e, t) \<Rightarrow> e \<noteq> Crash | (Inr _, t) \<Rightarrow> arrays ?N t"
        by (cases x) (use split_step_safe [of "unat (src_bits cfg)" st _ os prefix ?S i] in auto)
    qed
    with run have safe: "r \<noteq> Inl Crash" by simp
    have "\<exists>xs. messages cfg (- 1) ?S 0 xs \<and> concat (map (raw ?S) xs) = ?S \<and> k = length xs \<and> sz = length ?S \<and> adds prefix ?S xs ?st t"
      if r: "r = Inr (k, sz)" for k sz
    proof -
      from msg_loop_messages [OF split_on_found ok run [unfolded r]] d obtain xs where
        xs: "messages cfg (- 1) ?S 0 xs" "k = length xs" "sz = sum_list (map (\<lambda>(off, n, m). n) xs)"
          "run_steps (split_step os prefix ?S) 0 xs ?st = (Inr (), t)" by auto
      from messages_cover [OF xs(1)] messages_size [OF xs(1)] run_split [OF ar xs(4)] xs show ?thesis by auto
    qed
    then show ?thesis using safe by (fastforce simp: adds_def file_add_def)
  qed
qed

definition wit_os :: split_os where
  "wit_os = \<lparr>os_malloc = True, os_fopen = (\<lambda>k. True), os_fwrite = (\<lambda>i. True)\<rparr>"

definition wit_split_cfg :: nexusrv_hw_cfg where
  "wit_split_cfg = wit_cfg\<lparr>src_bits := 2, ts_bits := 0\<rparr>"

text \<open>An error message of source 1, an idle byte, one of source 2, and one more of source 1.\<close>

definition wit_trace :: "u8 list" where
  "wit_trace = [32, 7, 0xFF, 32, 11, 32, 7]"

lemma split_partitions_witness:
  "\<exists>t xs. split_tool (\<lambda>i. wit_msg) wit_os wit_split_cfg [Data wit_trace] (replicate 4 0) 4 ''t'' = (Inr (4, 7), t) \<and>
    messages wit_split_cfg (- 1) wit_trace 0 xs \<and> length xs = 4 \<and> concat (map (raw wit_trace) xs) = wit_trace \<and>
    fp_array t = [None, Some (''t.1'', [32, 7, 32, 7]), Some (''t.2'', [32, 11]), None]"
proof -
  let ?run = "split_tool (\<lambda>i. wit_msg) wit_os wit_split_cfg [Data wit_trace] (replicate 4 0) 4 ''t''"
  have v: "fst ?run = Inr (4, 7)" "fp_array (snd ?run) = [None, Some (''t.1'', [32, 7, 32, 7]), Some (''t.2'', [32, 11]), None]"
    by code_simp+
  obtain t where run: "?run = (Inr (4, 7), t)" using v(1) by (metis prod.exhaust_sel)
  have "src_bits wit_split_cfg \<le> 16" "regular [Data wit_trace]"
    by (simp_all add: wit_split_cfg_def wit_cfg_def regular_def)
  from split_partitions [OF this _ _ _ run] v(2) run show ?thesis by auto
qed

text \<open>
  C25. The source of a decoded message fits the configuration. Whatever bytes a message other than an idle one is decoded from, its
  source is a number of as many bits as the configuration gives (at most 16, the width of the field), or 0 if it gives none; so it is an
  index of the arrays that the splitter allocates.
\<close>

theorem decoded_source_fits:
  assumes "nexusrv_msg_decode cfg buf limit m0 = (Inr n, m)" and "limit \<le> length buf"
    and "src_bits cfg \<le> 16" and "tcode m \<noteq> TCODE_Idle"
  shows "unat (src m) < 2 ^ unat (src_bits cfg) \<and> (src_bits cfg = 0 \<longrightarrow> src m = 0)"
proof -
  have "unat (src m) < 2 ^ unat (src_bits cfg)" by (rule decode_src [OF assms])
  then show ?thesis by (auto simp: unat_eq_0)
qed

lemma decoded_source_fits_witness:
  "\<exists>n m. nexusrv_msg_decode wit_split_cfg [32, 7] 2 wit_msg = (Inr n, m) \<and> tcode m \<noteq> TCODE_Idle \<and> unat (src m) < 2 ^ 2"
proof -
  have "(case nexusrv_msg_decode wit_split_cfg [32, 7] 2 wit_msg of (r, m) \<Rightarrow>
      (case r of Inr n \<Rightarrow> tcode m \<noteq> TCODE_Idle | Inl e \<Rightarrow> False)) \<and> src_bits wit_split_cfg = 2" by code_simp
  then obtain r m where rm: "nexusrv_msg_decode wit_split_cfg [32, 7] 2 wit_msg = (r, m)"
    "case r of Inr n \<Rightarrow> tcode m \<noteq> TCODE_Idle | Inl e \<Rightarrow> False" and sb: "src_bits wit_split_cfg = 2"
    by (auto split: prod.splits)
  then obtain n where d: "nexusrv_msg_decode wit_split_cfg [32, 7] 2 wit_msg = (Inr n, m)" "tcode m \<noteq> TCODE_Idle"
    by (cases r) auto
  from decoded_source_fits [OF d(1) _ _ d(2)] sb d show ?thesis by auto
qed

end
