(* ===== verification/TextTools.thy ===== *)
theory TextTools
  imports ToolBase
begin

text \<open>
  The utilities of \<^verbatim>\<open>util/dump.c\<close>, which lists the messages of a trace as text, and of
  \<^verbatim>\<open>util/assemble.c\<close>, which turns such text into a trace.
\<close>

section \<open>The dumper\<close>

text \<open>The results of the output calls are not looked at.\<close>

definition put :: "string \<Rightarrow> ofile \<Rightarrow> ofile" where
  "put txt f = snd (CHECK_PRINTF txt f)"

definition dump_head :: "nat \<Rightarrow> nat \<Rightarrow> string" where
  "dump_head i off = ''Msg #'' @ show_base 10 (int i) @ '' +'' @ show_base 10 (int off) @ '' ''"

definition dump_msg :: "nat \<Rightarrow> nat \<Rightarrow> nexusrv_msg_decoder \<Rightarrow> nexusrv_msg \<Rightarrow> (ofile, unit) tool" where
  "dump_msg i n d m =
     modS (\<lambda>f. put [CHR 0x0A] (snd (nexusrv_print_msg m (put (dump_head i (nexusrv_msg_decoder_offset d)) f))))"

definition dump_tool ::
    "(nat \<Rightarrow> nexusrv_msg) \<Rightarrow> bool \<Rightarrow> nexusrv_hw_cfg \<Rightarrow> fd_state \<Rightarrow> int \<Rightarrow> u8 list \<Rightarrow> nat \<Rightarrow> ofile \<Rightarrow>
     (stop + nat \<times> nat) \<times> ofile" where
  "dump_tool w malloc cfg fd flt buf bufsz f =
     (if \<not> malloc then (Inl (Exit (- 1)), f)
      else msg_loop w dump_msg 0 0 (nexusrv_msg_decoder_init cfg fd flt buf bufsz) f)"

section \<open>The assembler\<close>

text \<open>
  \<^verbatim>\<open>scanf(" Msg #%zu %ms", ...)\<close>: \<open>Got\<close> both, the number and the rest of the input behind the word;
  \<open>Fewer\<close>; or \<open>Eof\<close>, when the input ends before the number. A number that does not fit is
  undefined.
\<close>

datatype matched = Rest string | Differs | Ended

fun match_text :: "string \<Rightarrow> string \<Rightarrow> matched" where
  "match_text [] s = Rest s"
| "match_text (l # ls) s =
     (if isspace l then match_text ls (skip_space s)
      else case s of [] \<Rightarrow> Ended | c # cs \<Rightarrow> if c = l then match_text ls cs else Differs)"

datatype scanned = Got u64 string | Fewer | Eof | Wild

definition scan_prefix :: "string \<Rightarrow> scanned" where
  "scan_prefix s =
     (case match_text '' Msg #'' s of
        Ended \<Rightarrow> Eof
      | Differs \<Rightarrow> Fewer
      | Rest u \<Rightarrow>
          if skip_space u = [] then Eof
          else case scan_number 10 id u of
            None \<Rightarrow> Fewer
          | Some (n, v) \<Rightarrow>
              if \<not> \<bar>n\<bar> < 2 ^ 64 then Wild
              else if skip_space v = [] then Fewer
              else Got (word_of_int n) (dropWhile (\<lambda>c. \<not> isspace c) (skip_space v)))"

text \<open>The output file, as text and as bytes, and whether the coming writes succeed.\<close>

record asm_state =
  as_msgid :: u64
  as_emitted :: u64
  as_text :: string
  as_bytes :: "u8 list"

definition hex_byte :: "u8 \<Rightarrow> string" where
  "hex_byte b = '' '' @ [digit_char (uint b div 16), digit_char (uint b mod 16)]"

text \<open>
  Writing out \<open>n\<close> bytes of the buffer, where \<open>n\<close> has type \<^verbatim>\<open>ssize_t\<close>: a negative one is converted to
  \<^verbatim>\<open>size_t\<close> by the format and by \<^verbatim>\<open>fwrite\<close>, which then reads behind the buffer.
\<close>

definition emit :: "bool \<Rightarrow> bool \<Rightarrow> int \<Rightarrow> u8 list \<Rightarrow> (asm_state, unit) tool" where
  "emit text ok n buffer =
     thenS (modS (\<lambda>st. st\<lparr>as_emitted := as_emitted st + word_of_int n\<rparr>))
       (if text then
          modS (\<lambda>st. st\<lparr>as_text := as_text st @ ''['' @ show_base 10 (uint (word_of_int n :: u64)) @ '']'' @
            concat (map hex_byte (take (nat n) buffer)) @ [CHR 0x0A]\<rparr>)
        else if n < 0 then throwS Crash
        else if \<not> ok then throwS (Exit (- 1))
        else modS (\<lambda>st. st\<lparr>as_bytes := as_bytes st @ take (nat n) buffer\<rparr>))"

text \<open>
  The code behind the encoder. If it fails, the code calls \<^verbatim>\<open>error\<close> with the result of the reader,
  which is 0.
\<close>

definition encoded :: "bool \<Rightarrow> bool \<Rightarrow> int \<Rightarrow> nat result \<times> u8 list \<Rightarrow> (asm_state, unit) tool" where
  "encoded text ok rc out =
     (case out of
        (Inr n, buffer) \<Rightarrow> emit text ok (int n) buffer
      | (Inl (Code c), buffer) \<Rightarrow> thenS (error_call (- rc)) (emit text ok (- err_code c) buffer)
      | (Inl _, buffer) \<Rightarrow> throwS Crash)"

subsection \<open>Reading uses up the input\<close>

lemma skip_space_shorter: "length (skip_space s) \<le> length s"
  by (simp add: skip_space_def length_dropWhile_le)

lemma match_text_shorter: "match_text ls s = Rest u \<Longrightarrow> length u \<le> length s"
proof (induction ls s rule: match_text.induct)
  case (2 l ls s)
  then show ?case using skip_space_shorter [of s] by (auto split: if_splits list.splits intro: le_trans)
qed simp

lemma scan_digits_shorter: "scan_digits b acc s = (n, u) \<Longrightarrow> length u \<le> length s"
  by (induction b acc s rule: scan_digits.induct) (auto split: option.splits if_splits)

lemma take_sign_shorter: "take_sign s = (neg, v) \<Longrightarrow> length v \<le> length s"
  by (cases s) (auto simp: take_sign_def split: if_splits)

lemma scan_number_shorter:
  assumes "scan_number b strip s = Some (n, u)" and "\<And>v. length (strip v) \<le> length v"
  shows "length u \<le> length s"
proof -
  obtain neg v where sg: "take_sign (skip_space s) = (neg, v)" by (metis surj_pair)
  then have "length v \<le> length (skip_space s)" by (rule take_sign_shorter)
  moreover have "length u \<le> length (strip v)"
    using assms(1) sg scan_digits_shorter [of b 0 "strip v"]
    by (auto simp: scan_number_def Let_def split: if_splits prod.splits)
  ultimately show ?thesis using assms(2) [of v] skip_space_shorter [of s] by linarith
qed

lemma scan_label_shorter: "scan_label ls s = Some u \<Longrightarrow> length u \<le> length s"
proof (induction ls s rule: scan_label.induct)
  case (2 l ls s)
  then show ?case using skip_space_shorter [of s] by (auto split: if_splits list.splits intro: le_trans)
qed simp

lemma scan_prefix_shorter: "scan_prefix s = Got n u \<Longrightarrow> length u < length s"
proof -
  assume g: "scan_prefix s = Got n u"
  then obtain v k t where m: "match_text '' Msg #'' s = Rest v" "scan_number 10 id v = Some (k, t)"
    "u = dropWhile (\<lambda>c. \<not> isspace c) (skip_space t)"
    by (auto simp: scan_prefix_def split: matched.splits if_splits option.splits)
  have "length v < length s"
  proof -
    from m(1) have "match_text ''Msg #'' (skip_space s) = Rest v" by (simp add: isspace_def)
    then obtain cs where cs: "skip_space s = CHR ''M'' # cs" "match_text ''sg #'' cs = Rest v"
      by (auto simp: isspace_def split: list.splits if_splits)
    with match_text_shorter [OF cs(2)] skip_space_shorter [of s] show ?thesis by simp
  qed
  moreover have "length u \<le> length t"
    unfolding m(3) using skip_space_shorter [of t] length_dropWhile_le le_trans by blast
  ultimately show ?thesis using scan_number_shorter [OF m(2)] by simp
qed

lemma fscanf_field_shorter:
  assumes "fscanf_field f s = Inr (v, u)"
  shows "length u \<le> length s"
proof -
  from assms obtain t n where t: "scan_label (fst f) s = Some t"
    "scan_number (conv_base (snd f)) (conv_strip (snd f)) t = Some (n, u)"
    by (auto simp: fscanf_field_def split: option.splits if_splits)
  have "length (conv_strip (snd f) x) \<le> length x" for x
    by (cases "snd f") (auto simp: conv_strip_def strip_0x_def)
  from scan_number_shorter [OF t(2) this] scan_label_shorter [OF t(1)] show ?thesis by simp
qed

definition at_most :: "nat \<Rightarrow> reader \<Rightarrow> bool" where
  "at_most k s \<longleftrightarrow> length (rd_in s) \<le> k"

lemma at_most_steps [inv_intros]:
  "keeps (at_most k) (\<lambda>_. True) (CHECK_SCANF f upd)"
  "keeps (at_most k) (\<lambda>_. True) (assign g)"
  "keeps (at_most k) (\<lambda>_. True) (assertS b)"
  by (auto simp: keeps_def at_most_def CHECK_SCANF_def assign_def modS_def assertS_def ensureS_def retS_def throwS_def
      split: sum.splits dest: fscanf_field_shorter)

lemma at_most_when [inv_intros]:
  "keeps (at_most k) (\<lambda>_. True) act \<Longrightarrow> keeps (at_most k) (\<lambda>_. True) (MsgText.when_msg p act)"
  unfolding MsgText.when_msg_def by (intro inv_intros)

lemma read_msg_shorter:
  assumes "nexusrv_read_msg s m = (Inr u, m')"
  shows "length u \<le> length s"
proof -
  have k: "keeps (at_most (length s)) (\<lambda>_. True) read_fields"
    unfolding read_fields_def read_branch_def read_rest_def read_ownership_def read_resource_def read_correlation_def
      read_ict_def
    by (intro inv_intros) auto
  obtain r t where run: "read_fields \<lparr>rd_in = s, rd_msg = m\<rparr> = (r, t)" by (metis surj_pair)
  have "at_most (length s) \<lparr>rd_in = s, rd_msg = m\<rparr>" by (simp add: at_most_def)
  from keepsD_state [OF k this run] assms run show ?thesis
    by (auto simp: at_most_def nexusrv_read_msg_def split: sum.splits)
qed

subsection \<open>The loop\<close>

text \<open>
  \<open>w i\<close> is what the uninitialised message holds in front of the \<open>i\<close>-th round, \<open>ok i\<close> whether its write
  succeeds. The reader returns 0 on success.
\<close>

function asm_loop ::
    "nexusrv_hw_cfg \<Rightarrow> bool \<Rightarrow> (nat \<Rightarrow> nexusrv_msg) \<Rightarrow> (nat \<Rightarrow> bool) \<Rightarrow> nat \<Rightarrow> string \<Rightarrow> asm_state \<Rightarrow>
     (stop + unit) \<times> asm_state" where
  "asm_loop cfg text w ok i inp st =
     (case scan_prefix inp of
        Eof \<Rightarrow> (Inr (), st)
      | Fewer \<Rightarrow> (Inl (Exit (- 1)), st)
      | Wild \<Rightarrow> (Inl Crash, st)
      | Got n u \<Rightarrow>
          (case nexusrv_read_msg u (w i) of
             (Inl e, m) \<Rightarrow> (Inl (fault_stop e), st\<lparr>as_msgid := n\<rparr>)
           | (Inr v, m) \<Rightarrow>
               (case encoded text (ok i) 0
                   (nexusrv_msg_encode cfg (replicate NEXUS_RV_MSG_MAX_BYTES 0) NEXUS_RV_MSG_MAX_BYTES m)
                   (st\<lparr>as_msgid := n\<rparr>) of
                  (Inl x, st') \<Rightarrow> (Inl x, st')
                | (Inr _, st') \<Rightarrow> asm_loop cfg text w ok (i + 1) v st')))"
  by pat_completeness auto
termination
  by (relation "measure (\<lambda>(cfg, text, w, ok, i, inp, st). length inp)")
    (auto dest!: scan_prefix_shorter read_msg_shorter [OF sym])

declare asm_loop.simps [simp del]

definition asm_start :: asm_state where
  "asm_start = \<lparr>as_msgid = 0, as_emitted = 0, as_text = [], as_bytes = []\<rparr>"

definition assemble :: "nexusrv_hw_cfg \<Rightarrow> bool \<Rightarrow> (nat \<Rightarrow> nexusrv_msg) \<Rightarrow> (nat \<Rightarrow> bool) \<Rightarrow> string \<Rightarrow> (stop + unit) \<times> asm_state" where
  "assemble cfg text w ok inp = asm_loop cfg text w ok 0 inp asm_start"

section \<open>Properties\<close>

definition dump_line :: "nat \<times> found \<Rightarrow> string" where
  "dump_line x = (case x of (i, off, n, m) \<Rightarrow>
     dump_head i off @ nexusrv_tcode_str (tcode m) @ fields_text m @ [CHR 0x0A])"

definition dump_step :: "nat \<Rightarrow> found \<Rightarrow> (ofile, unit) tool" where
  "dump_step i x = (case x of (off, n, m) \<Rightarrow>
     modS (\<lambda>f. put [CHR 0x0A] (snd (nexusrv_print_msg m (put (dump_head i off) f)))))"

lemma dump_on_found: "on_found S dump_step dump_msg"
  by (simp add: on_found_def dump_step_def dump_msg_def)

lemma put_good: "put txt \<lparr>of_text = out, of_calls = []\<rparr> = \<lparr>of_text = out @ txt, of_calls = []\<rparr>"
  by (simp add: put_def CHECK_PRINTF_def)

lemma run_dump:
  "run_steps dump_step i xs \<lparr>of_text = out, of_calls = []\<rparr> =
   (Inr (), \<lparr>of_text = out @ concat (map dump_line (enumerate i xs)), of_calls = []\<rparr>)"
proof (induction xs arbitrary: i out)
  case (Cons x xs)
  obtain off n m where x: "x = (off, n, m)" by (metis surj_pair)
  have "dump_step i x \<lparr>of_text = out, of_calls = []\<rparr> = (Inr (), \<lparr>of_text = out @ dump_line (i, x), of_calls = []\<rparr>)"
    by (simp add: x dump_step_def dump_line_def modS_def put_good nexusrv_print_msg_def print_calls_all concat_msg_texts)
  with Cons show ?case by (simp add: thenS_def bindS_def)
qed (simp add: retS_def)

text \<open>
  C26. A dump lists the messages of the file. If the dumper ends with success on a regular file, its
  output has a line for each message that passes the filter, in the order of the file: the number
  of the message, the offset of its first byte in the file, its name and its fields. The
  totals it reports are those of these messages.
\<close>

theorem dump_lists:
  assumes "regular fd" and "length buf = bufsz" and "0 < bufsz" and "6 * bufsz < 4294967296"
    and "dump_tool w True cfg fd flt buf bufsz \<lparr>of_text = [], of_calls = []\<rparr> = (Inr (k, sz), f)"
  shows "\<exists>xs. messages cfg flt (fd_bytes fd) 0 xs \<and> k = length xs \<and> sz = sum_list (map (\<lambda>(off, n, m). n) xs) \<and>
    of_text f = concat (map dump_line (enumerate 0 xs))"
proof -
  let ?d = "nexusrv_msg_decoder_init cfg fd flt buf bufsz"
  have ok: "stream_ok (fd_bytes fd) ?d" by (rule init_stream_ok [OF assms(1-4)])
  have d: "at_pos ?d = 0" "md_cfg ?d = cfg" "md_src_filter ?d = flt"
    by (simp_all add: nexusrv_msg_decoder_init_def at_pos_def)
  from assms(5) have "msg_loop w dump_msg 0 0 ?d \<lparr>of_text = [], of_calls = []\<rparr> = (Inr (k, sz), f)"
    by (simp add: dump_tool_def)
  from msg_loop_messages [OF dump_on_found ok this] d run_dump [of 0 _ "[]"] show ?thesis by auto
qed

definition wit_dump_cfg :: nexusrv_hw_cfg where
  "wit_dump_cfg = wit_cfg\<lparr>src_bits := 2, ts_bits := 0\<rparr>"

text \<open>An idle byte.\<close>

definition wit_dump :: "(stop + nat \<times> nat) \<times> ofile" where
  "wit_dump = dump_tool (\<lambda>i. wit_msg) True wit_dump_cfg [Data [0xFF]] (- 1) (replicate 4 0) 4
     \<lparr>of_text = [], of_calls = []\<rparr>"

lemma dump_lists_witness:
  "\<exists>f xs. wit_dump = (Inr (1, 1), f) \<and> messages wit_dump_cfg (- 1) [0xFF] 0 xs \<and> length xs = 1 \<and>
    of_text f = concat (map dump_line (enumerate 0 xs))"
proof -
  have "fst wit_dump = Inr (1, 1)" by code_simp
  then obtain f where run: "wit_dump = (Inr (1, 1), f)" by (metis prod.exhaust_sel)
  have "regular [Data [0xFF]]" by (simp add: regular_def)
  from dump_lists [OF this _ _ _ run [unfolded wit_dump_def]] obtain xs where
    "messages wit_dump_cfg (- 1) [0xFF] 0 xs" "length xs = 1" "of_text f = concat (map dump_line (enumerate 0 xs))"
    by auto
  with run show ?thesis by blast
qed

subsection \<open>Assembling\<close>

definition asm_line :: "nat \<Rightarrow> nexusrv_msg \<Rightarrow> string" where
  "asm_line i m = ''Msg #'' @ show_base 10 (int i) @ '' '' @ nexusrv_tcode_str (tcode m) @ fields_text m @ [CHR 0x0A]"

definition encoded_bytes :: "nexusrv_hw_cfg \<Rightarrow> nexusrv_msg \<Rightarrow> u8 list" where
  "encoded_bytes cfg m =
     (case nexusrv_msg_encode cfg (replicate NEXUS_RV_MSG_MAX_BYTES 0) NEXUS_RV_MSG_MAX_BYTES m of
        (Inr n, out) \<Rightarrow> take n out
      | (Inl _, out) \<Rightarrow> [])"

lemma name_word: "nexusrv_tcode_str c \<noteq> []" "\<forall>x \<in> set (nexusrv_tcode_str c). \<not> isspace x"
  by (simp_all add: nexusrv_tcode_str_def isspace_def)

lemma fields_start: "\<exists>s. fields_text m = CHR '' '' # s"
  by (auto simp: fields_text_def msg_texts_def head_texts_def printf_field_def NEXUS_FMT_TIMESTAMP_def)

lemma scan_prefix_line:
  assumes "i < 2 ^ 64" and "sep = [] \<or> sep = [CHR 0x0A]"
  shows "scan_prefix (sep @ asm_line i m @ rest) = Got (of_nat i) (fields_text m @ CHR 0x0A # rest)"
proof -
  let ?n = "show_base 10 (int i)" and ?w = "nexusrv_tcode_str (tcode m)"
  obtain fs where fs: "fields_text m = CHR '' '' # fs" using fields_start by blast
  let ?v = "CHR '' '' # ?w @ fields_text m @ CHR 0x0A # rest"
  have skip: "skip_space (sep @ CHR ''M'' # t) = CHR ''M'' # t" for t
    using assms(2) by (auto simp: skip_space_def isspace_def)
  have digits: "\<forall>c \<in> set ?n. is_digit 10 c" by (rule show_base_digits) simp_all
  obtain c cs where n: "?n = c # cs" by (metis show_base_nonempty list.exhaust)
  with digits have c: "\<not> isspace c" using digit_not_special(1) by auto
  have "match_text '' Msg #'' (sep @ asm_line i m @ rest) = Rest (?n @ ?v)"
    by (simp add: asm_line_def skip) (simp add: isspace_def skip_space_def)
  moreover have "skip_space (?n @ ?v) \<noteq> []" using c n by (simp add: skip_space_def)
  moreover have "scan_number 10 id (?n @ ?v) = Some (int i, ?v)"
    by (rule scan_number_show) (simp_all add: ends_number_def is_digit_def digit_val_def)
  moreover have "skip_space ?v = ?w @ fields_text m @ CHR 0x0A # rest"
    using name_word [of "tcode m"] by (cases ?w) (auto simp: skip_space_def isspace_def)
  moreover have "dropWhile (\<lambda>c. \<not> isspace c) (?w @ fields_text m @ CHR 0x0A # rest) = fields_text m @ CHR 0x0A # rest"
    using name_word(2) [of "tcode m"] fs by (simp add: isspace_def)
  moreover have "\<bar>int i\<bar> < 2 ^ 64" using assms(1) by (simp add: of_nat_less_iff [symmetric] del: of_nat_less_iff)
  ultimately show ?thesis using name_word(1) [of "tcode m"] by (simp add: scan_prefix_def)
qed

definition asm_text :: "(nat \<times> nexusrv_msg) list \<Rightarrow> string" where
  "asm_text xs = concat (map (\<lambda>(i, m). asm_line i m) xs)"

definition assemblable :: "nexusrv_msg \<Rightarrow> bool" where
  "assemblable m \<longleftrightarrow> encodable m \<and> (tcode m = TCODE_ICT \<longrightarrow> 0 < ckdf m)"

lemma encoded_fits:
  assumes "src_bits cfg \<le> 16" and "encodable m"
  shows "\<exists>n. nexusrv_msg_encode cfg (replicate NEXUS_RV_MSG_MAX_BYTES 0) NEXUS_RV_MSG_MAX_BYTES m =
      (Inr n, encoded_bytes cfg m @ replicate (NEXUS_RV_MSG_MAX_BYTES - n) 0) \<and> n = length (encoded_bytes cfg m) \<and>
    length (wire (layout cfg m)) \<le> NEXUS_RV_MSG_MAX_BYTES"
proof -
  have fit: "length (wire (layout cfg m)) \<le> NEXUS_RV_MSG_MAX_BYTES"
    using wire_size [OF assms(1), of m] by (simp add: NEXUS_RV_MSG_MAX_BYTES_def)
  have "src_bits cfg \<le> 64" using assms(1) by unat_arith
  from encode_run_spec [OF _ assms(2) this, of NEXUS_RV_MSG_MAX_BYTES "replicate NEXUS_RV_MSG_MAX_BYTES 0"] fit
  have "nexusrv_msg_encode cfg (replicate NEXUS_RV_MSG_MAX_BYTES 0) NEXUS_RV_MSG_MAX_BYTES m =
      (Inr (length (wire (layout cfg m))), wire (layout cfg m) @ drop (length (wire (layout cfg m))) (replicate NEXUS_RV_MSG_MAX_BYTES 0))"
    by (simp add: encode_spec_def Let_def)
  with fit show ?thesis by (simp add: encoded_bytes_def)
qed

lemma asm_loop_lines:
  assumes src: "src_bits cfg \<le> 16" and ok: "\<And>i. ok i"
  shows "list_all (\<lambda>(i, m). i < 2 ^ 64 \<and> assemblable m) xs \<Longrightarrow> sep = [] \<or> sep = [CHR 0x0A] \<Longrightarrow>
    \<exists>k. asm_loop cfg False w ok r (sep @ asm_text xs) st =
      (Inr (), st\<lparr>as_msgid := k,
         as_emitted := as_emitted st + of_nat (length (concat (map (encoded_bytes cfg \<circ> snd) xs))),
         as_bytes := as_bytes st @ concat (map (encoded_bytes cfg \<circ> snd) xs)\<rparr>)"
proof (induction xs arbitrary: sep r st)
  case Nil
  have "scan_prefix sep = Eof" using Nil by (auto simp: scan_prefix_def isspace_def skip_space_def)
  then show ?case by (auto simp: asm_loop.simps [of cfg] asm_text_def intro: exI [of _ "as_msgid st"])
next
  case (Cons x xs)
  obtain i m where x: "x = (i, m)" by (metis surj_pair)
  with Cons.prems(1) have i: "i < 2 ^ 64" and m: "encodable m" "tcode m = TCODE_ICT \<longrightarrow> 0 < ckdf m"
    and xs: "list_all (\<lambda>(i, m). i < 2 ^ 64 \<and> assemblable m) xs" by (auto simp: assemblable_def)
  have scan: "scan_prefix (sep @ asm_text (x # xs)) = Got (of_nat i) (fields_text m @ CHR 0x0A # asm_text xs)"
    using scan_prefix_line [OF i Cons.prems(2), of m "asm_text xs"] by (simp add: asm_text_def x)
  have "tcode m \<noteq> TCODE_DataAcquisition" using m(1) by (auto simp: encodable_def)
  from read_printed [OF this m(2), of "CHR 0x0A # asm_text xs" "w r" cfg] obtain m1 where
    rd: "nexusrv_read_msg (fields_text m @ CHR 0x0A # asm_text xs) (w r) = (Inr (CHR 0x0A # asm_text xs), m1)"
      "same_fields cfg m m1" by (auto simp: field_end_def isspace_def)
  obtain n where n: "nexusrv_msg_encode cfg (replicate NEXUS_RV_MSG_MAX_BYTES 0) NEXUS_RV_MSG_MAX_BYTES m =
      (Inr n, encoded_bytes cfg m @ replicate (NEXUS_RV_MSG_MAX_BYTES - n) 0)" "n = length (encoded_bytes cfg m)"
    and fit: "length (wire (layout cfg m)) \<le> NEXUS_RV_MSG_MAX_BYTES" using encoded_fits [OF src m(1)] by blast
  have "src_bits cfg \<le> 64" using src by unat_arith
  from same_fields_encode [OF rd(2) m(1) this _ fit, of "replicate NEXUS_RV_MSG_MAX_BYTES 0"] n(1)
  have enc: "nexusrv_msg_encode cfg (replicate NEXUS_RV_MSG_MAX_BYTES 0) NEXUS_RV_MSG_MAX_BYTES m1 =
      (Inr n, encoded_bytes cfg m @ replicate (NEXUS_RV_MSG_MAX_BYTES - n) 0)" by simp
  let ?st = "st\<lparr>as_msgid := of_nat i, as_emitted := as_emitted st + of_nat n, as_bytes := as_bytes st @ encoded_bytes cfg m\<rparr>"
  have "encoded False (ok r) 0 (nexusrv_msg_encode cfg (replicate NEXUS_RV_MSG_MAX_BYTES 0) NEXUS_RV_MSG_MAX_BYTES m1)
      (st\<lparr>as_msgid := of_nat i\<rparr>) = (Inr (), ?st)"
    unfolding enc using ok [of r] n(2) by (simp add: encoded_def emit_def thenS_def bindS_def modS_def)
  then have step: "asm_loop cfg False w ok r (sep @ asm_text (x # xs)) st = asm_loop cfg False w ok (r + 1) ([CHR 0x0A] @ asm_text xs) ?st"
    using scan rd(1) by (simp add: asm_loop.simps [of cfg False w ok r])
  from Cons.IH [OF xs, of "[CHR 0x0A]" "r + 1" ?st] step n(2) x show ?case by (auto simp: add.assoc)
qed

text \<open>
  C27. Assembling text gives the trace. From lines with a number, the name of a message and its fields as the
  printer writes them, of messages that can be encoded and whose text is complete, the
  assembler writes the bytes of these messages one after the other, whatever the numbers are, and
  counts them.
\<close>

theorem assemble_lines:
  fixes xs :: "(nat \<times> nexusrv_msg) list"
  assumes "src_bits cfg \<le> 16" and "\<And>i. ok i" and "list_all (\<lambda>(i, m). i < 2 ^ 64 \<and> assemblable m) xs"
  shows "\<exists>k. assemble cfg False w ok (asm_text xs) =
    (Inr (), let bs = concat (map (encoded_bytes cfg \<circ> snd) xs) in
       \<lparr>as_msgid = k, as_emitted = of_nat (length bs), as_text = [], as_bytes = bs\<rparr>)"
  using asm_loop_lines [OF assms, where sep = "[]" and w = w and r = 0 and st = asm_start] by (simp add: assemble_def asm_start_def Let_def)

lemma assemble_lines_witness:
  "\<exists>k. assemble wit_dump_cfg False (\<lambda>i. wit_msg) (\<lambda>i. True) (asm_text [(7, text_msg), (0, text_msg)]) =
    (Inr (), let bs = concat (map (encoded_bytes wit_dump_cfg \<circ> snd) [(7 :: nat, text_msg), (0, text_msg)]) in
       \<lparr>as_msgid = k, as_emitted = of_nat (length bs), as_text = [], as_bytes = bs\<rparr>)"
  by (rule assemble_lines) (simp_all add: wit_dump_cfg_def wit_cfg_def assemblable_def text_msg_def encodable_def)

lemma scan_prefix_dumped:
  assumes "i < 2 ^ 64"
  shows "scan_prefix (dump_line (i, off, n, m) @ rest) =
    Got (of_nat i) (CHR '' '' # nexusrv_tcode_str (tcode m) @ fields_text m @ CHR 0x0A # rest)"
proof -
  let ?n = "show_base 10 (int i)" and ?o = "CHR ''+'' # show_base 10 (int off)"
  let ?u = "CHR '' '' # nexusrv_tcode_str (tcode m) @ fields_text m @ CHR 0x0A # rest"
  have digits: "\<forall>c \<in> set ?n. is_digit 10 c" "\<forall>c \<in> set (show_base 10 (int off)). is_digit 10 c"
    by (rule show_base_digits; simp)+
  obtain c cs where n: "?n = c # cs" by (metis show_base_nonempty list.exhaust)
  with digits(1) have c: "\<not> isspace c" using digit_not_special(1) by auto
  have word: "\<forall>x \<in> set ?o. \<not> isspace x" using digits(2) digit_not_special(1) by (auto simp: isspace_def)
  have "match_text '' Msg #'' (dump_line (i, off, n, m) @ rest) = Rest (?n @ CHR '' '' # ?o @ ?u)"
    by (simp add: dump_line_def dump_head_def) (simp add: isspace_def skip_space_def)
  moreover have "skip_space (?n @ CHR '' '' # ?o @ ?u) \<noteq> []" using c n by (simp add: skip_space_def)
  moreover have "scan_number 10 id (?n @ CHR '' '' # ?o @ ?u) = Some (int i, CHR '' '' # ?o @ ?u)"
    by (rule scan_number_show) (simp_all add: ends_number_def is_digit_def digit_val_def)
  moreover have "skip_space (CHR '' '' # ?o @ ?u) = ?o @ ?u" by (simp add: skip_space_def isspace_def)
  moreover have "dropWhile (\<lambda>c. \<not> isspace c) (?o @ ?u) = ?u" using word by (simp add: isspace_def)
  moreover have "\<bar>int i\<bar> < 2 ^ 64" using assms by (simp add: of_nat_less_iff [symmetric] del: of_nat_less_iff)
  ultimately show ?thesis by (simp add: scan_prefix_def)
qed

text \<open>
  A dump cannot be assembled. The dumper writes the offset of a message in front of its
  name; the assembler takes it for the name, and the reader then meets the name where the first
  field has to be: on any dump with a message it ends with the status of a missing field at the
  first line, having written nothing.
\<close>

theorem dump_not_assembled:
  "assemble cfg text w ok (concat (map dump_line (enumerate 0 (x # xs)))) =
    (Inl (Exit (err_code nexus_msg_missing_field)), asm_start)"
proof -
  obtain off n m where x: "x = (off, n, m)" by (metis surj_pair)
  obtain c cs where w: "nexusrv_tcode_str (tcode m) = c # cs" using name_word(1) by (metis list.exhaust)
  have c: "\<not> isspace c" "c \<noteq> CHR ''T''" using w name_word(2) [of "tcode m"]
    by (auto simp: nexusrv_tcode_str_def split: if_splits)
  have stopped: "fscanf_field NEXUS_FMT_TIMESTAMP (CHR '' '' # c # s) = Inl (Code nexus_msg_missing_field)" for s
    using c by (simp add: fscanf_field_def NEXUS_FMT_TIMESTAMP_def skip_space_def) (simp add: isspace_def)
  have rd: "nexusrv_read_msg (CHR '' '' # nexusrv_tcode_str (tcode m) @ s) m0 = (Inl (Code nexus_msg_missing_field), m0)" for s m0
    by (simp add: w stopped nexusrv_read_msg_def read_fields_def CHECK_SCANF_def thenS_def bindS_def)
  show ?thesis
    using scan_prefix_dumped [of 0 off n m "concat (map dump_line (enumerate (Suc 0) xs))"]
    by (simp add: assemble_def asm_loop.simps [where i = 0] x rd asm_start_def)
qed

text \<open>A data acquisition, which the encoder refuses.\<close>

definition refused_line :: string where
  "refused_line = ''Msg #0 DataAcquisition Time=0 TCODE=7 Src=0''"

text \<open>
  The assembler does not see that the encoder failed. It passes the result of the reader, which is 0, to
  \<^verbatim>\<open>error\<close>, which therefore returns. In text mode the assembler goes on, prints the negative
  result as a length and succeeds; else it passes the negative result to \<^verbatim>\<open>fwrite\<close> as a size.
\<close>

theorem encode_failure_ignored:
  "assemble wit_dump_cfg True (\<lambda>i. wit_msg) (\<lambda>i. True) refused_line =
     (Inr (), asm_start\<lparr>as_emitted := - 9, as_text := ''[18446744073709551607]'' @ [CHR 0x0A]\<rparr>) \<and>
   fst (assemble wit_dump_cfg False (\<lambda>i. wit_msg) (\<lambda>i. True) refused_line) = Inl Crash"
  by code_simp

end
