(* ===== verification/PatchTool.thy ===== *)
theory PatchTool
  imports TextTools SplitTool HwCfg
begin

text \<open>
  The utility of \<^verbatim>\<open>util/patch.c\<close>, which changes instruction counts in a trace file in place, and
  the opening of files of \<^verbatim>\<open>util/misc.c\<close>.
\<close>

section \<open>Opening a file at an offset\<close>

text \<open>\<^verbatim>\<open>strtoul\<close> with base 0: the prefix of the number gives the base.\<close>

definition strtoul_auto :: "string \<Rightarrow> u64" where
  "strtoul_auto s =
     (case take_sign (skip_space s) of (neg, u) \<Rightarrow>
        let hex = (take 2 u = ''0x'' \<or> take 2 u = ''0X'') \<and> \<not> ends_number 16 (drop 2 u);
            n = (if hex then fst (scan_digits 16 0 (drop 2 u))
                 else if take 1 u = ''0'' then fst (scan_digits 8 0 u)
                 else fst (scan_digits 10 0 u))
        in if n \<le> 18446744073709551615 then (if neg then - word_of_int n else word_of_int n) else - 1)"

text \<open>
  An open file: a regular one with its contents, or a pipe. \<^verbatim>\<open>splice\<close> to \<^verbatim>\<open>/dev/null\<close> takes from
  a pipe what \<^verbatim>\<open>read\<close> takes. The result of \<open>seek_pipe\<close> is the number of bytes passed, or \<open>- 1\<close>.
\<close>

datatype opened = Seekable "u8 list" | Piped fd_state

function skip_loop :: "fd_state \<Rightarrow> nat \<Rightarrow> (nat option \<times> fd_state)" where
  "skip_loop fd skip =
     (if skip = 0 then (Some 0, fd)
      else
        let chunk = (if MAX_READ_SIZE > int skip then skip else nat MAX_READ_SIZE) in
        case posix_read fd chunk of
          (None, fd') \<Rightarrow> (None, fd')
        | (Some bs, fd') \<Rightarrow>
            if length bs < chunk then (Some (skip - length bs), fd')
            else skip_loop fd' (skip - length bs))"
  by pat_completeness auto
termination
proof (relation "measure snd")
  fix fd skip chunk p y fd' xa bs
  assume "skip \<noteq> (0::nat)" and "chunk = (if MAX_READ_SIZE > int skip then skip else nat MAX_READ_SIZE)"
    and "\<not> length (bs :: u8 list) < chunk"
  then have "0 < length bs" by (auto simp: MAX_READ_SIZE_def split: if_splits)
  with \<open>skip \<noteq> 0\<close> show "((fd', skip - length bs), fd, skip) \<in> measure snd" by auto
qed auto

declare skip_loop.simps [simp del]

definition seek_pipe :: "bool \<Rightarrow> fd_state \<Rightarrow> nat \<Rightarrow> int \<times> fd_state" where
  "seek_pipe null_ok fd skip =
     (if \<not> null_ok then (- 1, fd)
      else case skip_loop fd skip of
        (None, fd') \<Rightarrow> (- 1, fd')
      | (Some left, fd') \<Rightarrow> (int skip - int left, fd'))"

definition seek_file :: "bool \<Rightarrow> opened \<Rightarrow> nat \<Rightarrow> int \<times> fd_state" where
  "seek_file null_ok file offset =
     (case file of
        Seekable bs \<Rightarrow> if int offset < 9223372036854775808 then (int offset, [Data (drop offset bs)]) else (- 1, [Data bs])
      | Piped fd \<Rightarrow> seek_pipe null_ok fd offset)"

text \<open>\<open>stdin\<close> is the standard input, \<open>fs\<close> the files that can be opened.\<close>

definition open_seek_file ::
    "bool \<Rightarrow> opened \<Rightarrow> (string \<Rightarrow> opened option) \<Rightarrow> string \<Rightarrow> stop + fd_state" where
  "open_seek_file null_ok stdin fs filename =
     (let name = takeWhile (\<lambda>c. c \<noteq> CHR '':'') filename;
          file_offset = (if CHR '':'' \<in> set filename
                         then strtoul_auto (drop (length name + 1) filename) else 0)
      in case (if name = ''-'' then Some stdin else fs name) of
           None \<Rightarrow> Inl (Exit (- 1))
         | Some file \<Rightarrow>
             (case seek_file null_ok file (unat file_offset) of
                (n, fd) \<Rightarrow> if n \<noteq> sint file_offset then Inl (Exit (- 1)) else Inr fd))"

section \<open>The patcher\<close>

text \<open>
  The contents of the file, the decoder (which reads it from the position of the last
  \<^verbatim>\<open>lseek\<close>, 0 being the position at which the file was opened), the offset and the output.
\<close>

record patch_state =
  pt_file :: "u8 list"
  pt_decoder :: nexusrv_msg_decoder
  pt_fileoff :: nat
  pt_out :: ofile

type_synonym 'a patch = "(patch_state, 'a) tool"

definition strtok :: "string \<Rightarrow> string list" where
  "strtok s = filter (\<lambda>t. t \<noteq> []) (split_opts s)"

text \<open>
  \<^verbatim>\<open>pwrite\<close>, which fails or writes as many of the bytes as it is given in the argument, filling a gap behind the
  end of the file with zeros. After a short write the bytes are in the file, and the program ends.
\<close>

definition write_at :: "u8 list \<Rightarrow> nat \<Rightarrow> u8 list \<Rightarrow> u8 list" where
  "write_at bytes off f =
     (if bytes = [] then f
      else let g = f @ replicate (off - length f) 0 in take off g @ bytes @ drop (off + length bytes) g)"

definition pwrite :: "nat option \<Rightarrow> u8 list \<Rightarrow> nat \<Rightarrow> unit patch" where
  "pwrite written bytes off =
     (case written of
        None \<Rightarrow> throwS (Exit (- 1))
      | Some k \<Rightarrow>
          thenS (modS (\<lambda>s. s\<lparr>pt_file := write_at (take k bytes) off (pt_file s)\<rparr>))
            (if length (take k bytes) \<noteq> length bytes then throwS (Exit (- 1)) else retS ()))"

definition re_init :: "unit patch" where
  "re_init =
     bindS (readS pt_fileoff) (\<lambda>off.
     if int off < 9223372036854775808 then
       modS (\<lambda>s. let d = pt_decoder s in s\<lparr>pt_decoder :=
         nexusrv_msg_decoder_init (md_cfg d) [Data (drop off (pt_file s))] (- 1) (md_buffer d) (md_bufsz d)\<rparr>)
     else throwS (Exit (- 1)))"

definition next_msg :: "nexusrv_msg \<Rightarrow> (nat \<times> nexusrv_msg) patch" where
  "next_msg m0 = (\<lambda>s.
     case nexusrv_msg_decoder_next (pt_decoder s) m0 of
       (Inl e, d, m) \<Rightarrow> (Inl (fault_stop e), s)
     | (Inr n, d, m) \<Rightarrow> if n = 0 then (Inl (Exit 0), s) else (Inr (n, m), s\<lparr>pt_decoder := d\<rparr>))"

definition show_msg :: "nat \<Rightarrow> nexusrv_msg \<Rightarrow> ofile \<Rightarrow> ofile" where
  "show_msg off m f =
     put [CHR 0x0A] (snd (nexusrv_print_msg m (put (''Msg +'' @ show_base 10 (int off) @ '' '') f)))"

definition patch_icnt :: "nat option \<Rightarrow> nexusrv_hw_cfg \<Rightarrow> nat \<Rightarrow> nexusrv_msg \<Rightarrow> string \<Rightarrow> nat \<Rightarrow> unit patch" where
  "patch_icnt ok cfg n m num off =
     (if \<not> nexusrv_msg_has_icnt m then throwS (Exit (- 1))
      else
        case nexusrv_msg_encode cfg (replicate n 0xFF) n (set_icnt (strtoul_auto num) m) of
          (Inl e, bytes) \<Rightarrow> throwS (fault_stop e)
        | (Inr k, bytes) \<Rightarrow> pwrite ok bytes off)"

definition command :: "nat option \<Rightarrow> nexusrv_msg \<Rightarrow> string \<Rightarrow> unit patch" where
  "command ok m0 c =
     (if take 5 c = ''seek='' then
        thenS (modS (\<lambda>s. s\<lparr>pt_fileoff := unat (strtoul_auto (drop 5 c))\<rparr>)) re_init
      else
        bindS (next_msg m0) (\<lambda>(n, m).
        if c = ''next'' then retS ()
        else
          bindS (readS (\<lambda>s. (nexusrv_msg_decoder_offset (pt_decoder s), pt_fileoff s))) (\<lambda>(cur_off, fileoff).
          thenS
            (if c = ''show'' then modS (\<lambda>s. s\<lparr>pt_out := show_msg (cur_off + fileoff) m (pt_out s)\<rparr>)
             else if take 5 c = ''icnt='' then
               bindS (readS (\<lambda>s. md_cfg (pt_decoder s))) (\<lambda>cfg. patch_icnt ok cfg n m (drop 5 c) (cur_off + fileoff))
             else throwS (Exit (- 1)))
         (thenS (modS (\<lambda>s. s\<lparr>pt_fileoff := fileoff + cur_off\<rparr>)) re_init))))"

fun commands :: "(nat \<Rightarrow> nat option) \<Rightarrow> (nat \<Rightarrow> nexusrv_msg) \<Rightarrow> nat \<Rightarrow> string list \<Rightarrow> unit patch" where
  "commands ok w i [] = retS ()"
| "commands ok w i (c # cs) = thenS (command (ok i) (w i) c) (commands ok w (i + 1) cs)"

text \<open>The file is opened at the offset \<open>start\<close>; the code begins with the offset 0.\<close>

definition patch_tool ::
    "(nat \<Rightarrow> nat option) \<Rightarrow> (nat \<Rightarrow> nexusrv_msg) \<Rightarrow> bool \<Rightarrow> nexusrv_hw_cfg \<Rightarrow> u8 list \<Rightarrow> nat \<Rightarrow> u8 list \<Rightarrow> nat \<Rightarrow> string \<Rightarrow>
     (stop + unit) \<times> patch_state" where
  "patch_tool ok w malloc cfg file start buf bufsz cmd =
     (let s = \<lparr>pt_file = file,
               pt_decoder = nexusrv_msg_decoder_init cfg [Data (drop start file)] (- 1) buf bufsz,
               pt_fileoff = 0, pt_out = \<lparr>of_text = [], of_calls = []\<rparr>\<rparr>
      in if \<not> malloc then (Inl (Exit (- 1)), s) else commands ok w 0 (strtok cmd) s)"

section \<open>Properties\<close>

subsection \<open>Seeking\<close>

lemma posix_read_data: "posix_read [Data bs] n = (if length bs \<le> n then (Some bs, []) else (Some (take n bs), [Data (drop n bs)]))"
  by simp

text \<open>What a decimal number without leading zero is read as.\<close>

lemma strtoul_auto_show:
  assumes "0 < n" and "n < 2 ^ 64"
  shows "strtoul_auto (show_base 10 (int n)) = of_nat n"
proof -
  let ?s = "show_base 10 (int n)"
  obtain c cs where s: "?s = c # cs" by (metis show_base_nonempty list.exhaust)
  have c: "is_digit 10 c" using show_base_digits [of 10 "int n"] s by simp
  have c0: "c \<noteq> CHR ''0''" using show_base_hd [of 10 "int n"] assms(1) s by simp
  have "take_sign (skip_space ?s) = (False, ?s)"
    using digit_not_special(1-3) [OF c] by (simp add: s skip_space_def take_sign_def)
  moreover have "scan_digits 10 0 ?s = (int n, [])"
    using scan_digits_show [of 10 "int n" 0 "[]"] by simp
  moreover have "take 2 ?s \<noteq> ''0x''" "take 2 ?s \<noteq> ''0X''" "take 1 ?s \<noteq> ''0''" using c0 s by auto
  moreover have "int n \<le> 18446744073709551615" using assms(2) by simp
  ultimately show ?thesis by (simp add: strtoul_auto_def Let_def)
qed

text \<open>
  Opening a file at an offset. A name followed by a colon and a decimal offset opens the
  file of that name; a regular file is then read from that offset (from its end, if the offset lies
  behind it). From a pipe the bytes in front of the offset are taken out; if the pipe delivers
  fewer bytes in one piece the utility gives up, although more may come.
\<close>

theorem open_seeks:
  assumes "CHR '':'' \<notin> set name" and "name \<noteq> ''-''" and "fs name = Some file" and "0 < off" and "off < 2 ^ 63"
  shows "open_seek_file True stdin fs (name @ '':'' @ show_base 10 (int off)) =
    (case file of
       Seekable bs \<Rightarrow> Inr [Data (drop off bs)]
     | Piped fd \<Rightarrow> (case skip_loop fd off of
           (Some left, fd') \<Rightarrow> if left = 0 then Inr fd' else Inl (Exit (- 1))
         | (None, fd') \<Rightarrow> Inl (Exit (- 1)))) \<and>
    skip_loop [Data [1], Data [2, 3]] 2 = (Some 1, [Data [2, 3]]) \<and>
    skip_loop [Data [1, 2, 3]] 2 = (Some 0, [Data [3]])"
proof (intro conjI)
  let ?f = "name @ '':'' @ show_base 10 (int off)"
  have name: "takeWhile (\<lambda>c. c \<noteq> CHR '':'') ?f = name"
    using assms(1) by (subst takeWhile_append2) auto
  have num: "strtoul_auto (show_base 10 (int off)) = of_nat off" using strtoul_auto_show assms(4,5) by simp
  have un: "unat (of_nat off :: u64) = off" using assms(5) by (simp add: unat_of_nat)
  have si: "sint (of_nat off :: u64) = int off"
  proof -
    have "sint (word_of_int (int off) :: u64) = int off"
      using assms(5) by (subst sint_sbintrunc') (simp add: signed_take_bit_int_eq_self)
    then show ?thesis by simp
  qed
  show "open_seek_file True stdin fs ?f =
    (case file of
       Seekable bs \<Rightarrow> Inr [Data (drop off bs)]
     | Piped fd \<Rightarrow> (case skip_loop fd off of
           (Some left, fd') \<Rightarrow> if left = 0 then Inr fd' else Inl (Exit (- 1))
         | (None, fd') \<Rightarrow> Inl (Exit (- 1))))"
    using assms(2,3,5) name num un si
    by (cases "file") (auto simp: open_seek_file_def Let_def seek_file_def seek_pipe_def split: prod.splits option.splits)
  show "skip_loop [Data [1], Data [2, 3]] 2 = (Some 1, [Data [2, 3]])" by code_simp
  show "skip_loop [Data [1, 2, 3]] 2 = (Some 0, [Data [3]])" by code_simp
qed

lemma open_seeks_witness:
  "open_seek_file True (Seekable []) (\<lambda>n. if n = ''t'' then Some (Seekable [1, 2, 3]) else None) ''t:2'' = Inr [Data [3]]"
proof -
  have "open_seek_file True (Seekable []) (\<lambda>n. if n = ''t'' then Some (Seekable [1, 2, 3]) else None)
      (''t'' @ '':'' @ show_base 10 (int 2)) = Inr [Data [3]]"
    using open_seeks [of "''t''" "\<lambda>n. if n = ''t'' then Some (Seekable [1, 2, 3]) else None" "Seekable [1, 2, 3]" 2 "Seekable []"]
    by simp
  moreover have "show_base 10 (int 2) = ''2''" by code_simp
  ultimately show ?thesis by simp
qed

subsection \<open>Patching a count\<close>

lemma no_skip [simp]: "\<not> skips (- 1) m"
  by (simp add: skips_def)

lemma next_message_of_all:
  "stream_next cfg (- 1) S p m (Inr n) q m' \<Longrightarrow> 0 < n \<Longrightarrow>
   p < length S \<and> q = p + n \<and> q \<le> length S \<and> (\<exists>m0. nexusrv_msg_decode cfg (drop p S) (length S - p) m0 = (Inr n, m'))"
  by (erule stream_next.cases) (auto, frule decode_progress, simp add: le_diff_conv2)

lemma re_init_spec:
  assumes "re_init s = (Inr (), t)" and "stream_ok S (pt_decoder s)" and "pt_fileoff s \<le> length (pt_file s)"
  shows "pt_file t = pt_file s" and "pt_fileoff t = pt_fileoff s" and "pt_out t = pt_out s"
    and "stream_ok (drop (pt_fileoff t) (pt_file t)) (pt_decoder t)" and "at_pos (pt_decoder t) = 0"
    and "md_cfg (pt_decoder t) = md_cfg (pt_decoder s)" and "md_src_filter (pt_decoder t) = - 1"
proof -
  let ?d = "pt_decoder s"
  from assms(1) have t: "t = s\<lparr>pt_decoder :=
      nexusrv_msg_decoder_init (md_cfg ?d) [Data (drop (pt_fileoff s) (pt_file s))] (- 1) (md_buffer ?d) (md_bufsz ?d)\<rparr>"
    by (auto simp: re_init_def bindS_def readS_def modS_def throwS_def Let_def split: if_splits)
  then show "pt_file t = pt_file s" "pt_fileoff t = pt_fileoff s" "pt_out t = pt_out s"
      "md_cfg (pt_decoder t) = md_cfg ?d" "md_src_filter (pt_decoder t) = - 1"
    by (simp_all add: nexusrv_msg_decoder_init_def)
  have "sized ?d" using assms(2) by (simp add: stream_ok_def reads_file_def)
  then have size: "length (md_buffer ?d) = md_bufsz ?d" "0 < md_bufsz ?d" "6 * md_bufsz ?d < 4294967296"
    by (simp_all add: sized_def)
  from init_stream_ok [OF _ size, of "[Data (drop (pt_fileoff s) (pt_file s))]" "md_cfg ?d" "- 1"]
  show "stream_ok (drop (pt_fileoff t) (pt_file t)) (pt_decoder t)" by (simp add: t regular_def)
  show "at_pos (pt_decoder t) = 0" using size(2) by (simp add: t nexusrv_msg_decoder_init_def at_pos_def)
qed

lemma fits_src_small:
  assumes "unat (src m) < 2 ^ unat (src_bits cfg)" and "src_bits cfg \<le> 16"
  shows "fits_src cfg m"
proof -
  have "take_bit (unat (src_bits cfg)) (unat (src m)) = unat (src m)"
    using assms(1) by (simp add: take_bit_nat_eq_self_iff)
  moreover have "unat (src_bits cfg) \<le> 16" using assms(2) by (simp add: word_le_nat_alt)
  moreover have small: "unat (src m) < 2 ^ 64"
    using unsigned_less [of "src m"] by (rule order.strict_trans) simp
  ultimately have "take_bit (unat (src_bits cfg)) (ucast (src m) :: u64) = ucast (src m)"
    using small \<open>unat (src_bits cfg) \<le> 16\<close>
    by (intro word_unat_eq_iff [THEN iffD2])
      (simp add: unsigned_take_bit_eq unsigned_ucast_eq min_def take_bit_nat_eq_self [OF assms(1)] take_bit_nat_eq_self [OF small])
  moreover have "src_bits cfg \<le> 64" using assms(2) by unat_arith
  ultimately show ?thesis by (simp add: fits_src_def)
qed

lemma padded_encode:
  assumes "nexusrv_msg_encode cfg (replicate n x) n m = (Inr k, bytes)" and "src_bits cfg \<le> 16"
  shows "encodable m" and "k \<le> n" and "bytes = wire (layout cfg m) @ replicate (n - k) x" and "length (wire (layout cfg m)) = k"
proof -
  have src: "src_bits cfg \<le> 64" using assms(2) by unat_arith
  show enc: "encodable m" using encode_run_unsupported [OF _ _ src assms(1)] by auto
  from encode_run_spec [OF _ enc src, of n "replicate n x"] assms(1)
  show "k \<le> n" "bytes = wire (layout cfg m) @ replicate (n - k) x" "length (wire (layout cfg m)) = k"
    by (auto simp: encode_spec_def Let_def split: if_splits)
qed

lemma length_padded:
  assumes "nexusrv_msg_encode cfg (replicate n x) n m = (Inr k, bytes)" and "src_bits cfg \<le> 16"
  shows "length bytes = n"
  using padded_encode [OF assms] by simp

text \<open>The message with the new count, as it is read back from the patched bytes.\<close>

lemma patched_message:
  assumes enc: "nexusrv_msg_encode cfg (replicate n 0xFF) n (set_icnt c m) = (Inr k, bytes)" and bits: "src_bits cfg \<le> 16"
    and has: "nexusrv_msg_has_icnt m" and src: "unat (src m) < 2 ^ unat (src_bits cfg)"
  shows "\<exists>m'. nexusrv_msg_decode cfg bytes n m0 = (Inr k, m') \<and> same_fields cfg (set_icnt c m) m'"
    and "drop k bytes = replicate (n - k) 0xFF" and "length bytes = n"
proof -
  note pad = padded_encode [OF enc bits]
  have ict: "tcode m \<noteq> TCODE_ICT" using has by (auto simp: nexusrv_msg_has_icnt_def)
  have sm: "src (set_icnt c m) = src m" "tcode (set_icnt c m) = tcode m" by simp_all
  have fits: "fits_src cfg (set_icnt c m)" using bits src sm by (simp add: fits_src_small)
  have s64: "src_bits cfg \<le> 64" using bits by unat_arith
  from decode_run_wire [OF pad(1) disjI2 [OF fits] s64, of n "replicate (n - k) 0xFF" m0] ict sm pad(2-4)
  obtain m' where dm: "nexusrv_msg_decode cfg bytes n m0 = (Inr k, m')" and "layout cfg m' = layout cfg (set_icnt c m)" by auto
  with layout_same pad(1) show "\<exists>m'. nexusrv_msg_decode cfg bytes n m0 = (Inr k, m') \<and> same_fields cfg (set_icnt c m) m'" by blast
  show "drop k bytes = replicate (n - k) 0xFF" using pad(3,4) by simp
  show "length bytes = n" by (rule length_padded [OF enc bits])
qed

lemma pwrite_all:
  assumes "pwrite written bytes off s = (Inr (), t)"
  shows "t = s\<lparr>pt_file := write_at bytes off (pt_file s)\<rparr>"
  using assms
  by (auto simp: pwrite_def comp_simps thenS_def modS_def throwS_def retS_def split: option.splits if_splits)

text \<open>
  C29. Patching an instruction count. If the command succeeds at a decoder that reads the file
  from the current offset, then exactly the bytes of the next message have changed: they now hold
  this message with the new count, followed by bytes \<open>0xFF\<close> where it has become shorter, and the
  decoder is back in front of it. So a new count that takes more bytes than the message has, and a
  message without a count, are refused.
\<close>

theorem patch_icnt_in_place:
  assumes "command ok m0 (''icnt='' @ num) s = (Inr (), s')"
    and "stream_ok (drop (pt_fileoff s) (pt_file s)) (pt_decoder s)" and "pt_fileoff s \<le> length (pt_file s)"
    and "md_src_filter (pt_decoder s) = - 1" and "src_bits (md_cfg (pt_decoder s)) \<le> 16"
  shows "let cfg = md_cfg (pt_decoder s); S = pt_file s; p = pt_fileoff s + at_pos (pt_decoder s) in
    \<exists>n k m m' w bytes. nexusrv_msg_decode cfg (drop p S) (length S - p) w = (Inr n, m) \<and> nexusrv_msg_has_icnt m \<and>
      p + n \<le> length S \<and> pt_file s' = take p S @ bytes @ drop (p + n) S \<and> length bytes = n \<and>
      nexusrv_msg_decode cfg bytes n m0 = (Inr k, m') \<and> same_fields cfg (set_icnt (strtoul_auto num) m) m' \<and>
      drop k bytes = replicate (n - k) 0xFF \<and>
      pt_fileoff s' = p \<and> at_pos (pt_decoder s') = 0 \<and> stream_ok (drop p (pt_file s')) (pt_decoder s')"
proof -
  let ?d = "pt_decoder s" and ?F = "pt_fileoff s" and ?S = "pt_file s"
  let ?cfg = "md_cfg ?d"
  let ?D = "drop ?F ?S" and ?p = "?F + at_pos ?d"
  obtain r d1 m where nx: "nexusrv_msg_decoder_next ?d m0 = (r, d1, m)" by (metis surj_pair)
  from assms(1) nx obtain n where r: "r = Inr n" and n: "0 < n"
    by (cases r) (auto simp: command_def bindS_def next_msg_def split: if_splits)
  note spec = next_spec [OF assms(2) nx [unfolded r]]
  from next_message_of_all [OF spec(1) [unfolded assms(4)] n] obtain w where
    q: "at_pos d1 = at_pos ?d + n" "at_pos d1 \<le> length ?D"
    and dec: "nexusrv_msg_decode ?cfg (drop (at_pos ?d) ?D) (length ?D - at_pos ?d) w = (Inr n, m)" by auto
  have off: "nexusrv_msg_decoder_offset d1 = at_pos ?d" using spec(3) q(1) by simp
  let ?s1 = "s\<lparr>pt_decoder := d1\<rparr>" and ?m = "set_icnt (strtoul_auto num) m"
  from assms(1) nx r n off spec(5) obtain s2 where
    pat: "patch_icnt ok ?cfg n m num (at_pos ?d + ?F) ?s1 = (Inr (), s2)"
    and re: "re_init (s2\<lparr>pt_fileoff := ?F + at_pos ?d\<rparr>) = (Inr (), s')"
    by (auto simp: command_def bindS_def thenS_def readS_def modS_def next_msg_def split: if_splits prod.splits sum.splits)
  from pat obtain k bytes where has: "nexusrv_msg_has_icnt m" and
    enc: "nexusrv_msg_encode ?cfg (replicate n 0xFF) n ?m = (Inr k, bytes)" and
    wr: "pwrite ok bytes (at_pos ?d + ?F) ?s1 = (Inr (), s2)"
    by (auto simp: patch_icnt_def throwS_def split: if_splits prod.splits sum.splits)
  have "tcode m \<noteq> TCODE_Idle" using has by (auto simp: nexusrv_msg_has_icnt_def)
  note patched = patched_message [OF enc assms(5) has next_src [OF spec(1) refl n assms(5) this]]
  note len = patched(3)
  have inside: "?p + n \<le> length ?S" using q n assms(3) by auto
  have "bytes \<noteq> []" using len n by auto
  then have s2: "s2 = ?s1\<lparr>pt_file := take ?p ?S @ bytes @ drop (?p + n) ?S\<rparr>"
    using pwrite_all [OF wr] inside len by (simp add: write_at_def Let_def add.commute)
  let ?s3 = "s2\<lparr>pt_fileoff := ?p\<rparr>"
  have "stream_ok ?D (pt_decoder ?s3)" and "pt_fileoff ?s3 \<le> length (pt_file ?s3)"
    using spec(2) inside by (simp_all add: s2 len)
  note init = re_init_spec [OF re this]
  from patched(1) obtain m' where dm: "nexusrv_msg_decode ?cfg bytes n m0 = (Inr k, m')" and same: "same_fields ?cfg ?m m'" by blast
  note patched(2)
  moreover have "nexusrv_msg_decode ?cfg (drop ?p ?S) (length ?S - ?p) w = (Inr n, m)"
    using dec by (simp add: add.commute)
  moreover have "pt_file s' = take ?p ?S @ bytes @ drop (?p + n) ?S" using init(1) by (simp add: s2)
  moreover have "pt_fileoff s' = ?p" using init(2) by simp
  ultimately show ?thesis unfolding Let_def using has inside len dm same init(4,5) by metis
qed

definition patch_cfg :: nexusrv_hw_cfg where
  "patch_cfg = \<lparr>src_bits = 0, ts_bits = 0, addr_bits = 0, max_stack = 0, timer_freq = 0,
     HTM = False, VAO = False, quirk_sifive = False\<rparr>"

definition patch_ex :: patch_state where
  "patch_ex = \<lparr>pt_file = [0x0C, 0x17, 0xFF],
     pt_decoder = nexusrv_msg_decoder_init patch_cfg [Data [0x0C, 0x17, 0xFF]] (- 1) (replicate 4 0) 4,
     pt_fileoff = 0, pt_out = \<lparr>of_text = [], of_calls = []\<rparr>\<rparr>"

lemma patch_icnt_in_place_witness:
  "let s' = snd (command (Some 2) wit_msg ''icnt=6'' patch_ex); cfg = md_cfg (pt_decoder patch_ex); S = pt_file patch_ex;
      p = pt_fileoff patch_ex + at_pos (pt_decoder patch_ex) in
    \<exists>n k m m' w bytes. nexusrv_msg_decode cfg (drop p S) (length S - p) w = (Inr n, m) \<and> nexusrv_msg_has_icnt m \<and>
      p + n \<le> length S \<and> pt_file s' = take p S @ bytes @ drop (p + n) S \<and> length bytes = n \<and>
      nexusrv_msg_decode cfg bytes n wit_msg = (Inr k, m') \<and> same_fields cfg (set_icnt (strtoul_auto ''6'') m) m' \<and>
      drop k bytes = replicate (n - k) 0xFF \<and>
      pt_fileoff s' = p \<and> at_pos (pt_decoder s') = 0 \<and> stream_ok (drop p (pt_file s')) (pt_decoder s')"
proof -
  let ?s = "snd (command (Some 2) wit_msg (''icnt='' @ ''6'') patch_ex)"
  have "fst (command (Some 2) wit_msg (''icnt='' @ ''6'') patch_ex) = Inr ()" by code_simp
  then have run: "command (Some 2) wit_msg (''icnt='' @ ''6'') patch_ex = (Inr (), ?s)" by (metis prod.collapse)
  have "stream_ok (drop (pt_fileoff patch_ex) (pt_file patch_ex)) (pt_decoder patch_ex)"
    using init_stream_ok [of "[Data [0x0C, 0x17, 0xFF]]" "replicate 4 0" 4 patch_cfg "- 1"]
    by (simp add: patch_ex_def regular_def)
  moreover have "md_src_filter (pt_decoder patch_ex) = - 1" "src_bits (md_cfg (pt_decoder patch_ex)) \<le> 16"
    "pt_fileoff patch_ex \<le> length (pt_file patch_ex)"
    by (simp_all add: patch_ex_def nexusrv_msg_decoder_init_def patch_cfg_def)
  ultimately show ?thesis
    using patch_icnt_in_place [OF run] by (simp only: append.simps Let_def)
qed

text \<open>
  The offset of the file name is not respected. The patcher counts its offsets from the
  start of the file, whatever the offset at which the file was opened: a patch of the first message
  behind the opening offset is written to the start of the file. With a seek first it goes to the
  right place.
\<close>

theorem patch_ignores_offset:
  "pt_file (snd (patch_tool (\<lambda>_. Some 2) (\<lambda>_. wit_msg) True patch_cfg [0xFF, 0xFF, 0x0C, 0x13] 2 (replicate 4 0) 4 ''icnt=6'')) =
    [0x0C, 0x1B, 0x0C, 0x13] \<and>
   pt_file (snd (patch_tool (\<lambda>_. Some 2) (\<lambda>_. wit_msg) True patch_cfg [0xFF, 0xFF, 0x0C, 0x13] 2 (replicate 4 0) 4 ''seek=2,icnt=6'')) =
    [0xFF, 0xFF, 0x0C, 0x1B]"
  by (intro conjI; code_simp)

end
