(* ===== verification/OrdMap.thy ===== *)
theory OrdMap
  imports Prelude
begin

text \<open>
  \<^verbatim>\<open>std::map\<close> as a list of entries in ascending order, with the operations the utilities use: \<^verbatim>\<open>find\<close>,
  \<^verbatim>\<open>emplace\<close>, and the entry in front of \<^verbatim>\<open>upper_bound\<close>. The interface for the look-up of an
  address in intervals rests on the laws of the last one.
\<close>

section \<open>Ordered maps\<close>

type_synonym ('k, 'v) omap = "('k \<times> 'v) list"

definition om_find :: "'k \<Rightarrow> ('k, 'v) omap \<Rightarrow> 'v option" where
  "om_find k m = map_of m k"

fun om_insert :: "'k::linorder \<Rightarrow> 'v \<Rightarrow> ('k, 'v) omap \<Rightarrow> ('k, 'v) omap" where
  "om_insert k v [] = [(k, v)]"
| "om_insert k v ((a, w) # m) = (if k < a then (k, v) # (a, w) # m else (a, w) # om_insert k v m)"

text \<open>Whether the entry was inserted, or there was one already; its value; and the map.\<close>

definition om_emplace :: "'k::linorder \<Rightarrow> 'v \<Rightarrow> ('k, 'v) omap \<Rightarrow> bool \<times> 'v \<times> ('k, 'v) omap" where
  "om_emplace k v m = (case om_find k m of Some w \<Rightarrow> (False, w, m) | None \<Rightarrow> (True, v, om_insert k v m))"

text \<open>The entry in front of \<^verbatim>\<open>upper_bound(k)\<close>: the last one whose key is at most \<open>k\<close>.\<close>

fun om_before :: "'k::linorder \<Rightarrow> ('k, 'v) omap \<Rightarrow> ('k \<times> 'v) option" where
  "om_before k [] = None"
| "om_before k ((a, w) # m) =
     (if k < a then None else case om_before k m of None \<Rightarrow> Some (a, w) | Some e \<Rightarrow> Some e)"

definition om_ok :: "('k::linorder, 'v) omap \<Rightarrow> bool" where
  "om_ok m \<longleftrightarrow> sorted_wrt (<) (map fst m)"

lemma om_ok_simps [simp]: "om_ok []" "om_ok ((a, w) # m) \<longleftrightarrow> (\<forall>(b, v) \<in> set m. a < b) \<and> om_ok m"
  by (auto simp: om_ok_def)

lemma om_ok_filter: "om_ok m \<Longrightarrow> om_ok (filter P m)"
  by (induction m) auto

lemma om_ok_distinct: "om_ok m \<Longrightarrow> distinct (map fst m)"
  by (simp add: om_ok_def strict_sorted_iff)

lemma om_find_iff: "om_ok m \<Longrightarrow> om_find k m = Some v \<longleftrightarrow> (k, v) \<in> set m"
  by (simp add: om_find_def om_ok_distinct)

lemma set_om_insert [simp]: "set (om_insert k v m) = insert (k, v) (set m)"
  by (induction k v m rule: om_insert.induct) auto

lemma om_insert_ok: "om_ok m \<Longrightarrow> om_find k m = None \<Longrightarrow> om_ok (om_insert k v m)"
proof (induction k v m rule: om_insert.induct)
  case (2 k v a w m)
  then have "k \<noteq> a" by (auto simp: om_find_def)
  with 2 show ?case by (auto simp: om_find_def split: if_splits)
qed simp

lemma om_emplace_ok:
  "om_ok m \<Longrightarrow> om_emplace k v m = (ins, w, m') \<Longrightarrow>
   om_ok m' \<and> (if ins then om_find k m = None \<and> w = v \<and> set m' = insert (k, v) (set m) else (k, w) \<in> set m \<and> m' = m)"
  by (auto simp: om_emplace_def om_insert_ok om_find_iff split: option.splits)

lemma om_before_Some:
  "om_ok m \<Longrightarrow> om_before k m = Some (a, v) \<longleftrightarrow> (a, v) \<in> set m \<and> a \<le> k \<and> (\<forall>(b, w) \<in> set m. b \<le> k \<longrightarrow> b \<le> a)"
proof (induction k m arbitrary: a v rule: om_before.induct)
  case (2 k a' w m)
  show ?case
  proof (cases "om_before k m")
    case None
    then have none: "b \<notin> {x. x \<le> k}" if "(b, u) \<in> set m" for b u
      using that "2.prems" by (induction k m rule: om_before.induct) (auto split: if_splits option.splits)
    with 2 None show ?thesis by (auto dest: none)
  next
    case (Some e)
    obtain b u where e: "e = (b, u)" by (metis surj_pair)
    show ?thesis
    proof (cases "k < a'")
      case True
      with "2.prems" show ?thesis by fastforce
    next
      case False
      have okm: "om_ok m" using "2.prems" by simp
      have "om_before k m = Some (b, u)" using Some e by simp
      from iffD1 [OF "2.IH" [OF False okm] this]
      have ih: "(b, u) \<in> set m" "b \<le> k" "\<forall>(c, w) \<in> set m. c \<le> k \<longrightarrow> c \<le> b" by blast+
      with "2.prems" have "a' < b" by auto
      with False Some e ih have run: "om_before k ((a', w) # m) = Some (b, u)" by simp
      have uniq: "v' = u" if "(b, v') \<in> set m" for v'
        using that ih(1) om_find_iff [OF okm] by (metis option.inject)
      show ?thesis
      proof
        assume "om_before k ((a', w) # m) = Some (a, v)"
        with run ih \<open>a' < b\<close> show "(a, v) \<in> set ((a', w) # m) \<and> a \<le> k \<and> (\<forall>(b, w) \<in> set ((a', w) # m). b \<le> k \<longrightarrow> b \<le> a)"
          by auto
      next
        assume r: "(a, v) \<in> set ((a', w) # m) \<and> a \<le> k \<and> (\<forall>(b, w) \<in> set ((a', w) # m). b \<le> k \<longrightarrow> b \<le> a)"
        with ih(1,2) have "b \<le> a" by auto
        with r \<open>a' < b\<close> have "(a, v) \<in> set m" by auto
        with r ih(3) have "a \<le> b" by blast
        with \<open>b \<le> a\<close> \<open>(a, v) \<in> set m\<close> uniq have "a = b" "v = u" by auto
        with run show "om_before k ((a', w) # m) = Some (a, v)" by simp
      qed
    qed
  qed
qed simp

lemma om_before_None: "om_ok m \<Longrightarrow> om_before k m = None \<longleftrightarrow> (\<forall>(a, v) \<in> set m. k < a)"
  by (induction k m rule: om_before.induct) (auto split: if_splits option.splits)

section \<open>Addresses in intervals\<close>

text \<open>
  The interface: a map with the entry at or in front of an address, whose entries cover an interval from their
  key on.
\<close>

locale interval_map =
  fixes ok :: "'m \<Rightarrow> bool" and entries :: "'m \<Rightarrow> (u64 \<times> 'v) set" and before :: "u64 \<Rightarrow> 'm \<Rightarrow> (u64 \<times> 'v) option"
    and len :: "'v \<Rightarrow> u64"
  assumes before_Some: "ok m \<Longrightarrow> before k m = Some (a, v) \<longleftrightarrow>
      (a, v) \<in> entries m \<and> a \<le> k \<and> (\<forall>(b, w) \<in> entries m. b \<le> k \<longrightarrow> b \<le> a)"
    and before_None: "ok m \<Longrightarrow> before k m = None \<longleftrightarrow> (\<forall>(a, v) \<in> entries m. k < a)"
    and unique: "ok m \<Longrightarrow> (a, v) \<in> entries m \<Longrightarrow> (a, w) \<in> entries m \<Longrightarrow> v = w"
begin

text \<open>An address in an interval, and intervals that do not overlap.\<close>

definition covers :: "u64 \<times> 'v \<Rightarrow> u64 \<Rightarrow> bool" where
  "covers e k \<longleftrightarrow> fst e \<le> k \<and> k - fst e < len (snd e)"

definition apart :: "'m \<Rightarrow> bool" where
  "apart m \<longleftrightarrow> (\<forall>(a, v) \<in> entries m. \<forall>(b, w) \<in> entries m. a < b \<longrightarrow> len v \<le> b - a)"

definition lookup :: "u64 \<Rightarrow> 'm \<Rightarrow> (u64 \<times> 'v) option" where
  "lookup k m = (case before k m of None \<Rightarrow> None | Some (a, v) \<Rightarrow> if len v \<le> k - a then None else Some (a, v))"

lemma lookup_covers: "ok m \<Longrightarrow> lookup k m = Some e \<Longrightarrow> e \<in> entries m \<and> covers e k"
  by (auto simp: lookup_def covers_def before_Some split: option.splits if_splits)

lemma covered_found:
  assumes "ok m" and "apart m" and "(a, v) \<in> entries m" and "covers (a, v) k"
  shows "lookup k m = Some (a, v)"
proof -
  from assms(4) have a: "a \<le> k" "k - a < len v" by (simp_all add: covers_def)
  have "b \<le> a" if b: "(b, w) \<in> entries m" "b \<le> k" for b w
  proof (rule ccontr)
    assume "\<not> b \<le> a"
    then have "a < b" by simp
    with assms(2,3) b(1) have "len v \<le> b - a" by (auto simp: apart_def)
    moreover have "b - a \<le> k - a" using \<open>a < b\<close> b(2) by unat_arith
    ultimately show False using a(2) by simp
  qed
  with assms(1,3) a(1) have "before k m = Some (a, v)" by (auto simp: before_Some)
  with a(2) show ?thesis by (simp add: lookup_def not_le)
qed

lemma lookup_spec:
  assumes "ok m" and "apart m"
  shows "lookup k m = Some e \<longleftrightarrow> e \<in> entries m \<and> covers e k"
  using lookup_covers [OF assms(1)] covered_found [OF assms] by (cases e) blast

lemma lookup_none:
  assumes "ok m" and "apart m"
  shows "lookup k m = None \<longleftrightarrow> (\<forall>e \<in> entries m. \<not> covers e k)"
  using lookup_spec [OF assms, of k] by (cases "lookup k m") auto

end

end
