(* ===== verification/ObjFile.thy ===== *)
theory ObjFile
  imports OrdMap ToolBase
begin

text \<open>
  Object files of \<^verbatim>\<open>util/objfile.h\<close> and \<^verbatim>\<open>util/objfile.cpp\<close>, and the memory they make up, of
  \<^verbatim>\<open>util/vm.h\<close> and \<^verbatim>\<open>util/vm.cpp\<close>. The files are read with libbfd, which is not part of the repository:
  the sections it reports, and its \<^verbatim>\<open>bfd_mmap\<close>, are arguments.
\<close>

section \<open>Object files\<close>

text \<open>A section; \<open>sec_load\<close> says that the flags \<^verbatim>\<open>SEC_LOAD\<close> and \<^verbatim>\<open>SEC_ALLOC\<close> are set.\<close>

record asection =
  sec_name :: string
  sec_vma :: u64
  sec_size :: u64
  sec_rawsize :: u64
  sec_filepos :: u64
  sec_load :: bool

record obj_file =
  sect_by_name :: "asection list"
  sect_by_vma :: "(u64, asection) omap"
  sect_by_fileoff :: "(u64, asection) omap"
  sect_mapped :: "(u64, u8 list) omap"

type_synonym 'a obj = "(obj_file, 'a) tool"

definition starts_with :: "string \<Rightarrow> string \<Rightarrow> bool" where
  "starts_with s t \<longleftrightarrow> take (length s) t = s"

definition emplace_vma :: "asection \<Rightarrow> unit obj" where
  "emplace_vma sect = (\<lambda>o'. case om_emplace (sec_vma sect) sect (sect_by_vma o') of
     (ins, old, m) \<Rightarrow> if ins then (Inr (), o'\<lparr>sect_by_vma := m\<rparr>) else (Inl (Exit (- 1)), o'))"

definition emplace_fileoff :: "asection \<Rightarrow> unit obj" where
  "emplace_fileoff sect = (\<lambda>o'. case om_emplace (sec_filepos sect) sect (sect_by_fileoff o') of
     (ins, old, m) \<Rightarrow> if ins then (Inr (), o'\<lparr>sect_by_fileoff := m\<rparr>) else (Inl (Exit (- 1)), o'))"

definition add_section :: "asection \<Rightarrow> unit obj" where
  "add_section sect =
     thenS (modS (\<lambda>o'. o'\<lparr>sect_by_name := sect_by_name o' @ [sect]\<rparr>))
       (if sec_size sect = 0 then retS ()
        else if \<not> sec_load sect then retS ()
        else if starts_with ''.note.'' (sec_name sect) then retS ()
        else thenS (emplace_vma sect) (emplace_fileoff sect))"

fun add_sections :: "asection list \<Rightarrow> unit obj" where
  "add_sections [] = retS ()"
| "add_sections (s # ss) = thenS (add_section s) (add_sections ss)"

text \<open>The constructor: whether the file can be opened, has the format, and its sections.\<close>

definition obj_file_open :: "bool \<Rightarrow> bool \<Rightarrow> asection list \<Rightarrow> stop + obj_file" where
  "obj_file_open opened format sects =
     (if \<not> opened \<or> \<not> format then Inl (Exit (- 1))
      else case add_sections sects \<lparr>sect_by_name = [], sect_by_vma = [], sect_by_fileoff = [], sect_mapped = []\<rparr> of
        (Inl e, _) \<Rightarrow> Inl e
      | (Inr _, obj) \<Rightarrow> Inr obj)"

text \<open>The size in the file.\<close>

definition raw_size :: "asection \<Rightarrow> u64" where
  "raw_size sect = (if sec_rawsize sect = 0 then sec_size sect else sec_rawsize sect)"

text \<open>
  The pages that hold a section: their offset in the file and their length; \<open>pagesz\<close> is the size of a page.
\<close>

definition page_offset :: "u64 \<Rightarrow> asection \<Rightarrow> u64" where
  "page_offset pagesz sect = sec_filepos sect AND NOT (pagesz - 1)"

definition page_len :: "u64 \<Rightarrow> asection \<Rightarrow> u64" where
  "page_len pagesz sect =
     (sec_filepos sect - page_offset pagesz sect + raw_size sect + (pagesz - 1)) AND NOT (pagesz - 1)"

text \<open>
  \<open>bfd_mmap len offset\<close> gives the bytes it maps, or \<open>None\<close> if it fails. The result is a pointer to the section, as
  the bytes from there on, with its size; or \<open>None\<close> for a null pointer.
\<close>

definition mmap :: "(u64 \<Rightarrow> u64 \<Rightarrow> u8 list option) \<Rightarrow> u64 \<Rightarrow> u64 \<Rightarrow> ((u8 list \<times> u64) option) obj" where
  "mmap bfd_mmap pagesz fileoff = (\<lambda>o'.
     case om_find fileoff (sect_by_fileoff o') of
       None \<Rightarrow> (Inl (Exit (- 1)), o')
     | Some sect \<Rightarrow>
         if raw_size sect = 0 then (Inl Crash, o')
         else case om_find fileoff (sect_mapped o') of
           Some ptr \<Rightarrow> (Inr (Some (ptr, raw_size sect)), o')
         | None \<Rightarrow>
             (case bfd_mmap (page_len pagesz sect) (page_offset pagesz sect) of
                None \<Rightarrow> (Inr None, o')
              | Some pages \<Rightarrow>
                  if length pages \<noteq> unat (page_len pagesz sect) then (Inl Crash, o')
                  else
                    let ptr = drop (unat (sec_filepos sect - page_offset pagesz sect)) pages
                    in (Inr (Some (ptr, raw_size sect)), o'\<lparr>sect_mapped := om_insert fileoff ptr (sect_mapped o')\<rparr>)))"

text \<open>Whether anything was unmapped, which is what the code does not return.\<close>

definition unmap :: "u64 \<Rightarrow> unit obj" where
  "unmap fileoff = (\<lambda>o'.
     if om_find fileoff (sect_mapped o') = None then (Inr (), o')
     else
       let o1 = o'\<lparr>sect_mapped := filter (\<lambda>(a, b). a \<noteq> fileoff) (sect_mapped o')\<rparr>
       in case om_find fileoff (sect_by_fileoff o1) of
         None \<Rightarrow> (Inl (Exit (- 1)), o1)
       | Some sect \<Rightarrow> if raw_size sect = 0 then (Inl Crash, o1) else (Inr (), o1))"

text \<open>The destructor unmaps what is mapped.\<close>

fun unmap_all :: "u64 list \<Rightarrow> unit obj" where
  "unmap_all [] = retS ()"
| "unmap_all (fileoff # rest) = thenS (unmap fileoff) (unmap_all rest)"

definition obj_file_close :: "unit obj" where
  "obj_file_close = bindS (readS (\<lambda>f. map fst (sect_mapped f))) unmap_all"

definition fileoff_to_va :: "u64 \<Rightarrow> obj_file \<Rightarrow> u64" where
  "fileoff_to_va offset obj =
     (case om_before offset (sect_by_fileoff obj) of
        None \<Rightarrow> 0
      | Some (a, sect) \<Rightarrow> if offset - a \<ge> sec_size sect then 0 else offset - a + sec_vma sect)"

text \<open>Little-endian numbers of four bytes.\<close>

definition le32 :: "u8 list \<Rightarrow> u32" where
  "le32 bs = ucast (bs ! 0) OR push_bit 8 (ucast (bs ! 1)) OR push_bit 16 (ucast (bs ! 2)) OR push_bit 24 (ucast (bs ! 3))"

text \<open>The build id; \<open>contents\<close> reads a section. A header of 12 bytes and the name \<^verbatim>\<open>GNU\<close> are in front of it.\<close>

definition get_build_id :: "(asection \<Rightarrow> u8 list option) \<Rightarrow> obj_file \<Rightarrow> stop + u8 list option" where
  "get_build_id contents obj =
     (case filter (\<lambda>s. sec_name s = ''.note.gnu.build-id'') (sect_by_name obj) of
        [] \<Rightarrow> Inr None
      | sect # _ \<Rightarrow>
          if sec_size sect < 12 then Inl (Exit (- 1))
          else case contents sect of
            None \<Rightarrow> Inl (Exit (- 1))
          | Some d \<Rightarrow>
              let name_sz = unat (le32 (take 4 d)); typ = le32 (take 4 (drop 8 d)) in
              if length d < 12 + name_sz then Inl (Exit (- 1))
              else if name_sz \<noteq> 4 \<or> typ \<noteq> 3 \<or> take 4 (drop 12 d) \<noteq> [0x47, 0x4E, 0x55, 0] then Inl (Exit (- 1))
              else Inr (Some (drop (12 + name_sz) d)))"

section \<open>The memory\<close>

text \<open>A loaded section knows its core file by its number.\<close>

record loaded_section =
  ls_core :: nat
  ls_sect :: asection

record memory_view =
  loaded_sections :: "(u64, loaded_section) omap"
  cores :: "obj_file list"

type_synonym 'a vm = "(memory_view, 'a) tool"

fun load_sections :: "nat \<Rightarrow> (u64, asection) omap \<Rightarrow> unit vm" where
  "load_sections c [] = retS ()"
| "load_sections c ((vma, sect) # rest) = (\<lambda>v.
     case om_emplace vma \<lparr>ls_core = c, ls_sect = sect\<rparr> (loaded_sections v) of
       (ins, old, m) \<Rightarrow> if ins then load_sections c rest (v\<lparr>loaded_sections := m\<rparr>) else (Inl (Exit (- 1)), v))"

definition load_core :: "obj_file \<Rightarrow> unit vm" where
  "load_core core =
     bindS (readS (\<lambda>v. length (cores v))) (\<lambda>c.
     thenS (modS (\<lambda>v. v\<lparr>cores := cores v @ [core]\<rparr>)) (load_sections c (sect_by_vma core)))"

text \<open>The bytes from the address to the end of its section, or \<open>None\<close> for an address in no section.\<close>

definition try_map :: "(nat \<Rightarrow> u64 \<Rightarrow> u64 \<Rightarrow> u8 list option) \<Rightarrow> u64 \<Rightarrow> u64 \<Rightarrow> (u8 list option) vm" where
  "try_map bfd_mmap pagesz vma = (\<lambda>v.
     case om_before vma (loaded_sections v) of
       None \<Rightarrow> (Inr None, v)
     | Some (a, ls) \<Rightarrow>
         if vma - a \<ge> sec_size (ls_sect ls) then (Inr None, v)
         else
           case mmap (bfd_mmap (ls_core ls)) pagesz (sec_filepos (ls_sect ls)) (cores v ! ls_core ls) of
             (Inl e, core) \<Rightarrow> (Inl e, v\<lparr>cores := (cores v)[ls_core ls := core]\<rparr>)
           | (Inr r, core) \<Rightarrow>
               let v1 = v\<lparr>cores := (cores v)[ls_core ls := core]\<rparr> in
               (case r of
                  None \<Rightarrow> (Inl (Exit (- 1)), v1)
                | Some (ptr, sz) \<Rightarrow>
                    if vma - a \<ge> sz then (Inl (Exit (- 1)), v1)
                    else (Inr (Some (take (unat (sz - (vma - a))) (drop (unat (vma - a)) ptr))), v1)))"

end
