(* ===== verification/ObjProps.thy ===== *)
theory ObjProps
  imports ObjFile
begin

text \<open>
  What is found at an address: the bytes of the file that the section containing it was loaded from.
\<close>

section \<open>Pages\<close>

lemma and_not_mask_unat: "unat (x AND NOT (mask n)) = unat x - unat x mod 2 ^ n" for x :: "'a::len word"
proof -
  have "(x AND NOT (mask n)) + take_bit n x = (x AND NOT (mask n)) OR take_bit n x"
    by (rule disjunctive_add) (auto simp: bit_simps)
  also have "\<dots> = x" by (rule bit_word_eqI) (auto simp: bit_simps)
  finally have "x AND NOT (mask n) = x - take_bit n x" by (metis add_diff_cancel_right')
  moreover have t: "unat (take_bit n x) = unat x mod 2 ^ n" by (metis unsigned_take_bit_eq take_bit_eq_mod)
  ultimately show ?thesis by (simp add: unat_sub word_le_nat_alt)
qed

text \<open>The pages of a section hold all of it.\<close>

lemma pages_hold:
  assumes "unat (sec_filepos s) + unat (raw_size s) + 2 ^ n < 2 ^ 64"
  shows "unat (sec_filepos s - page_offset (2 ^ n) s) = unat (sec_filepos s) mod 2 ^ n"
    and "unat (page_offset (2 ^ n) s) + unat (sec_filepos s) mod 2 ^ n = unat (sec_filepos s)"
    and "unat (sec_filepos s) mod 2 ^ n + unat (raw_size s) \<le> unat (page_len (2 ^ n) s)"
proof -
  let ?o = "unat (sec_filepos s)" and ?r = "unat (raw_size s)" and ?P = "2 ^ n :: nat"
  have P: "0 < ?P" "?P < 2 ^ 64" using assms by simp_all
  have m: "(2 ^ n - 1 :: u64) = mask n" by (simp add: mask_eq_exp_minus_1)
  have um: "unat (mask n :: u64) = ?P - 1"
  proof -
    have "(mask n :: u64) = of_nat (?P - 1)" using P(1) by (simp add: of_nat_diff mask_eq_exp_minus_1)
    then have "unat (mask n :: u64) = (?P - 1) mod 2 ^ 64" by (simp only: unat_of_nat) simp
    then show ?thesis using P(2) by simp
  qed
  have po: "unat (page_offset (2 ^ n) s) = ?o - ?o mod ?P" by (simp add: page_offset_def m and_not_mask_unat)
  then show "unat (page_offset (2 ^ n) s) + ?o mod ?P = ?o" by simp
  have d: "unat (sec_filepos s - page_offset (2 ^ n) s) = ?o mod ?P"
    using po by (simp add: unat_sub word_le_nat_alt)
  then show "unat (sec_filepos s - page_offset (2 ^ n) s) = ?o mod ?P" .
  let ?x = "sec_filepos s - page_offset (2 ^ n) s + raw_size s + (2 ^ n - 1)"
  have "?o mod ?P + ?r + (?P - 1) < 2 ^ 64" using assms P(1) mod_less_eq_dividend [of ?o ?P] by linarith
  then have small: "?o mod ?P + ?r < 2 ^ 64" "?o mod ?P + ?r + (?P - 1) < 2 ^ 64" by linarith+
  have x1: "unat (sec_filepos s - page_offset (2 ^ n) s + raw_size s) = ?o mod ?P + ?r"
    unfolding unat_word_ariths(1) d using small(1) by simp
  have x: "unat ?x = ?o mod ?P + ?r + (?P - 1)"
    unfolding m unat_word_ariths(1) [of _ "mask n"] x1 um using small(2) by simp
  have "unat (page_len (2 ^ n) s) = unat ?x - unat ?x mod ?P"
    by (simp add: page_len_def m and_not_mask_unat)
  moreover have "unat ?x mod ?P < ?P" by (rule mod_less_divisor [OF P(1)])
  moreover have "a + r \<le> l" if "l = y - c" "c < p" "y = a + r + (p - 1)" for a r l y c p :: nat
    using that by linarith
  ultimately show "?o mod ?P + ?r \<le> unat (page_len (2 ^ n) s)" using x by blast
qed

section \<open>Mapped sections\<close>

text \<open>
  What \<^verbatim>\<open>bfd_mmap\<close> is documented to do, for a file \<open>F\<close>: it maps as many bytes as asked for, those of the file as far as
  it goes.
\<close>

definition maps_file :: "u8 list \<Rightarrow> (u64 \<Rightarrow> u64 \<Rightarrow> u8 list option) \<Rightarrow> bool" where
  "maps_file F bm \<longleftrightarrow> (\<forall>len off pages. bm len off = Some pages \<longrightarrow>
     length pages = unat len \<and> (\<forall>i < unat len. unat off + i < length F \<longrightarrow> pages ! i = F ! (unat off + i)))"

text \<open>The bytes of a section, and sections that lie in the file.\<close>

definition section_bytes :: "u8 list \<Rightarrow> asection \<Rightarrow> u8 list" where
  "section_bytes F s = take (unat (raw_size s)) (drop (unat (sec_filepos s)) F)"

definition section_fits :: "nat \<Rightarrow> u8 list \<Rightarrow> asection \<Rightarrow> bool" where
  "section_fits n F s \<longleftrightarrow> unat (sec_filepos s) + unat (raw_size s) \<le> length F \<and>
     unat (sec_filepos s) + unat (raw_size s) + 2 ^ n < 2 ^ 64"

definition ptr_ok :: "u8 list \<Rightarrow> asection \<Rightarrow> u8 list \<Rightarrow> bool" where
  "ptr_ok F s ptr \<longleftrightarrow> take (unat (raw_size s)) ptr = section_bytes F s \<and> unat (raw_size s) \<le> length ptr"

definition core_ok :: "nat \<Rightarrow> u8 list \<Rightarrow> obj_file \<Rightarrow> bool" where
  "core_ok n F obj \<longleftrightarrow> om_ok (sect_by_fileoff obj) \<and> om_ok (sect_mapped obj) \<and>
     (\<forall>(k, s) \<in> set (sect_by_fileoff obj). k = sec_filepos s \<and> section_fits n F s \<and> 0 < sec_size s) \<and>
     (\<forall>(k, ptr) \<in> set (sect_mapped obj). \<exists>s. (k, s) \<in> set (sect_by_fileoff obj) \<and> ptr_ok F s ptr)"

lemma mapped_ptr:
  assumes "maps_file F bm" and "section_fits n F s"
    and "bm (page_len (2 ^ n) s) (page_offset (2 ^ n) s) = Some pages"
  shows "ptr_ok F s (drop (unat (sec_filepos s - page_offset (2 ^ n) s)) pages)"
proof -
  let ?o = "unat (sec_filepos s)" and ?r = "unat (raw_size s)" and ?d = "unat (sec_filepos s) mod 2 ^ n"
  from assms(2) have fit: "?o + ?r \<le> length F" "?o + ?r + 2 ^ n < 2 ^ 64" by (simp_all add: section_fits_def)
  note p = pages_hold [OF fit(2)]
  from assms(1,3) have len: "length pages = unat (page_len (2 ^ n) s)"
    and eq: "\<And>i. i < length pages \<Longrightarrow> unat (page_offset (2 ^ n) s) + i < length F \<Longrightarrow> pages ! i = F ! (unat (page_offset (2 ^ n) s) + i)"
    by (auto simp: maps_file_def)
  have room: "?d + ?r \<le> length pages" using p(3) len by simp
  have "take ?r (drop ?d pages) = section_bytes F s"
  proof (rule nth_equalityI)
    show "length (take ?r (drop ?d pages)) = length (section_bytes F s)"
      using room fit(1) by (simp add: section_bytes_def)
    fix i assume "i < length (take ?r (drop ?d pages))"
    then have i: "i < ?r" by simp
    have "pages ! (?d + i) = F ! (unat (page_offset (2 ^ n) s) + (?d + i))"
      using i room fit(1) p(2) by (intro eq) linarith+
    also have "unat (page_offset (2 ^ n) s) + (?d + i) = ?o + i" using p(2) by simp
    finally show "take ?r (drop ?d pages) ! i = section_bytes F s ! i"
      using i room fit(1) by (simp add: section_bytes_def)
  qed
  with room show ?thesis by (simp add: ptr_ok_def p(1))
qed

text \<open>
  Mapping gives the section, and only adds to the cache. It fails for a section that is not mapped yet if \<^verbatim>\<open>bfd_mmap\<close>
  fails for its pages; a section that is mapped stays so.
\<close>

definition mapped_in :: "obj_file \<Rightarrow> asection \<Rightarrow> bool" where
  "mapped_in obj s \<longleftrightarrow> om_find (sec_filepos s) (sect_mapped obj) \<noteq> None"

definition cannot_map :: "(u64 \<Rightarrow> u64 \<Rightarrow> u8 list option) \<Rightarrow> nat \<Rightarrow> obj_file \<Rightarrow> asection \<Rightarrow> bool" where
  "cannot_map bm n obj s \<longleftrightarrow> \<not> mapped_in obj s \<and> bm (page_len (2 ^ n) s) (page_offset (2 ^ n) s) = None"

definition map_result :: "(u64 \<Rightarrow> u64 \<Rightarrow> u8 list option) \<Rightarrow> nat \<Rightarrow> u8 list \<Rightarrow> asection \<Rightarrow> obj_file \<Rightarrow>
    stop + (u8 list \<times> u64) option \<Rightarrow> obj_file \<Rightarrow> bool" where
  "map_result bm n F s obj r obj' \<longleftrightarrow>
     (if cannot_map bm n obj s then r = Inr None \<and> obj' = obj
      else mapped_in obj' s \<and> (\<exists>ptr. r = Inr (Some (ptr, raw_size s)) \<and> ptr_ok F s ptr))"

lemma map_of_om_insert: "map_of m k = None \<Longrightarrow> map_of (om_insert k v m) k = Some v"
  by (induction k v m rule: om_insert.induct) (auto split: if_splits)

lemma mmap_run:
  assumes "core_ok n F obj" and "maps_file F bm" and "mmap bm (2 ^ n) k obj = (r, obj')"
  shows "core_ok n F obj'" and "sect_by_vma obj' = sect_by_vma obj" and "sect_by_fileoff obj' = sect_by_fileoff obj"
    and "sect_by_name obj' = sect_by_name obj"
    and "(k, s) \<in> set (sect_by_fileoff obj) \<Longrightarrow> map_result bm n F s obj r obj'"
proof -
  from assms(1) have ok: "om_ok (sect_by_fileoff obj)" "om_ok (sect_mapped obj)"
    and secs: "\<And>k s. (k, s) \<in> set (sect_by_fileoff obj) \<Longrightarrow> k = sec_filepos s \<and> section_fits n F s \<and> 0 < sec_size s"
    and ptrs: "\<And>k ptr. (k, ptr) \<in> set (sect_mapped obj) \<Longrightarrow> \<exists>s. (k, s) \<in> set (sect_by_fileoff obj) \<and> ptr_ok F s ptr"
    by (auto simp: core_ok_def)
  have all: "core_ok n F obj' \<and> sect_by_vma obj' = sect_by_vma obj \<and> sect_by_fileoff obj' = sect_by_fileoff obj \<and>
      sect_by_name obj' = sect_by_name obj \<and>
      ((k, s) \<in> set (sect_by_fileoff obj) \<longrightarrow> map_result bm n F s obj r obj')" for s
  proof (cases "om_find k (sect_by_fileoff obj)")
    case None
    then have "(k, s) \<notin> set (sect_by_fileoff obj)" using om_find_iff [OF ok(1), of k s] by simp
    with None assms(1,3) show ?thesis by (auto simp: mmap_def)
  next
    case (Some t)
    then have t: "(k, t) \<in> set (sect_by_fileoff obj)" using om_find_iff [OF ok(1)] by blast
    have same: "(k, s) \<in> set (sect_by_fileoff obj) \<longleftrightarrow> s = t"
      using Some om_find_iff [OF ok(1), of k s] by auto
    have "raw_size t \<noteq> 0" using secs [OF t] by (auto simp: raw_size_def)
    have key: "sec_filepos t = k" using secs [OF t] by simp
    show ?thesis
    proof (cases "om_find k (sect_mapped obj)")
      case (Some ptr)
      then have "(k, ptr) \<in> set (sect_mapped obj)" using om_find_iff [OF ok(2)] by blast
      from ptrs [OF this] obtain s' where "(k, s') \<in> set (sect_by_fileoff obj)" "ptr_ok F s' ptr" by blast
      moreover from this(1) \<open>om_find k (sect_by_fileoff obj) = Some t\<close> have "s' = t" using om_find_iff [OF ok(1), of k s'] by simp
      ultimately show ?thesis using Some \<open>om_find k (sect_by_fileoff obj) = Some t\<close> \<open>raw_size t \<noteq> 0\<close> assms(1,3) same
        by (auto simp: mmap_def map_result_def cannot_map_def mapped_in_def key)
    next
      case None
      show ?thesis
      proof (cases "bm (page_len (2 ^ n) t) (page_offset (2 ^ n) t)")
        case none: None
        with None Some \<open>raw_size t \<noteq> 0\<close> assms(1,3) same show ?thesis
          by (auto simp: mmap_def map_result_def cannot_map_def mapped_in_def key)
      next
        case (Some pages)
        let ?ptr = "drop (unat (sec_filepos t - page_offset (2 ^ n) t)) pages"
        have len: "length pages = unat (page_len (2 ^ n) t)" using assms(2) Some by (auto simp: maps_file_def)
        have ptr: "ptr_ok F t ?ptr" using mapped_ptr [OF assms(2) _ Some] secs [OF t] by blast
        have run: "r = Inr (Some (?ptr, raw_size t))" "obj' = obj\<lparr>sect_mapped := om_insert k ?ptr (sect_mapped obj)\<rparr>"
          using assms(3) \<open>om_find k (sect_by_fileoff obj) = Some t\<close> \<open>raw_size t \<noteq> 0\<close> None Some len
          by (auto simp: mmap_def Let_def)
        have "om_ok (om_insert k ?ptr (sect_mapped obj))" by (rule om_insert_ok [OF ok(2) None])
        with assms(1) ptr t have "core_ok n F obj'" by (auto simp: core_ok_def run(2))
        moreover have "mapped_in obj' t"
          using map_of_om_insert [OF None [unfolded om_find_def], of ?ptr] by (simp add: run(2) mapped_in_def key om_find_def)
        ultimately show ?thesis using run ptr same Some None by (auto simp: map_result_def cannot_map_def)
      qed
    qed
  qed
  then show "core_ok n F obj'" "sect_by_vma obj' = sect_by_vma obj" "sect_by_fileoff obj' = sect_by_fileoff obj"
    "sect_by_name obj' = sect_by_name obj"
    "(k, s) \<in> set (sect_by_fileoff obj) \<Longrightarrow> map_result bm n F s obj r obj'"
    by blast+
qed

section \<open>The memory\<close>

interpretation vmas: interval_map om_ok set om_before "\<lambda>ls. sec_size (ls_sect ls)"
  by unfold_locales (simp_all add: om_before_Some om_before_None, metis om_find_iff option.inject)

interpretation offs: interval_map om_ok set om_before sec_size
  by unfold_locales (simp_all add: om_before_Some om_before_None, metis om_find_iff option.inject)

text \<open>Closing a file leaves nothing mapped.\<close>

lemma unmap_run:
  assumes "core_ok n F obj" and "(k, ptr) \<in> set (sect_mapped obj)"
  shows "unmap k obj = (Inr (), obj\<lparr>sect_mapped := filter (\<lambda>(a, b). a \<noteq> k) (sect_mapped obj)\<rparr>)"
proof -
  from assms obtain s where s: "(k, s) \<in> set (sect_by_fileoff obj)" "0 < sec_size s" and ok: "om_ok (sect_by_fileoff obj)" "om_ok (sect_mapped obj)"
    by (fastforce simp: core_ok_def)
  from s(2) have "raw_size s \<noteq> 0" by (auto simp: raw_size_def)
  moreover have "om_find k (sect_by_fileoff obj) = Some s" using om_find_iff [OF ok(1)] s(1) by simp
  moreover have "om_find k (sect_mapped obj) = Some ptr" using om_find_iff [OF ok(2)] assms(2) by simp
  ultimately show ?thesis by (simp add: unmap_def Let_def)
qed

lemma unmapped_ok: "core_ok n F obj \<Longrightarrow> core_ok n F (obj\<lparr>sect_mapped := filter P (sect_mapped obj)\<rparr>)"
  by (auto simp: core_ok_def om_ok_filter)

lemma unmap_all_run:
  "core_ok n F obj \<Longrightarrow> distinct ks \<Longrightarrow> set ks \<subseteq> fst ` set (sect_mapped obj) \<Longrightarrow>
   unmap_all ks obj = (Inr (), obj\<lparr>sect_mapped := filter (\<lambda>(a, b). a \<notin> set ks) (sect_mapped obj)\<rparr>)"
proof (induction ks arbitrary: obj)
  case (Cons k ks)
  let ?o = "obj\<lparr>sect_mapped := filter (\<lambda>(a, b). a \<noteq> k) (sect_mapped obj)\<rparr>"
  obtain ptr where "(k, ptr) \<in> set (sect_mapped obj)" using Cons.prems(3) by auto
  note un = unmap_run [OF Cons.prems(1) this]
  have "set ks \<subseteq> fst ` set (sect_mapped ?o)" using Cons.prems(2,3) by force
  from Cons.IH [OF unmapped_ok [OF Cons.prems(1)] _ this] Cons.prems(2) un show ?case
    by (simp add: comp_simps case_prod_beta conj_commute)
qed (simp add: comp_simps)

lemma close_unmaps:
  assumes "core_ok n F obj"
  shows "obj_file_close obj = (Inr (), obj\<lparr>sect_mapped := []\<rparr>)"
proof -
  let ?m = "sect_mapped obj"
  have "distinct (map fst ?m)" using assms om_ok_distinct by (auto simp: core_ok_def)
  moreover have "filter (\<lambda>(a, b). a \<notin> set (map fst ?m)) ?m = []" by (force simp: filter_empty_conv)
  ultimately show ?thesis using unmap_all_run [OF assms, of "map fst ?m"] by (simp add: obj_file_close_def comp_simps)
qed

text \<open>The file of the \<open>c\<close>-th core is \<open>F c\<close>.\<close>

definition view_ok :: "nat \<Rightarrow> (nat \<Rightarrow> u8 list) \<Rightarrow> memory_view \<Rightarrow> bool" where
  "view_ok n F v \<longleftrightarrow> om_ok (loaded_sections v) \<and>
     (\<forall>(a, ls) \<in> set (loaded_sections v). ls_core ls < length (cores v) \<and>
        (sec_filepos (ls_sect ls), ls_sect ls) \<in> set (sect_by_fileoff (cores v ! ls_core ls))) \<and>
     (\<forall>c < length (cores v). core_ok n (F c) (cores v ! c))"

lemma view_core:
  assumes "view_ok n F v" and "c < length (cores v)" and "core_ok n (F c) core"
    and "sect_by_fileoff core = sect_by_fileoff (cores v ! c)"
  shows "view_ok n F (v\<lparr>cores := (cores v)[c := core]\<rparr>)"
  using assms by (auto simp: view_ok_def nth_list_update split: prod.splits)

text \<open>What the address \<open>va\<close> in the section \<open>ls\<close>, loaded at \<open>a\<close>, is mapped to.\<close>

definition no_map :: "(nat \<Rightarrow> u64 \<Rightarrow> u64 \<Rightarrow> u8 list option) \<Rightarrow> nat \<Rightarrow> memory_view \<Rightarrow> loaded_section \<Rightarrow> bool" where
  "no_map bm n v ls \<longleftrightarrow> cannot_map (bm (ls_core ls)) n (cores v ! ls_core ls) (ls_sect ls)"

definition map_outcome :: "(nat \<Rightarrow> u64 \<Rightarrow> u64 \<Rightarrow> u8 list option) \<Rightarrow> nat \<Rightarrow> (nat \<Rightarrow> u8 list) \<Rightarrow> memory_view \<Rightarrow> u64 \<Rightarrow>
    u64 \<Rightarrow> loaded_section \<Rightarrow> stop + u8 list option \<Rightarrow> memory_view \<Rightarrow> bool" where
  "map_outcome bm n F v va a ls r v' \<longleftrightarrow>
     r = (if no_map bm n v ls \<or> raw_size (ls_sect ls) \<le> va - a then Inl (Exit (- 1))
          else Inr (Some (drop (unat (va - a)) (section_bytes (F (ls_core ls)) (ls_sect ls))))) \<and>
     (\<not> no_map bm n v ls \<longrightarrow> mapped_in (cores v' ! ls_core ls) (ls_sect ls))"

lemma try_map_run:
  assumes "view_ok n F v" and bm: "\<And>c. maps_file (F c) (bm c)" and "try_map bm (2 ^ n) va v = (r, v')"
  shows "view_ok n F v' \<and> loaded_sections v' = loaded_sections v \<and>
    (case vmas.lookup va (loaded_sections v) of
       None \<Rightarrow> r = Inr None
     | Some (a, ls) \<Rightarrow> map_outcome bm n F v va a ls r v')"
proof (cases "vmas.lookup va (loaded_sections v)")
  case None
  with assms(1,3) show ?thesis by (auto simp: vmas.lookup_def try_map_def split: option.splits if_splits)
next
  case (Some e)
  obtain a ls where e: "e = (a, ls)" by (metis surj_pair)
  let ?c = "ls_core ls" and ?s = "ls_sect ls"
  from assms(1) have ok: "om_ok (loaded_sections v)" by (simp add: view_ok_def)
  from Some e have bf: "om_before va (loaded_sections v) = Some (a, ls)" "\<not> sec_size ?s \<le> va - a"
    by (auto simp: vmas.lookup_def split: option.splits if_splits)
  from vmas.lookup_covers [OF ok Some] e assms(1) have c: "?c < length (cores v)" "core_ok n (F ?c) (cores v ! ?c)"
    and mem: "(sec_filepos ?s, ?s) \<in> set (sect_by_fileoff (cores v ! ?c))"
    by (auto simp: view_ok_def)
  obtain q core where m: "mmap (bm ?c) (2 ^ n) (sec_filepos ?s) (cores v ! ?c) = (q, core)" by (metis surj_pair)
  note run = mmap_run [OF c(2) bm m]
  let ?v = "v\<lparr>cores := (cores v)[?c := core]\<rparr>"
  have view: "view_ok n F ?v" by (rule view_core [OF assms(1) c(1) run(1,3)])
  note res = run(5) [OF mem, unfolded map_result_def]
  show ?thesis
  proof (cases "no_map bm n v ls")
    case True
    with res have "q = Inr None" by (simp add: no_map_def)
    with bf m assms(3) have "r = Inl (Exit (- 1))" "v' = ?v" by (simp_all add: try_map_def)
    with view Some e True show ?thesis by (simp add: map_outcome_def)
  next
    case False
    with res obtain ptr where q: "q = Inr (Some (ptr, raw_size ?s))" "ptr_ok (F ?c) ?s ptr" "mapped_in core ?s"
      by (auto simp: no_map_def)
    have v': "v' = ?v" using bf m q(1) assms(3) by (auto simp: try_map_def Let_def split: if_splits)
    have kept: "mapped_in (cores v' ! ?c) ?s" using q(3) c(1) by (simp add: v')
    show ?thesis
    proof (cases "raw_size ?s \<le> va - a")
      case True
      with bf m q(1) assms(3) have "r = Inl (Exit (- 1))" by (simp add: try_map_def)
      with view Some e True False kept v' show ?thesis by (simp add: map_outcome_def)
    next
      case inside: False
      then have le: "va - a \<le> raw_size ?s" by simp
      have "take (unat (raw_size ?s - (va - a))) (drop (unat (va - a)) ptr) = drop (unat (va - a)) (take (unat (raw_size ?s)) ptr)"
        using le by (simp add: unat_sub drop_take)
      moreover from q(2) have "take (unat (raw_size ?s)) ptr = section_bytes (F ?c) ?s" by (simp add: ptr_ok_def)
      ultimately have "r = Inr (Some (drop (unat (va - a)) (section_bytes (F ?c) ?s)))"
        using bf m q(1) assms(3) inside by (simp add: try_map_def)
      with view Some e False inside kept v' show ?thesis by (simp add: map_outcome_def)
    qed
  qed
qed

text \<open>Opening and loading files establish the invariant.\<close>

lemma add_section_run:
  assumes "add_section s obj = (Inr u, obj')" and "core_ok n F obj" and "sec_size s \<noteq> 0 \<Longrightarrow> sec_load s \<Longrightarrow> section_fits n F s"
    and "\<forall>(a, t) \<in> set (sect_by_vma obj). (sec_filepos t, t) \<in> set (sect_by_fileoff obj)" "om_ok (sect_by_vma obj)"
  shows "core_ok n F obj' \<and> om_ok (sect_by_vma obj') \<and>
    (\<forall>(a, t) \<in> set (sect_by_vma obj'). (sec_filepos t, t) \<in> set (sect_by_fileoff obj'))"
proof (cases "sec_size s = 0 \<or> \<not> sec_load s \<or> starts_with ''.note.'' (sec_name s)")
  case True
  with assms(1) have "obj' = obj\<lparr>sect_by_name := sect_by_name obj @ [s]\<rparr>"
    by (auto simp: add_section_def thenS_def bindS_def modS_def retS_def split: if_splits)
  with assms(2,4,5) show ?thesis by (simp add: core_ok_def)
next
  case False
  obtain i1 w1 m1 where e1: "om_emplace (sec_vma s) s (sect_by_vma obj) = (i1, w1, m1)" by (metis surj_pair)
  obtain i2 w2 m2 where e2: "om_emplace (sec_filepos s) s (sect_by_fileoff obj) = (i2, w2, m2)" by (metis surj_pair)
  from False assms(1) e1 e2 have ins: "i1" "i2"
    and obj': "obj' = obj\<lparr>sect_by_name := sect_by_name obj @ [s], sect_by_vma := m1, sect_by_fileoff := m2\<rparr>"
    by (auto simp: add_section_def emplace_vma_def emplace_fileoff_def thenS_def bindS_def modS_def retS_def split: if_splits)
  have oks: "om_ok (sect_by_fileoff obj)" using assms(2) by (simp add: core_ok_def)
  from om_emplace_ok [OF assms(5) e1] ins have m1: "om_ok m1" "set m1 = insert (sec_vma s, s) (set (sect_by_vma obj))" by simp_all
  from om_emplace_ok [OF oks e2] ins have m2: "om_ok m2" "set m2 = insert (sec_filepos s, s) (set (sect_by_fileoff obj))" by simp_all
  have "0 < sec_size s" "section_fits n F s" using False assms(3) by (simp_all add: word_gt_0)
  with assms(2) m2 have "core_ok n F obj'" by (auto simp: core_ok_def obj')
  with m1 m2 assms(4) show ?thesis by (auto simp: obj')
qed

lemma add_sections_run:
  "add_sections ss obj = (Inr u, obj') \<Longrightarrow> core_ok n F obj \<Longrightarrow> \<forall>s \<in> set ss. sec_size s \<noteq> 0 \<and> sec_load s \<longrightarrow> section_fits n F s \<Longrightarrow>
   \<forall>(a, t) \<in> set (sect_by_vma obj). (sec_filepos t, t) \<in> set (sect_by_fileoff obj) \<Longrightarrow> om_ok (sect_by_vma obj) \<Longrightarrow>
   core_ok n F obj' \<and> om_ok (sect_by_vma obj') \<and>
     (\<forall>(a, t) \<in> set (sect_by_vma obj'). (sec_filepos t, t) \<in> set (sect_by_fileoff obj'))"
proof (induction ss arbitrary: obj)
  case (Cons s ss)
  from Cons.prems(1) obtain o1 where o1: "add_section s obj = (Inr (), o1)" "add_sections ss o1 = (Inr u, obj')"
    by (auto elim!: thenS_eq_InrE)
  from add_section_run [OF o1(1) Cons.prems(2) _ Cons.prems(4,5)] Cons.prems(3)
  have "core_ok n F o1 \<and> om_ok (sect_by_vma o1) \<and> (\<forall>(a, t) \<in> set (sect_by_vma o1). (sec_filepos t, t) \<in> set (sect_by_fileoff o1))"
    by auto
  with Cons.IH [OF o1(2)] Cons.prems(3) show ?case by auto
qed (simp add: retS_def)

lemma obj_file_open_ok:
  assumes "obj_file_open a b sects = Inr obj" and "\<forall>s \<in> set sects. sec_size s \<noteq> 0 \<and> sec_load s \<longrightarrow> section_fits n F s"
  shows "core_ok n F obj \<and> om_ok (sect_by_vma obj) \<and> (\<forall>(a, t) \<in> set (sect_by_vma obj). (sec_filepos t, t) \<in> set (sect_by_fileoff obj))"
proof -
  let ?e = "\<lparr>sect_by_name = [], sect_by_vma = [], sect_by_fileoff = [], sect_mapped = []\<rparr>"
  from assms(1) have "add_sections sects ?e = (Inr (), obj)"
    by (auto simp: obj_file_open_def split: if_splits prod.splits sum.splits)
  from add_sections_run [OF this _ assms(2)] show ?thesis by (simp add: core_ok_def)
qed

lemma load_sections_run:
  "load_sections c m v = (Inr u, v') \<Longrightarrow> view_ok n F v \<Longrightarrow> c < length (cores v) \<Longrightarrow>
   \<forall>(a, t) \<in> set m. (sec_filepos t, t) \<in> set (sect_by_fileoff (cores v ! c)) \<Longrightarrow>
   view_ok n F v' \<and> cores v' = cores v \<and>
   set (loaded_sections v') = set (loaded_sections v) \<union> (\<lambda>(a, t). (a, \<lparr>ls_core = c, ls_sect = t\<rparr>)) ` set m"
proof (induction c m arbitrary: v rule: load_sections.induct)
  case (2 c vma sect rest)
  obtain i w m1 where e: "om_emplace vma \<lparr>ls_core = c, ls_sect = sect\<rparr> (loaded_sections v) = (i, w, m1)" by (metis surj_pair)
  from "2.prems"(1) e have i: "i" and go: "load_sections c rest (v\<lparr>loaded_sections := m1\<rparr>) = (Inr u, v')"
    by (auto split: if_splits)
  have "om_ok (loaded_sections v)" using "2.prems"(2) by (simp add: view_ok_def)
  from om_emplace_ok [OF this e] i have m1: "om_ok m1"
    "set m1 = insert (vma, \<lparr>ls_core = c, ls_sect = sect\<rparr>) (set (loaded_sections v))" by simp_all
  with "2.prems"(2-4) have "view_ok n F (v\<lparr>loaded_sections := m1\<rparr>)" by (auto simp: view_ok_def)
  from "2.IH" [OF e [symmetric] refl i go this] "2.prems"(3,4) m1(2) show ?case by auto
qed (simp add: retS_def)

lemma load_core_run:
  assumes "load_core core v = (Inr u, v')" and "view_ok n F v" and "core_ok n (F (length (cores v))) core"
    and "\<forall>(a, t) \<in> set (sect_by_vma core). (sec_filepos t, t) \<in> set (sect_by_fileoff core)"
  shows "view_ok n F v' \<and> cores v' = cores v @ [core] \<and> set (loaded_sections v') = set (loaded_sections v) \<union>
    (\<lambda>(a, t). (a, \<lparr>ls_core = length (cores v), ls_sect = t\<rparr>)) ` set (sect_by_vma core)"
proof -
  let ?v = "v\<lparr>cores := cores v @ [core]\<rparr>"
  have run: "load_sections (length (cores v)) (sect_by_vma core) ?v = (Inr u, v')"
    using assms(1) by (simp add: load_core_def comp_simps)
  have "view_ok n F ?v" using assms(2,3) by (auto simp: view_ok_def nth_append less_Suc_eq)
  from load_sections_run [OF run this] assms(4) show ?thesis by simp
qed

section \<open>Property\<close>

text \<open>
  C33. The memory is that of the files. In a memory made up of files whose sections do not overlap, an address in a section
  is mapped to the bytes of its file from there to the end of the section. The program ends with the status -1 exactly
  when the section has no bytes there in the file, or when it is not mapped yet and \<^verbatim>\<open>bfd_mmap\<close> fails for the pages that hold
  it; otherwise it is mapped from then on, so that it is found as often as it is asked for. An address in no section is
  not mapped. Apart from that the cache of mappings does not show.
\<close>

theorem try_map_reads_file:
  assumes "view_ok n F v" and "\<And>c. maps_file (F c) (bm c)"
    and "\<forall>(a, s) \<in> set (loaded_sections v). \<forall>(b, t) \<in> set (loaded_sections v). a < b \<longrightarrow> sec_size (ls_sect s) \<le> b - a"
    and "try_map bm (2 ^ n) va v = (r, v')"
  shows "view_ok n F v' \<and> loaded_sections v' = loaded_sections v \<and>
    (\<forall>(a, s) \<in> set (loaded_sections v). a \<le> va \<and> va - a < sec_size (ls_sect s) \<longrightarrow>
       (let fails = (\<not> mapped_in (cores v ! ls_core s) (ls_sect s) \<and>
              bm (ls_core s) (page_len (2 ^ n) (ls_sect s)) (page_offset (2 ^ n) (ls_sect s)) = None) in
        r = (if fails \<or> raw_size (ls_sect s) \<le> va - a then Inl (Exit (- 1))
             else Inr (Some (drop (unat (va - a)) (section_bytes (F (ls_core s)) (ls_sect s))))) \<and>
        (\<not> fails \<longrightarrow> mapped_in (cores v' ! ls_core s) (ls_sect s)))) \<and>
    ((\<forall>(a, s) \<in> set (loaded_sections v). \<not> (a \<le> va \<and> va - a < sec_size (ls_sect s))) \<longrightarrow> r = Inr None)"
proof -
  note run = try_map_run [OF assms(1,2,4)]
  have ok: "om_ok (loaded_sections v)" using assms(1) by (simp add: view_ok_def)
  have apart: "vmas.apart (loaded_sections v)" using assms(3) by (simp add: vmas.apart_def)
  have "map_outcome bm n F v va a s r v'"
    if "(a, s) \<in> set (loaded_sections v)" "a \<le> va \<and> va - a < sec_size (ls_sect s)" for a s
    using vmas.covered_found [OF ok apart that(1), of va] that(2) run by (auto simp: vmas.covers_def)
  moreover have "r = Inr None" if "\<forall>(a, s) \<in> set (loaded_sections v). \<not> (a \<le> va \<and> va - a < sec_size (ls_sect s))"
    using vmas.lookup_none [OF ok apart, of va] that run by (auto simp: vmas.covers_def)
  ultimately show ?thesis
    using run unfolding map_outcome_def no_map_def cannot_map_def Let_def by blast
qed

definition ex_file :: "u8 list" where "ex_file = [1, 2, 3, 4, 5, 6, 7, 8]"

definition ex_bfd_mmap :: "nat \<Rightarrow> u64 \<Rightarrow> u64 \<Rightarrow> u8 list option" where
  "ex_bfd_mmap c len off = Some (take (unat len) (drop (unat off) ex_file @ replicate (unat len) 0))"

definition ex_sect :: asection where
  "ex_sect = \<lparr>sec_name = ''.text'', sec_vma = 0x100, sec_size = 4, sec_rawsize = 0, sec_filepos = 3, sec_load = True\<rparr>"

definition ex_view :: "stop + memory_view" where
  "ex_view = bindR (obj_file_open True True [ex_sect])
     (\<lambda>obj. case load_core obj \<lparr>loaded_sections = [], cores = []\<rparr> of (Inl e, v) \<Rightarrow> Inl e | (Inr _, v) \<Rightarrow> Inr v)"

lemma ex_maps: "maps_file ex_file (ex_bfd_mmap c)"
  by (auto simp: maps_file_def ex_bfd_mmap_def nth_append)

lemma try_map_reads_file_witness:
  "\<exists>v v'. ex_view = Inr v \<and> try_map ex_bfd_mmap (2 ^ 2) 0x102 v = (Inr (Some [6, 7]), v') \<and> view_ok 2 (\<lambda>_. ex_file) v'"
proof -
  obtain v where v: "ex_view = Inr v"
  proof -
    have "(case ex_view of Inr v \<Rightarrow> True | Inl e \<Rightarrow> False)" by code_simp
    then show thesis using that by (auto split: sum.splits)
  qed
  then obtain obj where obj: "obj_file_open True True [ex_sect] = Inr obj"
    and c: "(case load_core obj \<lparr>loaded_sections = [], cores = []\<rparr> of (Inl e, v) \<Rightarrow> Inl e | (Inr _, v) \<Rightarrow> Inr v) = Inr v"
    unfolding ex_view_def bindR_eq_Inr by blast
  obtain q w where "load_core obj \<lparr>loaded_sections = [], cores = []\<rparr> = (q, w)" by (metis surj_pair)
  with c have load: "load_core obj \<lparr>loaded_sections = [], cores = []\<rparr> = (Inr (), v)" by (cases q) simp_all
  have fits: "section_fits 2 ex_file ex_sect" by (simp add: section_fits_def raw_size_def ex_sect_def ex_file_def)
  have view: "view_ok 2 (\<lambda>_. ex_file) \<lparr>loaded_sections = [], cores = []\<rparr>" by (simp add: view_ok_def)
  from obj_file_open_ok [OF obj, of 2 ex_file] fits have o': "core_ok 2 ex_file obj"
    "\<forall>(a, t) \<in> set (sect_by_vma obj). (sec_filepos t, t) \<in> set (sect_by_fileoff obj)" by simp_all
  from load_core_run [OF load view _ o'(2)] o'(1) have ok: "view_ok 2 (\<lambda>_. ex_file) v" by simp
  have secs: "loaded_sections v = [(0x100, \<lparr>ls_core = 0, ls_sect = ex_sect\<rparr>)]"
  proof -
    have "(case ex_view of Inr v \<Rightarrow> loaded_sections v = [(0x100, \<lparr>ls_core = 0, ls_sect = ex_sect\<rparr>)] | Inl e \<Rightarrow> False)"
      by code_simp
    then show ?thesis by (simp add: v)
  qed
  obtain r v' where run: "try_map ex_bfd_mmap (2 ^ 2) 0x102 v = (r, v')" by (metis surj_pair)
  have "(case ex_view of Inr v \<Rightarrow> fst (try_map ex_bfd_mmap (2 ^ 2) 0x102 v) = Inr (Some [6, 7]) | Inl e \<Rightarrow> False)"
    by code_simp
  then have "fst (try_map ex_bfd_mmap (2 ^ 2) 0x102 v) = Inr (Some [6, 7])" unfolding v by simp
  with run have "r = Inr (Some [6, 7])" by simp
  moreover from try_map_reads_file [OF ok ex_maps _ run] have "view_ok 2 (\<lambda>_. ex_file) v'" by (simp add: secs)
  ultimately show ?thesis using v run by blast
qed

end
