(* ===== verification/InstBlock.thy ===== *)
theory InstBlock
  imports ToolBase InstHelper TraceCalls
begin

text \<open>
  Instruction blocks, of \<^verbatim>\<open>util/inst.h\<close> and \<^verbatim>\<open>util/inst.cpp\<close>: a block is a run of instructions that
  ends with a jump, and knows how to retire itself with the trace decoder.

  The disassembler is capstone, which is not part of the repository: an instruction has the fields of
  \<^verbatim>\<open>cs_insn\<close> that the code reads. The number of a register operand is the difference to
  \<^verbatim>\<open>RISCV_REG_ZERO\<close>.
\<close>

section \<open>Data\<close>

datatype cs_operand = OP_REG u32 | OP_IMM u64 | OP_OTHER

datatype cs_id =
    INS_MRET | INS_SRET | INS_URET | INS_ECALL | INS_EBREAK | INS_C_EBREAK
  | INS_JAL | INS_JALR | INS_C_J | INS_C_JR | INS_C_JAL | INS_C_JALR | INS_OTHER

datatype cs_group = GRP_BRANCH_RELATIVE | GRP_OTHER

record cs_insn =
  ci_id :: cs_id
  ci_mnemonic :: string
  ci_op_str :: string
  ci_size :: u16
  ci_groups :: "cs_group list"
  ci_operands :: "cs_operand list"

text \<open>The classes of blocks; \<open>IB_plain\<close> is the base class.\<close>

datatype ib_kind =
    IB_plain | IB_dir_jmp | IB_cond_branch | IB_dir_call | IB_indir_jmp | IB_iret | IB_indir_call
  | IB_ret | IB_co_swap | IB_int

text \<open>The members of all classes; those marked mutable are set by \<open>retire\<close>, for printing.\<close>

record rv_inst_block =
  ib_kind :: ib_kind
  ib_addr :: u64
  ib_icnt :: u32
  ib_insn :: cs_insn
  ib_off :: u64
  ib_taken :: bool
  ib_stack0 :: u32
  ib_stack1 :: u32
  ib_stacksz :: u32
  ib_IRO :: bool
  ib_coswap :: bool

text \<open>What is thrown; \<open>Exc_fault\<close> stands for a failed assertion and undefined behaviour.\<close>

datatype ib_exc = Exc_event u64 nexusrv_trace_events | Exc_failed nexus_error | Exc_fault

text \<open>
  What the code does not determine in one call of \<open>retire\<close>: the uninitialised memory of the calls of
  the trace decoder, whether the return stack can grow, and the uninitialised \<^verbatim>\<open>indir\<close>.
\<close>

record retire_env =
  re_try :: world
  re_next :: world
  re_alloc :: bool
  re_indir :: nexusrv_trace_indirect

type_synonym 'a retire = "(rv_inst_block \<times> nexusrv_trace_decoder, ib_exc, 'a) comp"

section \<open>Calls of the trace decoder\<close>

fun fault_exc :: "fault \<Rightarrow> ib_exc" where
  "fault_exc (Code e) = Exc_failed e"
| "fault_exc Abort = Exc_fault"
| "fault_exc Undef = Exc_fault"

definition dec :: "'a td \<Rightarrow> 'a retire" where
  "dec m = (\<lambda>(b, d). case m d of (Inl e, d') \<Rightarrow> (Inl (fault_exc e), (b, d')) | (Inr x, d') \<Rightarrow> (Inr x, (b, d')))"

text \<open>A call whose error code is ignored.\<close>

definition ignore_rc :: "'a td \<Rightarrow> unit td" where
  "ignore_rc m = (\<lambda>d. case m d of
     (Inr x, d') \<Rightarrow> (Inr (), d')
   | (Inl (Code e), d') \<Rightarrow> (Inr (), d')
   | (Inl f, d') \<Rightarrow> (Inl f, d'))"

definition this_block :: "rv_inst_block retire" where "this_block = readS fst"

definition upd_block :: "(rv_inst_block \<Rightarrow> rv_inst_block) \<Rightarrow> unit retire" where
  "upd_block f = modS (\<lambda>(b, d). (f b, d))"

definition callstack_used :: "u32 retire" where
  "callstack_used = readS (\<lambda>(b, d). nexusrv_trace_callstack_used d)"

text \<open>\<^verbatim>\<open>addr + icnt * 2\<close>, the product with 32 bits, and the target of a direct jump.\<close>

definition block_end :: "rv_inst_block \<Rightarrow> u64" where
  "block_end b = ib_addr b + ucast (ib_icnt b * 2)"

definition jump_target :: "rv_inst_block \<Rightarrow> u64" where
  "jump_target b = block_end b - ucast (ci_size (ib_insn b)) + ib_off b"

text \<open>\<^verbatim>\<open>addr + retired * 2\<close>, the product a signed one of 32 bits.\<close>

definition retired_addr :: "rv_inst_block \<Rightarrow> u32 \<Rightarrow> u64 retire" where
  "retired_addr b k = (if k < 0x40000000 then retS (ib_addr b + ucast (k * 2)) else throwS Exc_fault)"

definition inside_events :: "nexusrv_trace_events list" where
  "inside_events = [Event_Trap, Event_DirectSync, Event_IndirectSync, Event_Sync, Event_Error]"

definition check_exc :: "retire_env \<Rightarrow> nexusrv_trace_events retire" where
  "check_exc e =
     bindS this_block (\<lambda>b.
     bindS (dec (nexusrv_trace_try_retire (re_try e) (ib_icnt b))) (\<lambda>(k, ev).
     if k < ib_icnt b then
       if ev \<in> set inside_events then bindS (retired_addr b k) (\<lambda>a. throwS (Exc_event a ev))
       else throwS (Exc_failed nexus_trace_mismatch)
     else retS ev))"

section \<open>Retiring\<close>

definition retire_plain :: "retire_env \<Rightarrow> u64 retire" where
  "retire_plain e = thenS (check_exc e) (bindS this_block (\<lambda>b. retS (block_end b)))"

definition retire_dir_jmp :: "retire_env \<Rightarrow> u64 retire" where
  "retire_dir_jmp e = thenS (check_exc e) (bindS this_block (\<lambda>b. retS (jump_target b)))"

definition retire_cond_branch :: "retire_env \<Rightarrow> u64 retire" where
  "retire_cond_branch e =
     bindS (check_exc e) (\<lambda>ev.
     bindS this_block (\<lambda>b.
     if ev = Event_Error then throwS (Exc_event (block_end b) ev)
     else
       bindS (dec (nexusrv_trace_next_tnt (re_next e))) (\<lambda>tnt.
       thenS (upd_block (\<lambda>b. b\<lparr>ib_taken := tnt\<rparr>))
         (retS (if tnt then jump_target b else block_end b)))))"

text \<open>The address behind the call is pushed; both sizes of the stack are kept.\<close>

definition push_return :: "retire_env \<Rightarrow> unit retire" where
  "push_return e =
     bindS this_block (\<lambda>b.
     bindS callstack_used (\<lambda>n0.
     thenS (upd_block (\<lambda>b. b\<lparr>ib_stack0 := n0\<rparr>))
    (thenS (dec (ignore_rc (nexusrv_trace_push_call (re_alloc e) (block_end b))))
    (bindS callstack_used (\<lambda>n1. upd_block (\<lambda>b. b\<lparr>ib_stack1 := n1\<rparr>))))))"

definition retire_dir_call :: "retire_env \<Rightarrow> u64 retire" where
  "retire_dir_call e = bindS (retire_dir_jmp e) (\<lambda>target. thenS (push_return e) (retS target))"

text \<open>The error for another event than the expected one, whose message has the instructions left.\<close>

definition wrong_event :: "'a retire" where
  "wrong_event = thenS (dec nexusrv_trace_available_icnt) (throwS (Exc_failed nexus_trace_mismatch))"

definition retire_indir_jmp :: "retire_env \<Rightarrow> u64 retire" where
  "retire_indir_jmp e =
     bindS (check_exc e) (\<lambda>ev.
     if ev \<noteq> Event_Indirect then wrong_event
     else bindS (dec (next_indirect (re_next e) (re_indir e))) (\<lambda>i. retS (in_target i)))"

definition retire_indir_call :: "retire_env \<Rightarrow> u64 retire" where
  "retire_indir_call e = bindS (retire_indir_jmp e) (\<lambda>target. thenS (push_return e) (retS target))"

definition retire_ret :: "retire_env \<Rightarrow> u64 retire" where
  "retire_ret e =
     bindS (check_exc e) (\<lambda>ev.
     bindS this_block (\<lambda>b.
     if ev = Event_Error then throwS (Exc_event (block_end b) ev)
     else
       bindS callstack_used (\<lambda>n.
       thenS (upd_block (\<lambda>b. b\<lparr>ib_stacksz := n, ib_IRO := False\<rparr>))
      (if ev = Event_Indirect then
         thenS (dec (ignore_rc nexusrv_trace_pop_ret))
        (bindS (dec (next_indirect (re_next e) (re_indir e))) (\<lambda>i. retS (in_target i)))
       else
         bindS (dec nexusrv_trace_pop_ret) (\<lambda>target.
         thenS (upd_block (\<lambda>b. b\<lparr>ib_IRO := True\<rparr>)) (retS target))))))"

definition retire_co_swap :: "retire_env \<Rightarrow> u64 retire" where
  "retire_co_swap e =
     bindS callstack_used (\<lambda>n0.
     thenS (upd_block (\<lambda>b. b\<lparr>ib_stack0 := n0, ib_IRO := False, ib_coswap := False\<rparr>))
    (bindS (readS (\<lambda>(b, d). quirk_sifive (td_cfg d))) (\<lambda>quirk.
     bindS
       (if quirk then retire_indir_call e
        else
          thenS (upd_block (\<lambda>b. b\<lparr>ib_coswap := True\<rparr>))
         (bindS (retire_ret e) (\<lambda>target.
          bindS this_block (\<lambda>b.
          thenS (dec (ignore_rc (nexusrv_trace_push_call (re_alloc e) (block_end b))))
            (retS target)))))
       (\<lambda>target.
     bindS callstack_used (\<lambda>n1.
     thenS (upd_block (\<lambda>b. b\<lparr>ib_stack1 := n1\<rparr>)) (retS target))))))"

text \<open>An exception is expected in front of the last instruction.\<close>

definition int_icnt :: "rv_inst_block \<Rightarrow> u32" where
  "int_icnt b = ib_icnt b - ucast (ci_size (ib_insn b) div 2)"

definition retire_int :: "retire_env \<Rightarrow> u64 retire" where
  "retire_int e =
     bindS this_block (\<lambda>b.
     bindS (dec (nexusrv_trace_try_retire (re_try e) (int_icnt b))) (\<lambda>(k, ev).
     if k < int_icnt b then bindS (retired_addr b k) (\<lambda>a. throwS (Exc_event a ev))
     else if ev \<noteq> Event_Trap then wrong_event
     else bindS (dec (next_indirect (re_next e) (re_indir e))) (\<lambda>i. retS (in_target i))))"

fun retire_kind :: "ib_kind \<Rightarrow> retire_env \<Rightarrow> u64 retire" where
  "retire_kind IB_plain e = retire_plain e"
| "retire_kind IB_dir_jmp e = retire_dir_jmp e"
| "retire_kind IB_cond_branch e = retire_cond_branch e"
| "retire_kind IB_dir_call e = retire_dir_call e"
| "retire_kind IB_indir_jmp e = retire_indir_jmp e"
| "retire_kind IB_iret e = retire_indir_jmp e"
| "retire_kind IB_indir_call e = retire_indir_call e"
| "retire_kind IB_ret e = retire_ret e"
| "retire_kind IB_co_swap e = retire_co_swap e"
| "retire_kind IB_int e = retire_int e"

definition retire :: "retire_env \<Rightarrow> u64 retire" where
  "retire e = bindS this_block (\<lambda>b. retire_kind (ib_kind b) e)"

section \<open>Printing\<close>

definition insn_text :: "rv_inst_block \<Rightarrow> string" where
  "insn_text b = ci_mnemonic (ib_insn b) @ '' '' @ ci_op_str (ib_insn b)"

definition stack_text :: "u32 \<Rightarrow> u32 \<Rightarrow> string" where
  "stack_text m n = '' [stack:'' @ show_base 10 (uint m) @ ''->'' @ show_base 10 (uint n) @ '']''"

definition IRO_text :: "rv_inst_block \<Rightarrow> string" where
  "IRO_text b = (if ib_IRO b then '' [implicit]'' else '' [explicit]'')"

text \<open>The methods \<^verbatim>\<open>to_string\<close> of the classes.\<close>

definition cond_branch_to_string :: "rv_inst_block \<Rightarrow> string" where
  "cond_branch_to_string b = insn_text b @ (if ib_taken b then '' [taken]'' else '''')"

definition dir_call_to_string :: "rv_inst_block \<Rightarrow> string" where
  "dir_call_to_string b = insn_text b @ stack_text (ib_stack0 b) (ib_stack1 b)"

definition indir_call_to_string :: "rv_inst_block \<Rightarrow> string" where
  "indir_call_to_string b = insn_text b @ stack_text (ib_stack0 b) (ib_stack1 b)"

definition ret_to_string :: "rv_inst_block \<Rightarrow> string" where
  "ret_to_string b =
     insn_text b @ IRO_text b @ stack_text (ib_stacksz b) (if ib_stacksz b \<noteq> 0 then ib_stacksz b - 1 else 0)"

definition co_swap_to_string :: "rv_inst_block \<Rightarrow> string" where
  "co_swap_to_string b =
     insn_text b @ IRO_text b @ (if ib_coswap b then '' [coswap]'' else '''') @ stack_text (ib_stack0 b) (ib_stack1 b)"

definition ib_to_string :: "rv_inst_block \<Rightarrow> string" where
  "ib_to_string b =
     (case ib_kind b of
        IB_cond_branch \<Rightarrow> cond_branch_to_string b
      | IB_dir_call \<Rightarrow> dir_call_to_string b
      | IB_indir_call \<Rightarrow> indir_call_to_string b
      | IB_ret \<Rightarrow> ret_to_string b
      | IB_co_swap \<Rightarrow> co_swap_to_string b
      | _ \<Rightarrow> insn_text b)"

text \<open>The methods \<^verbatim>\<open>print\<close>, which write to a file; that of a return does not test for an empty stack.\<close>

definition cond_branch_print :: "rv_inst_block \<Rightarrow> string" where
  "cond_branch_print b = insn_text b @ (if ib_taken b then '' [taken]'' else '''')"

definition dir_call_print :: "rv_inst_block \<Rightarrow> string" where
  "dir_call_print b = insn_text b @ stack_text (ib_stack0 b) (ib_stack1 b)"

definition indir_call_print :: "rv_inst_block \<Rightarrow> string" where
  "indir_call_print b = insn_text b @ stack_text (ib_stack0 b) (ib_stack1 b)"

definition ret_print :: "rv_inst_block \<Rightarrow> string" where
  "ret_print b = insn_text b @ IRO_text b @ stack_text (ib_stacksz b) (ib_stacksz b - 1)"

definition co_swap_print :: "rv_inst_block \<Rightarrow> string" where
  "co_swap_print b =
     insn_text b @ IRO_text b @ (if ib_coswap b then '' [coswap]'' else '''') @ stack_text (ib_stack0 b) (ib_stack1 b)"

definition ib_print :: "rv_inst_block \<Rightarrow> string" where
  "ib_print b =
     (case ib_kind b of
        IB_cond_branch \<Rightarrow> cond_branch_print b
      | IB_dir_call \<Rightarrow> dir_call_print b
      | IB_indir_call \<Rightarrow> indir_call_print b
      | IB_ret \<Rightarrow> ret_print b
      | IB_co_swap \<Rightarrow> co_swap_print b
      | _ \<Rightarrow> insn_text b)"

text \<open>
  The two agree, except for a return from an empty stack, where \<^verbatim>\<open>print\<close> shows a stack that has grown to
  4294967295.
\<close>

lemma print_to_string:
  "ib_print b = ib_to_string b \<or> ib_kind b = IB_ret \<and> ib_stacksz b = 0"
  by (simp add: ib_print_def ib_to_string_def cond_branch_print_def cond_branch_to_string_def dir_call_print_def
      dir_call_to_string_def indir_call_print_def indir_call_to_string_def ret_print_def ret_to_string_def
      co_swap_print_def co_swap_to_string_def split: ib_kind.split)

lemma print_underflow:
  assumes "ib_kind b = IB_ret" and "ib_stacksz b = 0"
  shows "ib_to_string b = insn_text b @ IRO_text b @ stack_text 0 0"
    and "ib_print b = insn_text b @ IRO_text b @ stack_text 0 4294967295"
proof -
  have m: "(4294967295 :: u32) = - 1" by simp
  show "ib_print b = insn_text b @ IRO_text b @ stack_text 0 4294967295"
    unfolding m using assms by (simp add: ib_print_def ret_print_def)
qed (use assms in \<open>simp add: ib_to_string_def ret_to_string_def\<close>)

section \<open>Fetching\<close>

text \<open>
  One instruction of capstone: \<open>cs_iter bytes va insn\<close> returns whether it was decoded, and what is then in the
  structure \<open>insn\<close>, which is used for all instructions of a block. A decoded instruction takes
  \<open>ci_size\<close> bytes.
\<close>

type_synonym disassembler = "u8 list \<Rightarrow> u64 \<Rightarrow> cs_insn \<Rightarrow> bool \<times> cs_insn"

fun is_imm :: "cs_operand \<Rightarrow> bool" where
  "is_imm (OP_IMM v) \<longleftrightarrow> True"
| "is_imm _ \<longleftrightarrow> False"

fun is_reg :: "cs_operand \<Rightarrow> bool" where
  "is_reg (OP_REG r) \<longleftrightarrow> True"
| "is_reg _ \<longleftrightarrow> False"

fun op_reg :: "cs_operand \<Rightarrow> u32" where
  "op_reg (OP_REG r) = r"
| "op_reg _ = 0"

fun op_imm :: "cs_operand \<Rightarrow> u64" where
  "op_imm (OP_IMM v) = v"
| "op_imm _ = 0"

text \<open>The assertions of the cases; a failed one is a crash.\<close>

definition asserted :: "bool \<Rightarrow> nexusrv_itypes \<Rightarrow> stop + nexusrv_itypes" where
  "asserted b t = (if b then Inr t else Inl Crash)"

definition jal_itype :: "cs_insn \<Rightarrow> stop + nexusrv_itypes" where
  "jal_itype i =
     (let ops = ci_operands i in
      bindR
        (if length ops = 1 then
           if ci_mnemonic i = ''j'' then Inr (nexusrv_inst_jal_types 0)
           else asserted (ci_mnemonic i = ''jal'') (nexusrv_inst_jal_types 1)
         else if length ops = 2 then
           asserted (ci_mnemonic i = ''jal'' \<and> is_reg (ops ! 0)) (nexusrv_inst_jal_types (op_reg (ops ! 0)))
         else Inl Crash)
        (asserted (is_imm (last ops))))"

definition jalr_itype :: "cs_insn \<Rightarrow> stop + nexusrv_itypes" where
  "jalr_itype i =
     (let ops = ci_operands i in
      if length ops = 1 then
        if \<not> is_reg (ops ! 0) then Inl Crash
        else if ci_mnemonic i = ''jr'' then Inr (nexusrv_inst_jalr_types 0 (op_reg (ops ! 0)))
        else asserted (ci_mnemonic i = ''jalr'') (nexusrv_inst_jalr_types 1 (op_reg (ops ! 0)))
      else if length ops = 2 then
        asserted (ci_mnemonic i = ''jalr'' \<and> is_reg (ops ! 0) \<and> is_imm (ops ! 1))
          (nexusrv_inst_jalr_types 1 (op_reg (ops ! 0)))
      else if length ops = 3 then
        asserted (ci_mnemonic i = ''jalr'' \<and> is_reg (ops ! 0) \<and> is_reg (ops ! 1) \<and> is_imm (ops ! 2))
          (nexusrv_inst_jalr_types (op_reg (ops ! 0)) (op_reg (ops ! 1)))
      else Inl Crash)"

definition insn_itype :: "cs_insn \<Rightarrow> stop + nexusrv_itypes" where
  "insn_itype i =
     (let ops = ci_operands i;
          one = (\<lambda>name p t. asserted (ci_mnemonic i = name \<and> length ops = 1 \<and> p (ops ! 0)) t)
      in case ci_id i of
        INS_JAL \<Rightarrow> jal_itype i
      | INS_JALR \<Rightarrow> jalr_itype i
      | INS_C_J \<Rightarrow> one ''c.j'' is_imm ITYPE_Direct_Jump
      | INS_C_JR \<Rightarrow> one ''c.jr'' is_reg (nexusrv_inst_cjr_types (op_reg (ops ! 0)))
      | INS_C_JAL \<Rightarrow> one ''c.jal'' is_imm ITYPE_Direct_Call
      | INS_C_JALR \<Rightarrow> one ''c.jalr'' is_reg (nexusrv_inst_cjalr_types (op_reg (ops ! 0)))
      | _ \<Rightarrow> Inr ITYPE_None)"

text \<open>The kind of the block that an instruction ends, if it ends one.\<close>

definition insn_kind :: "cs_insn \<Rightarrow> stop + ib_kind option" where
  "insn_kind i =
     (if GRP_BRANCH_RELATIVE \<in> set (ci_groups i) then Inr (Some IB_cond_branch)
      else if ci_id i \<in> {INS_MRET, INS_SRET, INS_URET} then Inr (Some IB_iret)
      else if ci_id i \<in> {INS_ECALL, INS_EBREAK, INS_C_EBREAK} then Inr (Some IB_int)
      else bindR (insn_itype i) (\<lambda>t. Inr (case t of
          ITYPE_Direct_Jump \<Rightarrow> Some IB_dir_jmp
        | ITYPE_Direct_Call \<Rightarrow> Some IB_dir_call
        | ITYPE_Indirect_Jump \<Rightarrow> Some IB_indir_jmp
        | ITYPE_Indirect_Call \<Rightarrow> Some IB_indir_call
        | ITYPE_Coroutine_Swap \<Rightarrow> Some IB_co_swap
        | ITYPE_Function_Return \<Rightarrow> Some IB_ret
        | _ \<Rightarrow> None)))"

text \<open>The constructors: direct jumps take their offset from the last operand. Members without initialiser are cleared here.\<close>

definition make_block :: "ib_kind \<Rightarrow> u64 \<Rightarrow> u32 \<Rightarrow> cs_insn \<Rightarrow> stop + rv_inst_block" where
  "make_block kind addr n i =
     (let b = \<lparr>ib_kind = kind, ib_addr = addr, ib_icnt = n, ib_insn = i, ib_off = 0, ib_taken = False,
               ib_stack0 = 0, ib_stack1 = 0, ib_stacksz = 0, ib_IRO = False, ib_coswap = False\<rparr>;
          ops = ci_operands i
      in if kind \<in> {IB_dir_jmp, IB_cond_branch, IB_dir_call} then
           if ops \<noteq> [] \<and> is_imm (last ops) then Inr (b\<lparr>ib_off := op_imm (last ops)\<rparr>) else Inl Crash
         else Inr b)"

text \<open>
  The loop, at \<open>done\<close> bytes behind the start. An instruction capstone does not know is skipped, by its length. A
  decoded one that reports to take no bytes or more than there are is against its documentation.
\<close>

function fetch_loop :: "disassembler \<Rightarrow> u64 \<Rightarrow> nat \<Rightarrow> u8 list \<Rightarrow> cs_insn \<Rightarrow> stop + rv_inst_block option" where
  "fetch_loop cs_iter start passed bytes insn =
     (if length bytes < 2 then Inr None
      else
        case cs_iter bytes (start + of_nat passed) insn of (known, i) \<Rightarrow>
        let n = (if known then unat (ci_size i) else if hd bytes AND 3 = 3 then 4 else 2) in
        if length bytes < n then Inl (if known then Crash else Exit (- 1))
        else if n = 0 then Inl Crash
        else if (passed + n) mod 2 \<noteq> 0 then Inl Crash
        else bindR (insn_kind i) (\<lambda>kind. case kind of
             Some k \<Rightarrow> bindR (make_block k start (of_nat ((passed + n) div 2)) i) (\<lambda>b. Inr (Some b))
           | None \<Rightarrow> fetch_loop cs_iter start (passed + n) (drop n bytes) i))"
  by pat_completeness auto
termination
  by (relation "measure (\<lambda>(cs_iter, start, passed, bytes, insn). length bytes)") auto

declare fetch_loop.simps [simp del]

text \<open>\<open>mapped\<close> are the bytes that \<^verbatim>\<open>try_map\<close> finds at the address, \<open>None\<close> for none; \<open>blank\<close> is the structure of \<^verbatim>\<open>cs_malloc\<close>.\<close>

definition fetch :: "disassembler \<Rightarrow> cs_insn \<Rightarrow> u8 list option \<Rightarrow> u64 \<Rightarrow> stop + rv_inst_block option" where
  "fetch cs_iter blank mapped va =
     (case mapped of None \<Rightarrow> Inr None | Some bytes \<Rightarrow> fetch_loop cs_iter va 0 bytes blank)"

text \<open>One instruction at an address, for the text of an exception.\<close>

definition disasm1 :: "disassembler \<Rightarrow> cs_insn \<Rightarrow> u8 list option \<Rightarrow> u64 \<Rightarrow> stop + cs_insn option" where
  "disasm1 cs_iter blank mapped va =
     (case mapped of
        None \<Rightarrow> Inr None
      | Some bytes \<Rightarrow> (case cs_iter bytes va blank of
          (True, i) \<Rightarrow> Inr (Some i)
        | (False, i) \<Rightarrow> Inl (Exit (- 1))))"

end
