(* ===== verification/InstFetch.thy ===== *)
theory InstFetch
  imports InstBlock
begin

text \<open>
  What a fetched block is: instructions that do not jump, and one that does.
\<close>

section \<open>Runs of instructions\<close>

text \<open>The instruction at the offset \<open>p\<close>, with the structure left by the one before, and its length.\<close>

definition insn_at :: "disassembler \<Rightarrow> u64 \<Rightarrow> u8 list \<Rightarrow> nat \<Rightarrow> cs_insn \<Rightarrow> cs_insn \<times> nat" where
  "insn_at cs_iter va bytes p i =
     (case cs_iter (drop p bytes) (va + of_nat p) i of
        (known, j) \<Rightarrow> (j, if known then unat (ci_size j) else if hd (drop p bytes) AND 3 = 3 then 4 else 2))"

inductive straight :: "disassembler \<Rightarrow> u64 \<Rightarrow> u8 list \<Rightarrow> nat \<Rightarrow> cs_insn \<Rightarrow> nat \<Rightarrow> cs_insn \<Rightarrow> bool"
  for cs_iter :: disassembler and va :: u64 and bytes :: "u8 list" where
  straight_here: "straight cs_iter va bytes p i p i"
| straight_on: "insn_at cs_iter va bytes p i = (j, n) \<Longrightarrow> insn_kind j = Inr None \<Longrightarrow> 0 < n \<Longrightarrow>
    p + n \<le> length bytes \<Longrightarrow> straight cs_iter va bytes (p + n) j q k \<Longrightarrow> straight cs_iter va bytes p i q k"

inductive_cases straightE: "straight cs_iter va bytes p i q k"

lemma make_block_sel:
  "make_block c a n i = Inr b \<Longrightarrow> ib_kind b = c \<and> ib_addr b = a \<and> ib_icnt b = n \<and> ib_insn b = i \<and>
   (c \<in> {IB_dir_jmp, IB_cond_branch, IB_dir_call} \<longrightarrow> ib_off b = op_imm (last (ci_operands i)))"
  by (auto simp: make_block_def Let_def split: if_splits)

lemma fetch_loop_straight:
  "fetch_loop cs_iter va p bs i = Inr (Some b) \<Longrightarrow> bs = drop p bytes \<Longrightarrow> p \<le> length bytes \<Longrightarrow>
   \<exists>q j k n. straight cs_iter va bytes p i q j \<and> insn_at cs_iter va bytes q j = (k, n) \<and> 0 < n \<and> q + n \<le> length bytes \<and>
     (q + n) mod 2 = 0 \<and> insn_kind k = Inr (Some (ib_kind b)) \<and> make_block (ib_kind b) va (of_nat ((q + n) div 2)) k = Inr b"
proof (induction cs_iter va p bs i rule: fetch_loop.induct)
  case (1 cs_iter va p bs i)
  obtain known j where it: "cs_iter bs (va + of_nat p) i = (known, j)" by (metis surj_pair)
  define n where "n = (if known then unat (ci_size j) else if hd bs AND 3 = 3 then 4 else 2)"
  note run = "1.prems"(1) [unfolded fetch_loop.simps [of cs_iter va p bs i] it Let_def split_conv, folded n_def]
  from run have len: "\<not> length bs < 2" by (auto split: if_splits)
  from run len have n: "\<not> length bs < n" "n \<noteq> 0" "(p + n) mod 2 = 0" by (auto split: if_splits)
  with "1.prems"(2,3) have fit: "p + n \<le> length bytes" by auto
  have at: "insn_at cs_iter va bytes p i = (j, n)"
    using it n_def by (simp add: insn_at_def "1.prems"(2))
  from run len n obtain kind where kind: "insn_kind j = Inr kind" by (auto split: if_splits)
  show ?case
  proof (cases kind)
    case None
    with run len n kind have go: "fetch_loop cs_iter va (p + n) (drop n bs) j = Inr (Some b)" by simp
    have "drop n bs = drop (p + n) bytes" using "1.prems"(2) by (simp add: add.commute)
    have "\<not> (p + n) mod 2 \<noteq> 0" using n(3) by simp
    from "1.IH" [OF len it [symmetric] n_def n(1,2) this go \<open>drop n bs = _\<close> fit] obtain q j' k m where
      "straight cs_iter va bytes (p + n) j q j'" and rest: "insn_at cs_iter va bytes q j' = (k, m)" "0 < m" "q + m \<le> length bytes"
       "(q + m) mod 2 = 0" "insn_kind k = Inr (Some (ib_kind b))" "make_block (ib_kind b) va (of_nat ((q + m) div 2)) k = Inr b"
      by (elim exE conjE) (rule that)
    then have "straight cs_iter va bytes p i q j'" using straight_on [OF at] kind None n fit by simp
    with rest show ?thesis by metis
  next
    case (Some c)
    with run len n kind have mk: "make_block c va (of_nat ((p + n) div 2)) j = Inr b" by (auto split: if_splits)
    then have "ib_kind b = c" using make_block_sel by blast
    with mk kind Some at n fit straight_here [of cs_iter va bytes p i] show ?thesis by (metis neq0_conv)
  qed
qed

section \<open>Property\<close>

text \<open>
  C32. A fetched block. Its instructions follow each other from its address; none but the last ends a block, the
  last one does and gives the class. Its size is that of its instructions, so that \<open>block_end\<close> is the address
  behind the last one; and a direct jump or branch goes to the address of its own instruction plus the
  offset in its last operand.
\<close>

theorem fetch_block:
  assumes "fetch cs_iter blank (Some bytes) va = Inr (Some b)" and "length bytes < 2 ^ 32"
  shows "ib_addr b = va \<and>
    (\<exists>q j n. straight cs_iter va bytes 0 blank q j \<and> insn_at cs_iter va bytes q j = (ib_insn b, n) \<and> q + n \<le> length bytes \<and>
      insn_kind (ib_insn b) = Inr (Some (ib_kind b)) \<and> 2 * unat (ib_icnt b) = q + n \<and> block_end b = va + of_nat (q + n) \<and>
      (ib_kind b \<in> {IB_dir_jmp, IB_cond_branch, IB_dir_call} \<and> n = unat (ci_size (ib_insn b)) \<longrightarrow>
        jump_target b = (va + of_nat q) + op_imm (last (ci_operands (ib_insn b)))))"
proof -
  from assms(1) have "fetch_loop cs_iter va 0 bytes blank = Inr (Some b)" by (simp add: fetch_def)
  from fetch_loop_straight [OF this, of bytes] obtain q j k n where
    run: "straight cs_iter va bytes 0 blank q j" "insn_at cs_iter va bytes q j = (k, n)" "q + n \<le> length bytes"
    and even: "(q + n) mod 2 = 0" and kind: "insn_kind k = Inr (Some (ib_kind b))"
    and mk: "make_block (ib_kind b) va (of_nat ((q + n) div 2)) k = Inr b"
    by auto
  from mk have b: "ib_addr b = va" "ib_insn b = k" "ib_icnt b = of_nat ((q + n) div 2)"
    and off: "ib_kind b \<in> {IB_dir_jmp, IB_cond_branch, IB_dir_call} \<Longrightarrow> ib_off b = op_imm (last (ci_operands k))"
    using make_block_sel by blast+
  have half: "2 * ((q + n) div 2) = q + n" using even by presburger
  have "(q + n) div 2 < 2 ^ 32" using run(3) assms(2) by simp
  then have "unat (of_nat ((q + n) div 2) :: u32) = (q + n) div 2" by (simp add: unat_of_nat)
  with half b(3) have icnt: "2 * unat (ib_icnt b) = q + n" by simp
  have "ib_icnt b * 2 = of_nat (q + n)"
    using half b(3) by (metis mult.commute of_nat_mult of_nat_numeral)
  then have u: "unat (ib_icnt b * 2) = q + n" using run(3) assms(2) by (simp add: unat_of_nat del: of_nat_add)
  have "ucast (ib_icnt b * 2) = (of_nat (unat (ib_icnt b * 2)) :: u64)" by simp
  then have "ucast (ib_icnt b * 2) = (of_nat (q + n) :: u64)" unfolding u .
  then have e: "block_end b = va + of_nat (q + n)" by (simp add: block_end_def b(1))
  have "jump_target b = (va + of_nat q) + op_imm (last (ci_operands k))"
    if "ib_kind b \<in> {IB_dir_jmp, IB_cond_branch, IB_dir_call}" "n = unat (ci_size k)"
    using off [OF that(1)] that(2) by (simp add: jump_target_def e b(2))
  with b run kind icnt e show ?thesis by blast
qed

definition ex_nop :: cs_insn where
  "ex_nop = \<lparr>ci_id = INS_OTHER, ci_mnemonic = ''c.nop'', ci_op_str = '''', ci_size = 2, ci_groups = [], ci_operands = []\<rparr>"

definition ex_j :: cs_insn where
  "ex_j = ex_nop\<lparr>ci_id := INS_C_J, ci_mnemonic := ''c.j'', ci_operands := [OP_IMM 8]\<rparr>"

definition ex_iter :: disassembler where
  "ex_iter bytes va i = (True, if hd bytes = 1 then ex_nop else ex_j)"

lemma fetch_block_witness:
  "\<exists>b. fetch ex_iter ex_nop (Some [1, 0, 2, 0]) 0x1000 = Inr (Some b) \<and> ib_addr b = 0x1000 \<and>
    (\<exists>q j n. straight ex_iter 0x1000 [1, 0, 2, 0] 0 ex_nop q j \<and> insn_at ex_iter 0x1000 [1, 0, 2, 0] q j = (ib_insn b, n) \<and>
      2 * unat (ib_icnt b) = q + n \<and> block_end b = 0x1000 + of_nat (q + n))"
proof -
  let ?r = "fetch ex_iter ex_nop (Some [1, 0, 2, 0]) 0x1000"
  have "(case ?r of Inr (Some b) \<Rightarrow> True | _ \<Rightarrow> False)" by code_simp
  then obtain b where "?r = Inr (Some b)" by (auto split: sum.splits option.splits)
  from fetch_block [OF this] this show ?thesis by auto
qed

end
