(* ===== verification/InstRetire.thy ===== *)
theory InstRetire
  imports InstBlock
begin

text \<open>
  What retiring a block does: it takes exactly the instructions of the block from the trace, or stops at an event
  inside of it; and a return leads behind its call.
\<close>

section \<open>The return stack is left alone by retiring instructions\<close>

lemma keeps_case_prod [inv_intros]:
  "(\<And>a b. p = (a, b) \<Longrightarrow> keeps I E (f a b)) \<Longrightarrow> keeps I E (case p of (a, b) \<Rightarrow> f a b)"
  by (cases p) simp

definition stack_is :: "nexusrv_return_stack \<Rightarrow> nexusrv_trace_decoder \<Rightarrow> bool" where
  "stack_is k s \<longleftrightarrow> td_return_stack s = k"

lemma stack_is_basic [inv_intros]:
  "keeps (stack_is k) (\<lambda>_. True) td_next" "keeps (stack_is k) (\<lambda>_. True) td_rewind"
  "keeps (stack_is k) (\<lambda>_. True) (td_next_local m)" "keeps (stack_is k) (\<lambda>_. True) nexusrv_trace_available_icnt"
  "keeps (stack_is k) (\<lambda>_. True) nexusrv_trace_available_tnts" "keeps (stack_is k) (\<lambda>_. True) (checkS p)"
  "keeps (stack_is k) (\<lambda>_. True) (push_element w el)"
  by (auto simp: keeps_def stack_is_def td_next_def td_rewind_def td_next_local_def checkS_def push_element_def
      nexusrv_trace_available_icnt_def nexusrv_trace_available_tnts_def Let_def split: prod.splits sum.splits)

lemma stack_is_pull [inv_intros]: "keeps (stack_is k) (\<lambda>_. True) (nexusrv_trace_pull_msg w)"
  unfolding nexusrv_trace_pull_msg_def nexusrv_trace_fetch_msg_def resource_element_def Let_def
  by (intro inv_intros; simp add: stack_is_def split: prod.splits)

lemma stack_is_consume [inv_intros]: "keeps (stack_is k) (\<lambda>_. True) (nexusrv_trace_consume_icnt n)"
  unfolding nexusrv_trace_consume_icnt_def by (intro inv_intros; simp add: stack_is_def)

lemma stack_is_loop [inv_intros]: "keeps (stack_is k) (\<lambda>_. True) (retire_loop w n rc)"
proof
  fix s show "stack_is k s \<Longrightarrow> stack_is k (snd (retire_loop w n rc s)) \<and> (\<forall>e. fst (retire_loop w n rc s) = Inl e \<longrightarrow> True)"
  proof (induction w n rc s rule: retire_loop.induct)
    case (1 w n rc s)
    obtain r t where av: "nexusrv_trace_available_icnt s = (r, t)" by (metis surj_pair)
    obtain r2 u where co: "nexusrv_trace_consume_icnt n t = (r2, u)" by (metis surj_pair)
    obtain r3 v where pu: "nexusrv_trace_pull_msg w t = (r3, v)" by (metis surj_pair)
    have t: "stack_is k t" using keepsD_state [OF stack_is_basic(4) "1.prems" av] .
    have u: "stack_is k u" using keepsD_state [OF stack_is_consume t co] .
    have v: "stack_is k v" using keepsD_state [OF stack_is_pull t pu] .
    show ?case
      using "1.IH" [OF av [symmetric] _ _ _ pu [symmetric]] t u v
      by (auto simp: retire_loop.simps [of w n rc s] av co pu split: sum.splits if_splits)
  qed
qed

lemma stack_is_try_retire [inv_intros]: "keeps (stack_is k) (\<lambda>_. True) (nexusrv_trace_try_retire w n)"
  unfolding nexusrv_trace_try_retire_def pending_event_def need_sync_def Let_def
  by (intro inv_intros; simp add: stack_is_def)

lemma try_retire_stack:
  "nexusrv_trace_try_retire w n s = (r, t) \<Longrightarrow> td_return_stack t = td_return_stack s"
  using keepsD_state [OF stack_is_try_retire, of "td_return_stack s" s w n r t] by (simp add: stack_is_def)

section \<open>What a block takes from the trace\<close>

text \<open>
  In the state \<open>d\<close> the trace decoder looks at \<open>v\<close> (behind some ResourceFull messages and perhaps the next other
  one), and retires \<open>k\<close> of at most \<open>n\<close> instructions there, with the event \<open>ev\<close>.
\<close>

definition takes :: "retire_env \<Rightarrow> nexusrv_trace_decoder \<Rightarrow> u32 \<Rightarrow> u32 \<Rightarrow> nexusrv_trace_events \<Rightarrow> nexusrv_trace_decoder \<Rightarrow> bool" where
  "takes e d n k ev t \<longleftrightarrow> k \<le> n \<and> (\<exists>ms v. sees (re_try e) d ms v \<and> pending v = pending d + new_count d ms v \<and>
     retire_step n v (k, ev) t)"

lemma try_retire_takes:
  assumes "count_ok S d" "td_synced d" "nexusrv_trace_try_retire (re_try e) n d = (Inr (k, ev), t)"
  shows "takes e d n k ev t"
proof -
  from try_retire_run [OF assms] obtain ms v where s: "sees (re_try e) d ms v" and r: "retire_step n v (k, ev) t" by auto
  from r have "k \<le> n" by (simp add: retire_step_def Let_def word_le_nat_alt)
  with s r sees_count(2) [OF s assms(1)] show ?thesis by (auto simp: takes_def)
qed

lemma dec_run:
  "dec m (b, d) = (Inr x, st) \<longleftrightarrow> (\<exists>t. m d = (Inr x, t) \<and> st = (b, t))"
  "dec m (b, d) = (Inl f, st) \<longleftrightarrow> (\<exists>g t. m d = (Inl g, t) \<and> f = fault_exc g \<and> st = (b, t))"
  by (auto simp: dec_def split: prod.splits sum.splits)

lemma fault_no_event [simp]: "fault_exc g \<noteq> Exc_event a ev" "Exc_event a ev \<noteq> fault_exc g"
  by (cases g; simp)+

lemma double_small: "k < 0x40000000 \<Longrightarrow> unat (k * 2 :: u32) = 2 * unat k"
  by (simp add: word_less_nat_alt unat_word_ariths(2))

text \<open>The address behind \<open>k\<close> units of two bytes.\<close>

definition addr_at :: "rv_inst_block \<Rightarrow> u32 \<Rightarrow> u64" where
  "addr_at b k = ib_addr b + of_nat (2 * unat k)"

lemma addr_at_double: "k < 0x40000000 \<Longrightarrow> addr_at b k = ib_addr b + ucast (k * 2)"
proof -
  assume k: "k < 0x40000000"
  have "ucast (k * 2) = (of_nat (unat (k * 2)) :: u64)" by simp
  then have "ucast (k * 2) = (of_nat (2 * unat k) :: u64)" unfolding double_small [OF k] .
  then show ?thesis by (simp add: addr_at_def)
qed

lemma block_end_at: "ib_icnt b < 0x40000000 \<Longrightarrow> block_end b = addr_at b (ib_icnt b)"
  by (simp add: block_end_def addr_at_double)

lemma Inr_run:
  "thenS m k s = (Inr x, t) \<longleftrightarrow> (\<exists>y u. m s = (Inr y, u) \<and> k u = (Inr x, t))"
  "bindS m f s = (Inr x, t) \<longleftrightarrow> (\<exists>y u. m s = (Inr y, u) \<and> f y u = (Inr x, t))"
  by (auto simp: thenS_def bindS_def split: prod.splits sum.splits)

lemma bind_laws:
  "bindS m retS = m" "bindS (retS x) f = f x" "bindS (bindS m f) g = bindS m (\<lambda>x. bindS (f x) g)"
  by (rule ext, auto simp: bindS_def retS_def split: prod.splits sum.splits)+

lemma start_run:
  "bindS callstack_used f (b, d) = f (nexusrv_trace_callstack_used d) (b, d)"
  "bindS (upd_block h) g (b, d) = g () (h b, d)" "bindS (readS q) f' (b, d) = f' (q (b, d)) (b, d)"
  by (simp_all add: callstack_used_def upd_block_def comp_simps)

lemma block_step_run:
  "this_block (b, d) = (q, st) \<longleftrightarrow> q = Inr b \<and> st = (b, d)"
  "upd_block h (b, d) = (u, st) \<longleftrightarrow> u = Inr () \<and> st = (h b, d)"
  "callstack_used (b, d) = (v, st) \<longleftrightarrow> v = Inr (nexusrv_trace_callstack_used d) \<and> st = (b, d)"
  "retS x s = (w, t) \<longleftrightarrow> w = Inr x \<and> t = s"
  by (auto simp: this_block_def upd_block_def callstack_used_def comp_simps)

section \<open>What a block does behind its instructions\<close>

text \<open>The effect of a call and of a return on the return stack, as a list.\<close>

definition stack_used :: "nexusrv_trace_decoder \<Rightarrow> u32" where
  "stack_used t = nexusrv_trace_callstack_used t"

definition pushed :: "retire_env \<Rightarrow> u64 \<Rightarrow> nexusrv_trace_decoder \<Rightarrow> nexusrv_trace_decoder \<Rightarrow> bool" where
  "pushed e a t t' \<longleftrightarrow> (\<exists>k. t' = t\<lparr>td_return_stack := k\<rparr> \<and> rs_ok k \<and>
     (if rs_used (td_return_stack t) = rs_max (td_return_stack t) then k = td_return_stack t
      else rs_list k = a # rs_list (td_return_stack t) \<or> \<not> re_alloc e \<and> k = td_return_stack t))"

definition popped :: "nexusrv_trace_decoder \<Rightarrow> u64 \<Rightarrow> nexusrv_trace_decoder \<Rightarrow> bool" where
  "popped t a t' \<longleftrightarrow> (\<exists>k. t' = t\<lparr>td_return_stack := k\<rparr> \<and> rs_ok k \<and> rs_list (td_return_stack t) = a # rs_list k)"

definition dropped :: "nexusrv_trace_decoder \<Rightarrow> nexusrv_trace_decoder \<Rightarrow> bool" where
  "dropped t t' \<longleftrightarrow> (\<exists>k. t' = t\<lparr>td_return_stack := k\<rparr> \<and> rs_ok k \<and> rs_list k = tl (rs_list (td_return_stack t)))"

text \<open>
  A coroutine swap is a call or a return first, by the quirk of the core, and is printed as one; it
  sets the members for that before it looks at the trace.
\<close>

definition start_block :: "rv_inst_block \<Rightarrow> nexusrv_trace_decoder \<Rightarrow> rv_inst_block" where
  "start_block b d =
     (if ib_kind b = IB_co_swap
      then b\<lparr>ib_stack0 := stack_used d, ib_IRO := False, ib_coswap := \<not> quirk_sifive (td_cfg d)\<rparr> else b)"

definition as_return :: "rv_inst_block \<Rightarrow> bool" where
  "as_return b \<longleftrightarrow> ib_kind b = IB_ret \<or> ib_kind b = IB_co_swap \<and> ib_coswap b"

definition as_call :: "rv_inst_block \<Rightarrow> bool" where
  "as_call b \<longleftrightarrow> ib_kind b = IB_indir_call \<or> ib_kind b = IB_co_swap \<and> \<not> ib_coswap b"

definition as_indirect :: "rv_inst_block \<Rightarrow> bool" where
  "as_indirect b \<longleftrightarrow> ib_kind b = IB_indir_jmp \<or> ib_kind b = IB_iret \<or> as_call b"

definition call_done :: "retire_env \<Rightarrow> rv_inst_block \<Rightarrow> nexusrv_trace_decoder \<Rightarrow> rv_inst_block \<Rightarrow> nexusrv_trace_decoder \<Rightarrow> bool" where
  "call_done e b t b' t' \<longleftrightarrow> pushed e (block_end b) t t' \<and> b' = b\<lparr>ib_stack0 := stack_used t, ib_stack1 := stack_used t'\<rparr>"

text \<open>A return ends here; a swap pushes the address behind itself.\<close>

definition return_done :: "retire_env \<Rightarrow> rv_inst_block \<Rightarrow> nexusrv_trace_decoder \<Rightarrow> rv_inst_block \<Rightarrow> nexusrv_trace_decoder \<Rightarrow> bool" where
  "return_done e b t b' t' \<longleftrightarrow>
     (if ib_kind b = IB_co_swap then pushed e (block_end b) t t' \<and> b' = b\<lparr>ib_stack1 := stack_used t'\<rparr>
      else b' = b \<and> t' = t)"

text \<open>
  Where a block leads, or what it throws, when its instructions have been taken with the event \<open>ev\<close>:
  one rule for each case. \<open>b\<close> and \<open>t\<close> are the block and the decoder then, \<open>b'\<close> and \<open>t'\<close> those at the end.
\<close>

inductive block_behind :: "retire_env \<Rightarrow> rv_inst_block \<Rightarrow> nexusrv_trace_events \<Rightarrow> nexusrv_trace_decoder \<Rightarrow>
    ib_exc + u64 \<Rightarrow> rv_inst_block \<Rightarrow> nexusrv_trace_decoder \<Rightarrow> bool" for e where
  falls_through: "ib_kind b = IB_plain \<Longrightarrow> block_behind e b ev t (Inr (block_end b)) b t"
| jumps: "ib_kind b = IB_dir_jmp \<Longrightarrow> block_behind e b ev t (Inr (jump_target b)) b t"
| calls: "ib_kind b = IB_dir_call \<Longrightarrow> call_done e b t b' t' \<Longrightarrow> block_behind e b ev t (Inr (jump_target b)) b' t'"
| error_behind: "ib_kind b = IB_cond_branch \<or> as_return b \<Longrightarrow>
    block_behind e b Event_Error t (Inl (Exc_event (block_end b) Event_Error)) b t"
| branch_fails: "ib_kind b = IB_cond_branch \<Longrightarrow> ev \<noteq> Event_Error \<Longrightarrow>
    nexusrv_trace_next_tnt (re_next e) t = (Inl g, t') \<Longrightarrow> block_behind e b ev t (Inl (fault_exc g)) b t'"
| branch_taken: "ib_kind b = IB_cond_branch \<Longrightarrow> ev \<noteq> Event_Error \<Longrightarrow>
    nexusrv_trace_next_tnt (re_next e) t = (Inr True, t') \<Longrightarrow>
    block_behind e b ev t (Inr (jump_target b)) (b\<lparr>ib_taken := True\<rparr>) t'"
| branch_falls: "ib_kind b = IB_cond_branch \<Longrightarrow> ev \<noteq> Event_Error \<Longrightarrow>
    nexusrv_trace_next_tnt (re_next e) t = (Inr False, t') \<Longrightarrow>
    block_behind e b ev t (Inr (block_end b)) (b\<lparr>ib_taken := False\<rparr>) t'"
| no_indirect: "as_indirect b \<Longrightarrow> ev \<noteq> Event_Indirect \<Longrightarrow> block_behind e b ev t (Inl (Exc_failed nexus_trace_mismatch)) b t"
| indirect_fails: "as_indirect b \<Longrightarrow> next_indirect (re_next e) (re_indir e) t = (Inl g, t') \<Longrightarrow>
    block_behind e b Event_Indirect t (Inl (fault_exc g)) b t'"
| indirect_jumps: "as_indirect b \<Longrightarrow> \<not> as_call b \<Longrightarrow> next_indirect (re_next e) (re_indir e) t = (Inr i, t') \<Longrightarrow>
    block_behind e b Event_Indirect t (Inr (in_target i)) b t'"
| indirect_calls: "as_call b \<Longrightarrow> next_indirect (re_next e) (re_indir e) t = (Inr i, u) \<Longrightarrow> call_done e b u b' t' \<Longrightarrow>
    block_behind e b Event_Indirect t (Inr (in_target i)) b' t'"
| return_fails: "as_return b \<Longrightarrow> dropped t u \<Longrightarrow> next_indirect (re_next e) (re_indir e) u = (Inl g, t') \<Longrightarrow>
    block_behind e b Event_Indirect t (Inl (fault_exc g)) (b\<lparr>ib_stacksz := stack_used t, ib_IRO := False\<rparr>) t'"
| returns_explicit: "as_return b \<Longrightarrow> dropped t u \<Longrightarrow> next_indirect (re_next e) (re_indir e) u = (Inr i, v) \<Longrightarrow>
    return_done e (b\<lparr>ib_stacksz := stack_used t, ib_IRO := False\<rparr>) v b' t' \<Longrightarrow>
    block_behind e b Event_Indirect t (Inr (in_target i)) b' t'"
| return_empty: "as_return b \<Longrightarrow> ev \<notin> {Event_Error, Event_Indirect} \<Longrightarrow> rs_list (td_return_stack t) = [] \<Longrightarrow>
    block_behind e b ev t (Inl (Exc_failed nexus_trace_retstack_empty)) (b\<lparr>ib_stacksz := stack_used t, ib_IRO := False\<rparr>) t"
| returns_implicit: "as_return b \<Longrightarrow> ev \<notin> {Event_Error, Event_Indirect} \<Longrightarrow> popped t a v \<Longrightarrow>
    return_done e (b\<lparr>ib_stacksz := stack_used t, ib_IRO := True\<rparr>) v b' t' \<Longrightarrow> block_behind e b ev t (Inr a) b' t'"
| no_trap: "ib_kind b = IB_int \<Longrightarrow> ev \<noteq> Event_Trap \<Longrightarrow> block_behind e b ev t (Inl (Exc_failed nexus_trace_mismatch)) b t"
| trap_fails: "ib_kind b = IB_int \<Longrightarrow> next_indirect (re_next e) (re_indir e) t = (Inl g, t') \<Longrightarrow>
    block_behind e b Event_Trap t (Inl (fault_exc g)) b t'"
| traps: "ib_kind b = IB_int \<Longrightarrow> next_indirect (re_next e) (re_indir e) t = (Inr i, t') \<Longrightarrow>
    block_behind e b Event_Trap t (Inr (in_target i)) b t'"

section \<open>The classes\<close>

text \<open>A decoder behind the instructions of a block: its counts and its stack are sound.\<close>

definition retire_sound :: "u8 list \<Rightarrow> nexusrv_trace_decoder \<Rightarrow> bool" where
  "retire_sound S t \<longleftrightarrow> active_ok S t \<and> rs_ok (td_return_stack t)"

definition stack_sound :: "nexusrv_trace_decoder \<Rightarrow> bool" where
  "stack_sound t \<longleftrightarrow> rs_ok (td_return_stack t)"

text \<open>The rest \<open>f\<close> of retiring a block, behind its instructions, does what the rules say.\<close>

definition behaves :: "u8 list \<Rightarrow> retire_env \<Rightarrow> rv_inst_block \<Rightarrow> (nexusrv_trace_events \<Rightarrow> u64 retire) \<Rightarrow> bool" where
  "behaves S e b f \<longleftrightarrow> (\<forall>ev t r b' t'. retire_sound S t \<longrightarrow> f ev (b, t) = (r, (b', t')) \<longrightarrow> block_behind e b ev t r b' t')"

lemma wrong_event_run: "retire_sound S t \<Longrightarrow> wrong_event (b, t) = (Inl (Exc_failed nexus_trace_mismatch), (b, t))"
  using available_active [of S t] by (simp add: wrong_event_def retire_sound_def dec_def run_defs)

lemma push_run:
  assumes "rs_ok (td_return_stack t)"
  obtains t' where "dec (ignore_rc (nexusrv_trace_push_call (re_alloc e) a)) (b, t) = (Inr (), (b, t'))" "pushed e a t t'"
proof -
  let ?k = "td_return_stack t"
  obtain r k where run: "nexusrv_retstack_push (re_alloc e) a ?k = (r, k)" by (metis surj_pair)
  have r: "r = Inr () \<or> r = Inl (Code nexus_no_mem)" and k: "pushed e a t (t\<lparr>td_return_stack := k\<rparr>)"
    using rs_push_cases [OF assms, of "re_alloc e" a] assms run unfolding pushed_def
    by (auto intro!: exI [of _ k])
  show thesis
    using that [OF _ k] r run by (auto simp: dec_def ignore_rc_def nexusrv_trace_push_call_def)
qed

lemma pop_run:
  assumes "rs_ok (td_return_stack t)"
  obtains (empty_stack) "rs_list (td_return_stack t) = []" "dropped t t"
      "dec nexusrv_trace_pop_ret (b, t) = (Inl (Exc_failed nexus_trace_retstack_empty), (b, t))"
      "dec (ignore_rc nexusrv_trace_pop_ret) (b, t) = (Inr (), (b, t))"
  | (one) a t' where "popped t a t'" "dropped t t'" "dec nexusrv_trace_pop_ret (b, t) = (Inr a, (b, t'))"
      "dec (ignore_rc nexusrv_trace_pop_ret) (b, t) = (Inr (), (b, t'))"
proof (cases "rs_list (td_return_stack t) = []")
  case True
  then have "nexusrv_retstack_pop (td_return_stack t) = (Inl (Code nexus_trace_retstack_empty), td_return_stack t)"
    using rs_pop_cases [OF assms] by auto
  moreover have "dropped t t"
    unfolding dropped_def using assms True by (intro exI [of _ "td_return_stack t"]) simp
  ultimately show thesis
    using True by (intro empty_stack) (simp_all add: dec_def ignore_rc_def nexusrv_trace_pop_ret_def)
next
  case False
  then obtain k where k: "nexusrv_retstack_pop (td_return_stack t) = (Inr (hd (rs_list (td_return_stack t))), k)" "rs_ok k"
    "rs_list k = tl (rs_list (td_return_stack t))"
    using rs_pop_cases [OF assms] by auto
  let ?t = "t\<lparr>td_return_stack := k\<rparr>" and ?a = "hd (rs_list (td_return_stack t))"
  have "popped t ?a ?t" "dropped t ?t" using k False by (auto simp: popped_def dropped_def)
  then show thesis using k by (intro one) (simp_all add: dec_def ignore_rc_def nexusrv_trace_pop_ret_def)
qed

lemma push_return_run:
  assumes "rs_ok (td_return_stack t)"
  obtains b' t' where "push_return e (b, t) = (Inr (), (b', t'))" "call_done e b t b' t'"
proof -
  obtain t' where p: "dec (ignore_rc (nexusrv_trace_push_call (re_alloc e) (block_end b)))
      (b\<lparr>ib_stack0 := stack_used t\<rparr>, t) = (Inr (), (b\<lparr>ib_stack0 := stack_used t\<rparr>, t'))" "pushed e (block_end b) t t'"
    by (rule push_run [OF assms])
  have "push_return e (b, t) = (Inr (), (b\<lparr>ib_stack0 := stack_used t, ib_stack1 := stack_used t'\<rparr>, t'))"
    using p(1) by (simp add: push_return_def this_block_def callstack_used_def upd_block_def comp_simps stack_used_def)
  with that p(2) show thesis by (simp add: call_done_def)
qed

text \<open>The return stack stays sound.\<close>

lemma retire_msg_stack_sound: "keeps stack_sound (\<lambda>_. True) nexusrv_trace_retire_msg"
proof
  fix s assume ok: "stack_sound s"
  then have "rs_ok (nexusrv_retstack_clear (td_return_stack s))" by (simp add: stack_sound_def rs_clear_ok)
  with ok show "stack_sound (snd (nexusrv_trace_retire_msg s)) \<and> (\<forall>e. fst (nexusrv_trace_retire_msg s) = Inl e \<longrightarrow> True)"
    by (simp add: nexusrv_trace_retire_msg_def run_defs stack_sound_def retire_branch_def retire_msg_timestamp_def
        retire_timestamp_stamp Let_def)
qed

lemma next_indirect_stack_sound: "keeps stack_sound (\<lambda>_. True) (next_indirect w i)"
proof -
  have basic [inv_intros]: "keeps stack_sound (\<lambda>_. True) (td_next_local m)" "keeps stack_sound (\<lambda>_. True) td_rewind"
    "keeps stack_sound (\<lambda>_. True) td_next" "keeps stack_sound (\<lambda>_. True) nothing_pending"
    "keeps stack_sound (\<lambda>_. True) need_sync" for m
    by (auto simp: keeps_def stack_sound_def td_next_local_def td_rewind_def td_next_def nothing_pending_def need_sync_def
        run_defs nexusrv_trace_available_icnt_def nexusrv_trace_available_tnts_def Let_def split: prod.splits sum.splits)
  have [inv_intros]: "keeps stack_sound (\<lambda>_. True) (liftS r)" for r :: "'a result"
    by (simp add: keeps_def liftS_def)
  have [inv_intros]: "keeps stack_sound (\<lambda>_. True) (nexusrv_trace_fetch_msg w)"
    unfolding nexusrv_trace_fetch_msg_def Let_def by (intro inv_intros; simp add: stack_sound_def split: prod.splits)
  show ?thesis
    unfolding next_indirect_eq Let_def
    by (intro inv_intros retire_msg_stack_sound; simp add: stack_sound_def split: prod.splits)
qed

lemma next_indirect_sound:
  "rs_ok (td_return_stack t) \<Longrightarrow> next_indirect w i t = (r, u) \<Longrightarrow> rs_ok (td_return_stack u)"
  using keepsD_state [OF next_indirect_stack_sound, of t] by (simp add: stack_sound_def)

lemma dec_cases:
  obtains (fail) g t' where "m t = (Inl g, t')" "dec m (b, t) = (Inl (fault_exc g), (b, t'))"
  | (val) x t' where "m t = (Inr x, t')" "dec m (b, t) = (Inr x, (b, t'))"
  by (cases "m t"; cases "fst (m t)") (auto simp: dec_def)

definition block_count :: "rv_inst_block \<Rightarrow> u32" where
  "block_count b = (if ib_kind b = IB_int then int_icnt b else ib_icnt b)"

text \<open>Checking for an exception is taking the instructions, and throwing when there are fewer.\<close>

definition thrown :: "rv_inst_block \<Rightarrow> u32 \<Rightarrow> nexusrv_trace_events \<Rightarrow> ib_exc" where
  "thrown b k ev =
     (if ib_kind b = IB_int \<or> ev \<in> set inside_events then Exc_event (addr_at b k) ev
      else Exc_failed nexus_trace_mismatch)"

lemma check_exc_run:
  assumes "ib_icnt b < 0x40000000" "ib_kind b \<noteq> IB_int"
  shows "check_exc e (b, d) =
    (case nexusrv_trace_try_retire (re_try e) (ib_icnt b) d of
       (Inl g, t) \<Rightarrow> (Inl (fault_exc g), (b, t))
     | (Inr (k, ev), t) \<Rightarrow> if k < ib_icnt b then (Inl (thrown b k ev), (b, t)) else (Inr ev, (b, t)))"
proof -
  obtain q t where run: "nexusrv_trace_try_retire (re_try e) (ib_icnt b) d = (q, t)" by (metis surj_pair)
  show ?thesis
  proof (cases q)
    case (Inl g)
    with run show ?thesis by (simp add: check_exc_def this_block_def run_defs dec_def)
  next
    case (Inr res)
    obtain k ev where res: "res = (k, ev)" by (metis surj_pair)
    have "k < 0x40000000" if "k < ib_icnt b" using that assms(1) by (rule less_trans)
    with run Inr res assms(2) show ?thesis
      by (simp add: check_exc_def this_block_def run_defs dec_def retired_addr_def addr_at_double thrown_def)
  qed
qed

lemma bind_checked:
  assumes "ib_icnt b < 0x40000000" "ib_kind b \<noteq> IB_int"
  shows "bindS (check_exc e) f (b, d) =
    (case nexusrv_trace_try_retire (re_try e) (ib_icnt b) d of
       (Inl g, t) \<Rightarrow> (Inl (fault_exc g), (b, t))
     | (Inr (k, ev), t) \<Rightarrow> if k < ib_icnt b then (Inl (thrown b k ev), (b, t)) else f ev (b, t))"
  by (simp add: bindS_def check_exc_run [OF assms] split: prod.split sum.split)

lemma behavesI:
  "(\<And>ev t r b' t'. retire_sound S t \<Longrightarrow> rs_ok (td_return_stack t) \<Longrightarrow> f ev (b, t) = (r, (b', t')) \<Longrightarrow>
     block_behind e b ev t r b' t') \<Longrightarrow> behaves S e b f"
  by (simp add: behaves_def retire_sound_def)

lemma jump_behaves:
  assumes "ib_kind b = IB_plain" shows "behaves S e b (\<lambda>_. bindS this_block (\<lambda>b. retS (block_end b)))"
  using assms by (intro behavesI) (auto simp: this_block_def comp_simps intro: falls_through)

lemma dir_jmp_behaves:
  assumes "ib_kind b = IB_dir_jmp" shows "behaves S e b (\<lambda>_. bindS this_block (\<lambda>b. retS (jump_target b)))"
  using assms by (intro behavesI) (auto simp: this_block_def comp_simps intro: jumps)

lemma dir_call_behaves:
  assumes "ib_kind b = IB_dir_call"
  shows "behaves S e b (\<lambda>_. bindS this_block (\<lambda>b. thenS (push_return e) (retS (jump_target b))))"
proof (rule behavesI)
  fix ev t r b' t'
  assume ok: "rs_ok (td_return_stack t)"
    and run: "bindS this_block (\<lambda>b. thenS (push_return e) (retS (jump_target b))) (b, t) = (r, b', t')"
  from push_return_run [OF ok, of e b] obtain c u where "push_return e (b, t) = (Inr (), (c, u))" "call_done e b t c u" .
  with run show "block_behind e b ev t r b' t'"
    using assms by (auto simp: this_block_def comp_simps intro: calls)
qed

lemma cond_branch_behaves:
  assumes "ib_kind b = IB_cond_branch"
  shows "behaves S e b (\<lambda>ev. bindS this_block (\<lambda>b.
     if ev = Event_Error then throwS (Exc_event (block_end b) ev)
     else
       bindS (dec (nexusrv_trace_next_tnt (re_next e))) (\<lambda>tnt.
       thenS (upd_block (\<lambda>b. b\<lparr>ib_taken := tnt\<rparr>))
         (retS (if tnt then jump_target b else block_end b)))))"
    (is "behaves S e b ?f")
proof (rule behavesI)
  fix ev t r b' t' assume run: "?f ev (b, t) = (r, b', t')"
  show "block_behind e b ev t r b' t'"
  proof (cases "ev = Event_Error")
    case True
    with run assms show ?thesis by (auto simp: this_block_def comp_simps intro: error_behind)
  next
    case False
    show ?thesis
    proof (cases rule: dec_cases [of "nexusrv_trace_next_tnt (re_next e)" t b])
      case (fail g u)
      with run False assms show ?thesis by (auto simp: this_block_def comp_simps intro: branch_fails)
    next
      case (val x u)
      with run False assms show ?thesis
        by (cases x) (auto simp: this_block_def upd_block_def comp_simps intro: branch_taken branch_falls)
    qed
  qed
qed

text \<open>What follows an indirect jump that is a call, and one that is not; and what follows a return.\<close>

definition indirect_rest :: "retire_env \<Rightarrow> nexusrv_trace_events \<Rightarrow> u64 retire" where
  "indirect_rest e ev =
    (if ev \<noteq> Event_Indirect then wrong_event
    else bindS (dec (next_indirect (re_next e) (re_indir e))) (\<lambda>i. retS (in_target i)))"

definition return_rest :: "retire_env \<Rightarrow> nexusrv_trace_events \<Rightarrow> u64 retire" where
  "return_rest e ev = bindS this_block (\<lambda>b.
     if ev = Event_Error then throwS (Exc_event (block_end b) ev)
     else
       bindS callstack_used (\<lambda>n.
       thenS (upd_block (\<lambda>b. b\<lparr>ib_stacksz := n, ib_IRO := False\<rparr>))
      (if ev = Event_Indirect then
         thenS (dec (ignore_rc nexusrv_trace_pop_ret))
        (bindS (dec (next_indirect (re_next e) (re_indir e))) (\<lambda>i. retS (in_target i)))
       else
         bindS (dec nexusrv_trace_pop_ret) (\<lambda>target.
         thenS (upd_block (\<lambda>b. b\<lparr>ib_IRO := True\<rparr>)) (retS target)))))"

lemma retire_rest:
  "retire_indir_jmp e = bindS (check_exc e) (indirect_rest e)"
  "retire_ret e = bindS (check_exc e) (return_rest e)"
  by (simp_all add: retire_indir_jmp_def retire_ret_def indirect_rest_def [abs_def] return_rest_def [abs_def])

lemma indirect_behaves:
  assumes k: "as_indirect b"
    and g: "\<And>a t. rs_ok (td_return_stack t) \<Longrightarrow> \<exists>b' t'. g a (b, t) = (Inr a, (b', t')) \<and>
      (if as_call b then call_done e b t b' t' else b' = b \<and> t' = t)"
  shows "behaves S e b (\<lambda>ev. bindS (indirect_rest e ev) g)"
    (is "behaves S e b ?f")
proof (rule behavesI)
  fix ev t r b' t' assume s: "retire_sound S t" and ok: "rs_ok (td_return_stack t)" and run: "?f ev (b, t) = (r, b', t')"
  show "block_behind e b ev t r b' t'"
  proof (cases "ev = Event_Indirect")
    case False
    with run wrong_event_run [OF s, of b, where 'a = u64] have "r = Inl (Exc_failed nexus_trace_mismatch)" "b' = b" "t' = t"
      by (auto simp: bindS_def indirect_rest_def)
    with k False show ?thesis by (auto intro: no_indirect)
  next
    case True
    show ?thesis
    proof (cases rule: dec_cases [of "next_indirect (re_next e) (re_indir e)" t b])
      case (fail h u)
      with run True have "r = Inl (fault_exc h)" "b' = b" "t' = u" by (auto simp: bindS_def indirect_rest_def)
      with fail True k show ?thesis by (auto intro: indirect_fails)
    next
      case (val i u)
      from g [OF next_indirect_sound [OF ok val(1)], of "in_target i"] obtain c v where
        c: "g (in_target i) (b, u) = (Inr (in_target i), (c, v))"
          "if as_call b then call_done e b u c v else c = b \<and> v = u" by blast
      with run True val have "r = Inr (in_target i)" "b' = c" "t' = v" by (auto simp: bindS_def retS_def indirect_rest_def)
      with c(2) val(1) True k show ?thesis
        by (cases "as_call b") (auto intro: indirect_jumps indirect_calls)
    qed
  qed
qed

lemma return_behaves:
  assumes k: "as_return b"
    and g: "\<And>a c t. rs_ok (td_return_stack t) \<Longrightarrow> ib_kind c = ib_kind b \<Longrightarrow>
      \<exists>b' t'. g a (c, t) = (Inr a, (b', t')) \<and> return_done e c t b' t'"
  shows "behaves S e b (\<lambda>ev. bindS (return_rest e ev) g)"
    (is "behaves S e b ?f")
proof (rule behavesI)
  fix ev t r b' t' assume ok: "rs_ok (td_return_stack t)" and run: "?f ev (b, t) = (r, b', t')"
  let ?b = "b\<lparr>ib_stacksz := stack_used t, ib_IRO := False\<rparr>"
  note step = return_rest_def this_block_def callstack_used_def upd_block_def run_defs stack_used_def
  consider (error) "ev = Event_Error" | (indir) "ev = Event_Indirect" | (none) "ev \<notin> {Event_Error, Event_Indirect}" by auto
  then show "block_behind e b ev t r b' t'"
  proof cases
    case error
    with run have "r = Inl (Exc_event (block_end b) Event_Error)" "b' = b" "t' = t" by (auto simp: step)
    with error k show ?thesis by (auto intro: error_behind)
  next
    case indir
    obtain u where u: "dropped t u" "dec (ignore_rc nexusrv_trace_pop_ret) (?b, t) = (Inr (), (?b, u))"
      using ok by (cases rule: pop_run [where b = ?b]) blast+
    then have ok_u: "rs_ok (td_return_stack u)" by (auto simp: dropped_def)
    show ?thesis
    proof (cases rule: dec_cases [of "next_indirect (re_next e) (re_indir e)" u ?b])
      case (fail h v)
      with run indir u(2) have "r = Inl (fault_exc h)" "b' = ?b" "t' = v" by (auto simp: step)
      with fail(1) indir k u(1) show ?thesis by (auto intro: return_fails)
    next
      case (val i v)
      from g [OF next_indirect_sound [OF ok_u val(1)], of ?b "in_target i"] obtain c y where
        c: "g (in_target i) (?b, v) = (Inr (in_target i), (c, y))" "return_done e ?b v c y" by auto
      with run indir u(2) val(2) have "r = Inr (in_target i)" "b' = c" "t' = y" by (auto simp: step)
      with c(2) val(1) indir k u(1) show ?thesis by (auto intro: returns_explicit)
    qed
  next
    case none
    from ok show ?thesis
    proof (cases rule: pop_run [where b = ?b])
      case empty_stack
      with run none have "r = Inl (Exc_failed nexus_trace_retstack_empty)" "b' = ?b" "t' = t" by (auto simp: step)
      with empty_stack(1) none k show ?thesis by (auto intro: return_empty)
    next
      case (one a u)
      let ?c = "b\<lparr>ib_stacksz := stack_used t, ib_IRO := True\<rparr>"
      have ok_u: "rs_ok (td_return_stack u)" using one(1) by (auto simp: popped_def)
      from g [OF ok_u, of ?c a] obtain c y where
        c: "g a (?c, u) = (Inr a, (c, y))" "return_done e ?c u c y" by auto
      with run none one(3) have "r = Inr a" "b' = c" "t' = y" by (auto simp: step)
      with c(2) one(1) none k show ?thesis by (auto intro: returns_implicit)
    qed
  qed
qed

text \<open>The end of a swap.\<close>

lemma swap_end:
  "bindS callstack_used (\<lambda>n. thenS (upd_block (\<lambda>b. b\<lparr>ib_stack1 := n\<rparr>)) (retS a)) (b, t) =
    (Inr a, (b\<lparr>ib_stack1 := stack_used t\<rparr>, t))"
  by (simp add: callstack_used_def upd_block_def comp_simps stack_used_def)

lemma swap_behaves:
  assumes k: "ib_kind b = IB_co_swap"
  shows "\<exists>f. retire_co_swap e (b, d) = bindS (check_exc e) f (start_block b d, d) \<and> behaves S e (start_block b d) f"
proof -
  let ?b = "start_block b d"
  let ?fin = "\<lambda>target. bindS callstack_used (\<lambda>n1. thenS (upd_block (\<lambda>b. b\<lparr>ib_stack1 := n1\<rparr>)) (retS target))"
  have kb: "ib_kind ?b = IB_co_swap" using k by (simp add: start_block_def)
  show ?thesis
  proof (cases "quirk_sifive (td_cfg d)")
    case True
    let ?g = "\<lambda>target. thenS (push_return e) (?fin target)"
    have ind: "as_indirect ?b" "as_call ?b" using True k by (simp_all add: as_indirect_def as_call_def start_block_def)
    have "retire_co_swap e (b, d) = bindS (retire_indir_jmp e) ?g (?b, d)"
      using True k
      by (simp add: retire_co_swap_def retire_indir_call_def thenS_def start_run bind_laws start_block_def stack_used_def)
    also have "\<dots> = bindS (check_exc e) (\<lambda>ev. bindS (indirect_rest e ev) ?g) (?b, d)"
      by (simp only: retire_rest bind_laws(3))
    finally have run: "retire_co_swap e (b, d) = \<dots>" .
    have "\<exists>b' t'. ?g a (?b, t) = (Inr a, (b', t')) \<and>
      (if as_call ?b then call_done e ?b t b' t' else b' = ?b \<and> t' = t)" if ok: "rs_ok (td_return_stack t)" for a t
    proof -
      from push_return_run [OF ok, of e ?b] obtain c u where
        c: "push_return e (?b, t) = (Inr (), (c, u))" "call_done e ?b t c u" .
      then have "c\<lparr>ib_stack1 := stack_used u\<rparr> = c" by (simp add: call_done_def)
      with c swap_end [of a c u] ind(2) show ?thesis by (auto simp: thenS_def bindS_def)
    qed
    from indirect_behaves [OF ind(1) this] run show ?thesis by blast
  next
    case False
    let ?g = "\<lambda>target. thenS (bindS this_block (\<lambda>b. dec (ignore_rc (nexusrv_trace_push_call (re_alloc e) (block_end b))))) (?fin target)"
    have ret: "as_return ?b" using False k by (simp add: as_return_def start_block_def)
    have "retire_co_swap e (b, d) = bindS (retire_ret e) ?g (?b, d)"
      using False k
      by (simp add: retire_co_swap_def thenS_def start_run bind_laws start_block_def stack_used_def)
    also have "\<dots> = bindS (check_exc e) (\<lambda>ev. bindS (return_rest e ev) ?g) (?b, d)"
      by (simp only: retire_rest bind_laws(3))
    finally have run: "retire_co_swap e (b, d) = \<dots>" .
    have "\<exists>b' t'. ?g a (c, t) = (Inr a, (b', t')) \<and> return_done e c t b' t'"
      if ok: "rs_ok (td_return_stack t)" and c: "ib_kind c = ib_kind ?b" for a c t
    proof -
      obtain u where u: "dec (ignore_rc (nexusrv_trace_push_call (re_alloc e) (block_end c))) (c, t) = (Inr (), (c, u))"
        "pushed e (block_end c) t u" by (rule push_run [OF ok])
      from u(1) swap_end [of a c u] have "?g a (c, t) = (Inr a, (c\<lparr>ib_stack1 := stack_used u\<rparr>, u))"
        by (simp add: thenS_def this_block_def run_defs)
      with u(2) c kb show ?thesis by (auto simp: return_done_def)
    qed
    from return_behaves [OF ret this] run show ?thesis by blast
  qed
qed

lemma retire_behaves:
  assumes "ib_kind b \<noteq> IB_int"
  shows "\<exists>f. retire e (b, d) = bindS (check_exc e) f (start_block b d, d) \<and> behaves S e (start_block b d) f"
proof -
  have run: "retire e (b, d) = retire_kind (ib_kind b) e (b, d)" by (simp add: retire_def this_block_def comp_simps)
  have st: "ib_kind b \<noteq> IB_co_swap \<Longrightarrow> start_block b d = b" by (simp add: start_block_def)
  have jump: "\<exists>b' t'. retS a (b, t) = (Inr a, (b', t')) \<and> (if as_call b then call_done e b t b' t' else b' = b \<and> t' = t)"
    if "\<not> as_call b" for a t using that by (simp add: retS_def)
  have call: "\<exists>b' t'. thenS (push_return e) (retS a) (b, t) = (Inr a, (b', t')) \<and>
      (if as_call b then call_done e b t b' t' else b' = b \<and> t' = t)" if "as_call b" "rs_ok (td_return_stack t)" for a t
    using push_return_run [OF that(2), of e b] that(1) by (metis (full_types) thenS_Inr retS_run)
  have plainret: "\<exists>b' t'. retS a (c, t) = (Inr a, (b', t')) \<and> return_done e c t b' t'"
    if "ib_kind c \<noteq> IB_co_swap" for a c t using that by (simp add: retS_def return_done_def)
  show ?thesis
  proof (cases "ib_kind b")
    case IB_plain
    with run st jump_behaves [OF IB_plain, of S e] show ?thesis by (auto simp: retire_plain_def thenS_def)
  next
    case IB_dir_jmp
    with run st dir_jmp_behaves [OF IB_dir_jmp, of S e] show ?thesis by (auto simp: retire_dir_jmp_def thenS_def)
  next
    case IB_cond_branch
    with run st cond_branch_behaves [OF IB_cond_branch, of S e] show ?thesis by (auto simp: retire_cond_branch_def)
  next
    case IB_dir_call
    have "retire_dir_call e = bindS (check_exc e) (\<lambda>_. bindS this_block (\<lambda>b. thenS (push_return e) (retS (jump_target b))))"
      by (simp add: retire_dir_call_def retire_dir_jmp_def thenS_def bind_laws)
    with run st IB_dir_call dir_call_behaves [OF IB_dir_call, of S e] show ?thesis by auto
  next
    case IB_indir_jmp
    then have "as_indirect b" "\<not> as_call b" by (simp_all add: as_indirect_def as_call_def)
    from indirect_behaves [OF this(1) jump [OF this(2)], of S] run st IB_indir_jmp show ?thesis
      by (auto simp: retire_rest bind_laws)
  next
    case IB_iret
    then have "as_indirect b" "\<not> as_call b" by (simp_all add: as_indirect_def as_call_def)
    from indirect_behaves [OF this(1) jump [OF this(2)], of S] run st IB_iret show ?thesis
      by (auto simp: retire_rest bind_laws)
  next
    case IB_indir_call
    then have "as_indirect b" "as_call b" by (simp_all add: as_indirect_def as_call_def)
    from indirect_behaves [OF this(1) call [OF this(2)], of S] run st
      IB_indir_call show ?thesis
      by (auto simp: retire_indir_call_def retire_rest bind_laws(3))
  next
    case IB_ret
    then have "as_return b" by (simp add: as_return_def)
    then have "behaves S e b (\<lambda>ev. bindS (return_rest e ev) retS)"
      by (rule return_behaves) (rule plainret, simp add: IB_ret)
    with IB_ret run st show ?thesis
      by (auto simp: retire_rest bind_laws)
  next
    case IB_co_swap
    with run swap_behaves [OF IB_co_swap, of e d S] show ?thesis by simp
  next
    case IB_int
    with assms show ?thesis by simp
  qed
qed

section \<open>Properties\<close>

lemma int_retires:
  assumes n: "int_icnt b \<le> ib_icnt b" "ib_icnt b < 0x40000000" and k: "ib_kind b = IB_int"
    and ret: "nexusrv_trace_try_retire (re_try e) (int_icnt b) d = (Inr (j, ev), t)" and s: "retire_sound S t"
    and run: "retire_int e (b, d) = (r, (b', d'))"
  shows "if j < int_icnt b then r = Inl (thrown b j ev) \<and> b' = b \<and> d' = t else block_behind e b ev t r b' d'"
proof (cases "j < int_icnt b")
  case True
  then have "j < 0x40000000" using n by simp
  with True ret run k show ?thesis
    by (auto simp: retire_int_def this_block_def run_defs dec_def retired_addr_def addr_at_double thrown_def)
next
  case False
  have step: "retire_int e (b, d) = (if ev \<noteq> Event_Trap then wrong_event
      else bindS (dec (next_indirect (re_next e) (re_indir e))) (\<lambda>i. retS (in_target i))) (b, t)"
    using False ret by (simp add: retire_int_def this_block_def bindS_def readS_def dec_def)
  show ?thesis
  proof (cases "ev = Event_Trap")
    case no: False
    with step run wrong_event_run [OF s, where 'a = u64, of b] False k show ?thesis by (auto intro: no_trap)
  next
    case True
    show ?thesis
    proof (cases rule: dec_cases [of "next_indirect (re_next e) (re_indir e)" t b])
      case (fail g u)
      with step run True False k show ?thesis by (auto simp: run_defs intro: trap_fails)
    next
      case (val i u)
      with step run True False k show ?thesis by (auto simp: run_defs intro: traps)
    qed
  qed
qed

text \<open>
  C30. Retiring a block of any class, on a synchronised decoder with sound counts and a sound return
  stack. The block asks the trace decoder for its instructions, one less for an exception block. If that fails,
  its error is thrown. If an event comes after fewer instructions, exactly these are taken, and the event is
  thrown at the address behind them, inside of the block; except that a block of another class than an exception
  block throws a mismatch for an event that cannot be there. Otherwise exactly the instructions of the block are taken,
  and what follows is fixed by the class and the event, in the relation \<open>block_behind\<close>: a plain block
  leads behind itself, a direct jump or call to its target; a conditional branch to its target if the next branch outcome is
  taken and behind itself otherwise; an indirect jump or call, and an exception, to the target of the next
  indirect branch, if the event announces one; a return to the target of the next indirect branch, if there is
  one, and to the top of the return stack otherwise; calls push the address behind the block, and returns pop. The errors
  are those of these calls, the decoder is the one behind them, and no assertion fails on the way that these calls do not fail.
\<close>

theorem block_retires:
  assumes "count_ok S d" and "td_synced d" and "rs_ok (td_return_stack d)" and "ib_icnt b < 0x40000000"
    and "ib_kind b = IB_int \<longrightarrow> int_icnt b \<le> ib_icnt b" and "retire e (b, d) = (r, (b', d'))"
  shows "case nexusrv_trace_try_retire (re_try e) (block_count b) d of
      (Inl g, t) \<Rightarrow> r = Inl (fault_exc g) \<and> b' = start_block b d \<and> d' = t
    | (Inr (k, ev), t) \<Rightarrow>
        takes e d (block_count b) k ev t \<and>
        (if k < block_count b then
           r = Inl (if ib_kind b = IB_int \<or> ev \<in> {Event_Trap, Event_DirectSync, Event_IndirectSync, Event_Sync, Event_Error}
                    then Exc_event (addr_at b k) ev else Exc_failed nexus_trace_mismatch) \<and>
           unat (addr_at b k - ib_addr b) < 2 * unat (ib_icnt b) \<and> b' = start_block b d \<and> d' = t
         else k = block_count b \<and> block_behind e (start_block b d) ev t r b' d')"
proof -
  obtain q t where run: "nexusrv_trace_try_retire (re_try e) (block_count b) d = (q, t)" by (metis surj_pair)
  let ?b = "start_block b d"
  have same: "ib_kind ?b = ib_kind b" "ib_icnt ?b = ib_icnt b" "ib_addr ?b = ib_addr b"
    by (simp_all add: start_block_def)
  then have thrown: "thrown ?b k ev = thrown b k ev" for k ev by (simp add: thrown_def addr_at_def)
  have le: "block_count b \<le> ib_icnt b" using assms(5) by (simp add: block_count_def)
  have sound: "retire_sound S t" if "q = Inr x" for x
  proof -
    have "active_ok S d" using assms(1,2) by (simp add: active_ok_def)
    with tripleD [OF try_retire_active this] run that try_retire_stack [OF run] assms(3) show ?thesis
      by (simp add: retire_sound_def)
  qed
  have outcome: "case q of
      Inl g \<Rightarrow> r = Inl (fault_exc g) \<and> b' = ?b \<and> d' = t
    | Inr (k, ev) \<Rightarrow> if k < block_count b then r = Inl (thrown b k ev) \<and> b' = ?b \<and> d' = t
        else block_behind e ?b ev t r b' d'"
  proof (cases "ib_kind b = IB_int")
    case True
    then have b: "?b = b" "block_count b = int_icnt b" "retire_int e (b, d) = (r, (b', d'))"
      using assms(6) by (simp_all add: start_block_def block_count_def retire_def this_block_def comp_simps)
    show ?thesis
    proof (cases q)
      case (Inl g)
      with b run show ?thesis by (auto simp: retire_int_def this_block_def run_defs dec_def)
    next
      case (Inr x)
      obtain k ev where x: "x = (k, ev)" by (metis surj_pair)
      have "int_icnt b \<le> ib_icnt b" using assms(5) True by simp
      from int_retires [OF this assms(4) True _ sound [OF Inr] b(3)] run Inr x b show ?thesis by auto
    qed
  next
    case False
    from retire_behaves [OF False, of e d S] obtain f where
      f: "retire e (b, d) = bindS (check_exc e) f (?b, d)" "behaves S e ?b f" by blast
    from False same assms(4) have k: "ib_icnt ?b < 0x40000000" "ib_kind ?b \<noteq> IB_int" "block_count b = ib_icnt ?b"
      by (simp_all add: block_count_def)
    show ?thesis
    proof (cases q)
      case (Inl g)
      with f(1) bind_checked [OF k(1,2), of e f d] run k(3) assms(6) show ?thesis by auto
    next
      case (Inr x)
      obtain j ev where x: "x = (j, ev)" by (metis surj_pair)
      with f bind_checked [OF k(1,2), of e f d] run k(3) assms(6) sound [OF Inr] Inr thrown show ?thesis
        by (auto simp: behaves_def split: if_splits)
    qed
  qed
  show ?thesis
  proof (cases q)
    case (Inl g)
    with run outcome show ?thesis by simp
  next
    case (Inr x)
    obtain k ev where x: "x = (k, ev)" by (metis surj_pair)
    note tk = try_retire_takes [OF assms(1,2) run [unfolded Inr x]]
    have "k = block_count b" if "\<not> k < block_count b" using tk that by (simp add: takes_def)
    moreover have "unat (addr_at b k - ib_addr b) < 2 * unat (ib_icnt b)" if "k < block_count b"
    proof -
      have lt: "unat k < unat (ib_icnt b)" using that le by (simp add: word_less_nat_alt word_le_nat_alt)
      with assms(4) have "2 * unat k < 2 ^ 64" by (simp add: word_less_nat_alt)
      then have "unat (of_nat (2 * unat k) :: u64) = 2 * unat k" unfolding unat_of_nat by (intro mod_less) simp
      with lt show ?thesis by (simp add: addr_at_def)
    qed
    ultimately show ?thesis
      using run Inr x outcome tk by (simp add: thrown_def inside_events_def)
  qed
qed

definition ex_insn :: cs_insn where
  "ex_insn = \<lparr>ci_id = INS_OTHER, ci_mnemonic = ''beqz'', ci_op_str = ''a0, 16'', ci_size = 4,
     ci_groups = [GRP_BRANCH_RELATIVE], ci_operands = [OP_REG 10, OP_IMM 16]\<rparr>"

definition ex_block :: "ib_kind \<Rightarrow> u32 \<Rightarrow> rv_inst_block" where
  "ex_block kind n = \<lparr>ib_kind = kind, ib_addr = 0x1000, ib_icnt = n, ib_insn = ex_insn, ib_off = 16, ib_taken = False,
     ib_stack0 = 0, ib_stack1 = 0, ib_stacksz = 0, ib_IRO = False, ib_coswap = False\<rparr>"

definition ex_env :: retire_env where
  "ex_env = \<lparr>re_try = ex_world, re_next = ex_world, re_alloc = True,
     re_indir = \<lparr>in_target = 0, in_context = 0, in_interrupt = False, in_exception = False, in_ownership = False,
       in_ownership_fmt = 0, in_ownership_priv = 0, in_ownership_v = 0\<rparr>\<rparr>"

lemma ex_start_stack: "rs_ok (td_return_stack (ex_start bytes))" "rs_max (td_return_stack (ex_start bytes)) = 32"
    "rs_used (td_return_stack (ex_start bytes)) = 0"
proof -
  let ?k = "\<lparr>rs_entries = [], rs_size = 0, rs_max = 0, rs_used = 0, rs_end = 0\<rparr> :: nexusrv_return_stack"
  have e: "td_return_stack (ex_start bytes) = snd (nexusrv_retstack_init True 32 ?k)"
    by (simp add: ex_start_def nexusrv_trace_decoder_init_def nexusrv_hist_array_new_def Let_def td_zero_def td_cfg_def
        nexusrv_msg_decoder_init_def ex_cfg_def split: prod.split)
  have "nexusrv_retstack_init True 32 ?k = (Inr (), snd (nexusrv_retstack_init True 32 ?k))"
    by (simp add: nexusrv_retstack_init_def Let_def)
  from rs_init_ok [OF this] rs_list_length [of "snd (nexusrv_retstack_init True 32 ?k)"]
  show "rs_ok (td_return_stack (ex_start bytes))" "rs_max (td_return_stack (ex_start bytes)) = 32"
    "rs_used (td_return_stack (ex_start bytes)) = 0"
    unfolding e by (simp_all add: unat_eq_0)
qed

lemma block_retires_witness:
  "let d = (ex_start ex_direct_4)\<lparr>td_synced := True\<rparr>; b = ex_block IB_cond_branch 4 in
   \<exists>b' d' t. retire ex_env (b, d) = (Inr 0x1014, (b', d')) \<and> takes ex_env d 4 4 Event_Direct t \<and>
     block_behind ex_env b Event_Direct t (Inr (jump_target b)) b' d'"
proof -
  let ?d = "(ex_start ex_direct_4)\<lparr>td_synced := True\<rparr>" and ?b = "ex_block IB_cond_branch 4"
  have "fst (retire ex_env (?b, ?d)) = Inr 0x1014" by code_simp
  then obtain b' d' where run: "retire ex_env (?b, ?d) = (Inr 0x1014, (b', d'))"
    by (metis prod.exhaust_sel)
  have "fst (nexusrv_trace_try_retire (re_try ex_env) 4 ?d) = Inr (4, Event_Direct)" by code_simp
  then obtain t where t: "nexusrv_trace_try_retire (re_try ex_env) 4 ?d = (Inr (4, Event_Direct), t)"
    by (metis prod.exhaust_sel)
  have ok: "count_ok ex_direct_4 ?d" "td_synced ?d" "rs_ok (td_return_stack ?d)"
    using ex_start_ok(2) ex_start_stack(1) by (simp_all add: trace_ok_def)
  have b: "ib_icnt ?b < 0x40000000" "ib_kind ?b = IB_int \<longrightarrow> int_icnt ?b \<le> ib_icnt ?b" "block_count ?b = 4"
    "start_block ?b ?d = ?b" "jump_target ?b = 0x1014"
    by (simp_all add: ex_block_def block_count_def start_block_def jump_target_def block_end_def ex_insn_def)
  from block_retires [OF ok b(1,2) run] t b(3-5) run show ?thesis unfolding Let_def by auto
qed

subsection \<open>Calls and returns\<close>

lemma check_exc_stack:
  "check_exc e (b, d) = (r, st) \<Longrightarrow> fst st = b \<and> td_return_stack (snd st) = td_return_stack d"
  by (auto simp: check_exc_def this_block_def bindS_def readS_def throwS_def retS_def dec_def retired_addr_def
      split: prod.splits sum.splits if_splits dest!: try_retire_stack)

lemma dir_call_run:
  assumes "retire_dir_call e (c, d) = (Inr target, (c', d1))" and "re_alloc e"
    and "rs_ok (td_return_stack d)" "rs_used (td_return_stack d) < rs_max (td_return_stack d)"
  shows "target = jump_target c" and "rs_ok (td_return_stack d1)"
    and "rs_list (td_return_stack d1) = block_end c # rs_list (td_return_stack d)"
    and "ib_stack1 c' = ib_stack0 c' + 1"
proof -
  from assms(1) obtain ev st where c: "check_exc e (c, d) = (Inr ev, st)"
    and t: "target = jump_target (fst st)" and push: "push_return e st = (Inr (), (c', d1))"
    by (auto simp: retire_dir_call_def retire_dir_jmp_def Inr_run this_block_def readS_def retS_def)
  from check_exc_stack [OF c] obtain t0 where st: "st = (c, t0)" "td_return_stack t0 = td_return_stack d" by (cases st) auto
  with t show "target = jump_target c" by simp
  have neq: "rs_used (td_return_stack d) \<noteq> rs_max (td_return_stack d)" using assms(4) by simp
  from rs_push_cases [OF assms(3), of True "block_end c"] neq obtain k where
    k: "nexusrv_retstack_push True (block_end c) (td_return_stack d) = (Inr (), k)" "rs_ok k"
       "rs_list k = block_end c # rs_list (td_return_stack d)" by auto
  have used: "rs_used k = rs_used (td_return_stack d) + 1"
  proof -
    have "unat (rs_used k) = Suc (unat (rs_used (td_return_stack d)))"
      using rs_list_length [OF k(2)] rs_list_length [OF assms(3)] k(3) by simp
    then show ?thesis by (metis add.commute of_nat_Suc of_nat_unat ucast_id)
  qed
  let ?c = "c\<lparr>ib_stack0 := nexusrv_trace_callstack_used t0\<rparr>"
  from push k(1) st assms(2) have "d1 = t0\<lparr>td_return_stack := k\<rparr>" "c' = ?c\<lparr>ib_stack1 := rs_used k\<rparr>"
    by (auto simp: push_return_def thenS_def this_block_def start_run bindS_def readS_def dec_def ignore_rc_def upd_block_def
        modS_def callstack_used_def nexusrv_trace_push_call_def nexusrv_trace_callstack_used_def nexusrv_retstack_used_def)
  with k(2,3) used st(2) show "rs_ok (td_return_stack d1)"
    "rs_list (td_return_stack d1) = block_end c # rs_list (td_return_stack d)" "ib_stack1 c' = ib_stack0 c' + 1"
    by (simp_all add: nexusrv_trace_callstack_used_def nexusrv_retstack_used_def)
qed

lemma implicit_ret_run:
  assumes "retire_ret e (b, d) = (Inr a, (b', d1))" and "ib_IRO b'" and "rs_ok (td_return_stack d)"
  shows "\<exists>xs. rs_list (td_return_stack d) = a # xs \<and> rs_list (td_return_stack d1) = xs \<and> rs_ok (td_return_stack d1)"
proof -
  from assms(1) obtain ev st where c: "check_exc e (b, d) = (Inr ev, st)"
    and rest: "bindS this_block (\<lambda>b.
     if ev = Event_Error then throwS (Exc_event (block_end b) ev)
     else
       bindS callstack_used (\<lambda>n.
       thenS (upd_block (\<lambda>b. b\<lparr>ib_stacksz := n, ib_IRO := False\<rparr>))
      (if ev = Event_Indirect then
         thenS (dec (ignore_rc nexusrv_trace_pop_ret))
        (bindS (dec (next_indirect (re_next e) (re_indir e))) (\<lambda>i. retS (in_target i)))
       else
         bindS (dec nexusrv_trace_pop_ret) (\<lambda>target.
         thenS (upd_block (\<lambda>b. b\<lparr>ib_IRO := True\<rparr>)) (retS target))))) st = (Inr a, (b', d1))"
    by (auto simp: retire_ret_def Inr_run)
  from check_exc_stack [OF c] obtain t where st: "st = (b, t)" "td_return_stack t = td_return_stack d" by (cases st) auto
  have "ev \<noteq> Event_Indirect"
  proof
    assume "ev = Event_Indirect"
    with rest st assms(2) show False
      by (auto simp: Inr_run block_step_run dec_run throwS_def split: if_splits)
  qed
  with rest st obtain k where "nexusrv_retstack_pop (td_return_stack d) = (Inr a, k)" "td_return_stack d1 = k"
    by (auto simp: Inr_run block_step_run dec_run nexusrv_trace_pop_ret_def throwS_def split: prod.splits if_splits)
  with rs_pop_cases [OF assms(3)] show ?thesis by auto
qed

text \<open>
  C31. A return leads behind its call. After a direct call block has been retired, with room on the
  return stack, a return block that the trace does not give a target for leads to the address
  behind the call, if the callee has left the stack as it was; and then the stack is as it was in front of the
  call, so that calls can nest.
\<close>

theorem call_returns:
  assumes "ib_kind c = IB_dir_call" and "retire e (c, d) = (Inr target, (c', d1))" and "re_alloc e"
    and "rs_ok (td_return_stack d)" and "rs_used (td_return_stack d) < rs_max (td_return_stack d)"
    and "rs_ok (td_return_stack d2)" and "rs_list (td_return_stack d2) = rs_list (td_return_stack d1)"
    and "ib_kind b = IB_ret" and "retire e' (b, d2) = (Inr a, (b', d3))" and "ib_IRO b'"
  shows "target = jump_target c \<and> a = block_end c \<and> rs_ok (td_return_stack d3) \<and>
    rs_list (td_return_stack d3) = rs_list (td_return_stack d) \<and> ib_stack1 c' = ib_stack0 c' + 1"
proof -
  have "retire_dir_call e (c, d) = (Inr target, (c', d1))"
    using assms(1,2) by (simp add: retire_def this_block_def comp_simps)
  note call = dir_call_run [OF this assms(3-5)]
  have "retire_ret e' (b, d2) = (Inr a, (b', d3))"
    using assms(8,9) by (simp add: retire_def this_block_def comp_simps)
  from implicit_ret_run [OF this assms(10,6)] call assms(7) show ?thesis by auto
qed

text \<open>A call of two units and a return of one, in front of a branch.\<close>

lemma call_returns_witness:
  "let d = (ex_start ex_direct_4)\<lparr>td_synced := True\<rparr>; c = ex_block IB_dir_call 2; b = ex_block IB_ret 1 in
   \<exists>target c' d1 a b' d3. retire ex_env (c, d) = (Inr target, (c', d1)) \<and> retire ex_env (b, d1) = (Inr a, (b', d3)) \<and>
     a = block_end c \<and> rs_list (td_return_stack d3) = rs_list (td_return_stack d)"
proof -
  let ?d = "(ex_start ex_direct_4)\<lparr>td_synced := True\<rparr>" and ?c = "ex_block IB_dir_call 2" and ?b = "ex_block IB_ret 1"
  obtain r1 c' d1 where r1: "retire ex_env (?c, ?d) = (r1, (c', d1))" by (metis prod.exhaust)
  obtain r2 b' d3 where r2: "retire ex_env (?b, d1) = (r2, (b', d3))" by (metis prod.exhaust)
  have "(case retire ex_env (?c, ?d) of (r1, (c', d1)) \<Rightarrow> (case r1 of Inr _ \<Rightarrow> True | Inl _ \<Rightarrow> False) \<and>
      (case retire ex_env (?b, d1) of (r2, (b', d3)) \<Rightarrow> (case r2 of Inr _ \<Rightarrow> True | Inl _ \<Rightarrow> False) \<and> ib_IRO b'))"
    by code_simp
  with r1 r2 obtain target a where inr: "r1 = Inr target" "r2 = Inr a" "ib_IRO b'" by (auto split: sum.splits)
  note c = r1 [unfolded inr] and b = r2 [unfolded inr]
  have stk: "rs_ok (td_return_stack ?d)" "rs_used (td_return_stack ?d) < rs_max (td_return_stack ?d)" "re_alloc ex_env"
    "ib_kind ?c = IB_dir_call" "ib_kind ?b = IB_ret"
    using ex_start_stack by (simp_all add: ex_env_def ex_block_def)
  have "rs_ok (td_return_stack d1)"
    using dir_call_run(2) [OF _ stk(3,1,2)] c stk(4) by (simp add: retire_def this_block_def comp_simps)
  from call_returns [OF stk(4) c stk(3,1,2) this refl stk(5) b inr(3)] c b show ?thesis
    unfolding Let_def by blast
qed

text \<open>
  An exception block throws whatever event it meets, and throws one that is none at an idle message.
\<close>

theorem int_block_none:
  "fst (retire ex_env (ex_block IB_int 3, (ex_start [0xFF, 12, 19])\<lparr>td_synced := True\<rparr>)) = Inl (Exc_event 0x1000 Event_None)"
  by code_simp

end
