(* ===== verification/Logger.thy ===== *)
theory Logger
  imports ToolBase "HOL-Library.Sublist"
begin

text \<open>
  The logger of \<^verbatim>\<open>util/logger.cpp\<close>, which prints a line that repeats the one before as part of a count.
\<close>

section \<open>The logger\<close>

text \<open>\<open>lg_out\<close> is what was written to the file.\<close>

record logger =
  lg_out :: string
  lg_dirty :: bool
  lg_buf :: string
  lg_bufpos :: nat
  lg_repeated :: nat

definition logger_new :: "string \<Rightarrow> logger" where
  "logger_new out = \<lparr>lg_out = out, lg_dirty = False, lg_buf = '''', lg_bufpos = 0, lg_repeated = 0\<rparr>"

definition marker_text :: "nat \<Rightarrow> string" where
  "marker_text n = ''<repeated '' @ show_base 10 (int n) @ '' times>'' @ [CHR 0x0A]"

definition maybe_marker :: "logger \<Rightarrow> logger" where
  "maybe_marker l =
     (if lg_repeated l = 0 then l else l\<lparr>lg_out := lg_out l @ marker_text (lg_repeated l), lg_repeated := 0\<rparr>)"

text \<open>\<^verbatim>\<open>resize\<close> cuts the buffer or fills it with zeros.\<close>

definition resize :: "nat \<Rightarrow> string \<Rightarrow> string" where
  "resize n s = take n s @ replicate (n - length s) (CHR 0x00)"

text \<open>The text has no zero characters, so that \<^verbatim>\<open>strncmp\<close> compares all of it.\<close>

definition logger_print :: "string \<Rightarrow> logger \<Rightarrow> logger" where
  "logger_print str l =
     (let len = length str; left = length (lg_buf l) - lg_bufpos l;
          l1 = (if left \<ge> len \<and> take len (drop (lg_bufpos l) (lg_buf l)) = str then l
                else
                  let m = maybe_marker (l\<lparr>lg_dirty := True\<rparr>);
                      buf = (if length (lg_buf m) < lg_bufpos m + len then resize (lg_bufpos m + len) (lg_buf m) else lg_buf m)
                  in m\<lparr>lg_buf := take (lg_bufpos m) buf @ str @ drop (lg_bufpos m + len) buf\<rparr>)
      in l1\<lparr>lg_bufpos := lg_bufpos l1 + len\<rparr>)"

definition logger_newline :: "logger \<Rightarrow> logger" where
  "logger_newline l =
     (let l1 = l\<lparr>lg_buf := resize (lg_bufpos l) (lg_buf l), lg_bufpos := 0\<rparr>;
          l2 = (if lg_dirty l1 then
                  let m = maybe_marker l1
                  in m\<lparr>lg_out := lg_out m @ takeWhile (\<lambda>c. c \<noteq> CHR 0x00) (lg_buf m) @ [CHR 0x0A]\<rparr>
                else if lg_buf l1 \<noteq> '''' then l1\<lparr>lg_repeated := lg_repeated l1 + 1\<rparr>
                else l1)
      in l2\<lparr>lg_dirty := False\<rparr>)"

definition logger_flush :: "logger \<Rightarrow> logger" where
  "logger_flush l = maybe_marker ((logger_newline l)\<lparr>lg_buf := ''''\<rparr>)"

section \<open>Lines\<close>

text \<open>A line printed in pieces, and a sequence of lines.\<close>

definition print_pieces :: "string list \<Rightarrow> logger \<Rightarrow> logger" where
  "print_pieces ps l = fold logger_print ps l"

definition print_line :: "string list \<Rightarrow> logger \<Rightarrow> logger" where
  "print_line ps l = logger_newline (print_pieces ps l)"

text \<open>Lines with the number of further times they occur, and how these are printed.\<close>

definition render_run :: "string \<times> nat \<Rightarrow> string" where
  "render_run r = fst r @ [CHR 0x0A] @ (if snd r = 0 then '''' else marker_text (snd r))"

definition expand_run :: "string \<times> nat \<Rightarrow> string list" where
  "expand_run r = replicate (snd r + 1) (fst r)"

section \<open>What a line does\<close>

definition between :: "logger \<Rightarrow> bool" where
  "between l \<longleftrightarrow> lg_bufpos l = 0 \<and> \<not> lg_dirty l"

text \<open>
  The state in the middle of a line of which \<open>t\<close> is printed, that began in the state \<open>l\<close>: as long as the text is the
  start of the line before, nothing is written.
\<close>

definition inside :: "logger \<Rightarrow> string \<Rightarrow> logger \<Rightarrow> bool" where
  "inside l t m \<longleftrightarrow> lg_bufpos m = length t \<and> take (length t) (lg_buf m) = t \<and> length t \<le> length (lg_buf m) \<and>
     (if t = take (length t) (lg_buf l)
      then \<not> lg_dirty m \<and> lg_buf m = lg_buf l \<and> lg_out m = lg_out l \<and> lg_repeated m = lg_repeated l
      else lg_dirty m \<and> lg_out m = lg_out (maybe_marker l) \<and> lg_repeated m = 0)"

lemma maybe_marker_sel [simp]:
  "lg_buf (maybe_marker l) = lg_buf l" "lg_bufpos (maybe_marker l) = lg_bufpos l" "lg_dirty (maybe_marker l) = lg_dirty l"
  "lg_repeated (maybe_marker l) = 0" "lg_out (maybe_marker (l\<lparr>lg_dirty := b\<rparr>)) = lg_out (maybe_marker l)"
  "lg_out (maybe_marker (l\<lparr>lg_buf := s\<rparr>)) = lg_out (maybe_marker l)"
  "lg_out (maybe_marker (l\<lparr>lg_bufpos := n\<rparr>)) = lg_out (maybe_marker l)"
  by (simp_all add: maybe_marker_def)

lemma maybe_marker_none: "lg_repeated l = 0 \<Longrightarrow> maybe_marker l = l"
  by (simp add: maybe_marker_def)

lemma start_more:
  assumes "t = take (length t) b" and "length t \<le> length b"
  shows "t @ p = take (length (t @ p)) b \<longleftrightarrow> length p \<le> length b - length t \<and> take (length p) (drop (length t) b) = p"
proof -
  from assms(1) obtain c where b: "b = t @ c" by (metis append_take_drop_id)
  have "p = take (length p) c \<longleftrightarrow> length p \<le> length c \<and> take (length p) c = p"
    by (metis length_take min.absorb_iff2 min.commute)
  then show ?thesis by (simp add: b)
qed

lemma print_inside:
  assumes "inside l t m" and "between l"
  shows "inside l (t @ p) (logger_print p m)"
proof -
  let ?n = "length t"
  from assms(1) have m: "lg_bufpos m = ?n" "take ?n (lg_buf m) = t" "?n \<le> length (lg_buf m)" by (simp_all add: inside_def)
  have short: "t \<noteq> take ?n b \<Longrightarrow> t @ p \<noteq> take (length (t @ p)) b" for b :: string
    by (metis append_eq_conv_conj length_append min.absorb1 le_add1 take_take)
  show ?thesis
  proof (cases "length p \<le> length (lg_buf m) - ?n \<and> take (length p) (drop ?n (lg_buf m)) = p")
    case True
    then have run: "logger_print p m = m\<lparr>lg_bufpos := ?n + length p\<rparr>"
      using m by (simp add: logger_print_def Let_def)
    have tp: "take (?n + length p) (lg_buf m) = t @ p" using True m by (simp add: take_add)
    have le: "?n + length p \<le> length (lg_buf m)" using True m by linarith
    show ?thesis
    proof (cases "t = take ?n (lg_buf l)")
      case eq: True
      with assms(1) have "lg_buf m = lg_buf l" "\<not> lg_dirty m" "lg_out m = lg_out l" "lg_repeated m = lg_repeated l"
        by (simp_all add: inside_def)
      with tp le show ?thesis by (simp add: inside_def run)
    next
      case neq: False
      with assms(1) have "lg_dirty m" "lg_out m = lg_out (maybe_marker l)" "lg_repeated m = 0" by (simp_all add: inside_def)
      with tp le short [OF neq] show ?thesis by (simp add: inside_def run)
    qed
  next
    case False
    let ?b = "if length (lg_buf m) < ?n + length p then resize (?n + length p) (lg_buf m) else lg_buf m"
    have b: "take ?n ?b = t" "?n + length p \<le> length ?b" using m(2,3) by (auto simp: resize_def min_def)
    have run: "logger_print p m = (maybe_marker (m\<lparr>lg_dirty := True\<rparr>))
        \<lparr>lg_buf := t @ p @ drop (?n + length p) ?b, lg_bufpos := ?n + length p\<rparr>"
      using False m b(1) by (auto simp: logger_print_def Let_def)
    have new: "t @ p \<noteq> take (length (t @ p)) (lg_buf l)"
    proof (cases "t = take ?n (lg_buf l)")
      case True
      with assms(1) have "lg_buf m = lg_buf l" by (simp add: inside_def)
      with False m start_more [of t "lg_buf l" p] True show ?thesis by auto
    qed (rule short)
    have out: "lg_out (maybe_marker m) = lg_out (maybe_marker l)"
      using assms(1) by (cases "t = take ?n (lg_buf l)") (auto simp: inside_def maybe_marker_def)
    show ?thesis using new b(2) by (simp add: inside_def run out)
  qed
qed

lemma pieces_inside: "inside l t m \<Longrightarrow> between l \<Longrightarrow> inside l (t @ concat ps) (print_pieces ps m)"
  by (induction ps arbitrary: t m) (simp_all add: print_pieces_def print_inside flip: append_assoc)

lemma between_inside: "between l \<Longrightarrow> inside l '''' l"
  by (simp add: between_def inside_def)

text \<open>A line: it is counted if it is the start of the one before, and printed otherwise.\<close>

lemma print_line_run:
  assumes "between l" and "CHR 0x00 \<notin> set (concat ps)" and "concat ps \<noteq> ''''"
  shows "between (print_line ps l) \<and> lg_buf (print_line ps l) = concat ps \<and>
    (if concat ps = take (length (concat ps)) (lg_buf l)
     then lg_out (print_line ps l) = lg_out l \<and> lg_repeated (print_line ps l) = lg_repeated l + 1
     else lg_out (print_line ps l) = lg_out (maybe_marker l) @ concat ps @ [CHR 0x0A] \<and> lg_repeated (print_line ps l) = 0)"
proof -
  let ?t = "concat ps" and ?m = "print_pieces ps l"
  from pieces_inside [OF between_inside [OF assms(1)] assms(1), of ps] have i: "inside l ?t ?m" by simp
  then have m: "lg_bufpos ?m = length ?t" "resize (length ?t) (lg_buf ?m) = ?t" by (simp_all add: inside_def resize_def)
  have tw: "takeWhile (\<lambda>c. c \<noteq> CHR 0x00) ?t = ?t" using assms(2) by (simp add: takeWhile_eq_all_conv) metis
  show ?thesis
  proof (cases "?t = take (length ?t) (lg_buf l)")
    case True
    with i m assms(3) show ?thesis
      by (simp add: print_line_def logger_newline_def Let_def between_def inside_def)
  next
    case False
    with i m tw show ?thesis
      by (simp add: print_line_def logger_newline_def Let_def between_def inside_def maybe_marker_none)
  qed
qed

section \<open>Lines are counted faithfully\<close>

text \<open>The runs so far, the last one first; its marker is not yet printed.\<close>

definition holds_runs :: "string \<Rightarrow> (string \<times> nat) list \<Rightarrow> logger \<Rightarrow> bool" where
  "holds_runs out runs l \<longleftrightarrow> between l \<and>
     (case runs of
        [] \<Rightarrow> lg_buf l = '''' \<and> lg_repeated l = 0 \<and> lg_out l = out
      | (t, n) # rs \<Rightarrow> lg_buf l = t \<and> lg_repeated l = n \<and>
          lg_out l = out @ concat (map render_run (rev rs)) @ t @ [CHR 0x0A])"

lemma marker_out: "lg_out (maybe_marker l) = lg_out l @ (if lg_repeated l = 0 then '''' else marker_text (lg_repeated l))"
  by (simp add: maybe_marker_def)

lemma holds_marker: "holds_runs out runs l \<Longrightarrow> lg_out (maybe_marker l) = out @ concat (map render_run (rev runs))"
  by (auto simp: holds_runs_def marker_out render_run_def split: list.splits)

lemma line_counted:
  assumes "holds_runs out runs l" and "concat ps \<noteq> ''''" "CHR 0x00 \<notin> set (concat ps)"
    and "runs \<noteq> [] \<Longrightarrow> \<not> strict_prefix (concat ps) (fst (hd runs))"
  shows "\<exists>runs'. holds_runs out runs' (print_line ps l) \<and> fst (hd runs') = concat ps \<and> runs' \<noteq> [] \<and>
    concat (map expand_run (rev runs')) = concat (map expand_run (rev runs)) @ [concat ps]"
proof -
  let ?t = "concat ps"
  from assms(1) have b: "between l" by (simp add: holds_runs_def)
  note run = print_line_run [OF b assms(3,2)]
  show ?thesis
  proof (cases "?t = take (length ?t) (lg_buf l)")
    case True
    then have "prefix ?t (lg_buf l)" by (metis take_is_prefix)
    moreover from True assms(2) have "lg_buf l \<noteq> ''''" by (metis take_Nil)
    ultimately obtain n rs where r: "runs = (?t, n) # rs"
      using assms(1,4) by (cases runs) (auto simp: holds_runs_def strict_prefix_def)
    with assms(1) run True have "holds_runs out ((?t, Suc n) # rs) (print_line ps l)"
      by (auto simp: holds_runs_def)
    then show ?thesis using r
      by (intro exI [of _ "(?t, Suc n) # rs"]) (simp add: expand_run_def replicate_append_same)
  next
    case False
    with run holds_marker [OF assms(1)] have "holds_runs out ((?t, 0) # runs) (print_line ps l)"
      by (simp add: holds_runs_def)
    then show ?thesis by (intro exI [of _ "(?t, 0) # runs"]) (simp add: expand_run_def)
  qed
qed

lemma lines_counted:
  "\<forall>ps \<in> set lss. concat ps \<noteq> '''' \<and> CHR 0x00 \<notin> set (concat ps) \<Longrightarrow>
   successively (\<lambda>a b. \<not> strict_prefix b a) (map fst (take 1 runs) @ map concat lss) \<Longrightarrow> holds_runs out runs l \<Longrightarrow>
   \<exists>runs'. holds_runs out runs' (fold print_line lss l) \<and>
     concat (map expand_run (rev runs')) = concat (map expand_run (rev runs)) @ map concat lss"
proof (induction lss arbitrary: l runs)
  case Nil
  then show ?case by auto
next
  case (Cons ps lss)
  have "runs \<noteq> [] \<Longrightarrow> \<not> strict_prefix (concat ps) (fst (hd runs))" using Cons.prems(2) by (cases runs) simp_all
  from line_counted [OF Cons.prems(3) _ _ this] Cons.prems(1) obtain r1 where
    r1: "holds_runs out r1 (print_line ps l)" "fst (hd r1) = concat ps" "r1 \<noteq> []"
      "concat (map expand_run (rev r1)) = concat (map expand_run (rev runs)) @ [concat ps]" by auto
  have "successively (\<lambda>a b. \<not> strict_prefix b a) (map fst (take 1 r1) @ map concat lss)"
    using Cons.prems(2) r1(2,3) by (cases r1; cases runs) simp_all
  from Cons.IH [OF _ this r1(1)] Cons.prems(1) r1(4) show ?case by auto
qed

section \<open>Properties\<close>

text \<open>
  C37. The log can be expanded to the lines. If no line is a proper start of the one before, the
  output of the logger consists of lines, each followed by the number of further times it occurs if there
  are any; written out, these are the lines that were printed, whatever the pieces they were printed in.
\<close>

theorem logger_faithful:
  assumes "\<forall>ps \<in> set lss. concat ps \<noteq> '''' \<and> CHR 0x00 \<notin> set (concat ps)"
    and "successively (\<lambda>a b. \<not> strict_prefix b a) (map concat lss)"
  shows "\<exists>runs. lg_out (logger_flush (fold print_line lss (logger_new out))) = out @ concat (map render_run runs) \<and>
    concat (map expand_run runs) = map concat lss"
proof -
  have "holds_runs out [] (logger_new out)" by (simp add: holds_runs_def between_def logger_new_def)
  from lines_counted [OF assms(1) _ this] assms(2) obtain runs where
    r: "holds_runs out runs (fold print_line lss (logger_new out))" "concat (map expand_run (rev runs)) = map concat lss"
    by auto
  let ?l = "fold print_line lss (logger_new out)"
  have "lg_out (logger_flush ?l) = lg_out (maybe_marker ?l)"
    using r(1) by (simp add: logger_flush_def logger_newline_def Let_def holds_runs_def between_def resize_def marker_out)
  with holds_marker [OF r(1)] r(2) show ?thesis by (intro exI [of _ "rev runs"]) simp
qed

lemma logger_faithful_witness:
  "\<exists>runs. lg_out (logger_flush (fold print_line [[''a'', ''b''], [''ab''], [''c'']] (logger_new ''''))) = concat (map render_run runs) \<and>
    concat (map expand_run runs) = [''ab'', ''ab'', ''c'']"
  using logger_faithful [of "[[''a'', ''b''], [''ab''], [''c'']]" "''''"] by simp

text \<open>A line that is a proper start of the one before is counted as the line before.\<close>

theorem logger_loses_prefix:
  "lg_out (logger_flush (fold print_line [[''I-CNT '', ''12''], [''I-CNT '', ''1'']] (logger_new ''''))) =
    ''I-CNT 12'' @ [CHR 0x0A] @ ''<repeated 1 times>'' @ [CHR 0x0A]"
  by code_simp

end
