(* ===== verification/LinuxFiles.thy ===== *)
theory LinuxFiles
  imports ObjFile TextNum
begin

text \<open>
  Where the replay utility looks for binaries and debug information: the file stores of \<^verbatim>\<open>util/linux.cpp\<close>
  and \<^verbatim>\<open>util/linux.h\<close>, the list of the kernel modules, and the parsing of directory lists and of the
  kernel version.
\<close>

section \<open>Strings of C and paths\<close>

text \<open>\<^verbatim>\<open>strchr\<close>: the text in front of the first occurrence of a character and the text behind it.\<close>

fun strchr :: "char \<Rightarrow> string \<Rightarrow> (string \<times> string) option" where
  "strchr c [] = None"
| "strchr c (d # s) = (if d = c then Some ([], s) else map_option (\<lambda>(a, b). (d # a, b)) (strchr c s))"

text \<open>\<^verbatim>\<open>strrchr\<close>, with the last occurrence.\<close>

fun strrchr :: "char \<Rightarrow> string \<Rightarrow> (string \<times> string) option" where
  "strrchr c [] = None"
| "strrchr c (d # s) =
     (case strrchr c s of
        Some (a, b) \<Rightarrow> Some (d # a, b)
      | None \<Rightarrow> if d = c then Some ([], s) else None)"

lemma strchr_absent [simp]: "c \<notin> set s \<Longrightarrow> strchr c s = None"
  by (induction s) auto

lemma strrchr_None: "strrchr c s = None \<longleftrightarrow> c \<notin> set s"
  by (induction s) (auto split: option.splits)

lemma strrchr_absent [simp]: "c \<notin> set s \<Longrightarrow> strrchr c s = None"
  by (simp add: strrchr_None)

lemma strchr_cut: "strchr c s = Some (a, b) \<longleftrightarrow> s = a @ c # b \<and> c \<notin> set a"
proof (induction s arbitrary: a)
  case (Cons d s)
  show ?case
  proof (cases "d = c")
    case False
    then show ?thesis using Cons [of "tl a"] by (cases a) (auto simp: Cons)
  qed (cases a; auto)
qed simp

lemma strrchr_cut: "strrchr c s = Some (a, b) \<longleftrightarrow> s = a @ c # b \<and> c \<notin> set b"
proof (induction s arbitrary: a b)
  case (Cons d s)
  show ?case
  proof (cases "strrchr c s")
    case None
    then have "c \<notin> set s" by (simp add: strrchr_None)
    with None show ?thesis by (cases a) auto
  next
    case (Some p)
    obtain a' b' where p: "p = (a', b')" by (cases p)
    with Some Cons.IH [of a' b'] have s: "s = a' @ c # b'" "c \<notin> set b'" by auto
    show ?thesis
    proof (cases a)
      case Nil
      with Some s p show ?thesis by auto
    next
      case (Cons e as)
      with Cons.IH [of as b] Some p show ?thesis by auto
    qed
  qed
qed simp

text \<open>The operator \<^verbatim>\<open>/\<close> of \<^verbatim>\<open>std::filesystem::path\<close>; an absolute right-hand side replaces the left one.\<close>

definition path_join :: "string \<Rightarrow> string \<Rightarrow> string" where
  "path_join a b =
     (if take 1 b = ''/'' then b
      else if a = [] \<or> last a = CHR ''/'' then a @ b
      else a @ ''/'' @ b)"

text \<open>The lines of a file, as \<^verbatim>\<open>getline\<close> returns them, without their line breaks.\<close>

function file_lines :: "string \<Rightarrow> string list" where
  "file_lines s =
     (if s = [] then []
      else case strchr (CHR 0x0A) s of
        None \<Rightarrow> [s]
      | Some (line, rest) \<Rightarrow> line # file_lines rest)"
  by pat_completeness auto
termination
  by (relation "measure length") (auto simp: strchr_cut)

declare file_lines.simps [simp del]

section \<open>Directory lists\<close>

text \<open>The loop at the iterator \<open>i\<close>: at a separator it goes on behind it.\<close>

function split_dirs :: "string \<Rightarrow> string list" where
  "split_dirs i =
     (if i = [] then []
      else
        case strchr (CHR '':'') i of
          None \<Rightarrow> [i]
        | Some (dir, rest) \<Rightarrow> (if dir = [] then [] else [dir]) @ split_dirs rest)"
  by pat_completeness auto
termination
  by (relation "measure length") (auto simp: strchr_cut)

declare split_dirs.simps [simp del]

section \<open>The kernel version\<close>

definition parse_kernel_ver :: "string \<Rightarrow> stop + string \<times> string" where
  "parse_kernel_ver ver =
     (if \<not> starts_with ''Linux version '' ver then Inl (Exit (- 1))
      else
        let it = drop 14 ver in
        case strchr (CHR '' '') it of
          None \<Rightarrow> Inr (it, [])
        | Some (version, rest) \<Rightarrow> Inr (version, rest))"

section \<open>Hexadecimal names\<close>

definition base16 :: "u8 \<Rightarrow> char" where
  "base16 c = (if c < 10 then char_of (uint (c + 48)) else char_of (uint (c + 97 - 10)))"

fun bin2hex :: "u8 list \<Rightarrow> string" where
  "bin2hex [] = []"
| "bin2hex (b # bs) = base16 (b div 16) # base16 (b mod 16) # bin2hex bs"

section \<open>Finding files\<close>

text \<open>The system: the text of a file, if it can be opened; whether there is a file; the constructor of object files.\<close>

record host =
  h_text :: "string \<Rightarrow> string option"
  h_exists :: "string \<Rightarrow> bool"
  h_obj :: "string \<Rightarrow> stop + obj_file"

text \<open>The first directory that has the file, which is then opened.\<close>

fun search_dirs :: "host \<Rightarrow> string list \<Rightarrow> string \<Rightarrow> stop + (string \<times> obj_file) option" where
  "search_dirs h [] name = Inr None"
| "search_dirs h (d # ds) name =
     (let full_path = path_join d name in
      if \<not> h_exists h full_path then search_dirs h ds name
      else bindR (h_obj h full_path) (\<lambda>obj. Inr (Some (full_path, obj))))"

definition search_in :: "host \<Rightarrow> string list \<Rightarrow> string \<Rightarrow> stop + (string \<times> obj_file) option" where
  "search_in h dirs filename = search_dirs h dirs (dropWhile (\<lambda>c. c = CHR ''/'') filename)"

section \<open>The list of the modules\<close>

text \<open>The name of a file in a path, and what is in front of it.\<close>

definition base_name :: "string \<Rightarrow> string \<times> string" where
  "base_name p = (case strrchr (CHR ''/'') p of None \<Rightarrow> ([], p) | Some (d, n) \<Rightarrow> (d @ ''/'', n))"

text \<open>The name of a module and the path of its file, from a line of \<^verbatim>\<open>modules.dep\<close>.\<close>

definition moddep_line :: "string \<Rightarrow> stop + string \<times> string" where
  "moddep_line line =
     (case strchr (CHR '':'') line of
        None \<Rightarrow> Inl (Exit (- 1))
      | Some (p, dep) \<Rightarrow>
          case base_name p of (dir, name) \<Rightarrow>
          case strchr (CHR ''.'') name of
            None \<Rightarrow> Inl (Exit (- 1))
          | Some (base, suffix) \<Rightarrow>
              if take 2 suffix \<noteq> ''ko'' then Inl (Exit (- 1))
              else Inr (base, dir @ base @ ''.ko''))"

fun moddep_lines :: "string list \<Rightarrow> (string \<times> string) list \<Rightarrow> stop + (string \<times> string) list" where
  "moddep_lines [] m = Inr m"
| "moddep_lines (line # ls) m =
     bindR (moddep_line line) (\<lambda>(name, mod_path).
     if map_of m name \<noteq> None then Inl (Exit (- 1)) else moddep_lines ls (m @ [(name, mod_path)]))"

definition parse_moddep :: "string option \<Rightarrow> stop + (string \<times> string) list" where
  "parse_moddep content =
     (case content of None \<Rightarrow> Inl (Exit (- 1)) | Some s \<Rightarrow> moddep_lines (file_lines s) [])"

section \<open>The stores\<close>

text \<open>
  The subclasses of \<^verbatim>\<open>objfile_store\<close>. An ELF file given on the command line is its own store; the other ones
  search directories, that of the kernel with the modules of a kernel version.
\<close>

datatype objstore =
    Single_store string
  | File_store (prefixes: "string list") (dbg_prefixes: "string list")
  | Kmods_store (prefixes: "string list") (dbg_prefixes: "string list") string "(string \<times> string) list"

text \<open>What a store finds: the file it stands for itself, or one it opens.\<close>

datatype found_obj = Itself | Opened string obj_file

definition opened_in :: "stop + (string \<times> obj_file) option \<Rightarrow> stop + found_obj option" where
  "opened_in r = bindR r (\<lambda>x. Inr (map_option (\<lambda>(path, obj). Opened path obj) x))"

definition modules_dir :: "string \<Rightarrow> string" where
  "modules_dir version = path_join (path_join ''lib'' ''modules'') version"

fun kmods_dep :: "host \<Rightarrow> string \<Rightarrow> string list \<Rightarrow> stop + (string \<times> string) list" where
  "kmods_dep h version [] = Inr []"
| "kmods_dep h version (d # ds) =
     (let full_path = path_join (path_join (path_join (path_join d ''lib'') ''modules'') version) ''modules.dep'' in
      if \<not> h_exists h full_path then kmods_dep h version ds
      else parse_moddep (h_text h full_path))"

definition kmods_store_new :: "host \<Rightarrow> string list \<Rightarrow> string list \<Rightarrow> string \<Rightarrow> stop + objstore" where
  "kmods_store_new h ps dbg version =
     bindR (kmods_dep h version ps) (\<lambda>moddep. Inr (Kmods_store ps dbg version moddep))"

definition single_store_get :: "string \<Rightarrow> string \<Rightarrow> found_obj option" where
  "single_store_get name filename = (if name = filename then Some Itself else None)"

definition file_store_get :: "host \<Rightarrow> string list \<Rightarrow> string \<Rightarrow> stop + found_obj option" where
  "file_store_get h ps filename = opened_in (search_in h ps filename)"

definition file_store_get_dbg :: "host \<Rightarrow> string list \<Rightarrow> string list \<Rightarrow> string \<Rightarrow> stop + found_obj option" where
  "file_store_get_dbg h ps dbg filename =
     bindR (search_in h ps (filename @ ''/.debug'')) (\<lambda>r. case r of
       Some x \<Rightarrow> opened_in (Inr (Some x))
     | None \<Rightarrow> opened_in (search_in h dbg (filename @ ''/.debug'')))"

definition buildid_path :: "u8 list \<Rightarrow> string" where
  "buildid_path buildid =
     ''.build-id/'' @ bin2hex (take 1 buildid) @ ''/'' @ bin2hex (drop 1 buildid) @ ''.debug''"

definition file_store_get_dbg_buildid :: "host \<Rightarrow> string list \<Rightarrow> u8 list \<Rightarrow> stop + found_obj option" where
  "file_store_get_dbg_buildid h dbg buildid =
     (if length buildid < 2 then Inl (Exit (- 1)) else opened_in (search_in h dbg (buildid_path buildid)))"

definition kmods_store_get ::
    "host \<Rightarrow> string list \<Rightarrow> string list \<Rightarrow> string \<Rightarrow> (string \<times> string) list \<Rightarrow> string \<Rightarrow> stop + found_obj option" where
  "kmods_store_get h ps dbg version moddep m =
     (if m = ''kernel'' then opened_in (search_in h dbg (path_join (modules_dir version) ''vmlinux''))
      else case map_of moddep m of
        None \<Rightarrow> Inr None
      | Some mod_path \<Rightarrow> opened_in (search_in h ps (path_join (modules_dir version) mod_path)))"

definition kmods_store_get_dbg ::
    "host \<Rightarrow> string list \<Rightarrow> string \<Rightarrow> (string \<times> string) list \<Rightarrow> string \<Rightarrow> stop + found_obj option" where
  "kmods_store_get_dbg h dbg version moddep m =
     (if m = ''kernel'' then opened_in (search_in h dbg (path_join (modules_dir version) ''vmlinux''))
      else case map_of moddep m of
        None \<Rightarrow> Inr None
      | Some mod_path \<Rightarrow> opened_in (search_in h dbg (path_join (modules_dir version) (mod_path @ ''.debug''))))"

text \<open>The virtual methods; what a class does not override is inherited.\<close>

fun store_get :: "host \<Rightarrow> objstore \<Rightarrow> string \<Rightarrow> stop + found_obj option" where
  "store_get h (Single_store name) filename = Inr (single_store_get name filename)"
| "store_get h (File_store ps dbg) filename = file_store_get h ps filename"
| "store_get h (Kmods_store ps dbg version moddep) m = kmods_store_get h ps dbg version moddep m"

fun store_get_dbg :: "host \<Rightarrow> objstore \<Rightarrow> string \<Rightarrow> stop + found_obj option" where
  "store_get_dbg h (Single_store name) filename = Inr None"
| "store_get_dbg h (File_store ps dbg) filename = file_store_get_dbg h ps dbg filename"
| "store_get_dbg h (Kmods_store ps dbg version moddep) m = kmods_store_get_dbg h dbg version moddep m"

fun store_get_dbg_buildid :: "host \<Rightarrow> objstore \<Rightarrow> u8 list \<Rightarrow> stop + found_obj option" where
  "store_get_dbg_buildid h (Single_store name) buildid = Inr None"
| "store_get_dbg_buildid h (File_store ps dbg) buildid = file_store_get_dbg_buildid h dbg buildid"
| "store_get_dbg_buildid h (Kmods_store ps dbg version moddep) buildid = file_store_get_dbg_buildid h dbg buildid"

section \<open>Properties\<close>

lemma strchr_first [simp]: "c \<notin> set a \<Longrightarrow> strchr c (a @ c # b) = Some (a, b)"
  by (simp add: strchr_cut)

lemma strrchr_last [simp]: "c \<notin> set b \<Longrightarrow> strrchr c (a @ c # b) = Some (a, b)"
  by (simp add: strrchr_cut)

lemma file_lines_join:
  "\<forall>l \<in> set ls. CHR 0x0A \<notin> set l \<Longrightarrow> file_lines (concat (map (\<lambda>l. l @ [CHR 0x0A]) ls)) = ls"
proof (induction ls)
  case (Cons l ls)
  then show ?case by (subst file_lines.simps) simp
qed (simp add: file_lines.simps)

text \<open>A list of directories as it is given in an option.\<close>

fun dir_list :: "string list \<Rightarrow> string" where
  "dir_list [] = []"
| "dir_list [d] = d"
| "dir_list (d # ds) = d @ '':'' @ dir_list ds"

lemma split_dirs_list:
  "\<forall>d \<in> set ds. CHR '':'' \<notin> set d \<Longrightarrow> split_dirs (dir_list ds) = filter (\<lambda>d. d \<noteq> []) ds"
proof (induction ds rule: dir_list.induct)
  case 1
  show ?case by (simp add: split_dirs.simps)
next
  case (2 d)
  then show ?case by (simp add: split_dirs.simps)
next
  case (3 d e ds)
  then show ?case by (subst split_dirs.simps) simp
qed

text \<open>The file is the one of the first directory that has it.\<close>

lemma search_dirs_first:
  "search_dirs h dirs name = Inr (Some (path, obj)) \<longleftrightarrow>
   (\<exists>before d after. dirs = before @ d # after \<and> path = path_join d name \<and> h_exists h path \<and> h_obj h path = Inr obj \<and>
     (\<forall>e \<in> set before. \<not> h_exists h (path_join e name)))"
proof (induction dirs)
  case (Cons c dirs)
  show ?case
  proof (cases "h_exists h (path_join c name)")
    case True
    show ?thesis
    proof
      assume "search_dirs h (c # dirs) name = Inr (Some (path, obj))"
      with True have "path = path_join c name" "h_obj h path = Inr obj" by (auto simp: Let_def)
      with True show "\<exists>before d after. c # dirs = before @ d # after \<and> path = path_join d name \<and> h_exists h path \<and>
          h_obj h path = Inr obj \<and> (\<forall>e \<in> set before. \<not> h_exists h (path_join e name))"
        by (intro exI [of _ "[]"] exI [of _ c] exI [of _ dirs]) simp
    qed (use True in \<open>auto simp: Let_def Cons_eq_append_conv\<close>)
  next
    case False
    have "(\<exists>before d after. c # dirs = before @ d # after \<and> path = path_join d name \<and> h_exists h path \<and> h_obj h path = Inr obj \<and>
        (\<forall>e \<in> set before. \<not> h_exists h (path_join e name))) \<longleftrightarrow>
      (\<exists>before d after. dirs = before @ d # after \<and> path = path_join d name \<and> h_exists h path \<and> h_obj h path = Inr obj \<and>
        (\<forall>e \<in> set before. \<not> h_exists h (path_join e name)))" (is "?L \<longleftrightarrow> ?R")
    proof
      assume ?L
      then obtain before d after where
        l: "c # dirs = before @ d # after" "path = path_join d name" "h_exists h path" "h_obj h path = Inr obj"
          "\<forall>e \<in> set before. \<not> h_exists h (path_join e name)" by blast
      with False obtain b where "before = c # b" by (cases before) auto
      with l show ?R by (intro exI [of _ b] exI [of _ d] exI [of _ after]) simp
    next
      assume ?R
      then obtain before d after where
        l: "dirs = before @ d # after" "path = path_join d name" "h_exists h path" "h_obj h path = Inr obj"
          "\<forall>e \<in> set before. \<not> h_exists h (path_join e name)" by blast
      with False show ?L by (intro exI [of _ "c # before"] exI [of _ d] exI [of _ after]) simp
    qed
    with False Cons show ?thesis by (simp add: Let_def)
  qed
qed simp

lemma search_dirs_none:
  "search_dirs h dirs name = Inr None \<longleftrightarrow> (\<forall>d \<in> set dirs. \<not> h_exists h (path_join d name))"
  by (induction dirs) (auto simp: Let_def)

text \<open>An entry of \<^verbatim>\<open>modules.dep\<close>: directory, name, the suffix of a compressed file, and the modules it depends on.\<close>

type_synonym mod_entry = "string \<times> string \<times> string \<times> string"

definition mod_line :: "mod_entry \<Rightarrow> string" where
  "mod_line x = (case x of (dir, base, z, deps) \<Rightarrow> dir @ base @ ''.ko'' @ z @ '':'' @ deps)"

definition mod_entry_ok :: "mod_entry \<Rightarrow> bool" where
  "mod_entry_ok x \<longleftrightarrow> (case x of (dir, base, z, deps) \<Rightarrow>
     set base \<inter> set ''/.:'' = {} \<and> set z \<inter> set ''/:'' = {} \<and> CHR '':'' \<notin> set dir \<and> (dir = [] \<or> last dir = CHR ''/'') \<and>
     CHR 0x0A \<notin> set (mod_line x))"

lemma moddep_line_entry:
  assumes "mod_entry_ok (dir, base, z, deps)"
  shows "moddep_line (mod_line (dir, base, z, deps)) = Inr (base, dir @ base @ ''.ko'')"
proof -
  let ?n = "base @ ''.ko'' @ z"
  note ok = assms [unfolded mod_entry_ok_def split_conv]
  have colon: "strchr (CHR '':'') ((dir @ ?n) @ CHR '':'' # deps) = Some (dir @ ?n, deps)"
    using ok by (intro strchr_first) auto
  have name: "base_name (dir @ ?n) = (dir, ?n)"
  proof (cases dir rule: rev_cases)
    case Nil
    with ok have "strrchr (CHR ''/'') (dir @ ?n) = None" by auto
    with Nil show ?thesis by (simp add: base_name_def)
  next
    case (snoc d c)
    have "strrchr (CHR ''/'') (d @ CHR ''/'' # ?n) = Some (d, ?n)" using ok by (intro strrchr_last) auto
    with snoc ok show ?thesis by (simp add: base_name_def)
  qed
  have dot: "strchr (CHR ''.'') (base @ CHR ''.'' # ''ko'' @ z) = Some (base, ''ko'' @ z)"
    using ok by (intro strchr_first) auto
  show ?thesis
    using colon name dot by (simp add: moddep_line_def mod_line_def)
qed

lemma moddep_lines_entries:
  "\<forall>x \<in> set es. mod_entry_ok x \<Longrightarrow> distinct (map fst m @ map (\<lambda>(dir, base, z, deps). base) es) \<Longrightarrow>
   moddep_lines (map mod_line es) m = Inr (m @ map (\<lambda>(dir, base, z, deps). (base, dir @ base @ ''.ko'')) es)"
proof (induction es arbitrary: m)
  case (Cons x es)
  obtain dir base z deps where x: "x = (dir, base, z, deps)" by (metis prod_cases4)
  with Cons.prems have "map_of m base = None" by (auto simp: map_of_eq_None_iff)
  with Cons.prems Cons.IH [of "m @ [(base, dir @ base @ ''.ko'')]"] show ?case
    by (auto simp: x moddep_line_entry)
qed simp

text \<open>
  The list of the modules is read back. From a file \<^verbatim>\<open>modules.dep\<close> with one line per module - the path of its
  file, which may have the suffix of a compressed one, a colon and the modules it depends on - the parser
  returns for every module its path without that suffix.
\<close>

theorem moddep_roundtrip:
  assumes "\<forall>x \<in> set es. mod_entry_ok x" and "distinct (map (\<lambda>(dir, base, z, deps). base) es)"
  shows "parse_moddep (Some (concat (map (\<lambda>x. mod_line x @ [CHR 0x0A]) es))) =
    Inr (map (\<lambda>(dir, base, z, deps). (base, dir @ base @ ''.ko'')) es)"
proof -
  have "file_lines (concat (map (\<lambda>l. l @ [CHR 0x0A]) (map mod_line es))) = map mod_line es"
    using assms(1) by (intro file_lines_join) (auto simp: mod_entry_ok_def)
  then have "file_lines (concat (map (\<lambda>x. mod_line x @ [CHR 0x0A]) es)) = map mod_line es" by (simp add: comp_def)
  then show ?thesis
    using moddep_lines_entries [of es "[]"] assms by (simp add: parse_moddep_def)
qed

lemma moddep_roundtrip_witness:
  "parse_moddep (Some (''kernel/net/tls.ko:'' @ [CHR 0x0A] @ ''extra/snd-pcm.ko.xz: kernel/snd.ko'' @ [CHR 0x0A])) =
     Inr [(''tls'', ''kernel/net/tls.ko''), (''snd-pcm'', ''extra/snd-pcm.ko'')]"
  using moddep_roundtrip [of "[(''kernel/net/'', ''tls'', '''', ''''), (''extra/'', ''snd-pcm'', ''.xz'', '' kernel/snd.ko'')]"]
  by (simp add: mod_entry_ok_def mod_line_def)

text \<open>
  The names of the modules are those of their files. The kernel reports a module with its hyphens replaced by
  underscores, and such a name is not found in the list.
\<close>

lemma hyphen_not_found:
  "store_get h (Kmods_store ps dbg version [(''snd-pcm'', ''kernel/sound/snd-pcm.ko'')]) ''snd_pcm'' = Inr None"
  by (simp add: kmods_store_get_def)

text \<open>The debug file of a binary is searched as a file with the name \<^verbatim>\<open>.debug\<close> in a directory with the name of the binary.\<close>

lemma debug_below_binary:
  "store_get_dbg h (File_store [] [''/usr/lib/debug'']) ''/usr/bin/ls'' =
   opened_in (search_dirs h [''/usr/lib/debug''] ''usr/bin/ls/.debug'')"
  by (simp add: file_store_get_dbg_def search_in_def)

end
