(* ===== verification/LinuxCore.thy ===== *)
theory LinuxCore
  imports LinuxFiles OrdMap
begin

text \<open>
  Core files of \<^verbatim>\<open>util/linux.cpp\<close>: the dump of a process, with the files mapped into it, and the memory of the
  running kernel, with its symbols and modules. Symbol tables are read by \<^verbatim>\<open>sym_iterate_kallsyms\<close> of \<^verbatim>\<open>util/sym.cpp\<close>.
\<close>

section \<open>The files mapped into a process\<close>

record linux_file_backing =
  fb_start :: u64
  fb_size :: u64
  fb_offset :: u64
  fb_filename :: string

text \<open>Little-endian numbers.\<close>

fun le_val :: "u8 list \<Rightarrow> nat" where
  "le_val [] = 0"
| "le_val (b # bs) = unat b + 256 * le_val bs"

text \<open>
  A member of \<^verbatim>\<open>linux_ucore_mapping\<close>, a number of \<open>w\<close> bytes; behind the end of the data it is undefined.
\<close>

definition ucore_word :: "nat \<Rightarrow> u8 list \<Rightarrow> nat \<Rightarrow> stop + nat" where
  "ucore_word w d off = (if off + w \<le> length d then Inr (le_val (take w (drop off d))) else Inl Crash)"

definition file_backing :: "nat \<Rightarrow> nat \<Rightarrow> nat \<Rightarrow> nat \<Rightarrow> nat \<Rightarrow> u8 list \<Rightarrow> linux_file_backing" where
  "file_backing w page start fin ofs name =
     \<lparr>fb_start = of_nat start, fb_size = of_nat ((fin + 256 ^ w - start) mod 256 ^ w),
      fb_offset = of_nat (ofs * page mod 256 ^ w), fb_filename = map (\<lambda>b. char_of (unat b)) name\<rparr>"

text \<open>The loop at file \<open>i\<close>, whose name is at \<open>names\<close>. The arithmetic is that of the type with \<open>w\<close> bytes.\<close>

function ucore_files :: "nat \<Rightarrow> u8 list \<Rightarrow> nat \<Rightarrow> nat \<Rightarrow> nat \<Rightarrow> nat \<Rightarrow> (u64, linux_file_backing) omap \<Rightarrow>
    stop + (u64, linux_file_backing) omap" where
  "ucore_files w d count page i names m =
     (if count \<le> i then Inr m
      else
        bindR (ucore_word w d (2 * w + 3 * w * i)) (\<lambda>start.
        bindR (ucore_word w d (2 * w + 3 * w * i + w)) (\<lambda>fin.
        bindR (ucore_word w d (2 * w + 3 * w * i + 2 * w)) (\<lambda>ofs.
        if om_find (of_nat start) m \<noteq> None then Inl (Exit (- 1))
        else if length d < names then Inl Crash
        else
          let name = takeWhile (\<lambda>b. b \<noteq> 0) (drop names d) in
          if names + length name = length d then Inl (Exit 1)
          else ucore_files w d count page (i + 1) (names + length name + 1)
                 (om_insert (of_nat start) (file_backing w page start fin ofs name) m)))))"
  by pat_completeness auto
termination
  by (relation "measure (\<lambda>(w, d, count, page, i, names, m). count - i)") auto

declare ucore_files.simps [simp del]

text \<open>The sizes are computed with 64 bits.\<close>

definition parse_ucore_metadata :: "nat \<Rightarrow> u8 list \<Rightarrow> stop + (u64, linux_file_backing) omap" where
  "parse_ucore_metadata w d =
     (if length d < 2 * w then Inl (Exit (- 1))
      else
        let count = le_val (take w d); page = le_val (take w (drop w d)) in
        if length d < (2 * w + 3 * w * count) mod 2 ^ 64 then Inl (Exit (- 1))
        else ucore_files w d count page 0 (2 * w + 3 * w * count) [])"

datatype march = Mach_riscv32 | Mach_riscv64 | Mach_other

text \<open>The constructor; \<open>contents\<close> reads a section.\<close>

definition linux_ucore_new :: "(asection \<Rightarrow> u8 list option) \<Rightarrow> march \<Rightarrow> obj_file \<Rightarrow> stop + (u64, linux_file_backing) omap" where
  "linux_ucore_new contents machine obj =
     (case filter (\<lambda>s. sec_name s = ''.note.linuxcore.file'') (sect_by_name obj) of
        [] \<Rightarrow> Inl (Exit (- 1))
      | sect # _ \<Rightarrow>
          (case contents sect of
             None \<Rightarrow> Inl (Exit (- 1))
           | Some d \<Rightarrow>
               (case machine of
                  Mach_riscv32 \<Rightarrow> parse_ucore_metadata 4 d
                | Mach_riscv64 \<Rightarrow> parse_ucore_metadata 8 d
                | Mach_other \<Rightarrow> Inl (Exit (- 1)))))"

definition get_file_backing :: "(u64, linux_file_backing) omap \<Rightarrow> u64 \<Rightarrow> (string \<times> u64) option" where
  "get_file_backing mmap_backing vma =
     (case om_before vma mmap_backing of
        None \<Rightarrow> None
      | Some (a, f) \<Rightarrow> if vma - a \<ge> fb_size f then None else Some (fb_filename f, vma - a + fb_offset f))"

section \<open>Kernel symbols\<close>

text \<open>\<^verbatim>\<open>strtoull\<close> in base 16, and a line of \<^verbatim>\<open>kallsyms\<close>: address, type, name, and module.\<close>

definition strip_0x :: "string \<Rightarrow> string" where
  "strip_0x s = (if (take 2 s = ''0x'' \<or> take 2 s = ''0X'') \<and> \<not> ends_number 16 (drop 2 s) then drop 2 s else s)"

definition strtoull16 :: "string \<Rightarrow> u64" where
  "strtoull16 s =
     (case scan_number 16 strip_0x s of
        None \<Rightarrow> 0
      | Some (n, rest) \<Rightarrow> if \<bar>n\<bar> \<le> 18446744073709551615 then word_of_int n else - 1)"

type_synonym ksym = "u64 \<times> char \<times> string \<times> string option"

definition kallsyms_line :: "string \<Rightarrow> stop + ksym" where
  "kallsyms_line line =
     (case strchr (CHR '' '') line of
        None \<Rightarrow> Inl (Exit (- 1))
      | Some (addr, type) \<Rightarrow>
          (case strchr (CHR '' '') type of
             None \<Rightarrow> Inl (Exit (- 1))
           | Some (_, name) \<Rightarrow>
               (case strchr (CHR 0x09) name of
                  None \<Rightarrow> Inr (strtoull16 addr, hd type, name, None)
                | Some (n, m) \<Rightarrow> Inr (strtoull16 addr, hd type, n, Some m))))"

text \<open>The callback says whether to go on.\<close>

fun sym_iterate_kallsyms :: "string list \<Rightarrow> (ksym \<Rightarrow> 's \<Rightarrow> bool \<times> 's) \<Rightarrow> 's \<Rightarrow> stop + 's" where
  "sym_iterate_kallsyms [] f s = Inr s"
| "sym_iterate_kallsyms (line # ls) f s =
     bindR (kallsyms_line line) (\<lambda>x. case f x s of (again, s') \<Rightarrow>
       if again then sym_iterate_kallsyms ls f s' else Inr s')"

section \<open>The memory of the kernel\<close>

text \<open>
  \<open>kallsyms\<close> is a multimap in ascending order, in which an entry is inserted behind those with the same key;
  \<open>om_insert\<close> does that, too.
\<close>

record linux_kcore =
  vmlinux_start :: u64
  vmlinux_end :: u64
  bpf_start :: u64
  kaslr_offset :: u64
  kernel_release :: string
  kallsyms :: "(u64 \<times> string \<times> char \<times> string option) list"
  mod_sections :: "(string \<times> (string \<times> u64) list) list"
  mod_buildids :: "(string \<times> u8 list) list"
  sections_map :: "(u64, string \<times> string) omap"
  kc_store :: objstore

definition kcore_symbol :: "ksym \<Rightarrow> linux_kcore \<Rightarrow> bool \<times> linux_kcore" where
  "kcore_symbol x k =
     (case x of (addr, type, name, module) \<Rightarrow>
        let k1 = (if vmlinux_start k = 0 \<and> type = CHR ''T'' \<and> name = ''_start'' then k\<lparr>vmlinux_start := addr\<rparr> else k);
            k2 = (if vmlinux_end k1 = 0 \<and> type = CHR ''B'' \<and> name = ''_end'' then k1\<lparr>vmlinux_end := addr\<rparr> else k1);
            k3 = (if module = Some ''[bpf]'' \<and> (bpf_start k2 = 0 \<or> bpf_start k2 > addr) then k2\<lparr>bpf_start := addr\<rparr> else k2)
        in (True, k3\<lparr>kallsyms := om_insert addr (name, type, module) (kallsyms k3)\<rparr>))"

text \<open>A directory of \<^verbatim>\<open>/sys/module\<close>: the sections with their texts, if there are any, and the build id.\<close>

record module_dir =
  mo_name :: string
  mo_sections :: "(string \<times> string) list option"
  mo_buildid :: "u8 list option"

definition ignored_section :: "string \<Rightarrow> bool" where
  "ignored_section name \<longleftrightarrow>
     starts_with ''.init.'' name \<or> starts_with ''.note.'' name \<or> name \<in> {''.strtab'', ''.symtab''}"

fun kcore_sections :: "string \<Rightarrow> (string \<times> string) list \<Rightarrow> linux_kcore \<Rightarrow> stop + linux_kcore" where
  "kcore_sections m [] k = Inr k"
| "kcore_sections m ((sec, content) # secs) k =
     (if ignored_section sec then kcore_sections m secs k
      else
        let addr = strtoull16 content;
            k1 = k\<lparr>mod_sections := map (\<lambda>(n, ss). (n, if n = m then ss @ [(sec, addr)] else ss)) (mod_sections k)\<rparr>
        in case om_emplace addr (m, sec) (sections_map k1) of
          (inserted, old, sm) \<Rightarrow>
            if inserted then kcore_sections m secs (k1\<lparr>sections_map := sm\<rparr>) else Inl (Exit (- 1)))"

fun kcore_modules :: "module_dir list \<Rightarrow> linux_kcore \<Rightarrow> stop + linux_kcore" where
  "kcore_modules [] k = Inr k"
| "kcore_modules (d # ds) k =
     (let k1 = k\<lparr>mod_sections := mod_sections k @ [(mo_name d, [])]\<rparr> in
      case mo_sections d of
        None \<Rightarrow> kcore_modules ds k1
      | Some secs \<Rightarrow>
          let k2 = (case mo_buildid d of None \<Rightarrow> k1 | Some b \<Rightarrow> k1\<lparr>mod_buildids := mod_buildids k1 @ [(mo_name d, b)]\<rparr>)
          in bindR (kcore_sections (mo_name d) secs k2) (kcore_modules ds))"

text \<open>The difference between the address of the kernel and that in its file.\<close>

definition kcore_kaslr :: "host \<Rightarrow> linux_kcore \<Rightarrow> stop + linux_kcore" where
  "kcore_kaslr h k =
     bindR (store_get h (kc_store k) ''kernel'') (\<lambda>vmlinux. case vmlinux of
       Some (Opened path obj) \<Rightarrow>
         (case filter (\<lambda>s. sec_name s = ''.head.text'') (sect_by_name obj) of
            [] \<Rightarrow> Inr k
          | sect # _ \<Rightarrow> Inr (k\<lparr>kaslr_offset := vmlinux_start k - sec_vma sect\<rparr>))
     | _ \<Rightarrow> Inr k)"

text \<open>
  The constructor, after that of the core file. \<open>sysfs\<close> are the directories of the modules; if they cannot be listed, an
  exception is thrown that nothing catches.
\<close>

definition linux_kcore_new ::
    "host \<Rightarrow> string \<Rightarrow> module_dir list option \<Rightarrow> string list \<Rightarrow> string list \<Rightarrow> stop + linux_kcore" where
  "linux_kcore_new h procfs sysfs sysroot_dirs dbg_dirs =
     (case h_text h (procfs @ ''/kallsyms'') of
        None \<Rightarrow> Inl (Exit (- 1))
      | Some syms \<Rightarrow>
          let k0 = \<lparr>vmlinux_start = 0, vmlinux_end = 0, bpf_start = 0, kaslr_offset = 0, kernel_release = [], kallsyms = [],
                    mod_sections = [], mod_buildids = [], sections_map = [], kc_store = Single_store []\<rparr>
          in bindR (sym_iterate_kallsyms (file_lines syms) kcore_symbol k0) (\<lambda>k.
             if vmlinux_start k = 0 \<or> vmlinux_end k = 0 then Inl (Exit (- 1))
             else
               bindR (parse_kernel_ver (case h_text h (procfs @ ''/version'') of None \<Rightarrow> [] | Some v \<Rightarrow> v)) (\<lambda>(version, release).
               bindR (kmods_store_new h sysroot_dirs dbg_dirs version) (\<lambda>store.
               bindR (kcore_kaslr h (k\<lparr>kernel_release := release, kc_store := store\<rparr>)) (\<lambda>k1.
               case sysfs of None \<Rightarrow> Inl Crash | Some ds \<Rightarrow> kcore_modules ds k1)))))"

text \<open>File, section and address in it.\<close>

definition kcore_get_file_vma :: "linux_kcore \<Rightarrow> u64 \<Rightarrow> (string \<times> string option \<times> u64) option" where
  "kcore_get_file_vma k vma =
     (if vma \<ge> vmlinux_start k \<and> vma < vmlinux_end k then Some (''kernel'', None, vma - kaslr_offset k)
      else
        let mod_start = vmlinux_start k - 0x80000000 in
        if vma < mod_start \<or> vma \<ge> vmlinux_end k then None
        else if bpf_start k \<noteq> 0 \<and> vma \<ge> bpf_start k then None
        else case om_before vma (sections_map k) of
          None \<Rightarrow> None
        | Some (a, (m, sec)) \<Rightarrow> Some (m, Some sec, vma - a))"

definition isupper :: "char \<Rightarrow> bool" where
  "isupper c \<longleftrightarrow> (65 :: int) \<le> of_char c \<and> of_char c \<le> (90 :: int)"

definition compare_sym_type :: "char \<Rightarrow> char \<Rightarrow> int" where
  "compare_sym_type l r = of_bool (isupper l) - of_bool (isupper r)"

text \<open>
  The loop of \<^verbatim>\<open>get_label\<close>, backwards over the entries in front of \<^verbatim>\<open>upper_bound\<close>; each with its position, which stands for
  the address of its name.
\<close>

type_synonym label_entry = "nat \<times> u64 \<times> string \<times> char \<times> string option"

fun label_back :: "label_entry list \<Rightarrow> label_entry option \<Rightarrow> label_entry option" where
  "label_back [] best = best"
| "label_back (e # es) None = label_back es (Some e)"
| "label_back (e # es) (Some l) =
     (case (e, l) of ((i, a, n, type, m), (j, b, n', type', m')) \<Rightarrow>
        if a < b then Some l
        else if compare_sym_type type type' > 0 then label_back es (Some e)
        else label_back es (Some l))"

definition get_label :: "linux_kcore \<Rightarrow> u64 \<Rightarrow> label_entry option" where
  "get_label k vma = label_back (rev (takeWhile (\<lambda>(i, a, e). a \<le> vma) (enumerate 0 (kallsyms k)))) None"

end
