(* ===== verification/SymTool.thy ===== *)
theory SymTool
  imports LinuxCore
begin

text \<open>
  Symbols for addresses: the symbol server of \<^verbatim>\<open>util/sym.cpp\<close>, which asks \<^verbatim>\<open>addr2line\<close>, and the queries of
  \<^verbatim>\<open>util/vm.cpp\<close>, which find the binary and the debug information that belong to an address.
\<close>

section \<open>Core files\<close>

text \<open>The subclasses of \<^verbatim>\<open>core_file\<close>: an ELF file (with its name), the dump of a process, and the memory of the kernel.\<close>

datatype core_kind =
    Elf_core string
  | User_core "(u64, linux_file_backing) omap" objstore
  | Kernel_core linux_kcore

fun core_file_backing :: "core_kind \<Rightarrow> u64 \<Rightarrow> (string \<times> u64) option" where
  "core_file_backing (User_core mmap_backing store) vma = get_file_backing mmap_backing vma"
| "core_file_backing _ vma = None"

fun core_file_vma :: "core_kind \<Rightarrow> u64 \<Rightarrow> (string \<times> string option \<times> u64) option" where
  "core_file_vma (Elf_core name) vma = Some (name, None, vma)"
| "core_file_vma (Kernel_core k) vma = kcore_get_file_vma k vma"
| "core_file_vma _ vma = None"

fun core_label :: "core_kind \<Rightarrow> u64 \<Rightarrow> label_entry option" where
  "core_label (Kernel_core k) vma = get_label k vma"
| "core_label _ vma = None"

fun core_store :: "core_kind \<Rightarrow> objstore" where
  "core_store (Elf_core name) = Single_store name"
| "core_store (User_core mmap_backing store) = store"
| "core_store (Kernel_core k) = kc_store k"

section \<open>State\<close>

text \<open>
  An object file is a loaded core file or one that a store has opened. A name of a function is compared by its address: that of a
  string in the set of a symbol server, or that of a symbol in the table of a core.
\<close>

datatype objref = Core_obj nat | Opened_obj nat

datatype fptr = Sym_func objref string string | Label_func nat nat

record sym_answer =
  an_func :: string
  an_filename :: "string option"
  an_lineno :: u64
  an_note :: "string option"

text \<open>\<open>sy_cache\<close> has the binary and the debug information of a file of a core, \<open>sy_servers\<close> the answers each server has cached.\<close>

record sym_state =
  sy_kinds :: "core_kind list"
  sy_objs :: "(string \<times> obj_file) list"
  sy_cache :: "((nat \<times> string) \<times> objref option \<times> objref option) list"
  sy_servers :: "((objref \<times> string) \<times> (u64 \<times> sym_answer) list) list"

text \<open>
  The system; the contents of a section of a file; the variable \<^verbatim>\<open>ADDR2LINE\<close> of the environment and the name that the
  build sets; and the program started with a command line: the two lines it answers for a line with an address, or \<open>None\<close>
  if it does not. That the process starts is taken for granted.
\<close>

record sym_env =
  se_host :: host
  se_contents :: "string \<Rightarrow> asection \<Rightarrow> u8 list option"
  se_getenv :: "string option"
  se_default :: string
  se_addr2line :: "string list \<Rightarrow> string \<Rightarrow> (string \<times> string) option"

type_synonym 'a sy = "(sym_state, 'a) tool"

section \<open>The symbol server\<close>

definition exe_addr2line :: "sym_env \<Rightarrow> string" where
  "exe_addr2line E = (case se_getenv E of Some env \<Rightarrow> env | None \<Rightarrow> se_default E)"

text \<open>The command line of the process that the constructor starts, and the line with which it is asked.\<close>

definition addr2line_args :: "sym_env \<Rightarrow> string \<Rightarrow> string option \<Rightarrow> string list" where
  "addr2line_args E filename section_name =
     [exe_addr2line E, ''-f'', ''-e'', filename] @ (case section_name of None \<Rightarrow> [] | Some s \<Rightarrow> [''-j'', s])"

definition addr_line :: "u64 \<Rightarrow> string" where
  "addr_line addr = ''0x'' @ show_base 16 (uint addr) @ [CHR 0x0A]"

text \<open>
  The answer of two lines, which end with a line break: function; file, line number and note. Without the line break the
  text behind the number can be empty, which is undefined.
\<close>

definition parse_answer :: "string \<Rightarrow> string \<Rightarrow> stop + sym_answer" where
  "parse_answer line1 line2 =
     (case strrchr (CHR '':'') line2 of
        None \<Rightarrow> Inr \<lparr>an_func = butlast line1, an_filename = None, an_lineno = 0, an_note = None\<rparr>
      | Some (name, num) \<Rightarrow>
          (case strtoul10 num of (n, rest) \<Rightarrow>
             if rest = [] then Inl Crash
             else Inr \<lparr>an_func = butlast line1, an_filename = Some name, an_lineno = n,
                       an_note = (if length rest = 1 then None else Some (butlast rest))\<rparr>))"

definition server_query :: "sym_env \<Rightarrow> objref \<Rightarrow> string \<Rightarrow> string option \<Rightarrow> u64 \<Rightarrow> sym_answer sy" where
  "server_query E obj filename section_name addr =
     (let key = (obj, case section_name of None \<Rightarrow> [] | Some s \<Rightarrow> s) in
      bindS (readS (\<lambda>s. case map_of (sy_servers s) key of None \<Rightarrow> [] | Some cached \<Rightarrow> cached)) (\<lambda>cached.
      case map_of cached addr of
        Some a \<Rightarrow> retS a
      | None \<Rightarrow>
          (case se_addr2line E (addr2line_args E filename section_name) (addr_line addr) of
             None \<Rightarrow> throwS (Exit (- 1))
           | Some (line1, line2) \<Rightarrow>
               bindS (liftS (parse_answer line1 line2)) (\<lambda>a.
               thenS (modS (\<lambda>s. s\<lparr>sy_servers := (key, (addr, a) # cached) # sy_servers s\<rparr>)) (retS a)))))"

section \<open>Finding the symbol of an address\<close>

definition obj_at :: "memory_view \<Rightarrow> sym_state \<Rightarrow> objref \<Rightarrow> string \<times> obj_file" where
  "obj_at v s r =
     (case r of
        Core_obj c \<Rightarrow> (case sy_kinds s ! c of Elf_core name \<Rightarrow> name | _ \<Rightarrow> [], cores v ! c)
      | Opened_obj i \<Rightarrow> sy_objs s ! i)"

text \<open>What a store has found becomes an object.\<close>

definition new_obj :: "nat \<Rightarrow> stop + found_obj option \<Rightarrow> objref option sy" where
  "new_obj c r =
     bindS (liftS r) (\<lambda>x. case x of
       None \<Rightarrow> retS None
     | Some Itself \<Rightarrow> retS (Some (Core_obj c))
     | Some (Opened path obj) \<Rightarrow>
         bindS (readS (\<lambda>s. length (sy_objs s))) (\<lambda>i.
         thenS (modS (\<lambda>s. s\<lparr>sy_objs := sy_objs s @ [(path, obj)]\<rparr>)) (retS (Some (Opened_obj i)))))"

definition build_id_of :: "sym_env \<Rightarrow> memory_view \<Rightarrow> objref \<Rightarrow> (u8 list option) sy" where
  "build_id_of E v r =
     bindS (readS (\<lambda>s. obj_at v s r)) (\<lambda>(path, obj). liftS (get_build_id (se_contents E path) obj))"

definition find_files :: "sym_env \<Rightarrow> memory_view \<Rightarrow> nat \<Rightarrow> string \<Rightarrow> (objref option \<times> objref option) sy" where
  "find_files E v c filename =
     bindS (readS (\<lambda>s. map_of (sy_cache s) (c, filename))) (\<lambda>found. case found of
       Some x \<Rightarrow> retS x
     | None \<Rightarrow>
         bindS (readS (\<lambda>s. core_store (sy_kinds s ! c))) (\<lambda>store.
         bindS (new_obj c (store_get (se_host E) store filename)) (\<lambda>bin.
         bindS
           (case bin of
              None \<Rightarrow> retS None
            | Some b \<Rightarrow>
                bindS (build_id_of E v b) (\<lambda>buildid. case buildid of
                  None \<Rightarrow> retS None
                | Some bid \<Rightarrow> new_obj c (store_get_dbg_buildid (se_host E) store bid)))
           (\<lambda>dbg1.
         bindS (if dbg1 = None then new_obj c (store_get_dbg (se_host E) store filename) else retS dbg1) (\<lambda>dbg.
         thenS (modS (\<lambda>s. s\<lparr>sy_cache := ((c, filename), (bin, dbg)) # sy_cache s\<rparr>)) (retS (bin, dbg)))))))"

text \<open>The core whose section contains an address.\<close>

definition core_at :: "memory_view \<Rightarrow> u64 \<Rightarrow> nat option" where
  "core_at v vma =
     (case om_before vma (loaded_sections v) of
        None \<Rightarrow> None
      | Some (a, ls) \<Rightarrow> if vma - a \<ge> sec_size (ls_sect ls) then None else Some (ls_core ls))"

text \<open>Object, section and address in it.\<close>

definition query_sym :: "sym_env \<Rightarrow> memory_view \<Rightarrow> u64 \<Rightarrow> (objref \<times> string option \<times> u64) option sy" where
  "query_sym E v vma =
     (case core_at v vma of
        None \<Rightarrow> retS None
      | Some c \<Rightarrow>
          bindS (readS (\<lambda>s. sy_kinds s ! c)) (\<lambda>core.
          let backing = core_file_backing core vma; file_vma = core_file_vma core vma in
          case (case backing of Some (fn1, off) \<Rightarrow> Some fn1 | None \<Rightarrow> map_option fst file_vma) of
            None \<Rightarrow> retS None
          | Some filename \<Rightarrow>
              bindS (find_files E v c filename) (\<lambda>(bin, dbg).
              let obj = (if dbg = None then bin else dbg) in
              case backing of
                Some (fn1, fileoff) \<Rightarrow>
                  (case (bin, obj) of
                     (Some b, Some ob) \<Rightarrow> bindS (readS (\<lambda>s. obj_at v s b)) (\<lambda>(path, file).
                       retS (Some (ob, None, fileoff_to_va fileoff file)))
                   | _ \<Rightarrow> retS None)
              | None \<Rightarrow>
                  (case (obj, file_vma) of
                     (Some ob, Some (fn2, filesection, sectionvma)) \<Rightarrow> retS (Some (ob, filesection, sectionvma))
                   | _ \<Rightarrow> retS None))))"

definition query_label :: "memory_view \<Rightarrow> u64 \<Rightarrow> (nat \<times> label_entry) option sy" where
  "query_label v vma =
     (case core_at v vma of
        None \<Rightarrow> retS None
      | Some c \<Rightarrow> readS (\<lambda>s. map_option (\<lambda>e. (c, e)) (core_label (sy_kinds s ! c) vma)))"

end
