(* ===== verification/ReplayTool.thy ===== *)
theory ReplayTool
  imports ObjProps InstRetire InstFetch Logger SymTool
begin

text \<open>
  The replay utility of \<^verbatim>\<open>util/replay.cpp\<close>: it drives the trace decoder, follows the instructions in the memory
  image where there is one, and logs what it sees.
\<close>

section \<open>State\<close>

text \<open>
  The locals of the function with the trace decoder (which holds the message decoder), the logger with the
  text written so far, the memory, and the globals: the cache of instruction blocks and the symbol servers. \<open>rp_last_func\<close>
  is the name of the function printed last. \<open>rp_warnings\<close> counts the warnings on the standard error.
\<close>

record replay_state =
  rp_td :: nexusrv_trace_decoder
  rp_tnt_time :: u64
  rp_last_time :: u64
  rp_lastip :: "u64 option"
  rp_log :: logger
  rp_addr_printed :: nat
  rp_inst_printed :: nat
  rp_insts :: "(u64 \<times> rv_inst_block option) list"
  rp_vm :: memory_view
  rp_sym :: sym_state
  rp_last_func :: "fptr option"
  rp_warnings :: nat

text \<open>
  What is not in the code: the disassembler with the structure it allocates, \<^verbatim>\<open>bfd_mmap\<close> and the size of a page, the files
  and \<^verbatim>\<open>addr2line\<close>, and the uninitialised memory in the \<open>i\<close>-th iteration.
\<close>

record replay_env =
  rv_cs :: disassembler
  rv_blank :: cs_insn
  rv_mmap :: "nat \<Rightarrow> u64 \<Rightarrow> u64 \<Rightarrow> u8 list option"
  rv_pagesz :: u64
  rv_sym :: sym_env
  rv_call :: "nat \<Rightarrow> retire_env"
  rv_msg :: "nat \<Rightarrow> nexusrv_msg"

type_synonym 'a rp = "(replay_state, 'a) tool"

section \<open>Calls and output\<close>

text \<open>A call of the trace decoder: the error code or the result. A failed assertion ends the process.\<close>

definition call_td :: "'a td \<Rightarrow> (nexus_error + 'a) rp" where
  "call_td m = (\<lambda>s. case m (rp_td s) of
     (Inr x, d) \<Rightarrow> (Inr (Inr x), s\<lparr>rp_td := d\<rparr>)
   | (Inl (Code e), d) \<Rightarrow> (Inr (Inl e), s\<lparr>rp_td := d\<rparr>)
   | (Inl _, d) \<Rightarrow> (Inl Crash, s\<lparr>rp_td := d\<rparr>))"

definition log_newline :: "unit rp" where "log_newline = modS (\<lambda>s. s\<lparr>rp_log := logger_newline (rp_log s)\<rparr>)"
definition log_flush :: "unit rp" where "log_flush = modS (\<lambda>s. s\<lparr>rp_log := logger_flush (rp_log s)\<rparr>)"
definition log_print :: "string \<Rightarrow> unit rp" where "log_print str = modS (\<lambda>s. s\<lparr>rp_log := logger_print str (rp_log s)\<rparr>)"

definition replay_time :: "replay_state \<Rightarrow> u64" where "replay_time s = nexusrv_trace_time (rp_td s)"

text \<open>\<^verbatim>\<open>FMT_TIME_OFFSET\<close>, and hexadecimal addresses.\<close>

definition time_offset :: "replay_state \<Rightarrow> string" where
  "time_offset s = ''['' @ show_base 10 (uint (replay_time s)) @ ''] +'' @
     show_base 10 (int (nexusrv_msg_decoder_offset (td_msg_decoder (rp_td s)))) @ '' ''"

definition hex_addr :: "u64 \<Rightarrow> string" where "hex_addr a = ''0x'' @ show_base 16 (uint a)"

text \<open>A new line with the time, the offset and the text.\<close>

definition log_line :: "string \<Rightarrow> unit rp" where
  "log_line str = thenS log_newline (bindS (readS time_offset) (\<lambda>t. log_print (t @ str)))"

text \<open>A query of the memory, which opens files and caches them.\<close>

definition ask :: "(memory_view \<Rightarrow> 'a sy) \<Rightarrow> 'a rp" where
  "ask q = (\<lambda>s. case q (rp_vm s) (rp_sym s) of (r, y) \<Rightarrow> (r, s\<lparr>rp_sym := y\<rparr>))"

definition set_last_func :: "fptr \<Rightarrow> unit rp" where
  "set_last_func f = modS (\<lambda>s. s\<lparr>rp_last_func := Some f\<rparr>)"

text \<open>\<^verbatim>\<open>%*s\<close> with the length of a name and an empty string.\<close>

definition pad_name :: "string \<Rightarrow> string" where
  "pad_name name = '' '' @ replicate (length name) (CHR '' '')"

definition print_label :: "u64 \<Rightarrow> unit rp" where
  "print_label addr =
     bindS (ask (\<lambda>v. query_label v addr)) (\<lambda>r. case r of
       None \<Rightarrow> retS ()
     | Some (c, (i, a, func, type, module)) \<Rightarrow>
         bindS (readS rp_last_func) (\<lambda>last.
         thenS
           (if last \<noteq> Some (Label_func c i) then log_print ('' '' @ func)
            else whenS (module \<noteq> None) (log_print (pad_name func)))
        (thenS (set_last_func (Label_func c i))
           (case module of None \<Rightarrow> retS () | Some m \<Rightarrow> log_print (''; '' @ m)))))"

text \<open>The name of a file without its directories.\<close>

definition short_name :: "string \<Rightarrow> string" where
  "short_name filename = (case strrchr (CHR ''/'') filename of None \<Rightarrow> filename | Some (dir, name) \<Rightarrow> name)"

definition print_answer :: "fptr \<Rightarrow> sym_answer \<Rightarrow> unit rp" where
  "print_answer func a =
     bindS (readS rp_last_func) (\<lambda>last.
     thenS
       (if last \<noteq> Some func then log_print ('' '' @ an_func a)
        else whenS (an_filename a \<noteq> None) (log_print (pad_name (an_func a))))
    (thenS (set_last_func func)
       (case an_filename a of
          None \<Rightarrow> retS ()
        | Some filename \<Rightarrow>
            log_print (''; '' @ short_name filename @ '':'' @ show_base 10 (uint (an_lineno a)) @
              (case an_note a of None \<Rightarrow> [] | Some note \<Rightarrow> note)))))"

definition print_sym :: "replay_env \<Rightarrow> u64 \<Rightarrow> unit rp" where
  "print_sym E addr =
     bindS (ask (\<lambda>v. query_sym (rv_sym E) v addr)) (\<lambda>r. case r of
       None \<Rightarrow> print_label addr
     | Some (obj, sect, vma) \<Rightarrow>
         bindS (readS (\<lambda>s. fst (obj_at (rp_vm s) (rp_sym s) obj))) (\<lambda>filename.
         bindS (ask (\<lambda>v. server_query (rv_sym E) obj filename sect vma)) (\<lambda>a.
         print_answer (Sym_func obj (case sect of None \<Rightarrow> [] | Some n \<Rightarrow> n) (an_func a)) a)))"

text \<open>\<^verbatim>\<open>align_print\<close> for the two columns, with the number of characters printed.\<close>

definition align_addr :: "nat \<Rightarrow> unit rp" where
  "align_addr printed =
     bindS (readS rp_addr_printed) (\<lambda>mx.
     if printed < mx then log_print (replicate (mx - printed) (CHR '' ''))
     else modS (\<lambda>s. s\<lparr>rp_addr_printed := printed\<rparr>))"

definition align_inst :: "nat \<Rightarrow> unit rp" where
  "align_inst printed =
     bindS (readS rp_inst_printed) (\<lambda>mx.
     if printed < mx then log_print (replicate (mx - printed) (CHR '' ''))
     else modS (\<lambda>s. s\<lparr>rp_inst_printed := printed\<rparr>))"

definition fail_with :: "nexus_error \<Rightarrow> 'a rp" where "fail_with e = throwS (Exit (err_code e))"

definition flush_fail :: "nexus_error \<Rightarrow> 'a rp" where "flush_fail e = thenS log_flush (fail_with e)"

text \<open>The label \<^verbatim>\<open>check_time\<close>; the loop goes on.\<close>

definition check_time :: "bool rp" where
  "check_time =
     bindS (readS (\<lambda>s. rp_last_time s \<noteq> 0 \<and> rp_last_time s > replay_time s)) (\<lambda>back.
     thenS (whenS back (thenS log_flush (modS (\<lambda>s. s\<lparr>rp_warnings := rp_warnings s + 1\<rparr>))))
    (thenS (modS (\<lambda>s. s\<lparr>rp_last_time := replay_time s\<rparr>))
           (retS True)))"

section \<open>Instruction blocks\<close>

definition map_at :: "replay_env \<Rightarrow> u64 \<Rightarrow> (u8 list option) rp" where
  "map_at E a = (\<lambda>s. case try_map (rv_mmap E) (rv_pagesz E) a (rp_vm s) of (r, v) \<Rightarrow> (r, s\<lparr>rp_vm := v\<rparr>))"

definition fetch_at :: "replay_env \<Rightarrow> u64 \<Rightarrow> (rv_inst_block option) rp" where
  "fetch_at E a = bindS (map_at E a) (\<lambda>m. liftS (fetch (rv_cs E) (rv_blank E) m a))"

text \<open>The block at an address, from the cache or fetched into it.\<close>

definition find_block :: "replay_env \<Rightarrow> u64 \<Rightarrow> (rv_inst_block option) rp" where
  "find_block E a =
     bindS (readS (\<lambda>s. map_of (rp_insts s) a)) (\<lambda>c. case c of
       Some b \<Rightarrow> retS b
     | None \<Rightarrow> bindS (fetch_at E a) (\<lambda>b. thenS (modS (\<lambda>s. s\<lparr>rp_insts := (a, b) # rp_insts s\<rparr>)) (retS b)))"

text \<open>\<^verbatim>\<open>instblock->retire\<close>: the block in the cache keeps what retiring has set.\<close>

definition retire_block :: "retire_env \<Rightarrow> u64 \<Rightarrow> rv_inst_block \<Rightarrow> ((ib_exc + u64) \<times> rv_inst_block) rp" where
  "retire_block e a b = (\<lambda>s. case retire e (b, rp_td s) of
     (r, (b', d)) \<Rightarrow> (Inr (r, b'), s\<lparr>rp_td := d, rp_insts := (a, Some b') # rp_insts s\<rparr>))"

definition block_head :: "rv_inst_block \<Rightarrow> unit rp" where
  "block_head b =
     thenS log_newline
    (bindS (readS time_offset) (\<lambda>t.
     let str = t @ '' '' @ hex_addr (ib_addr b) @ '',+'' @ show_base 10 (uint (ib_icnt b)) @ ''  '' in
     thenS (log_print str) (align_addr (length str))))"

section \<open>The labels\<close>

definition unknown_msg :: "replay_env \<Rightarrow> nat \<Rightarrow> bool rp" where
  "unknown_msg E i = (\<lambda>s.
     case nexusrv_msg_decoder_next (td_msg_decoder (rp_td s)) (rv_msg E i) of
       (r, d, m) \<Rightarrow>
         let s1 = s\<lparr>rp_td := (rp_td s)\<lparr>td_msg_decoder := d\<rparr>\<rparr> in
         case r of
           Inl (Code e) \<Rightarrow> flush_fail e s1
         | Inl _ \<Rightarrow> (Inl Crash, s1)
         | Inr n \<Rightarrow>
             if n = 0 then (Inl Crash, s1)
             else
               let s2 = s1\<lparr>rp_td := nexusrv_trace_add_timestamp (timestamp m) (rp_td s1),
                           rp_log := logger_flush (rp_log s1)\<rparr>;
                   str = ''['' @ show_base 10 (uint (replay_time s2)) @ ''] UNKNOWN MSG '' @
                     of_text (snd (nexusrv_print_msg m \<lparr>of_text = [], of_calls = []\<rparr>)) @ [CHR 0x0A]
               in (Inr True, s2\<lparr>rp_log := (rp_log s2)\<lparr>lg_out := lg_out (rp_log s2) @ str\<rparr>\<rparr>))"

definition handle_error :: "replay_env \<Rightarrow> nat \<Rightarrow> nexus_error \<Rightarrow> bool rp" where
  "handle_error E i e =
     (if e = nexus_trace_eof then retS False
      else if e = nexus_msg_unsupported then unknown_msg E i
      else flush_fail e)"

definition set_ip :: "u64 option \<Rightarrow> unit rp" where
  "set_ip ip = modS (\<lambda>s. s\<lparr>rp_lastip := ip\<rparr>)"

text \<open>A call whose error ends the replay.\<close>

definition need :: "'a td \<Rightarrow> 'a rp" where
  "need m = bindS (call_td m) (\<lambda>r. case r of Inl e \<Rightarrow> flush_fail e | Inr x \<Rightarrow> retS x)"

definition event_direct :: "retire_env \<Rightarrow> unit rp" where
  "event_direct e =
     thenS (set_ip None)
    (bindS (readS (\<lambda>s. rp_tnt_time s \<noteq> replay_time s)) (\<lambda>new.
     thenS (whenS new (log_line ''TNT ''))
    (thenS (modS (\<lambda>s. s\<lparr>rp_tnt_time := replay_time s\<rparr>))
    (bindS (need (nexusrv_trace_next_tnt (re_next e))) (\<lambda>tnt. log_print (if tnt then ''!'' else ''.''))))))"

definition event_indirect :: "replay_env \<Rightarrow> retire_env \<Rightarrow> unit rp" where
  "event_indirect E e =
     bindS (need (next_indirect (re_next e) (re_indir e))) (\<lambda>d.
     thenS (set_ip (Some (in_target d)))
    (thenS (log_line (''INDIRECT'' @ (if in_interrupt d then '' interrupt'' else '''') @
              (if in_exception d then '' exception'' else '''') @ '' to '' @ hex_addr (in_target d)))
    (thenS (print_sym E (in_target d))
      (whenS (in_ownership d)
        (log_print ('' fmt='' @ show_base 10 (uint (in_ownership_fmt d)) @ '' priv='' @ show_base 10 (uint (in_ownership_priv d)) @
           '' v='' @ show_base 10 (uint (in_ownership_v d)) @ '' context='' @ hex_addr (in_context d)))))))"

definition sync_line :: "replay_env \<Rightarrow> nexusrv_trace_sync \<Rightarrow> string \<Rightarrow> unit rp" where
  "sync_line E y space =
     thenS (set_ip (Some (sy_addr y)))
    (thenS (log_line (space @ ''SYNC '' @ show_base 10 (uint (sy_sync y)) @ '' to '' @ hex_addr (sy_addr y)))
           (print_sym E (sy_addr y)))"

definition event_sync :: "replay_env \<Rightarrow> retire_env \<Rightarrow> unit rp" where
  "event_sync E e = bindS (need (nexusrv_trace_next_sync (re_next e))) (\<lambda>y. sync_line E y '''')"

definition event_stop :: "retire_env \<Rightarrow> unit rp" where
  "event_stop e =
     thenS (set_ip None)
    (bindS (need (nexusrv_trace_next_stop (re_next e))) (\<lambda>t. log_line (''STOP evcode='' @ show_base 10 (uint (st_evcode t)))))"

definition event_error :: "retire_env \<Rightarrow> unit rp" where
  "event_error e =
     thenS (set_ip None)
    (bindS (need (nexusrv_trace_next_error (re_next e))) (\<lambda>r.
     log_line (''ERROR etype='' @ show_base 10 (uint (er_etype r)) @ '' ecode='' @ show_base 10 (uint (er_ecode r)))))"

definition handle_event :: "replay_env \<Rightarrow> nat \<Rightarrow> nexusrv_trace_events \<Rightarrow> bool rp" where
  "handle_event E i ev =
     (let e = rv_call E i in
      thenS
        (if ev \<in> {Event_Direct, Event_DirectSync} then event_direct e
         else if ev \<in> {Event_Indirect, Event_IndirectSync, Event_Trap} then event_indirect E e
         else if ev = Event_Sync then event_sync E e
         else if ev = Event_Stop then event_stop e
         else if ev = Event_Error then event_error e
         else retS ())
        check_time)"

section \<open>The loop\<close>

text \<open>Without a block: all instructions up to the next event.\<close>

definition no_block :: "replay_env \<Rightarrow> nat \<Rightarrow> bool rp" where
  "no_block E i =
     bindS (call_td (nexusrv_trace_try_retire (re_try (rv_call E i)) 0xFFFFFFFF)) (\<lambda>r. case r of
       Inl e \<Rightarrow> handle_error E i e
     | Inr (k, ev) \<Rightarrow>
         thenS (modS (\<lambda>s. s\<lparr>rp_lastip := map_option (\<lambda>a. a + ucast (k * 2)) (rp_lastip s)\<rparr>))
        (thenS (whenS (k \<noteq> 0)
           (thenS (modS (\<lambda>s. s\<lparr>rp_tnt_time := 0\<rparr>)) (log_line (''I-CNT '' @ show_base 10 (uint k)))))
        (handle_event E i ev)))"

text \<open>The bar is three bytes of UTF-8.\<close>

definition run_block :: "replay_env \<Rightarrow> nat \<Rightarrow> u64 \<Rightarrow> rv_inst_block \<Rightarrow> bool rp" where
  "run_block E i a b =
     bindS (readS (\<lambda>s. nexusrv_trace_callstack_used (rp_td s))) (\<lambda>stack.
     bindS (retire_block (rv_call E i) a b) (\<lambda>(r, b'). case r of
       Inr target \<Rightarrow>
         thenS (set_ip (Some target))
        (thenS (block_head b')
        (thenS (log_print (ib_to_string b'))
        (thenS (align_inst (length (ib_to_string b')))
        (thenS (log_print ('' '' @ [CHR 0xE2, CHR 0x94, CHR 0x82] @ '' '' @ replicate (unat stack) (CHR '' '')))
        (thenS (print_sym E (ib_addr b'))
               (retS True))))))
     | Inl (Exc_event x ev) \<Rightarrow>
         thenS (set_ip (Some x))
           (if ev = Event_None then throwS Crash
            else if \<not> (x \<ge> ib_addr b' \<and> x - ib_addr b' \<le> ucast (ib_icnt b' * 2)) then throwS Crash
            else
              thenS (block_head b')
             (bindS (map_at E x) (\<lambda>m.
              bindS (liftS (disasm1 (rv_cs E) (rv_blank E) m x)) (\<lambda>insn.
              let str = ''[retired '' @ show_base 10 (uint ((x - ib_addr b') div 2)) @ ''] '' @
                    (case insn of None \<Rightarrow> '''' | Some j \<Rightarrow> ci_mnemonic j @ '' '' @ ci_op_str j) in
              thenS (log_print str) (thenS (align_inst (length str)) (handle_event E i ev))))))
     | Inl (Exc_failed e) \<Rightarrow> handle_error E i e
     | Inl Exc_fault \<Rightarrow> throwS Crash))"

text \<open>One iteration; the result says whether the loop goes on.\<close>

definition replay_step :: "replay_env \<Rightarrow> nat \<Rightarrow> bool rp" where
  "replay_step E i =
     bindS (call_td (nexusrv_trace_sync_reset (re_next (rv_call E i)))) (\<lambda>r. case r of
       Inl e \<Rightarrow> fail_with e
     | Inr (Some y) \<Rightarrow> thenS (sync_line E y '' '') check_time
     | Inr None \<Rightarrow>
         bindS (readS rp_lastip) (\<lambda>ip. case ip of
           None \<Rightarrow> no_block E i
         | Some a \<Rightarrow> bindS (find_block E a) (\<lambda>c. case c of None \<Rightarrow> no_block E i | Some b \<Rightarrow> run_block E i a b)))"

text \<open>The loop with fuel; without a result it has not ended.\<close>

fun replay_loop :: "replay_env \<Rightarrow> nat \<Rightarrow> nat \<Rightarrow> replay_state \<Rightarrow> (stop + unit) option \<times> replay_state" where
  "replay_loop E 0 i s = (None, s)"
| "replay_loop E (Suc fuel) i s =
     (case replay_step E i s of
        (Inl e, t) \<Rightarrow> (Some (Inl e), t)
      | (Inr again, t) \<Rightarrow> if again then replay_loop E fuel (i + 1) t else (Some (Inr ()), t))"

definition replay_start :: "nexusrv_trace_decoder \<Rightarrow> memory_view \<Rightarrow> sym_state \<Rightarrow> string \<Rightarrow> replay_state" where
  "replay_start d v y out =
     \<lparr>rp_td = d, rp_tnt_time = 0, rp_last_time = 0, rp_lastip = None, rp_log = logger_new out, rp_addr_printed = 0,
      rp_inst_printed = 0, rp_insts = [], rp_vm = v, rp_sym = y, rp_last_func = None, rp_warnings = 0\<rparr>"

text \<open>The function; at its end the logger is destroyed, which flushes it.\<close>

definition replay :: "replay_env \<Rightarrow> nat \<Rightarrow> bool \<Rightarrow> bool \<Rightarrow> memory_view \<Rightarrow> sym_state \<Rightarrow> nexusrv_msg_decoder \<Rightarrow> string \<Rightarrow>
    (stop + unit) option \<times> replay_state" where
  "replay E fuel a1 a2 v y md out =
     (case nexusrv_trace_decoder_init a1 a2 md of
        (Inl e, d) \<Rightarrow> (Some (Inl (fault_stop e)), replay_start d v y out)
      | (Inr _, d) \<Rightarrow>
          (case replay_loop E fuel 0 (replay_start d v y out) of
             (Some (Inr _), t) \<Rightarrow> (Some (Inr ()), t\<lparr>rp_td := nexusrv_trace_decoder_fini (rp_td t), rp_log := logger_flush (rp_log t)\<rparr>)
           | (r, t) \<Rightarrow> (r, t)))"

end
