(* ===== verification/ReplayProps.thy ===== *)
theory ReplayProps
  imports ReplayTool
begin

text \<open>
  When the replay loop does not end, and how it ends.
\<close>

section \<open>Messages without an event\<close>

text \<open>An idle message, an ownership message that does not follow an indirect branch, and the like.\<close>

definition no_event_msg :: "nexusrv_msg \<Rightarrow> bool" where
  "no_event_msg m \<longleftrightarrow> \<not> nexusrv_msg_is_branch m \<and> \<not> nexusrv_msg_is_sync m \<and> \<not> nexusrv_msg_is_stop m \<and>
     \<not> nexusrv_msg_is_error m \<and> \<not> nexusrv_msg_is_res m"

definition td_stuck :: "nexusrv_trace_decoder \<Rightarrow> bool" where
  "td_stuck d \<longleftrightarrow> td_synced d \<and> td_msg_present d \<and> no_event_msg (td_msg d) \<and> td_res_icnt d = 0 \<and> td_consumed_icnt d = 0 \<and>
     td_res_tnts d = 0 \<and> td_consumed_tnts d = 0"

text \<open>
  No code at the current address: there is none, or no block was found at it before, or no section contains it.
\<close>

definition uncovered :: "memory_view \<Rightarrow> u64 \<Rightarrow> bool" where
  "uncovered v a \<longleftrightarrow> (\<forall>(k, ls) \<in> set (loaded_sections v). \<not> (k \<le> a \<and> a - k < sec_size (ls_sect ls)))"

definition no_code_at :: "replay_state \<Rightarrow> u64 \<Rightarrow> bool" where
  "no_code_at s a \<longleftrightarrow> (case map_of (rp_insts s) a of None \<Rightarrow> uncovered (rp_vm s) a | Some b \<Rightarrow> b = None)"

definition no_code :: "replay_state \<Rightarrow> bool" where
  "no_code s \<longleftrightarrow> (\<forall>a. rp_lastip s = Some a \<longrightarrow> no_code_at s a)"

lemma no_event_fields: "no_event_msg m \<Longrightarrow> \<not> nexusrv_msg_has_icnt m \<and> \<not> nexusrv_msg_has_hist m"
  by (auto simp: no_event_msg_def msg_preds)

lemma stuck_try_retire:
  assumes "td_stuck d"
  shows "nexusrv_trace_try_retire w 0xFFFFFFFF d = (Inr (0, Event_None), d)"
proof -
  note st = assms [unfolded td_stuck_def] and fields = no_event_fields [of "td_msg d"]
  have av: "nexusrv_trace_available_icnt d = (Inr 0, d)" "nexusrv_trace_available_tnts d = (Inr 0, d)"
    using st fields by (simp_all add: nexusrv_trace_available_icnt_def nexusrv_trace_available_tnts_def no_event_msg_def Let_def)
  have pull: "nexusrv_trace_pull_msg w d = (Inr False, d)"
    using st by (simp add: nexusrv_trace_pull_msg_def nexusrv_trace_fetch_msg_def no_event_msg_def run_defs)
  have one: "retire_loop w INT32_MAX False d = (Inr False, d)"
    by (subst retire_loop.simps) (simp add: av)
  have loop: "retire_loop w INT32_MAX True d = (Inr False, d)"
    by (subst retire_loop.simps) (simp add: av pull one)
  have "nexusrv_trace_consume_icnt 0 d = (Inr (), d)"
    using st av by (simp add: nexusrv_trace_consume_icnt_def run_defs assertS_def ensureS_def checkS_def)
  moreover have "pending_event d = (Inr Event_None, d)"
    using st fields av
    by (auto simp: pending_event_def run_defs checkS_def no_event_msg_def)
  moreover have "(0xFFFFFFFF :: u32) > INT32_MAX" by (simp add: INT32_MAX_def)
  ultimately show ?thesis
    using st loop av by (simp add: nexusrv_trace_try_retire_def need_sync_def run_defs ensureS_def checkS_def)
qed

text \<open>Without code there is no block at the address, and looking for one changes only the cache of blocks.\<close>

lemma om_before_in: "om_before k m = Some (a, v) \<Longrightarrow> (a, v) \<in> set m \<and> a \<le> k"
  by (induction k m arbitrary: a v rule: om_before.induct) (auto split: if_splits option.splits)

lemma uncovered_map: "uncovered v a \<Longrightarrow> try_map bm n a v = (Inr None, v)"
  by (auto simp: try_map_def uncovered_def not_less split: option.splits dest!: om_before_in)

lemma find_block_none:
  assumes "no_code_at s a"
  shows "\<exists>c. find_block E a s = (Inr None, s\<lparr>rp_insts := c\<rparr>) \<and> no_code_at (s\<lparr>rp_insts := c\<rparr>) a"
proof (cases "map_of (rp_insts s) a")
  case None
  with assms have "uncovered (rp_vm s) a" by (simp add: no_code_at_def)
  note un = uncovered_map [OF this, of "rv_mmap E" "rv_pagesz E"]
  have "find_block E a s = (Inr None, s\<lparr>rp_insts := (a, None) # rp_insts s\<rparr>)"
    using None un by (simp add: find_block_def fetch_at_def map_at_def fetch_def run_defs)
  then show ?thesis by (intro exI [of _ "(a, None) # rp_insts s"]) (simp add: no_code_at_def)
next
  case (Some c)
  with assms have "find_block E a s = (Inr None, s\<lparr>rp_insts := rp_insts s\<rparr>)"
    by (simp add: no_code_at_def find_block_def comp_simps)
  with assms show ?thesis by (intro exI [of _ "rp_insts s"]) simp
qed

text \<open>What an iteration without an event may change: the cache, and what only serves the output.\<close>

definition same_replay :: "replay_state \<Rightarrow> replay_state \<Rightarrow> bool" where
  "same_replay s t \<longleftrightarrow> rp_vm t = rp_vm s \<and> rp_sym t = rp_sym s \<and> rp_lastip t = rp_lastip s"

lemma check_time_run:
  "\<exists>t. check_time s = (Inr True, t) \<and> rp_td t = rp_td s \<and> same_replay s t \<and> rp_insts t = rp_insts s"
  by (simp add: check_time_def run_defs log_flush_def same_replay_def)

text \<open>Iterations, by what the calls of the trace decoder do.\<close>

lemma print_sym_none: "loaded_sections (rp_vm s) = [] \<Longrightarrow> print_sym E a s = (Inr (), s)"
  by (simp add: print_sym_def print_label_def ask_def query_sym_def query_label_def core_at_def run_defs)

lemma sync_line_run:
  "loaded_sections (rp_vm s) = [] \<Longrightarrow>
   \<exists>t. sync_line E y sp s = (Inr (), t) \<and> rp_td t = rp_td s \<and> rp_vm t = rp_vm s \<and> rp_insts t = rp_insts s"
  by (simp add: sync_line_def set_ip_def log_line_def log_newline_def log_print_def run_defs print_sym_none)

lemma sync_step:
  assumes "nexusrv_trace_sync_reset (re_next (rv_call E i)) (rp_td s) = (Inr (Some y), d)"
    and "loaded_sections (rp_vm s) = []"
  shows "\<exists>t. replay_step E i s = (Inr True, t) \<and> rp_td t = d \<and> rp_vm t = rp_vm s \<and> rp_insts t = rp_insts s"
proof -
  obtain u where u: "sync_line E y '' '' (s\<lparr>rp_td := d\<rparr>) = (Inr (), u)" "rp_td u = d" "rp_vm u = rp_vm s" "rp_insts u = rp_insts s"
    using sync_line_run [of "s\<lparr>rp_td := d\<rparr>" E y "'' ''"] assms(2) by auto
  moreover obtain t where "check_time u = (Inr True, t)" "rp_td t = rp_td u" "rp_vm t = rp_vm u" "rp_insts t = rp_insts u"
    using check_time_run [of u] by (auto simp: same_replay_def)
  moreover have "call_td (nexusrv_trace_sync_reset (re_next (rv_call E i))) s = (Inr (Inr (Some y)), s\<lparr>rp_td := d\<rparr>)"
    using assms(1) by (simp add: call_td_def)
  ultimately show ?thesis by (simp add: replay_step_def comp_simps)
qed

lemma no_block_none:
  assumes "nexusrv_trace_try_retire (re_try (rv_call E i)) 0xFFFFFFFF (rp_td s) = (Inr (0, Event_None), d)"
  shows "\<exists>t. no_block E i s = (Inr True, t) \<and> rp_td t = d \<and> same_replay s t \<and> rp_insts t = rp_insts s"
proof -
  let ?s = "s\<lparr>rp_td := d, rp_lastip := map_option (\<lambda>a. a) (rp_lastip s)\<rparr>"
  obtain t where t: "check_time ?s = (Inr True, t)" "rp_td t = rp_td ?s" "same_replay ?s t" "rp_insts t = rp_insts ?s"
    using check_time_run by blast
  have "call_td (nexusrv_trace_try_retire (re_try (rv_call E i)) 0xFFFFFFFF) s = (Inr (Inr (0, Event_None)), s\<lparr>rp_td := d\<rparr>)"
    using assms by (simp add: call_td_def)
  with t(1) have "no_block E i s = (Inr True, t)"
    by (simp add: no_block_def handle_event_def comp_simps bindS_def thenS_def modS_def retS_def whenS_def)
  with t show ?thesis by (cases "rp_lastip s") (simp_all add: same_replay_def)
qed

lemma no_code_step:
  assumes "td_synced (rp_td s)" and "no_code s"
    and "nexusrv_trace_try_retire (re_try (rv_call E i)) 0xFFFFFFFF (rp_td s) = (Inr (0, Event_None), d)"
  shows "\<exists>t. replay_step E i s = (Inr True, t) \<and> rp_td t = d \<and> no_code t \<and> same_replay s t"
proof -
  have "call_td (nexusrv_trace_sync_reset (re_next (rv_call E i))) s = (Inr (Inr None), s)"
    using assms(1) by (simp add: call_td_def nexusrv_trace_sync_reset_def run_defs)
  then have go: "replay_step E i s = (case rp_lastip s of None \<Rightarrow> no_block E i s
      | Some a \<Rightarrow> bindS (find_block E a) (\<lambda>c. case c of None \<Rightarrow> no_block E i | Some b \<Rightarrow> run_block E i a b) s)"
    by (simp add: replay_step_def comp_simps split: option.split)
  show ?thesis
  proof (cases "rp_lastip s")
    case None
    with go no_block_none [OF assms(3)] show ?thesis by (auto simp: no_code_def same_replay_def)
  next
    case (Some a)
    from assms(2) Some have "no_code_at s a" by (simp add: no_code_def)
    from find_block_none [OF this, of E] obtain c where
      u: "find_block E a s = (Inr None, s\<lparr>rp_insts := c\<rparr>)" "no_code_at (s\<lparr>rp_insts := c\<rparr>) a" by blast
    have "nexusrv_trace_try_retire (re_try (rv_call E i)) 0xFFFFFFFF (rp_td (s\<lparr>rp_insts := c\<rparr>)) = (Inr (0, Event_None), d)"
      using assms(3) by simp
    from no_block_none [OF this] obtain t where t: "no_block E i (s\<lparr>rp_insts := c\<rparr>) = (Inr True, t)" "rp_td t = d"
      "same_replay s t" "rp_insts t = c" by (auto simp: same_replay_def)
    then have "no_code t" using u(2) Some
      by (auto simp: no_code_def no_code_at_def same_replay_def split: option.splits)
    with t u go Some show ?thesis by (auto simp: comp_simps)
  qed
qed

section \<open>Properties\<close>

text \<open>
  C38. The replay does not end at a message without an event. When a synchronised trace decoder without pending instructions
  and outcomes has buffered an idle message (or an ownership message that does not follow an indirect branch, or another one
  that is no branch, no synchronisation, no stop, no error and no ResourceFull message), and there is no code at the current
  address (there is no current address, or none of the loaded sections contains it, or no block was found there before),
  then no number of iterations ends the loop. The trace decoder stays exactly as it is: the message is never retired and nothing
  is read from the trace any more; nor does the address or the memory change.
\<close>

theorem replay_hangs:
  assumes "td_stuck (rp_td s)" and "no_code s"
  shows "\<exists>t. replay_loop E fuel i s = (None, t) \<and> rp_td t = rp_td s \<and> rp_lastip t = rp_lastip s \<and> rp_vm t = rp_vm s \<and>
    rp_sym t = rp_sym s"
  using assms
proof (induction fuel arbitrary: i s)
  case (Suc fuel)
  have "td_synced (rp_td s)" using Suc.prems(1) by (simp add: td_stuck_def)
  from no_code_step [OF this Suc.prems(2) stuck_try_retire [OF Suc.prems(1)]]
  obtain t where t: "replay_step E i s = (Inr True, t)" "rp_td t = rp_td s" "no_code t" "same_replay s t" by blast
  with Suc.IH [of t "i + 1"] Suc.prems(1) show ?case by (auto simp: same_replay_def)
qed simp

definition ex_sym_env :: sym_env where
  "ex_sym_env = \<lparr>se_host = \<lparr>h_text = (\<lambda>p. None), h_exists = (\<lambda>p. False), h_obj = (\<lambda>p. Inl Crash)\<rparr>,
     se_contents = (\<lambda>p sect. None), se_getenv = None, se_default = ''addr2line'', se_addr2line = (\<lambda>args a. None)\<rparr>"

text \<open>Without core files there are no symbols.\<close>

definition ex_syms :: sym_state where
  "ex_syms = \<lparr>sy_kinds = [], sy_objs = [], sy_cache = [], sy_servers = []\<rparr>"

definition ex_renv :: replay_env where
  "ex_renv = \<lparr>rv_cs = ex_iter, rv_blank = ex_nop, rv_mmap = (\<lambda>c len off. None), rv_pagesz = 4096, rv_sym = ex_sym_env,
     rv_call = (\<lambda>i. ex_env), rv_msg = (\<lambda>i. ex_msg)\<rparr>"

definition ex_replay :: "u8 list \<Rightarrow> nexusrv_msg_decoder" where
  "ex_replay bytes = nexusrv_msg_decoder_init ex_cfg [Data bytes] (- 1) (replicate 64 0) 64"

text \<open>A synchronisation and one byte of padding, as the patcher leaves it.\<close>

lemma replay_hangs_witness:
  "\<forall>n. fst (replay ex_renv n True True \<lparr>loaded_sections = [], cores = []\<rparr> ex_syms (ex_replay (ex_sync @ [0xFF])) []) = None"
proof
  fix n
  let ?v = "\<lparr>loaded_sections = [], cores = []\<rparr> :: memory_view" and ?md = "ex_replay (ex_sync @ [0xFF])"
  obtain r d where init: "nexusrv_trace_decoder_init True True ?md = (r, d)" by (metis surj_pair)
  obtain q1 d1 where d1: "nexusrv_trace_sync_reset ex_world d = (q1, d1)" by (metis surj_pair)
  obtain q2 d2 where d2: "nexusrv_trace_try_retire ex_world 0xFFFFFFFF d1 = (q2, d2)" by (metis surj_pair)
  have "(case nexusrv_trace_decoder_init True True ?md of (r, d) \<Rightarrow> r = Inr () \<and>
      (case nexusrv_trace_sync_reset ex_world d of (q1, d1) \<Rightarrow> (case q1 of Inr (Some y) \<Rightarrow> True | _ \<Rightarrow> False) \<and> td_synced d1 \<and>
      (case nexusrv_trace_try_retire ex_world 0xFFFFFFFF d1 of (q2, d2) \<Rightarrow> q2 = Inr (0, Event_None) \<and> td_stuck d2)))"
    by code_simp
  with init d1 d2 obtain y where td: "r = Inr ()" "q1 = Inr (Some y)" "td_synced d1" "q2 = Inr (0, Event_None)" "td_stuck d2"
    by (auto split: sum.splits option.splits)
  have w: "re_next (rv_call ex_renv i) = ex_world" "re_try (rv_call ex_renv i) = ex_world" for i
    by (simp_all add: ex_renv_def ex_env_def)
  let ?s0 = "replay_start d ?v ex_syms []"
  have "nexusrv_trace_sync_reset (re_next (rv_call ex_renv 0)) (rp_td ?s0) = (Inr (Some y), d1)"
    using d1 td(2) by (simp add: replay_start_def w)
  from sync_step [OF this] obtain s1 where s1: "replay_step ex_renv 0 ?s0 = (Inr True, s1)" "rp_td s1 = d1" "no_code s1"
    by (auto simp: no_code_def no_code_at_def uncovered_def replay_start_def)
  have "nexusrv_trace_try_retire (re_try (rv_call ex_renv 1)) 0xFFFFFFFF (rp_td s1) = (Inr (0, Event_None), d2)"
    using d2 td(4) s1(2) by (simp add: w)
  from no_code_step [OF _ s1(3) this] td(3) s1(2) obtain s2 where
    s2: "replay_step ex_renv 1 s1 = (Inr True, s2)" "rp_td s2 = d2" "no_code s2" by auto
  have ok: "td_stuck (rp_td s2)" using s2(2) td(5) by simp
  have "fst (replay_loop ex_renv n 0 ?s0) = None"
  proof (cases "n < 2")
    case True
    then have "n = 0 \<or> n = 1" by auto
    with s1 show ?thesis by auto
  next
    case False
    then obtain k where n: "n = Suc (Suc k)" by (metis add_2_eq_Suc le_Suc_ex not_less)
    from replay_hangs [OF ok s2(3), of ex_renv k 2] s1 s2 show ?thesis by (auto simp: n numeral_2_eq_2)
  qed
  moreover obtain q t where "replay_loop ex_renv n 0 ?s0 = (q, t)" by (metis surj_pair)
  ultimately show "fst (replay ex_renv n True True ?v ex_syms ?md []) = None"
    using init td(1) by (simp add: replay_def)
qed

text \<open>
  A trace that ends with a stop makes the replay fail. Behind a stop message the replay tries to synchronise again; at the end
  of the file this is an error, and the process exits with the status for the end of the trace instead of 0. Unless
  the time goes backwards, the log is not flushed: its last line, the one of the stop, is lost.
\<close>

theorem replay_fails_behind_stop:
  assumes "td_synced (rp_td s)" and "no_code s"
    and "nexusrv_trace_try_retire (re_try (rv_call E i)) 0xFFFFFFFF (rp_td s) = (Inr (0, Event_Stop), d1)"
    and "nexusrv_trace_next_stop (re_next (rv_call E i)) d1 = (Inr x, d2)"
    and "nexusrv_trace_sync_reset (re_next (rv_call E (i + 1))) d2 = (Inl (Code nexus_trace_eof), d3)"
    and "rp_last_time s \<le> nexusrv_trace_time d2"
  shows "\<exists>t str. replay_loop E (fuel + 2) i s = (Some (Inl (Exit (err_code nexus_trace_eof))), t) \<and>
    rp_log t = logger_print (''['' @ str @ ''STOP evcode='' @ show_base 10 (uint (st_evcode x))) (logger_newline (rp_log s)) \<and>
    lg_out (rp_log t) \<in> {lg_out (logger_newline (rp_log s)), lg_out (maybe_marker (logger_newline (rp_log s)))}"
proof -
  have one: "\<exists>t str. no_block E i u = (Inr True, t) \<and> rp_td t = d2 \<and>
      rp_log t = logger_print (''['' @ str @ ''STOP evcode='' @ show_base 10 (uint (st_evcode x))) (logger_newline (rp_log u))"
    if u: "rp_td u = rp_td s" "rp_last_time u = rp_last_time s" for u
  proof -
    have c1: "call_td (nexusrv_trace_try_retire (re_try (rv_call E i)) 0xFFFFFFFF) u = (Inr (Inr (0, Event_Stop)), u\<lparr>rp_td := d1\<rparr>)"
      using assms(3) u(1) by (simp add: call_td_def)
    have c2: "need (nexusrv_trace_next_stop (re_next (rv_call E i))) v = (Inr x, v\<lparr>rp_td := d2\<rparr>)" if "rp_td v = d1" for v
      using assms(4) that by (simp add: need_def call_td_def comp_simps)
    have ct: "check_time v = (Inr True, v\<lparr>rp_last_time := nexusrv_trace_time d2\<rparr>)"
      if v: "rp_td v = d2" "rp_last_time v = rp_last_time s" for v
    proof -
      have "(rp_last_time s \<noteq> 0 \<and> nexusrv_trace_time d2 < rp_last_time s) = False" using assms(6) by auto
      with v show ?thesis
        by (simp add: check_time_def replay_time_def bindS_def thenS_def readS_def whenS_def retS_def modS_def
            del: not_less de_Morgan_conj)
    qed
    let ?v = "u\<lparr>rp_lastip := None, rp_td := d2, rp_log := logger_newline (rp_log u)\<rparr>"
    have "no_block E i u = (Inr True, ?v\<lparr>rp_log := logger_print (time_offset ?v @ ''STOP evcode='' @ show_base 10 (uint (st_evcode x)))
        (logger_newline (rp_log u)), rp_last_time := nexusrv_trace_time d2\<rparr>)"
      by (simp add: no_block_def c1 comp_simps handle_event_def event_stop_def Let_def thenS_def bindS_def set_ip_def modS_def c2
          log_line_def log_newline_def log_print_def readS_def whenS_def retS_def ct u)
    moreover obtain str where "time_offset ?v = ''['' @ str" by (simp add: time_offset_def)
    ultimately show ?thesis by (auto intro!: exI [of _ str])
  qed
  have "call_td (nexusrv_trace_sync_reset (re_next (rv_call E i))) s = (Inr (Inr None), s)"
    using assms(1) by (simp add: call_td_def nexusrv_trace_sync_reset_def run_defs)
  then have go: "replay_step E i s = (case rp_lastip s of None \<Rightarrow> no_block E i s
      | Some a \<Rightarrow> bindS (find_block E a) (\<lambda>c. case c of None \<Rightarrow> no_block E i | Some b \<Rightarrow> run_block E i a b) s)"
    by (simp add: replay_step_def comp_simps split: option.split)
  obtain t str where t: "replay_step E i s = (Inr True, t)" "rp_td t = d2"
    "rp_log t = logger_print (''['' @ str @ ''STOP evcode='' @ show_base 10 (uint (st_evcode x))) (logger_newline (rp_log s))"
  proof (cases "rp_lastip s")
    case None
    with go one [of s] that show thesis by auto
  next
    case (Some a)
    from assms(2) Some have "no_code_at s a" by (simp add: no_code_def)
    from find_block_none [OF this, of E] obtain u where
      u: "find_block E a s = (Inr None, u)" "rp_td u = rp_td s" "rp_last_time u = rp_last_time s" "rp_log u = rp_log s" by auto
    with one [of u] go Some that show thesis by (auto simp: comp_simps)
  qed
  have "replay_step E (i + 1) t = (Inl (Exit (err_code nexus_trace_eof)), t\<lparr>rp_td := d3\<rparr>)"
    using assms(5) t(2) by (simp add: replay_step_def call_td_def comp_simps fail_with_def)
  with t(1) have run: "replay_loop E (fuel + 2) i s = (Some (Inl (Exit (err_code nexus_trace_eof))), t\<lparr>rp_td := d3\<rparr>)"
    by (simp add: numeral_2_eq_2)
  have "lg_out (logger_print p l) \<in> {lg_out l, lg_out (maybe_marker l)}" for p l
    by (simp add: logger_print_def Let_def)
  with run t(3) show ?thesis by (intro exI [of _ "t\<lparr>rp_td := d3\<rparr>"]) auto
qed

definition ex_stop :: "u8 list" where "ex_stop = [0x84, 0, 3]"

lemma replay_fails_behind_stop_witness:
  "\<exists>t. replay_loop ex_renv 2 0 (replay_start ((ex_start ex_stop)\<lparr>td_synced := True\<rparr>) \<lparr>loaded_sections = [], cores = []\<rparr> ex_syms []) =
    (Some (Inl (Exit (err_code nexus_trace_eof))), t) \<and> lg_out (rp_log t) = []"
proof -
  let ?d = "(ex_start ex_stop)\<lparr>td_synced := True\<rparr>" and ?v = "\<lparr>loaded_sections = [], cores = []\<rparr> :: memory_view"
  let ?s = "replay_start ?d ?v ex_syms []"
  obtain q1 d1 where d1: "nexusrv_trace_try_retire ex_world 0xFFFFFFFF ?d = (q1, d1)" by (metis surj_pair)
  obtain q2 d2 where d2: "nexusrv_trace_next_stop ex_world d1 = (q2, d2)" by (metis surj_pair)
  obtain q3 d3 where d3: "nexusrv_trace_sync_reset ex_world d2 = (q3, d3)" by (metis surj_pair)
  have "(case nexusrv_trace_try_retire ex_world 0xFFFFFFFF ?d of (q1, d1) \<Rightarrow> q1 = Inr (0, Event_Stop) \<and>
      (case nexusrv_trace_next_stop ex_world d1 of (q2, d2) \<Rightarrow> (case q2 of Inr x \<Rightarrow> True | Inl e \<Rightarrow> False) \<and>
      (case nexusrv_trace_sync_reset ex_world d2 of (q3, d3) \<Rightarrow> (case q3 of Inl e \<Rightarrow> e = Code nexus_trace_eof | Inr y \<Rightarrow> False))))"
    by code_simp
  with d1 d2 d3 obtain x where q: "q1 = Inr (0, Event_Stop)" "q2 = Inr x" "q3 = Inl (Code nexus_trace_eof)"
    by (auto split: sum.splits)
  have w: "re_next (rv_call ex_renv i) = ex_world" "re_try (rv_call ex_renv i) = ex_world" for i
    by (simp_all add: ex_renv_def ex_env_def)
  have s: "rp_td ?s = ?d" "no_code ?s" "rp_last_time ?s = 0" "rp_log ?s = logger_new []"
    by (simp_all add: replay_start_def no_code_def no_code_at_def uncovered_def)
  have "td_synced (rp_td ?s)" using s by simp
  from replay_fails_behind_stop [OF this s(2), of ex_renv 0 d1 x d2 d3 0] d1 d2 d3 q w s
  obtain t str where t: "replay_loop ex_renv (0 + 2) 0 ?s = (Some (Inl (Exit (err_code nexus_trace_eof))), t)"
    "lg_out (rp_log t) \<in> {lg_out (logger_newline (logger_new [])), lg_out (maybe_marker (logger_newline (logger_new [])))}"
    by auto
  have "lg_out (logger_newline (logger_new [])) = []" "lg_out (maybe_marker (logger_newline (logger_new []))) = []"
    by (simp_all add: logger_newline_def logger_new_def resize_def maybe_marker_def Let_def)
  with t(2) have "lg_out (rp_log t) = []" by auto
  with t(1) [unfolded add_0] show ?thesis by (intro exI [of _ t] conjI)
qed

end
