(* ===== verification/LinuxProps.thy ===== *)
theory LinuxProps
  imports LinuxCore
begin

text \<open>
  What is looked up in the core files: the file and the offset behind an address of a process, and the kernel symbol in front
  of an address.
\<close>

section \<open>Writing the list of mapped files\<close>

fun le_bytes :: "nat \<Rightarrow> nat \<Rightarrow> u8 list" where
  "le_bytes 0 n = []"
| "le_bytes (Suc w) n = of_nat (n mod 256) # le_bytes w (n div 256)"

lemma length_le_bytes [simp]: "length (le_bytes w n) = w"
  by (induction w arbitrary: n) auto

lemma le_val_bytes [simp]: "le_val (le_bytes w n) = n mod 256 ^ w"
proof (induction w arbitrary: n)
  case (Suc w)
  have "unat (of_nat (n mod 256) :: u8) = n mod 256" by (simp add: unat_of_nat)
  with Suc show ?case by (simp add: mod_mult2_eq)
qed simp

text \<open>Start, end, offset in pages, and file name of a mapping, as the kernel writes them for a process.\<close>

type_synonym mapped_file = "nat \<times> nat \<times> nat \<times> string"

definition range_bytes :: "nat \<Rightarrow> mapped_file \<Rightarrow> u8 list" where
  "range_bytes w x = (case x of (s, e, p, n) \<Rightarrow> le_bytes w s @ le_bytes w e @ le_bytes w p)"

definition name_bytes :: "mapped_file \<Rightarrow> u8 list" where
  "name_bytes x = (case x of (s, e, p, n) \<Rightarrow> map of_char n @ [0])"

definition file_note :: "nat \<Rightarrow> nat \<Rightarrow> mapped_file list \<Rightarrow> u8 list" where
  "file_note w page xs =
     le_bytes w (length xs) @ le_bytes w page @ concat (map (range_bytes w) xs) @ concat (map name_bytes xs)"

definition mapped_ok :: "nat \<Rightarrow> mapped_file \<Rightarrow> bool" where
  "mapped_ok w x \<longleftrightarrow> (case x of (s, e, p, n) \<Rightarrow> s < e \<and> e < 256 ^ w \<and> p < 256 ^ w \<and> CHR 0x00 \<notin> set n)"

definition disjoint_files :: "mapped_file list \<Rightarrow> bool" where
  "disjoint_files xs \<longleftrightarrow> sorted_wrt (\<lambda>(s, e, p, n) (s', e', p', n'). e \<le> s' \<or> e' \<le> s) xs"

definition backing_of :: "nat \<Rightarrow> nat \<Rightarrow> mapped_file \<Rightarrow> u64 \<times> linux_file_backing" where
  "backing_of w page x = (case x of (s, e, p, n) \<Rightarrow> (of_nat s, file_backing w page s e p (map of_char n)))"

section \<open>Reading it back\<close>

lemma ucore_word_at: "d = a @ le_bytes w n @ b \<Longrightarrow> length a = off \<Longrightarrow> n < 256 ^ w \<Longrightarrow> ucore_word w d off = Inr n"
  by (auto simp: ucore_word_def)

lemma name_taken:
  assumes "CHR 0x00 \<notin> set n" and "drop names d = map of_char n @ 0 # rest"
  shows "takeWhile (\<lambda>b. b \<noteq> 0) (drop names d) = map (of_char :: char \<Rightarrow> u8) n"
    and "names + length n < length d" and "drop (names + length n + 1) d = rest"
proof -
  have "(of_char c :: u8) \<noteq> 0" if "c \<in> set n" for c
  proof
    assume z: "(of_char c :: u8) = 0"
    have "(of_char c :: u8) = of_nat (of_char c)" by (simp add: of_char_def)
    with z have "unat (of_nat (of_char c) :: u8) = 0" by simp
    then have "of_char c = (0 :: nat)" by (simp add: unat_of_nat)
    moreover have "char_of (0 :: nat) = CHR 0x00" by (simp add: char_of_def)
    ultimately have "c = CHR 0x00" by (metis char_of_char)
    with that assms(1) show False by simp
  qed
  with assms(2) show "takeWhile (\<lambda>b. b \<noteq> 0) (drop names d) = map of_char n" by (simp add: takeWhile_append)
  have "length (drop names d) = length n + 1 + length rest" using assms(2) by simp
  then show "names + length n < length d" by simp
  have "drop (length n + 1) (drop names d) = rest" using assms(2) by simp
  then show "drop (names + length n + 1) d = rest" by (simp add: add.commute add.left_commute)
qed

lemma length_range_bytes [simp]: "length (range_bytes w x) = 3 * w"
  by (cases x) (simp add: range_bytes_def)

lemma length_ranges: "length (concat (map (range_bytes w) xs)) = 3 * w * length xs"
  by (induction xs) (simp_all add: algebra_simps)

text \<open>The loop, behind the files \<open>pre\<close>.\<close>

lemma ucore_files_run:
  assumes d: "d = h @ concat (map (range_bytes w) (pre @ post)) @ tail" and h: "length h = 2 * w"
    and names: "drop names d = concat (map name_bytes post)" "names \<le> length d"
    and ok: "\<forall>x \<in> set post. mapped_ok w x"
    and new: "\<forall>x \<in> set post. om_find (fst (backing_of w page x)) m = None"
    and dist: "distinct (map (\<lambda>x. fst (backing_of w page x)) post)"
  shows "ucore_files w d (length pre + length post) page (length pre) names m =
    Inr (fold (\<lambda>x. case backing_of w page x of (a, f) \<Rightarrow> om_insert a f) post m)"
  using d names ok new dist
proof (induction post arbitrary: pre names m)
  case Nil
  then show ?case by (subst ucore_files.simps) simp
next
  case (Cons x post)
  obtain s e p n where x: "x = (s, e, p, n)" by (metis prod_cases4)
  let ?o = "2 * w + 3 * w * length pre" and ?rs = "concat (map (range_bytes w) pre)"
    and ?rest = "concat (map (range_bytes w) post) @ tail"
  have lt: "s < 256 ^ w" "e < 256 ^ w" "p < 256 ^ w" and nz: "CHR 0x00 \<notin> set n"
    using Cons.prems(4) by (auto simp: x mapped_ok_def)
  have pos: "length (h @ ?rs) = ?o" using h by (simp add: length_ranges)
  have rx: "range_bytes w x = le_bytes w s @ le_bytes w e @ le_bytes w p" by (simp add: x range_bytes_def)
  have d1: "d = (h @ ?rs) @ le_bytes w s @ (le_bytes w e @ le_bytes w p @ ?rest)"
    using Cons.prems(1) rx by simp
  have d2: "d = ((h @ ?rs) @ le_bytes w s) @ le_bytes w e @ (le_bytes w p @ ?rest)" using d1 by simp
  have d3: "d = ((h @ ?rs) @ le_bytes w s @ le_bytes w e) @ le_bytes w p @ ?rest" using d1 by simp
  have rd: "ucore_word w d ?o = Inr s" "ucore_word w d (?o + w) = Inr e" "ucore_word w d (?o + 2 * w) = Inr p"
    by (rule ucore_word_at [OF d1] ucore_word_at [OF d2] ucore_word_at [OF d3]; use pos lt in simp)+
  have nx: "name_bytes x = map of_char n @ [0]" by (simp add: x name_bytes_def)
  have nm: "drop names d = map of_char n @ 0 # concat (map name_bytes post)"
    using Cons.prems(2) nx by simp
  note tk = name_taken [OF nz nm]
  have b: "backing_of w page x = (of_nat s, file_backing w page s e p (map of_char n))" by (simp add: x backing_of_def)
  let ?m = "om_insert (of_nat s) (file_backing w page s e p (map of_char n)) m"
  have fresh: "om_find (of_nat s) m = None" using Cons.prems(5) b by simp
  have "\<forall>y \<in> set post. om_find (fst (backing_of w page y)) ?m = None"
  proof
    fix y assume y: "y \<in> set post"
    have "of_nat s \<notin> (\<lambda>x. fst (backing_of w page x)) ` set post" using Cons.prems(6) b by simp
    with y have "fst (backing_of w page y) \<noteq> of_nat s" by force
    moreover have "om_find (fst (backing_of w page y)) m = None" using Cons.prems(5) y by simp
    ultimately have "fst (backing_of w page y) \<noteq> of_nat s" "om_find (fst (backing_of w page y)) m = None" by auto
    then have "fst (backing_of w page y) \<notin> fst ` set ?m" by (auto simp: om_find_def map_of_eq_None_iff)
    then show "om_find (fst (backing_of w page y)) ?m = None" by (simp add: om_find_def map_of_eq_None_iff)
  qed
  then have ih: "ucore_files w d (length (pre @ [x]) + length post) page (length (pre @ [x])) (names + length n + 1) ?m =
      Inr (fold (\<lambda>x. case backing_of w page x of (a, f) \<Rightarrow> om_insert a f) post ?m)"
    using Cons.prems tk by (intro Cons.IH) auto
  show ?case
    using rd tk fresh Cons.prems(3) ih by (subst ucore_files.simps) (simp add: b Let_def)
qed

lemma fold_insert_set:
  "set (fold (\<lambda>x. case f x of (a, v) \<Rightarrow> om_insert a v) xs m) = f ` set xs \<union> set m"
  by (induction xs arbitrary: m) (auto split: prod.splits)

lemma fold_insert_ok:
  assumes "om_ok m" and "distinct (map (\<lambda>x. fst (f x)) xs)" and "\<forall>x \<in> set xs. om_find (fst (f x)) m = None"
  shows "om_ok (fold (\<lambda>x. case f x of (a, v) \<Rightarrow> om_insert a v) xs m)"
  using assms
proof (induction xs arbitrary: m)
  case (Cons x xs)
  obtain a v where x: "f x = (a, v)" by fastforce
  have "om_ok (om_insert a v m)" using Cons.prems x by (intro om_insert_ok) auto
  moreover have "\<forall>y \<in> set xs. om_find (fst (f y)) (om_insert a v m) = None"
    using Cons.prems x by (auto simp: om_find_def map_of_eq_None_iff)
  ultimately show ?case using Cons x by simp
qed simp

section \<open>Addresses of a process\<close>

interpretation files: interval_map om_ok set om_before fb_size
  by unfold_locales (simp_all add: om_before_Some om_before_None, metis om_find_iff option.inject)

lemma get_file_backing_lookup:
  "get_file_backing m vma = map_option (\<lambda>(a, f). (fb_filename f, vma - a + fb_offset f)) (files.lookup vma m)"
  by (auto simp: get_file_backing_def files.lookup_def split: option.split)

lemma pow_le: "w \<in> {4, 8} \<Longrightarrow> (256 :: nat) ^ w \<le> 2 ^ 64"
  by auto

lemma name_chars: "map (\<lambda>b. char_of (unat b)) (map (of_char :: char \<Rightarrow> u8) n) = n"
proof -
  have "char_of (unat (of_char c :: u8)) = c" for c
  proof -
    have "(of_char c :: u8) = of_nat (of_char c)" by (simp add: of_char_def)
    then show ?thesis by (simp add: unat_of_nat)
  qed
  then show ?thesis by (simp add: comp_def)
qed

lemma backing_fields:
  assumes "mapped_ok w (s, e, p, n)" and "w \<in> {4, 8}"
  shows "unat (of_nat s :: u64) = s" and "fb_size (snd (backing_of w page (s, e, p, n))) = of_nat e - of_nat s"
    and "unat (fb_size (snd (backing_of w page (s, e, p, n)))) = e - s" and "fb_filename (snd (backing_of w page (s, e, p, n))) = n"
proof -
  have lt: "s < e" "e < 256 ^ w" and le: "256 ^ w \<le> (2 ^ 64 :: nat)"
    using assms pow_le by (auto simp: mapped_ok_def)
  then have lt64: "s < 2 ^ 64" "e < 2 ^ 64" by linarith+
  then show u: "unat (of_nat s :: u64) = s" by (simp add: unat_of_nat)
  have "e + 256 ^ w - s = (e - s) + 256 ^ w" using lt by simp
  then have "(e + 256 ^ w - s) mod 256 ^ w = e - s" by (simp only: mod_add_self2) (use lt in simp)
  then have sz: "fb_size (snd (backing_of w page (s, e, p, n))) = of_nat (e - s)"
    by (simp add: backing_of_def file_backing_def)
  with lt show "fb_size (snd (backing_of w page (s, e, p, n))) = of_nat e - of_nat s" by (simp add: of_nat_diff)
  have "e - s < 2 ^ 64" using lt64 by linarith
  with sz show "unat (fb_size (snd (backing_of w page (s, e, p, n)))) = e - s" by (simp add: unat_of_nat)
  show "fb_filename (snd (backing_of w page (s, e, p, n))) = n"
    using name_chars [of n] by (simp add: backing_of_def file_backing_def)
qed

text \<open>An address inside of a mapping.\<close>

definition inside_file :: "u64 \<Rightarrow> mapped_file \<Rightarrow> bool" where
  "inside_file vma x \<longleftrightarrow> (case x of (s, e, p, n) \<Rightarrow> s \<le> unat vma \<and> unat vma < e)"

lemma covers_inside:
  assumes "mapped_ok w x" and "w \<in> {4, 8}"
  shows "files.covers (backing_of w page x) vma \<longleftrightarrow> inside_file vma x"
proof -
  obtain s e p n where x: "x = (s, e, p, n)" by (metis prod_cases4)
  note f = backing_fields [OF assms(1) [unfolded x] assms(2)]
  have fst: "fst (backing_of w page (s, e, p, n)) = of_nat s" by (simp add: backing_of_def)
  have le: "(of_nat s :: u64) \<le> vma \<longleftrightarrow> s \<le> unat vma" using f(1) by (simp add: word_le_nat_alt)
  have "unat (vma - of_nat s) = unat vma - s" if "s \<le> unat vma"
    using that le f(1) by (simp add: unat_sub)
  then show ?thesis
    using le f(3) by (auto simp: x files.covers_def fst inside_file_def word_less_nat_alt)
qed

lemma disjoint_pairwise:
  assumes "disjoint_files xs" and "x \<in> set xs" and "y \<in> set xs" and "x \<noteq> y"
  shows "fst (snd x) \<le> fst y \<or> fst (snd y) \<le> fst x"
  using assms by (induction xs) (auto simp: disjoint_files_def split_beta)

lemma disjoint_distinct: "disjoint_files xs \<Longrightarrow> \<forall>x \<in> set xs. mapped_ok w x \<Longrightarrow> distinct xs"
proof (induction xs)
  case (Cons x xs)
  have "x \<notin> set xs"
  proof
    assume "x \<in> set xs"
    with Cons.prems(1) have "case x of (s, e, p, n) \<Rightarrow> e \<le> s" by (auto simp: disjoint_files_def)
    with Cons.prems(2) show False by (auto simp: mapped_ok_def)
  qed
  with Cons show ?case by (simp add: disjoint_files_def)
qed simp

lemma backing_inj:
  assumes ok: "\<forall>x \<in> set xs. mapped_ok w x" and dj: "disjoint_files xs" and w: "w \<in> {4, 8}"
    and xy: "x \<in> set xs" "y \<in> set xs" "fst (backing_of w page x) = fst (backing_of w page y)"
  shows "x = y"
proof (rule ccontr)
  assume ne: "x \<noteq> y"
  obtain s e p n s' e' p' n' where x: "x = (s, e, p, n)" and y: "y = (s', e', p', n')" by (metis prod_cases4)
  have u: "unat (of_nat s :: u64) = s" "unat (of_nat s' :: u64) = s'"
    by (rule backing_fields(1) [OF bspec [OF ok xy(1) [unfolded x]] w])
      (rule backing_fields(1) [OF bspec [OF ok xy(2) [unfolded y]] w])
  have "(of_nat s :: u64) = of_nat s'" using xy(3) by (simp only: x y backing_of_def split_conv fst_conv)
  with u have "s = s'" by metis
  moreover have "s < e" "s' < e'" using ok xy x y by (auto simp: mapped_ok_def)
  ultimately show False using disjoint_pairwise [OF dj xy(1,2) ne] by (simp add: x y)
qed

definition file_map :: "nat \<Rightarrow> nat \<Rightarrow> mapped_file list \<Rightarrow> (u64, linux_file_backing) omap" where
  "file_map w page xs = fold (\<lambda>x. case backing_of w page x of (a, f) \<Rightarrow> om_insert a f) xs []"

lemma keys_distinct:
  assumes "\<forall>x \<in> set xs. mapped_ok w x" and "disjoint_files xs" and "w \<in> {4, 8}"
  shows "distinct (map (\<lambda>x. fst (backing_of w page x)) xs)"
  using disjoint_distinct [OF assms(2,1)] backing_inj [OF assms] by (auto simp: distinct_map inj_on_def)

lemma set_file_map: "set (file_map w page xs) = backing_of w page ` set xs"
  by (simp add: file_map_def fold_insert_set)

lemma file_map_ok:
  assumes "\<forall>x \<in> set xs. mapped_ok w x" and "disjoint_files xs" and "w \<in> {4, 8}"
  shows "om_ok (file_map w page xs)"
  using keys_distinct [OF assms, of page] unfolding file_map_def by (intro fold_insert_ok) (auto simp: om_find_def)

lemma file_map_apart:
  assumes ok: "\<forall>x \<in> set xs. mapped_ok w x" and dj: "disjoint_files xs" and w: "w \<in> {4, 8}"
  shows "files.apart (file_map w page xs)"
  unfolding files.apart_def set_file_map
proof safe
  fix a b u v s e p n s' e' p' n'
  assume x: "(a, u) = backing_of w page (s, e, p, n)" "(s, e, p, n) \<in> set xs"
    and y: "(b, v) = backing_of w page (s', e', p', n')" "(s', e', p', n') \<in> set xs" and lt: "a < b"
  note fx = backing_fields [OF bspec [OF ok x(2)] w] and fy = backing_fields [OF bspec [OF ok y(2)] w]
  have ab: "a = of_nat s" "b = of_nat s'" using x(1) y(1) by (simp_all add: backing_of_def)
  with lt fx(1) fy(1) have "s < s'" by (simp add: word_less_nat_alt)
  with disjoint_pairwise [OF dj x(2) y(2)] ok y(2) have "e \<le> s'" by (auto simp: mapped_ok_def)
  moreover have "unat (b - a) = s' - s" using \<open>s < s'\<close> lt fx(1) fy(1) by (simp add: ab unat_sub)
  moreover have "unat (fb_size u) = e - s" using fx(3) [of page] x(1) by (metis snd_conv)
  ultimately show "fb_size u \<le> b - a" by (simp add: word_le_nat_alt)
qed

lemma parse_file_note:
  assumes ok: "\<forall>x \<in> set xs. mapped_ok w x" "disjoint_files xs" "w \<in> {4, 8}"
    and page: "page < 256 ^ w" and count: "length xs < 256 ^ w" and small: "length (file_note w page xs) < 2 ^ 64"
  shows "parse_ucore_metadata w (file_note w page xs) = Inr (file_map w page xs)"
proof -
  let ?d = "file_note w page xs"
  have lens: "length ?d = 2 * w + 3 * w * length xs + length (concat (map name_bytes xs))"
    by (simp add: file_note_def length_ranges)
  have "ucore_files w ?d (length ([] :: mapped_file list) + length xs) page (length ([] :: mapped_file list))
      (2 * w + 3 * w * length xs) [] = Inr (file_map w page xs)"
    unfolding file_map_def
  proof (rule ucore_files_run)
    show "?d = (le_bytes w (length xs) @ le_bytes w page) @ concat (map (range_bytes w) ([] @ xs)) @ concat (map name_bytes xs)"
      by (simp add: file_note_def)
    have "length (le_bytes w (length xs) @ le_bytes w page @ concat (map (range_bytes w) xs)) = 2 * w + 3 * w * length xs"
      by (simp add: length_ranges)
    then show "drop (2 * w + 3 * w * length xs) ?d = concat (map name_bytes xs)"
      by (simp add: file_note_def drop_append flip: append_assoc)
  qed (use ok keys_distinct [OF ok] lens in \<open>auto simp: om_find_def\<close>)
  moreover have "le_val (take w ?d) = length xs" "le_val (take w (drop w ?d)) = page"
    using page count by (simp_all add: file_note_def)
  moreover have "(2 * w + 3 * w * length xs) mod 2 ^ 64 = 2 * w + 3 * w * length xs" using small lens by simp
  ultimately show ?thesis using lens by (simp add: parse_ucore_metadata_def)
qed

text \<open>
  C34. The file behind an address. When the core file of a process lists its mapped files the way the kernel writes
  them - a count, the size of a page, the ranges with their offsets in pages, and the names, each number with
  4 or 8 bytes - and the ranges are not empty and do not overlap, the list is read without an error, and an address in the range
  of a file has this file, at the offset of its distance from the start of the range added to the offset of the range
  (the product with the page size modulo the width); an address in none has no file.
\<close>

theorem mapped_files_found:
  assumes w: "w \<in> {4, 8}" and ok: "\<forall>x \<in> set xs. mapped_ok w x" and dj: "disjoint_files xs" and page: "page < 256 ^ w"
    and count: "length xs < 256 ^ w" and small: "length (file_note w page xs) < 2 ^ 64"
  shows "\<exists>m. parse_ucore_metadata w (file_note w page xs) = Inr m \<and>
    (\<forall>vma. get_file_backing m vma =
      (case find (inside_file vma) xs of
         None \<Rightarrow> None
       | Some (s, e, p, n) \<Rightarrow> Some (n, vma - of_nat s + of_nat (p * page mod 256 ^ w))))"
proof -
  let ?m = "file_map w page xs"
  note spec = files.lookup_spec [OF file_map_ok [OF ok dj w, of page] file_map_apart [OF ok dj w, of page]]
    and none = files.lookup_none [OF file_map_ok [OF ok dj w, of page] file_map_apart [OF ok dj w, of page]]
  have "get_file_backing ?m vma = (case find (inside_file vma) xs of
      None \<Rightarrow> None | Some (s, e, p, n) \<Rightarrow> Some (n, vma - of_nat s + of_nat (p * page mod 256 ^ w)))" for vma
  proof -
    have cov: "files.covers (backing_of w page x) vma \<longleftrightarrow> inside_file vma x" if "x \<in> set xs" for x
      using covers_inside [OF bspec [OF ok that] w] .
    show ?thesis
    proof (cases "find (inside_file vma) xs")
      case None
      then have "\<not> inside_file vma x" if "x \<in> set xs" for x using that unfolding find_None_iff by blast
      with none cov have "files.lookup vma ?m = None" by (auto simp: set_file_map)
      with None show ?thesis by (simp add: get_file_backing_lookup)
    next
      case (Some x)
      then have x: "x \<in> set xs" "inside_file vma x" by (auto simp: find_Some_iff)
      with cov spec have lk: "files.lookup vma ?m = Some (backing_of w page x)" by (auto simp: set_file_map)
      obtain s e p n where e: "x = (s, e, p, n)" by (metis prod_cases4)
      have "fb_filename (snd (backing_of w page x)) = n" using backing_fields(4) [OF bspec [OF ok x(1), unfolded e] w] e by simp
      with Some lk e show ?thesis by (simp add: get_file_backing_lookup backing_of_def file_backing_def)
    qed
  qed
  with parse_file_note [OF ok dj w page count small] show ?thesis by blast
qed

lemma mapped_files_found_witness:
  "\<exists>m. parse_ucore_metadata 4 (file_note 4 4096 [(65536, 69632, 2, ''a''), (73728, 77824, 0, ''b'')]) = Inr m \<and>
     get_file_backing m 65552 = Some (''a'', 8208) \<and> get_file_backing m 70000 = None"
  using mapped_files_found [of 4 "[(65536, 69632, 2, ''a''), (73728, 77824, 0, ''b'')]" 4096]
  by (auto simp: mapped_ok_def disjoint_files_def file_note_def range_bytes_def name_bytes_def inside_file_def)

text \<open>
  The number of files is not bounded: its product with the size of an entry overflows, and a note with a header only
  is accepted; the first entry is then read behind the end of the data.
\<close>

lemma file_count_overflow:
  assumes "page < 256 ^ 8"
  shows "parse_ucore_metadata 8 (le_bytes 8 (2 ^ 61) @ le_bytes 8 page) = Inl Crash"
  using assms by (simp add: parse_ucore_metadata_def ucore_files.simps ucore_word_def)

section \<open>Kernel symbols\<close>

lemma label_back_best:
  assumes "sorted_wrt (\<lambda>x y. fst (snd y) \<le> fst (snd x)) (l # es)"
  shows "\<exists>r. label_back es (Some l) = Some r \<and> r \<in> set (l # es) \<and> fst (snd r) = fst (snd l) \<and>
    (isupper (fst (snd (snd (snd r)))) \<or>
      (\<forall>e \<in> set (l # es). fst (snd e) = fst (snd l) \<longrightarrow> \<not> isupper (fst (snd (snd (snd e))))))"
  using assms
proof (induction es arbitrary: l)
  case (Cons e es)
  obtain i a n type m where e: "e = (i, a, n, type, m)" by (metis prod_cases5)
  obtain j b n' type' m' where l: "l = (j, b, n', type', m')" by (metis prod_cases5)
  show ?case
  proof (cases "a < b")
    case True
    then have "fst (snd x) < b" if "x \<in> set es" for x using that Cons.prems by (auto simp: e)
    then have "\<forall>x \<in> set es. fst (snd x) \<noteq> b" by fastforce
    with True show ?thesis by (auto simp: e l)
  next
    case False
    with Cons.prems have ab: "a = b" by (simp add: e l)
    show ?thesis
    proof (cases "compare_sym_type type type' > 0")
      case True
      then have "isupper type" "\<not> isupper type'" by (auto simp: compare_sym_type_def of_bool_def split: if_splits)
      with True ab Cons.IH [of e] Cons.prems show ?thesis by (fastforce simp: e l)
    next
      case ct: False
      then have "isupper type \<longrightarrow> isupper type'" by (auto simp: compare_sym_type_def)
      with ct ab Cons.IH [of l] Cons.prems show ?thesis by (fastforce simp: e l)
    qed
  qed
qed simp

lemma sorted_om_insert:
  "sorted_wrt (\<lambda>x y. fst x \<le> fst y) m \<Longrightarrow> sorted_wrt (\<lambda>x y. fst x \<le> fst y) (om_insert k v m)" for k :: u64
proof (induction k v m rule: om_insert.induct)
  case (2 k v a w m)
  then show ?case by (cases "k < a") (auto intro: order.strict_implies_order order_trans)
qed simp

text \<open>The symbols of the text, in the order of the table.\<close>

definition ksym_entry :: "ksym \<Rightarrow> u64 \<times> string \<times> char \<times> string option" where
  "ksym_entry x = (case x of (a, t, n, m) \<Rightarrow> (a, n, t, m))"

lemma kcore_symbol_table: "kcore_symbol x k = (b, k') \<Longrightarrow>
    b \<and> kallsyms k' = om_insert (fst (ksym_entry x)) (snd (ksym_entry x)) (kallsyms k)"
  by (cases x) (auto simp: kcore_symbol_def ksym_entry_def Let_def)

lemma iterate_symbols:
  "sym_iterate_kallsyms ls kcore_symbol k = Inr k' \<Longrightarrow> sorted_wrt (\<lambda>x y. fst x \<le> fst y) (kallsyms k) \<Longrightarrow>
   \<exists>syms. map kallsyms_line ls = map Inr syms \<and> set (kallsyms k') = ksym_entry ` set syms \<union> set (kallsyms k) \<and>
     sorted_wrt (\<lambda>x y. fst x \<le> fst y) (kallsyms k')"
proof (induction ls arbitrary: k)
  case (Cons line ls)
  then obtain x where x: "kallsyms_line line = Inr x" by auto
  obtain b k1 where k1: "kcore_symbol x k = (b, k1)" by fastforce
  note t = kcore_symbol_table [OF k1]
  with Cons.prems x k1 have "sym_iterate_kallsyms ls kcore_symbol k1 = Inr k'" by simp
  moreover have "sorted_wrt (\<lambda>x y. fst x \<le> fst y) (kallsyms k1)" using t Cons.prems(2) by (simp add: sorted_om_insert)
  ultimately obtain syms where "map kallsyms_line ls = map Inr syms" "set (kallsyms k') = ksym_entry ` set syms \<union> set (kallsyms k1)"
    "sorted_wrt (\<lambda>x y. fst x \<le> fst y) (kallsyms k')" using Cons.IH by blast
  with x t show ?case by (intro exI [of _ "x # syms"]) auto
qed simp

lemma kcore_sections_table: "kcore_sections m secs k = Inr k' \<Longrightarrow> kallsyms k' = kallsyms k"
proof (induction secs arbitrary: k)
  case (Cons x secs)
  obtain sec content where x: "x = (sec, content)" by (cases x)
  show ?case
  proof (cases "ignored_section sec")
    case True
    with Cons show ?thesis by (simp add: x)
  next
    case False
    let ?k1 = "k\<lparr>mod_sections := map (\<lambda>(n, ss). (n, if n = m then ss @ [(sec, strtoull16 content)] else ss)) (mod_sections k)\<rparr>"
    obtain ins old sm where e: "om_emplace (strtoull16 content) (m, sec) (sections_map k) = (ins, old, sm)" by (metis prod_cases3)
    with Cons.prems False have "ins" by (simp add: x Let_def split: if_splits)
    with Cons.prems False e have "kcore_sections m secs (?k1\<lparr>sections_map := sm\<rparr>) = Inr k'" by (simp add: x Let_def)
    from Cons.IH [OF this] show ?thesis by simp
  qed
qed simp

lemma kcore_modules_table: "kcore_modules ds k = Inr k' \<Longrightarrow> kallsyms k' = kallsyms k"
proof (induction ds arbitrary: k)
  case (Cons d ds)
  let ?k1 = "k\<lparr>mod_sections := mod_sections k @ [(mo_name d, [])]\<rparr>"
  show ?case
  proof (cases "mo_sections d")
    case None
    then have "kcore_modules (d # ds) k = kcore_modules ds ?k1" by (simp add: Let_def)
    with Cons.prems have "kcore_modules ds ?k1 = Inr k'" by (simp only:)
    from Cons.IH [OF this] show ?thesis by simp
  next
    case (Some secs)
    let ?k2 = "case mo_buildid d of None \<Rightarrow> ?k1 | Some b \<Rightarrow> ?k1\<lparr>mod_buildids := mod_buildids ?k1 @ [(mo_name d, b)]\<rparr>"
    have "kcore_modules (d # ds) k = bindR (kcore_sections (mo_name d) secs ?k2) (kcore_modules ds)" by (simp add: Some Let_def)
    with Cons.prems obtain k3 where k3: "kcore_sections (mo_name d) secs ?k2 = Inr k3" "kcore_modules ds k3 = Inr k'"
      by (simp only: bindR_eq_Inr) blast
    have "kallsyms ?k2 = kallsyms k" by (simp split: option.split)
    with kcore_sections_table [OF k3(1)] Cons.IH [OF k3(2)] show ?thesis by simp
  qed
qed simp

lemma kcore_kaslr_table: "kcore_kaslr h k = Inr k' \<Longrightarrow> kallsyms k' = kallsyms k"
  by (cases "store_get h (kc_store k) ''kernel''")
    (auto simp: kcore_kaslr_def split: option.splits found_obj.splits list.splits)

lemma kcore_new_table:
  assumes "linux_kcore_new h procfs sysfs sysroot dbg = Inr k" and "h_text h (procfs @ ''/kallsyms'') = Some txt"
  shows "\<exists>syms. map kallsyms_line (file_lines txt) = map Inr syms \<and> set (kallsyms k) = ksym_entry ` set syms \<and>
    sorted_wrt (\<lambda>x y. fst x \<le> fst y) (kallsyms k)"
proof -
  let ?k0 = "\<lparr>vmlinux_start = 0, vmlinux_end = 0, bpf_start = 0, kaslr_offset = 0, kernel_release = [], kallsyms = [],
      mod_sections = [], mod_buildids = [], sections_map = [], kc_store = Single_store []\<rparr> :: linux_kcore"
  from assms obtain k1 k2 k3 ds where k: "sym_iterate_kallsyms (file_lines txt) kcore_symbol ?k0 = Inr k1"
    "kcore_kaslr h k2 = Inr k3" "kallsyms k2 = kallsyms k1" "kcore_modules ds k3 = Inr k"
    by (fastforce simp: linux_kcore_new_def split: if_splits option.splits)
  have "kallsyms k = kallsyms k1"
    using kcore_modules_table [OF k(4)] kcore_kaslr_table [OF k(2)] k(3) by simp
  with iterate_symbols [OF k(1)] show ?thesis by simp
qed

text \<open>The table in front of an address, from its end on.\<close>

lemma labels_before:
  assumes "sorted_wrt (\<lambda>x y. fst x \<le> fst y) (ks :: (u64 \<times> string \<times> char \<times> string option) list)"
    and es_def: "es = rev (takeWhile (\<lambda>(i, a, e). a \<le> vma) (enumerate 0 ks))"
  shows "sorted_wrt (\<lambda>x y. fst (snd y) \<le> fst (snd x)) es" and "snd ` set es = {x \<in> set ks. fst x \<le> vma}"
proof -
  have st: "sorted_wrt (\<lambda>x y. fst (snd x) \<le> fst (snd y)) (enumerate n ks)" for n
    using assms(1) sorted_wrt_map [of "\<lambda>x y. fst x \<le> fst y" snd "enumerate n ks"] by simp
  then have "sorted_wrt (\<lambda>x y. fst (snd x) \<le> fst (snd y)) (takeWhile (\<lambda>(i, a, e). a \<le> vma) (enumerate 0 ks))"
    by (subst takeWhile_eq_take) (rule sorted_wrt_take [OF st])
  then show "sorted_wrt (\<lambda>x y. fst (snd y) \<le> fst (snd x)) es" by (simp add: es_def sorted_wrt_rev)
  have "snd ` set (takeWhile (\<lambda>(i, a, e). a \<le> vma) (enumerate n ks)) = {x \<in> set ks. fst x \<le> vma}" for n
    using assms(1)
  proof (induction ks arbitrary: n)
    case (Cons x ks)
    show ?case
    proof (cases "fst x \<le> vma")
      case True
      with Cons show ?thesis by (auto simp: case_prod_beta)
    next
      case False
      with Cons.prems have "\<forall>y \<in> set ks. \<not> fst y \<le> vma" by (auto intro: order_trans)
      with False show ?thesis by (auto simp: case_prod_beta)
    qed
  qed simp
  then show "snd ` set es = {x \<in> set ks. fst x \<le> vma}" by (simp add: es_def)
qed

text \<open>
  C35. The label of an address is the kernel symbol in front of it. For the memory of the kernel, set up with the symbols of
  \<^verbatim>\<open>kallsyms\<close>, every line of which is then a valid one, the label of an address is a symbol of the table
  whose address is the greatest one that is not behind it; among the symbols at that address it is a global one if there is one. There
  is none only if all symbols are behind the address.
\<close>

theorem label_is_nearest:
  assumes "linux_kcore_new h procfs sysfs sysroot dbg = Inr k" and "h_text h (procfs @ ''/kallsyms'') = Some txt"
  shows "\<exists>syms. map kallsyms_line (file_lines txt) = map Inr syms \<and>
    (case get_label k vma of
       None \<Rightarrow> \<forall>(b, t, n, m) \<in> set syms. vma < b
     | Some (i, a, name, type, module) \<Rightarrow> (a, type, name, module) \<in> set syms \<and> a \<le> vma \<and>
         (\<forall>(b, t, n, m) \<in> set syms. b \<le> vma \<longrightarrow> b \<le> a) \<and>
         (isupper type \<or> (\<forall>(b, t, n, m) \<in> set syms. b = a \<longrightarrow> \<not> isupper t)))"
proof -
  from kcore_new_table [OF assms] obtain syms where syms: "map kallsyms_line (file_lines txt) = map Inr syms"
    "set (kallsyms k) = ksym_entry ` set syms" "sorted_wrt (\<lambda>x y. fst x \<le> fst y) (kallsyms k)" by blast
  define es where "es = rev (takeWhile (\<lambda>(i, a, e). a \<le> vma) (enumerate 0 (kallsyms k)))"
  have srt: "sorted_wrt (\<lambda>x y. fst (snd y) \<le> fst (snd x)) es" and ses: "snd ` set es = {x \<in> ksym_entry ` set syms. fst x \<le> vma}"
    using labels_before [OF syms(3) es_def] by (simp_all add: syms(2))
  have mem: "(\<exists>i. (i, b, n, t, m) \<in> set es) \<longleftrightarrow> (b, t, n, m) \<in> set syms \<and> b \<le> vma" for b t n m
  proof -
    have "(\<exists>i. (i, b, n, t, m) \<in> set es) \<longleftrightarrow> (b, n, t, m) \<in> snd ` set es" by force
    also have "\<dots> \<longleftrightarrow> (b, t, n, m) \<in> set syms \<and> b \<le> vma" by (force simp: ses ksym_entry_def image_iff)
    finally show ?thesis .
  qed
  show ?thesis
  proof (cases es)
    case Nil
    then have "get_label k vma = None" by (simp add: get_label_def es_def)
    moreover have "\<forall>(b, t, n, m) \<in> set syms. vma < b" using mem Nil by (fastforce simp: not_le)
    ultimately show ?thesis using syms(1) by auto
  next
    case (Cons l ls)
    with srt label_back_best obtain r where r: "label_back ls (Some l) = Some r" "r \<in> set es" "fst (snd r) = fst (snd l)"
      "isupper (fst (snd (snd (snd r)))) \<or> (\<forall>e \<in> set es. fst (snd e) = fst (snd l) \<longrightarrow> \<not> isupper (fst (snd (snd (snd e)))))"
      by metis
    obtain i a n t m where e: "r = (i, a, n, t, m)" by (metis prod_cases5)
    have "get_label k vma = Some r" using r(1) Cons by (simp add: get_label_def es_def)
    moreover have "(a, t, n, m) \<in> set syms \<and> a \<le> vma" using mem r(2) e by blast
    moreover have "b \<le> a" if bs: "(b, t', n', m') \<in> set syms" "b \<le> vma" for b t' n' m'
    proof -
      obtain j where "(j, b, n', t', m') \<in> set es" using mem bs by blast
      with srt Cons r(3) e show ?thesis by auto
    qed
    moreover have "\<not> isupper t'" if as: "\<not> isupper t" "(a, t', n', m') \<in> set syms" for t' n' m'
    proof -
      have "a \<le> vma" using mem r(2) e by blast
      with as obtain j where "(j, a, n', t', m') \<in> set es" using mem by blast
      with r(3,4) e as(1) show ?thesis by fastforce
    qed
    ultimately show ?thesis using syms(1) e by fastforce
  qed
qed

text \<open>A small kernel with two symbols at the same address.\<close>

definition ex_kallsyms :: string where
  "ex_kallsyms = ''10 T _start'' @ [CHR 0x0A] @ ''18 T bar'' @ [CHR 0x0A] @ ''18 t foo'' @ [CHR 0x0A] @ ''20 B _end'' @ [CHR 0x0A]"

definition ex_host :: host where
  "ex_host = \<lparr>h_text = (\<lambda>p. if p = ''/kallsyms'' then Some ex_kallsyms else if p = ''/version'' then Some ''Linux version 6.6'' else None),
     h_exists = (\<lambda>p. False), h_obj = (\<lambda>p. Inl Crash)\<rparr>"

lemma label_is_nearest_witness:
  "\<exists>k syms i. linux_kcore_new ex_host '''' (Some []) [] [] = Inr k \<and> map kallsyms_line (file_lines ex_kallsyms) = map Inr syms \<and>
     get_label k 0x19 = Some (i, 0x18, ''bar'', CHR ''T'', None) \<and> (0x18, CHR ''T'', ''bar'', None) \<in> set syms"
proof -
  have "(case linux_kcore_new ex_host '''' (Some []) [] [] of Inl e \<Rightarrow> False
      | Inr k \<Rightarrow> get_label k 0x19 = Some (1, 0x18, ''bar'', CHR ''T'', None))"
    by code_simp
  then obtain k where k: "linux_kcore_new ex_host '''' (Some []) [] [] = Inr k" "get_label k 0x19 = Some (1, 0x18, ''bar'', CHR ''T'', None)"
    by (auto split: sum.splits)
  have "h_text ex_host ('''' @ ''/kallsyms'') = Some ex_kallsyms" by (simp add: ex_host_def)
  from label_is_nearest [OF k(1) this, where vma = "0x19"] k show ?thesis by auto
qed

end
