(* ===== verification/SymProps.thy ===== *)
theory SymProps
  imports SymTool
begin

text \<open>
  The caches of the symbol look-up change nothing: a query in any state that earlier queries have left answers as if the files
  were opened, and \<^verbatim>\<open>addr2line\<close> asked, afresh.
\<close>

section \<open>Tables of remembered results\<close>

text \<open>
  The interface: a table of results in the state, the calculation that it saves, and when a state has one more entry.
\<close>

locale memo_table =
  fixes look :: "'s \<Rightarrow> 'k \<Rightarrow> 'v option" and calc :: "'k \<Rightarrow> 'e + 'v" and stored :: "'k \<Rightarrow> 'v \<Rightarrow> 's \<Rightarrow> 's \<Rightarrow> bool"
  assumes look_stored: "stored k v s t \<Longrightarrow> look t k' = (if k' = k then Some v else look s k')"
begin

definition consistent :: "'s \<Rightarrow> bool" where
  "consistent s \<longleftrightarrow> (\<forall>k v. look s k = Some v \<longrightarrow> calc k = Inr v)"

lemma hit: "consistent s \<Longrightarrow> look s k = Some v \<Longrightarrow> calc k = Inr v"
  by (simp add: consistent_def)

lemma put: "consistent s \<Longrightarrow> stored k v s t \<Longrightarrow> calc k = Inr v \<Longrightarrow> consistent t"
  by (simp add: consistent_def look_stored)

lemma same_table: "consistent s \<Longrightarrow> (\<And>k. look t k = look s k) \<Longrightarrow> consistent t"
  by (simp add: consistent_def)

end

section \<open>Look-up without a cache\<close>

text \<open>An object by what it is, not by where it is kept: a core file by its number, or an opened file.\<close>

datatype object = Core nat | File string obj_file

fun resolve :: "sym_state \<Rightarrow> objref \<Rightarrow> object" where
  "resolve s (Core_obj c) = Core c"
| "resolve s (Opened_obj i) = (case sy_objs s ! i of (path, obj) \<Rightarrow> File path obj)"

definition valid :: "sym_state \<Rightarrow> objref \<Rightarrow> bool" where
  "valid s r \<longleftrightarrow> (case r of Core_obj c \<Rightarrow> True | Opened_obj i \<Rightarrow> i < length (sy_objs s))"

definition valid_opt :: "sym_state \<Rightarrow> objref option \<Rightarrow> bool" where
  "valid_opt s r \<longleftrightarrow> (case r of None \<Rightarrow> True | Some x \<Rightarrow> valid s x)"

fun object_file :: "memory_view \<Rightarrow> core_kind list \<Rightarrow> object \<Rightarrow> string \<times> obj_file" where
  "object_file v kinds (Core c) = (case kinds ! c of Elf_core name \<Rightarrow> name | _ \<Rightarrow> [], cores v ! c)"
| "object_file v kinds (File path obj) = (path, obj)"

fun found_object :: "nat \<Rightarrow> found_obj \<Rightarrow> object" where
  "found_object c Itself = Core c"
| "found_object c (Opened path obj) = File path obj"

text \<open>
  The binary and the debug information of a file: the debug information by the build id of the binary, where it has one and there
  is such a file, else by the name.
\<close>

definition files_of :: "sym_env \<Rightarrow> memory_view \<Rightarrow> core_kind list \<Rightarrow> nat \<times> string \<Rightarrow> stop + object option \<times> object option" where
  "files_of E v kinds k =
     (case k of (c, filename) \<Rightarrow>
        let h = se_host E; store = core_store (kinds ! c); obj = map_option (found_object c) in
        bindR (store_get h store filename) (\<lambda>bin.
        bindR
          (case obj bin of
             None \<Rightarrow> Inr None
           | Some b \<Rightarrow>
               (case object_file v kinds b of (path, file) \<Rightarrow>
                  bindR (get_build_id (se_contents E path) file) (\<lambda>buildid. case buildid of
                    None \<Rightarrow> Inr None
                  | Some i \<Rightarrow> store_get_dbg_buildid h store i)))
          (\<lambda>by_id.
        bindR (if by_id = None then store_get_dbg h store filename else Inr by_id) (\<lambda>dbg.
        Inr (obj bin, obj dbg)))))"

text \<open>
  The symbol of an address: where a core file gives the file and an offset in it, the binary translates the offset and
  has to be there; where it gives a section, any of the two files does.
\<close>

definition symbol_at :: "sym_env \<Rightarrow> memory_view \<Rightarrow> core_kind list \<Rightarrow> u64 \<Rightarrow> stop + (object \<times> string option \<times> u64) option" where
  "symbol_at E v kinds vma =
     (case core_at v vma of
        None \<Rightarrow> Inr None
      | Some c \<Rightarrow>
          (case core_file_backing (kinds ! c) vma of
             Some (filename, off) \<Rightarrow>
               bindR (files_of E v kinds (c, filename)) (\<lambda>(bin, dbg).
                 Inr (map_option (\<lambda>b. (case dbg of None \<Rightarrow> b | Some d \<Rightarrow> d, None,
                   fileoff_to_va off (snd (object_file v kinds b)))) bin))
           | None \<Rightarrow>
               (case core_file_vma (kinds ! c) vma of
                  None \<Rightarrow> Inr None
                | Some (filename, sect, a) \<Rightarrow>
                    bindR (files_of E v kinds (c, filename)) (\<lambda>(bin, dbg).
                      Inr (map_option (\<lambda>ob. (ob, sect, a)) (case dbg of None \<Rightarrow> bin | Some d \<Rightarrow> Some d))))))"

text \<open>What \<^verbatim>\<open>addr2line\<close> answers for an object; a section without a name stands for none.\<close>

definition answer_of :: "sym_env \<Rightarrow> memory_view \<Rightarrow> core_kind list \<Rightarrow> object \<times> string \<times> u64 \<Rightarrow> stop + sym_answer" where
  "answer_of E v kinds k =
     (case k of (ob, sect, addr) \<Rightarrow>
        case se_addr2line E (addr2line_args E (fst (object_file v kinds ob)) (if sect = [] then None else Some sect)) (addr_line addr) of
          None \<Rightarrow> Inl (Exit (- 1))
        | Some (line1, line2) \<Rightarrow> parse_answer line1 line2)"

section \<open>The two tables\<close>

definition both :: "sym_state \<Rightarrow> objref option \<times> objref option \<Rightarrow> object option \<times> object option" where
  "both s x = (map_option (resolve s) (fst x), map_option (resolve s) (snd x))"

definition look_files :: "sym_state \<Rightarrow> nat \<times> string \<Rightarrow> (object option \<times> object option) option" where
  "look_files s k = map_option (both s) (map_of (sy_cache s) k)"

text \<open>References stay what they were when more files are opened.\<close>

definition refs_ok :: "sym_state \<Rightarrow> bool" where
  "refs_ok s \<longleftrightarrow> (\<forall>(k, bin, dbg) \<in> set (sy_cache s). valid_opt s bin \<and> valid_opt s dbg)"

definition files_stored :: "nat \<times> string \<Rightarrow> object option \<times> object option \<Rightarrow> sym_state \<Rightarrow> sym_state \<Rightarrow> bool" where
  "files_stored k x s t \<longleftrightarrow> refs_ok s \<and> (\<exists>bin dbg new. x = both t (bin, dbg) \<and> valid_opt t bin \<and> valid_opt t dbg \<and>
     sy_objs t = sy_objs s @ new \<and> sy_cache t = (k, (bin, dbg)) # sy_cache s)"

lemma valid_more: "sy_objs t = sy_objs s @ new \<Longrightarrow> valid s r \<Longrightarrow> valid t r \<and> resolve t r = resolve s r"
  by (cases r) (auto simp: valid_def nth_append)

lemma valid_opt_more:
  "sy_objs t = sy_objs s @ new \<Longrightarrow> valid_opt s r \<Longrightarrow> valid_opt t r \<and> map_option (resolve t) r = map_option (resolve s) r"
  by (auto simp: valid_opt_def dest: valid_more split: option.splits)

lemma refs_okD: "refs_ok s \<Longrightarrow> map_of (sy_cache s) k = Some (bin, dbg) \<Longrightarrow> valid_opt s bin \<and> valid_opt s dbg"
  by (auto simp: refs_ok_def dest!: map_of_SomeD)

interpretation files: memo_table look_files "files_of E v kinds" files_stored for E v kinds
proof
  fix k x s t k'
  assume "files_stored k x s t"
  then obtain bin dbg new where st: "refs_ok s" "x = both t (bin, dbg)" "sy_objs t = sy_objs s @ new"
    "sy_cache t = (k, (bin, dbg)) # sy_cache s" by (auto simp: files_stored_def)
  show "look_files t k' = (if k' = k then Some x else look_files s k')"
  proof (cases "k' = k")
    case False
    have "both t y = both s y" if y: "map_of (sy_cache s) k' = Some y" for y
      using refs_okD [OF st(1), of k' "fst y" "snd y"] y valid_opt_more [OF st(3)] by (simp add: both_def)
    with st False show ?thesis by (cases "map_of (sy_cache s) k'") (simp_all add: look_files_def)
  qed (simp add: look_files_def st)
qed

definition look_answers :: "sym_state \<Rightarrow> (objref \<times> string) \<times> u64 \<Rightarrow> sym_answer option" where
  "look_answers s k = (case map_of (sy_servers s) (fst k) of None \<Rightarrow> None | Some cached \<Rightarrow> map_of cached (snd k))"

definition answer_stored :: "(objref \<times> string) \<times> u64 \<Rightarrow> sym_answer \<Rightarrow> sym_state \<Rightarrow> sym_state \<Rightarrow> bool" where
  "answer_stored k a s t \<longleftrightarrow> sy_servers t =
     (fst k, (snd k, a) # (case map_of (sy_servers s) (fst k) of None \<Rightarrow> [] | Some cached \<Rightarrow> cached)) # sy_servers s"

interpretation answers: memo_table look_answers "\<lambda>((r, sect), a). answer_of E v kinds (rs r, sect, a)" answer_stored
  for E v kinds rs
  by unfold_locales (auto simp: look_answers_def answer_stored_def split: option.splits)

text \<open>A state that queries leave behind: both tables are consistent, and their references are to objects there are.\<close>

definition servers_ok :: "sym_state \<Rightarrow> bool" where
  "servers_ok s \<longleftrightarrow> (\<forall>(k, cached) \<in> set (sy_servers s). valid s (fst k))"

definition sym_ok :: "sym_env \<Rightarrow> memory_view \<Rightarrow> sym_state \<Rightarrow> bool" where
  "sym_ok E v s \<longleftrightarrow> refs_ok s \<and> files.consistent E v (sy_kinds s) s \<and>
     servers_ok s \<and> answers.consistent E v (sy_kinds s) (resolve s) s"

text \<open>The state with more objects and nothing else.\<close>

definition extends :: "sym_state \<Rightarrow> sym_state \<Rightarrow> bool" where
  "extends s t \<longleftrightarrow> (\<exists>new. t = s\<lparr>sy_objs := sy_objs s @ new\<rparr>)"

lemma extends_refl: "extends s s"
  unfolding extends_def by (intro exI [of _ "[]"]) simp

lemma extends_trans: "extends s t \<Longrightarrow> extends t u \<Longrightarrow> extends s u"
  by (auto simp: extends_def)

lemma extends_valid:
  "extends s t \<Longrightarrow> valid s r \<Longrightarrow> valid t r \<and> resolve t r = resolve s r"
  "extends s t \<Longrightarrow> valid_opt s x \<Longrightarrow> valid_opt t x \<and> map_option (resolve t) x = map_option (resolve s) x"
  unfolding extends_def using valid_more valid_opt_more by auto

lemma answers_kept:
  assumes "answers.consistent E v kinds (resolve s) s" and "servers_ok s" and "sy_servers t = sy_servers s"
    and "\<And>r. valid s r \<Longrightarrow> resolve t r = resolve s r"
  shows "answers.consistent E v kinds (resolve t) t"
proof -
  have "(\<lambda>((r, sect), a). answer_of E v kinds (resolve t r, sect, a)) k = Inr a" if "look_answers t k = Some a" for k a
  proof -
    from that have k: "look_answers s k = Some a" using assms(3) by (simp add: look_answers_def)
    then obtain cached where "map_of (sy_servers s) (fst k) = Some cached" by (auto simp: look_answers_def split: option.splits)
    with assms(2) have "valid s (fst (fst k))" unfolding servers_ok_def by (metis (no_types, lifting) case_prodD map_of_SomeD)
    with answers.hit [OF assms(1) k] assms(4) show ?thesis by (auto split: prod.splits)
  qed
  then show ?thesis by (simp add: answers.consistent_def)
qed

lemma extends_ok:
  assumes "sym_ok E v s" and "extends s t"
  shows "sym_ok E v t"
proof -
  obtain new where t: "t = s\<lparr>sy_objs := sy_objs s @ new\<rparr>" using assms(2) by (auto simp: extends_def)
  note ok = assms(1) [unfolded sym_ok_def] and keep = extends_valid [OF assms(2)]
  have "refs_ok t" using ok keep(2) by (fastforce simp: refs_ok_def t)
  moreover have "look_files t k = look_files s k" for k
  proof (cases "map_of (sy_cache s) k")
    case (Some x)
    have "both t x = both s x" using refs_okD [of s k "fst x" "snd x"] ok Some keep(2) by (simp add: both_def)
    with Some show ?thesis by (simp add: look_files_def t)
  qed (simp add: look_files_def t)
  then have "files.consistent E v (sy_kinds t) t" using files.same_table ok by (metis t sym_state.select_convs(1) sym_state.surjective sym_state.update_convs(2))
  moreover have "servers_ok t" using ok keep(1) by (auto simp: servers_ok_def t)
  moreover have "answers.consistent E v (sy_kinds t) (resolve t) t"
    using answers_kept [of E v "sy_kinds s" s t] ok keep(1) by (simp add: t)
  ultimately show ?thesis by (simp add: sym_ok_def)
qed

section \<open>The calls\<close>

text \<open>A computation that opens what a calculation finds, or fails as it does.\<close>

definition finds :: "nat \<Rightarrow> sym_state \<Rightarrow> objref option sy \<Rightarrow> stop + found_obj option \<Rightarrow> bool" where
  "finds c s m r \<longleftrightarrow> (case m s of (q, t) \<Rightarrow> extends s t \<and>
     (case q of Inl e \<Rightarrow> r = Inl e
      | Inr x \<Rightarrow> valid_opt t x \<and> (\<exists>f. r = Inr f \<and> map_option (resolve t) x = map_option (found_object c) f)))"

lemma findsD:
  assumes "finds c s m r" and "m s = (q, t)"
  shows "extends s t" and "q = Inl e \<Longrightarrow> r = Inl e"
    and "q = Inr x \<Longrightarrow> valid_opt t x \<and> (\<exists>f. r = Inr f \<and> map_option (resolve t) x = map_option (found_object c) f)"
  using assms by (auto simp: finds_def)

lemma finds_ret:
  "valid_opt s x \<Longrightarrow> map_option (resolve s) x = map_option (found_object c) f \<Longrightarrow> finds c s (retS x) (Inr f)"
  by (auto simp: finds_def retS_def extends_refl)

lemma new_obj_run: "finds c s (new_obj c r) r"
proof (cases r)
  case (Inl e)
  then show ?thesis by (simp add: finds_def new_obj_def comp_simps extends_refl)
next
  case (Inr f)
  show ?thesis
  proof (cases f)
    case None
    with Inr show ?thesis by (simp add: finds_def new_obj_def comp_simps extends_refl valid_opt_def)
  next
    case (Some x)
    show ?thesis
    proof (cases x)
      case Itself
      with Inr Some show ?thesis by (simp add: finds_def new_obj_def comp_simps extends_refl valid_opt_def valid_def)
    next
      case (Opened path obj)
      with Inr Some show ?thesis
        by (auto simp: finds_def new_obj_def comp_simps thenS_def bindS_def modS_def readS_def retS_def valid_opt_def valid_def extends_def)
    qed
  qed
qed

lemma object_at: "valid s r \<Longrightarrow> obj_at v s r = object_file v (sy_kinds s) (resolve s r)"
  by (cases r) (simp_all add: obj_at_def split: prod.split)

lemma extends_same: "extends s t \<Longrightarrow> sy_kinds t = sy_kinds s \<and> sy_cache t = sy_cache s \<and> sy_servers t = sy_servers s"
  by (auto simp: extends_def)

text \<open>The same core files, and more objects.\<close>

definition grows :: "sym_state \<Rightarrow> sym_state \<Rightarrow> bool" where
  "grows s t \<longleftrightarrow> sy_kinds t = sy_kinds s \<and> (\<exists>new. sy_objs t = sy_objs s @ new)"

lemma extends_grows: "extends s t \<Longrightarrow> grows s t"
  by (auto simp: extends_def grows_def)

lemma grows_refl: "grows s s"
  by (simp add: grows_def)

lemma grows_valid:
  "grows s t \<Longrightarrow> valid s r \<Longrightarrow> valid t r \<and> resolve t r = resolve s r"
  "grows s t \<Longrightarrow> valid_opt s x \<Longrightarrow> valid_opt t x \<and> map_option (resolve t) x = map_option (resolve s) x"
  unfolding grows_def using valid_more valid_opt_more by blast+

lemma resolve_cache: "resolve (u\<lparr>sy_cache := x\<rparr>) = resolve u" "resolve (u\<lparr>sy_servers := y\<rparr>) = resolve u"
proof -
  show "resolve (u\<lparr>sy_cache := x\<rparr>) = resolve u"
  proof
    show "resolve (u\<lparr>sy_cache := x\<rparr>) r = resolve u r" for r by (cases r) simp_all
  qed
  show "resolve (u\<lparr>sy_servers := y\<rparr>) = resolve u"
  proof
    show "resolve (u\<lparr>sy_servers := y\<rparr>) r = resolve u r" for r by (cases r) simp_all
  qed
qed

lemma files_new:
  assumes "sym_ok E v s" and "extends s u" and "valid_opt u bin" "valid_opt u dbg"
    and "files_of E v (sy_kinds s) k = Inr (both u (bin, dbg))"
  shows "sym_ok E v (u\<lparr>sy_cache := (k, (bin, dbg)) # sy_cache u\<rparr>)"
proof -
  let ?t = "u\<lparr>sy_cache := (k, (bin, dbg)) # sy_cache u\<rparr>"
  note ok = extends_ok [OF assms(1,2), unfolded sym_ok_def]
  have v: "valid ?t r = valid u r" "valid_opt ?t x = valid_opt u x" for r x
    by (simp_all add: valid_def valid_opt_def split: objref.split option.split)
  have rs: "resolve ?t = resolve u" by (rule resolve_cache)
  then have b: "both ?t x = both u x" for x by (simp add: both_def)
  have "files_stored k (both u (bin, dbg)) u ?t"
    unfolding files_stored_def using ok assms(3,4) by (intro conjI exI [of _ bin] exI [of _ dbg] exI [of _ "[]"]) (simp_all add: b v)
  moreover have "sy_kinds u = sy_kinds s" using extends_same [OF assms(2)] by simp
  ultimately have "files.consistent E v (sy_kinds ?t) ?t" using files.put [of E v "sy_kinds s" u k _ ?t] ok assms(5) by simp
  moreover have "refs_ok ?t" using ok assms(3,4) by (auto simp: refs_ok_def v)
  moreover have "servers_ok ?t" using ok by (simp add: servers_ok_def v)
  moreover have "answers.consistent E v (sy_kinds ?t) (resolve ?t) ?t"
    using answers_kept [of E v "sy_kinds u" u ?t] ok rs by simp
  ultimately show ?thesis by (simp add: sym_ok_def)
qed

text \<open>The two steps of looking for debug information.\<close>

definition id_calc :: "sym_env \<Rightarrow> memory_view \<Rightarrow> core_kind list \<Rightarrow> nat \<Rightarrow> object option \<Rightarrow> stop + found_obj option" where
  "id_calc E v kinds c ob =
     (case ob of
        None \<Rightarrow> Inr None
      | Some b \<Rightarrow>
          (case object_file v kinds b of (path, obj) \<Rightarrow>
             bindR (get_build_id (se_contents E path) obj) (\<lambda>buildid. case buildid of
               None \<Rightarrow> Inr None
             | Some i \<Rightarrow> store_get_dbg_buildid (se_host E) (core_store (kinds ! c)) i)))"

lemma finds_by_id:
  assumes "valid_opt s bin"
  shows "finds c s
    (case bin of
       None \<Rightarrow> retS None
     | Some b \<Rightarrow>
         bindS (build_id_of E v b) (\<lambda>buildid. case buildid of
           None \<Rightarrow> retS None
         | Some bid \<Rightarrow> new_obj c (store_get_dbg_buildid (se_host E) (core_store (sy_kinds s ! c)) bid)))
    (id_calc E v (sy_kinds s) c (map_option (resolve s) bin))"
proof (cases bin)
  case None
  then show ?thesis by (simp add: finds_ret id_calc_def valid_opt_def)
next
  case (Some b)
  with assms have at: "obj_at v s b = object_file v (sy_kinds s) (resolve s b)" by (simp add: object_at valid_opt_def)
  obtain path ob where pf: "object_file v (sy_kinds s) (resolve s b) = (path, ob)" by (metis surj_pair)
  let ?id = "get_build_id (se_contents E path) ob" and ?g = "store_get_dbg_buildid (se_host E) (core_store (sy_kinds s ! c))"
  have id: "build_id_of E v b s = (?id, s)" by (simp add: build_id_of_def comp_simps at pf)
  show ?thesis
  proof (cases ?id)
    case (Inl e)
    with Some id pf show ?thesis by (simp add: finds_def comp_simps extends_refl id_calc_def)
  next
    case (Inr i)
    with id have "bindS (build_id_of E v b) k s = k i s" for k :: "u8 list option \<Rightarrow> objref option sy" by (simp add: comp_simps)
    with Some Inr pf new_obj_run [of c s "?g (the i)"] show ?thesis
      by (cases i) (simp_all add: finds_def id_calc_def retS_def extends_refl valid_opt_def)
  qed
qed

lemma finds_dbg:
  assumes "valid_opt s x" and "map_option (resolve s) x = map_option (found_object c) f"
  shows "finds c s (if x = None then new_obj c r else retS x) (if f = None then r else Inr f)"
proof (cases "x = None")
  case True
  with assms(2) have "f = None" by simp
  with True show ?thesis by (simp add: new_obj_run)
next
  case False
  with assms(2) have "f \<noteq> None" by (cases f) auto
  with False finds_ret [OF assms] show ?thesis by auto
qed

lemma files_of_steps:
  "store_get (se_host E) (core_store (kinds ! c)) filename = Inr f1 \<Longrightarrow>
   files_of E v kinds (c, filename) = bindR (id_calc E v kinds c (map_option (found_object c) f1)) (\<lambda>f2.
     bindR (if f2 = None then store_get_dbg (se_host E) (core_store (kinds ! c)) filename else Inr f2) (\<lambda>f3.
     Inr (map_option (found_object c) f1, map_option (found_object c) f3)))"
  unfolding files_of_def id_calc_def Let_def prod.case by (simp only: bindR_simps)

text \<open>What \<open>find_files\<close> guarantees in a state with consistent tables.\<close>

definition files_found :: "sym_env \<Rightarrow> memory_view \<Rightarrow> nat \<times> string \<Rightarrow> sym_state \<Rightarrow>
    (stop + objref option \<times> objref option) \<times> sym_state \<Rightarrow> bool" where
  "files_found E v k s out \<longleftrightarrow> (case out of (q, t) \<Rightarrow> sym_ok E v t \<and> grows s t \<and>
    (case q of Inl e \<Rightarrow> files_of E v (sy_kinds s) k = Inl e
     | Inr (bin, dbg) \<Rightarrow> valid_opt t bin \<and> valid_opt t dbg \<and> files_of E v (sy_kinds s) k = Inr (both t (bin, dbg))))"

lemma files_found_error:
  "sym_ok E v s \<Longrightarrow> extends s t \<Longrightarrow> files_of E v (sy_kinds s) k = Inl e \<Longrightarrow> files_found E v k s (Inl e, t)"
  by (simp add: files_found_def extends_ok extends_grows)

lemma files_found_new:
  assumes "sym_ok E v s" and "extends s u" and "valid_opt u bin" "valid_opt u dbg"
    and "files_of E v (sy_kinds s) k = Inr (both u (bin, dbg))"
  shows "files_found E v k s (Inr (bin, dbg), u\<lparr>sy_cache := (k, (bin, dbg)) # sy_cache u\<rparr>)"
proof -
  let ?t = "u\<lparr>sy_cache := (k, (bin, dbg)) # sy_cache u\<rparr>"
  have "both ?t (bin, dbg) = both u (bin, dbg)" "valid_opt ?t bin" "valid_opt ?t dbg"
    using assms(3,4) by (auto simp: both_def resolve_cache valid_opt_def valid_def split: option.splits objref.splits)
  moreover have "grows s ?t" using extends_grows [OF assms(2)] by (auto simp: grows_def)
  ultimately show ?thesis using files_new [OF assms] assms(5) by (simp add: files_found_def)
qed

lemma find_files_run:
  assumes ok: "sym_ok E v s"
  shows "files_found E v (c, filename) s (find_files E v c filename s)"
proof (cases "map_of (sy_cache s) (c, filename)")
  case (Some x)
  obtain bin dbg where x: "x = (bin, dbg)" by (metis surj_pair)
  from ok have "files.consistent E v (sy_kinds s) s" by (simp add: sym_ok_def)
  from files.hit [OF this, of "(c, filename)" "both s x"] Some have "files_of E v (sy_kinds s) (c, filename) = Inr (both s x)"
    by (simp add: look_files_def)
  with Some x refs_okD [of s "(c, filename)" bin dbg] ok show ?thesis
    by (simp add: find_files_def comp_simps grows_refl sym_ok_def files_found_def)
next
  case None
  let ?h = "se_host E" and ?st = "core_store (sy_kinds s ! c)" and ?k = "(c, filename)"
  let ?by_id = "\<lambda>bin. case bin of
      None \<Rightarrow> retS None
    | Some b \<Rightarrow>
        bindS (build_id_of E v b) (\<lambda>buildid. case buildid of
          None \<Rightarrow> retS None
        | Some bid \<Rightarrow> new_obj c (store_get_dbg_buildid ?h ?st bid))"
  let ?dbg = "\<lambda>x. if x = None then new_obj c (store_get_dbg ?h ?st filename) else retS x"
  have run: "find_files E v c filename s = bindS (new_obj c (store_get ?h ?st filename)) (\<lambda>bin. bindS (?by_id bin) (\<lambda>x.
      bindS (?dbg x) (\<lambda>dbg. thenS (modS (\<lambda>s. s\<lparr>sy_cache := (?k, (bin, dbg)) # sy_cache s\<rparr>)) (retS (bin, dbg))))) s"
    using None by (simp add: find_files_def comp_simps)
  obtain q1 s1 where n1: "new_obj c (store_get ?h ?st filename) s = (q1, s1)" by (metis surj_pair)
  note r1 = findsD [OF new_obj_run n1]
  show ?thesis
  proof (cases q1)
    case (Inl e)
    with r1 n1 show ?thesis by (auto simp: run comp_simps files_of_def intro!: files_found_error [OF ok])
  next
    case q1: (Inr bin)
    with r1 obtain f1 where f1: "valid_opt s1 bin" "store_get ?h ?st filename = Inr f1"
      "map_option (resolve s1) bin = map_option (found_object c) f1" by blast
    note F = files_of_steps [OF f1(2), of v]
    have k1: "sy_kinds s1 = sy_kinds s" using extends_same [OF r1(1)] by simp
    obtain q2 s2 where n2: "?by_id bin s1 = (q2, s2)" by (metis surj_pair)
    note r2 = findsD [OF finds_by_id [OF f1(1), of c E v, unfolded k1 f1(3)] n2] and e2 = extends_trans [OF r1(1)]
    show ?thesis
    proof (cases q2)
      case (Inl e)
      with r2 n1 n2 q1 e2 F show ?thesis by (auto simp: run comp_simps bindR_simps intro!: files_found_error [OF ok])
    next
      case q2: (Inr x)
      with r2 obtain f2 where f2: "valid_opt s2 x" "id_calc E v (sy_kinds s) c (map_option (found_object c) f1) = Inr f2"
        "map_option (resolve s2) x = map_option (found_object c) f2" by blast
      obtain q3 s3 where n3: "?dbg x s2 = (q3, s3)" by (metis surj_pair)
      note r3 = findsD [OF finds_dbg [OF f2(1,3)] n3]
      have e3: "extends s s3" "extends s1 s3" using extends_trans e2 r2(1) r3(1) by blast+
      note F = F [unfolded f2(2) bindR_simps]
      show ?thesis
      proof (cases q3)
        case (Inl e)
        with r3(2) n1 n2 n3 q1 q2 e3 F show ?thesis by (simp add: run comp_simps bindR_simps files_found_error [OF ok])
      next
        case q3: (Inr dbg)
        with r3 obtain f3 where f3: "valid_opt s3 dbg" "map_option (resolve s3) dbg = map_option (found_object c) f3"
          "(if f2 = None then store_get_dbg ?h ?st filename else Inr f2) = Inr f3" by blast
        note bin = extends_valid(2) [OF e3(2) f1(1)]
        have "files_of E v (sy_kinds s) ?k = Inr (both s3 (bin, dbg))"
          unfolding F f3(3) bindR_simps both_def using bin f1(3) f3(2) by simp
        from files_found_new [OF ok e3(1) _ f3(1) this] bin n1 n2 n3 q1 q2 q3 show ?thesis
          by (simp add: run comp_simps bindS_def thenS_def modS_def retS_def)
      qed
    qed
  qed
qed

lemma both_servers: "both (s\<lparr>sy_servers := y\<rparr>) = both s"
  by (rule ext) (simp add: both_def resolve_cache)

lemma server_query_run:
  assumes ok: "sym_ok E v s" and ob: "valid s ob" and sect: "sect \<noteq> Some []"
  shows "case server_query E ob (fst (obj_at v s ob)) sect addr s of (r, t) \<Rightarrow> sym_ok E v t \<and> grows s t \<and>
    r = answer_of E v (sy_kinds s) (resolve s ob, case sect of None \<Rightarrow> [] | Some n \<Rightarrow> n, addr)"
proof -
  let ?key = "(ob, case sect of None \<Rightarrow> [] | Some n \<Rightarrow> n)" and ?path = "fst (obj_at v s ob)"
  let ?calc = "answer_of E v (sy_kinds s) (resolve s ob, snd ?key, addr)"
  let ?cached = "case map_of (sy_servers s) ?key of None \<Rightarrow> [] | Some cached \<Rightarrow> cached"
  have cons: "answers.consistent E v (sy_kinds s) (resolve s) s" using ok by (simp add: sym_ok_def)
  have calc: "?calc = (case se_addr2line E (addr2line_args E ?path sect) (addr_line addr) of None \<Rightarrow> Inl (Exit (- 1)) | Some (l1, l2) \<Rightarrow> parse_answer l1 l2)"
    using sect by (cases sect) (auto simp: answer_of_def object_at [OF ob])
  have run: "server_query E ob ?path sect addr s = (case map_of ?cached addr of
      Some a \<Rightarrow> (Inr a, s)
    | None \<Rightarrow> (case ?calc of Inl e \<Rightarrow> (Inl e, s) | Inr a \<Rightarrow> (Inr a, s\<lparr>sy_servers := (?key, (addr, a) # ?cached) # sy_servers s\<rparr>)))"
    unfolding calc by (simp add: server_query_def Let_def bindS_def readS_def retS_def throwS_def liftS_def thenS_def modS_def
        split: option.split sum.split)
  show ?thesis
  proof (cases "map_of ?cached addr")
    case (Some a)
    then have "look_answers s (?key, addr) = Some a" by (auto simp: look_answers_def split: option.splits)
    from answers.hit [OF cons this] have "?calc = Inr a" by simp
    with Some run ok show ?thesis by (simp add: grows_refl)
  next
    case None
    show ?thesis
    proof (cases "?calc")
      case (Inl e)
      with None run ok show ?thesis by (simp add: grows_refl)
    next
      case (Inr a)
      let ?t = "s\<lparr>sy_servers := (?key, (addr, a) # ?cached) # sy_servers s\<rparr>"
      have "answer_stored (?key, addr) a s ?t" by (simp add: answer_stored_def)
      from answers.put [OF cons this] Inr have "answers.consistent E v (sy_kinds ?t) (resolve ?t) ?t" by (simp add: resolve_cache)
      moreover have "files.consistent E v (sy_kinds ?t) ?t"
        using files.same_table [of E v "sy_kinds s" s ?t] ok by (simp add: sym_ok_def look_files_def both_servers)
      moreover have v: "valid ?t r = valid s r" "valid_opt ?t x = valid_opt s x" for r x
        by (simp_all add: valid_def valid_opt_def split: objref.split option.split)
      ultimately have "sym_ok E v ?t" using ok ob by (auto simp: sym_ok_def refs_ok_def servers_ok_def)
      moreover have "grows s ?t" by (simp add: grows_def)
      ultimately show ?thesis using None run Inr by simp
    qed
  qed
qed

text \<open>An answer in terms of the objects.\<close>

definition located :: "sym_state \<Rightarrow> (objref \<times> string option \<times> u64) option \<Rightarrow> (object \<times> string option \<times> u64) option" where
  "located s x = map_option (\<lambda>(ob, sect, a). (resolve s ob, sect, a)) x"

lemma query_sym_run:
  assumes ok: "sym_ok E v s"
  shows "case query_sym E v vma s of (r, t) \<Rightarrow> sym_ok E v t \<and> grows s t \<and>
    (case r of Inl e \<Rightarrow> symbol_at E v (sy_kinds s) vma = Inl e
     | Inr x \<Rightarrow> symbol_at E v (sy_kinds s) vma = Inr (located t x) \<and> valid_opt t (map_option fst x))"
proof (cases "core_at v vma")
  case None
  with ok show ?thesis by (simp add: query_sym_def symbol_at_def comp_simps grows_refl located_def valid_opt_def)
next
  case (Some c)
  let ?core = "sy_kinds s ! c"
  have found: "case find_files E v c filename s of (q, t) \<Rightarrow> sym_ok E v t \<and> grows s t \<and> sy_kinds t = sy_kinds s \<and>
      (case q of Inl e \<Rightarrow> files_of E v (sy_kinds s) (c, filename) = Inl e
       | Inr (bin, dbg) \<Rightarrow> valid_opt t bin \<and> valid_opt t dbg \<and> files_of E v (sy_kinds s) (c, filename) = Inr (both t (bin, dbg)))"
    for filename
    using find_files_run [OF ok, of c filename] by (auto simp: files_found_def grows_def)
  show ?thesis
  proof (cases "core_file_backing ?core vma")
    case (Some x)
    obtain filename off where x: "x = (filename, off)" by (metis surj_pair)
    obtain q t where q: "find_files E v c filename s = (q, t)" by (metis surj_pair)
    with found [of filename] Some x \<open>core_at v vma = Some c\<close> show ?thesis
      by (cases q) (auto simp: query_sym_def symbol_at_def comp_simps both_def located_def object_at valid_opt_def
          case_prod_beta split: option.splits)
  next
    case None
    show ?thesis
    proof (cases "core_file_vma ?core vma")
      case None
      with ok \<open>core_file_backing ?core vma = None\<close> \<open>core_at v vma = Some c\<close> show ?thesis
        by (simp add: query_sym_def symbol_at_def comp_simps grows_refl located_def valid_opt_def)
    next
      case (Some x)
      obtain filename sect a where x: "x = (filename, sect, a)" by (metis surj_pair)
      obtain q t where q: "find_files E v c filename s = (q, t)" by (metis surj_pair)
      with found [of filename] Some x \<open>core_file_backing ?core vma = None\<close> \<open>core_at v vma = Some c\<close> show ?thesis
        by (cases q) (auto simp: query_sym_def symbol_at_def comp_simps both_def located_def valid_opt_def
          split: option.splits if_splits)
    qed
  qed
qed

section \<open>Property\<close>

lemma sym_ok_start: "sy_cache s = [] \<Longrightarrow> sy_servers s = [] \<Longrightarrow> sym_ok E v s"
  by (simp add: sym_ok_def refs_ok_def servers_ok_def files.consistent_def answers.consistent_def look_files_def look_answers_def)

text \<open>
  C36. The caches of the symbol look-up change nothing. In every state with consistent tables (as at the start) a query
  for an address gives the object, the section and the address in it that opening the binary and the debug information afresh
  gives, or fails in the same way; a query for the function and the line of an object gives what \<^verbatim>\<open>addr2line\<close>
  answers; and both leave consistent tables, in which the objects found before are the same.
\<close>

theorem symbols_cached:
  assumes "sym_ok E v s"
  shows "(case query_sym E v vma s of (r, t) \<Rightarrow> sym_ok E v t \<and> grows s t \<and>
      (case r of Inl e \<Rightarrow> symbol_at E v (sy_kinds s) vma = Inl e
       | Inr x \<Rightarrow> symbol_at E v (sy_kinds s) vma = Inr (located t x) \<and> valid_opt t (map_option fst x))) \<and>
    (\<forall>ob sect addr. valid s ob \<and> sect \<noteq> Some [] \<longrightarrow>
      (case server_query E ob (fst (obj_at v s ob)) sect addr s of (r, t) \<Rightarrow> sym_ok E v t \<and> grows s t \<and>
        r = answer_of E v (sy_kinds s) (resolve s ob, case sect of None \<Rightarrow> [] | Some n \<Rightarrow> n, addr)))"
  by (intro conjI allI impI query_sym_run [OF assms], elim conjE, rule server_query_run [OF assms])

text \<open>A process with a program mapped at an address; its debug information is found by name.\<close>

definition ex_prog_text :: asection where
  "ex_prog_text = \<lparr>sec_name = ''.text'', sec_vma = 0x1000, sec_size = 0x100, sec_rawsize = 0x100, sec_filepos = 0x40, sec_load = True\<rparr>"

definition ex_prog :: obj_file where
  "ex_prog = \<lparr>sect_by_name = [ex_prog_text], sect_by_vma = [(0x1000, ex_prog_text)], sect_by_fileoff = [(0x40, ex_prog_text)], sect_mapped = []\<rparr>"

definition ex_process_view :: memory_view where
  "ex_process_view = \<lparr>loaded_sections = [(0x7000, \<lparr>ls_core = 0, ls_sect = ex_prog_text\<rparr>)], cores = [ex_prog]\<rparr>"

definition ex_sym_host :: sym_env where
  "ex_sym_host = \<lparr>se_host = \<lparr>h_text = (\<lambda>p. None), h_exists = (\<lambda>p. p \<in> {''/bin/x'', ''/dbg/bin/x/.debug''}), h_obj = (\<lambda>p. Inr ex_prog)\<rparr>,
     se_contents = (\<lambda>p sect. None), se_getenv = None, se_default = ''addr2line'', se_addr2line = (\<lambda>args a. Some (''main'' @ [CHR 0x0A], ''x.c:7'' @ [CHR 0x0A]))\<rparr>"

definition ex_process :: sym_state where
  "ex_process = \<lparr>sy_kinds = [User_core [(0x7000, \<lparr>fb_start = 0x7000, fb_size = 0x100, fb_offset = 0x40, fb_filename = ''/bin/x''\<rparr>)]
      (File_store [''/''] [''/dbg''])], sy_objs = [], sy_cache = [], sy_servers = []\<rparr>"

lemma symbols_cached_witness:
  "\<exists>t u x. query_sym ex_sym_host ex_process_view 0x7004 ex_process = (Inr (Some (Opened_obj 1, None, 0x1004)), t) \<and>
    query_sym ex_sym_host ex_process_view 0x7008 t = (Inr x, u) \<and>
    symbol_at ex_sym_host ex_process_view (sy_kinds t) 0x7008 = Inr (located u x)"
proof -
  have ok: "sym_ok ex_sym_host ex_process_view ex_process" by (rule sym_ok_start) (simp_all add: ex_process_def)
  obtain r t where q: "query_sym ex_sym_host ex_process_view 0x7004 ex_process = (r, t)" by (metis surj_pair)
  obtain r' u where q': "query_sym ex_sym_host ex_process_view 0x7008 t = (r', u)" by (metis surj_pair)
  have "case query_sym ex_sym_host ex_process_view 0x7004 ex_process of (r, t) \<Rightarrow> r = Inr (Some (Opened_obj 1, None, 0x1004)) \<and>
      (case fst (query_sym ex_sym_host ex_process_view 0x7008 t) of Inr x \<Rightarrow> True | Inl e \<Rightarrow> False)" by code_simp
  with q q' obtain x where r: "r = Inr (Some (Opened_obj 1, None, 0x1004))" "r' = Inr x" by (auto split: sum.splits)
  from symbols_cached [OF ok, where vma = "0x7004"] q have "sym_ok ex_sym_host ex_process_view t" by simp
  from symbols_cached [OF this, where vma = "0x7008"] q q' r show ?thesis by auto
qed

end
