(* ===== verification/ToolTrip.thy ===== *)
theory ToolTrip
  imports TextTools
begin

text \<open>
  From a list of messages to a trace file and back: what the assembler writes is what the stream decoder delivers, and so
  what the dumper lists.
\<close>

section \<open>Files of encoded messages\<close>

definition encodings :: "nexusrv_hw_cfg \<Rightarrow> nexusrv_msg list \<Rightarrow> u8 list" where
  "encodings cfg ms = concat (map (encoded_bytes cfg) ms)"

lemma encodings_simps [simp]:
  "encodings cfg [] = []" "encodings cfg (m # ms) = encoded_bytes cfg m @ encodings cfg ms"
  by (simp_all add: encodings_def)

text \<open>A message that survives the round trip.\<close>

definition transmittable :: "nexusrv_hw_cfg \<Rightarrow> nexusrv_msg \<Rightarrow> bool" where
  "transmittable cfg m \<longleftrightarrow> encodable m \<and> (tcode m = TCODE_ICT \<longrightarrow> ckdf m = 1) \<and> (tcode m = TCODE_Idle \<or> fits_src cfg m)"

lemma encoded_wire:
  assumes "src_bits cfg \<le> 16" and "encodable m"
  shows "encoded_bytes cfg m = wire (layout cfg m)"
proof -
  have "src_bits cfg \<le> 64" using assms(1) by unat_arith
  from encode_run_spec [OF _ assms(2) this, of NEXUS_RV_MSG_MAX_BYTES "replicate NEXUS_RV_MSG_MAX_BYTES 0"]
    wire_size [OF assms(1), of m]
  show ?thesis by (simp add: encode_spec_def Let_def encoded_bytes_def NEXUS_RV_MSG_MAX_BYTES_def)
qed

lemma decode_encoded:
  assumes "src_bits cfg \<le> 16" and "transmittable cfg m" and "length (encoded_bytes cfg m) \<le> limit"
  shows "\<exists>m'. nexusrv_msg_decode cfg (encoded_bytes cfg m @ ext) limit m0 = (Inr (length (encoded_bytes cfg m)), m') \<and>
    same_fields cfg m m'"
proof -
  have "src_bits cfg \<le> 64" using assms(1) by unat_arith
  moreover have "encodable m" using assms(2) by (simp add: transmittable_def)
  ultimately show ?thesis
    using decode_run_wire [of m cfg limit ext m0] layout_same [of cfg _ m] assms(2,3)
    by (auto simp: encoded_wire [OF assms(1)] transmittable_def)
qed

lemma encoded_size:
  assumes "src_bits cfg \<le> 16" and "encodable m"
  shows "0 < length (encoded_bytes cfg m)" and "length (encoded_bytes cfg m) \<le> 38"
proof -
  have "src_bits cfg \<le> 64" using assms(1) by unat_arith
  from wire_nonempty [OF this, of m] show "0 < length (encoded_bytes cfg m)" by (simp add: encoded_wire [OF assms])
  show "length (encoded_bytes cfg m) \<le> 38" using wire_size [OF assms(1)] by (simp add: encoded_wire [OF assms])
qed

text \<open>The last byte of a message ends it, so that no window of 38 bytes is without an end.\<close>

lemma encoded_ends:
  assumes "src_bits cfg \<le> 16" and "transmittable cfg m"
  shows "mseo (encoded_bytes cfg m ! (length (encoded_bytes cfg m) - 1)) = 3"
proof -
  let ?e = "encoded_bytes cfg m"
  have "encodable m" using assms(2) by (simp add: transmittable_def)
  note size = encoded_size [OF assms(1) this]
  obtain m' where "nexusrv_msg_decode cfg ?e (length ?e) m = (Inr (length ?e), m')"
    using decode_encoded [OF assms, of "length ?e" "[]" m] by auto
  with decode_frames_aux [of "length ?e" ?e] size have "nexusrv_sync_forward ?e (length ?e) = Inr (length ?e)" by simp
  with sync_forward_from_spec [of "length ?e" ?e 0] show ?thesis unfolding nexusrv_sync_forward_def by auto
qed

lemma ends_everywhere:
  assumes "src_bits cfg \<le> 16" and "\<forall>m \<in> set ms. transmittable cfg m" and "p < length (encodings cfg ms)"
  shows "\<exists>i < 38. p + i < length (encodings cfg ms) \<and> mseo (encodings cfg ms ! (p + i)) = 3"
  using assms(2,3)
proof (induction ms arbitrary: p)
  case (Cons m ms)
  let ?e = "encoded_bytes cfg m"
  have "encodable m" and t: "transmittable cfg m" using Cons.prems(1) by (simp_all add: transmittable_def)
  note size = encoded_size [OF assms(1) this(1)]
  show ?case
  proof (cases "p < length ?e")
    case True
    then have "p + (length ?e - 1 - p) = length ?e - 1" "length ?e - 1 - p < 38" "length ?e - 1 < length ?e"
      using size by linarith+
    with encoded_ends [OF assms(1) t] show ?thesis
      by (intro exI [of _ "length ?e - 1 - p"]) (simp add: nth_append)
  next
    case False
    then obtain q where q: "p = length ?e + q" by (metis le_Suc_ex not_less)
    with Cons obtain i where "i < 38" "q + i < length (encodings cfg ms)" "mseo (encodings cfg ms ! (q + i)) = 3" by auto
    with q show ?thesis by (intro exI [of _ i]) (simp add: nth_append)
  qed
qed simp

section \<open>Reading them\<close>

text \<open>The file holds the messages \<open>ms\<close> behind a position, and the next call delivers the first of them.\<close>

lemma next_encoded:
  assumes "stream_next cfg flt S p w r q m'" and "flt < 0" and "src_bits cfg \<le> 16"
    and "p \<le> length S" and "drop p S = encodings cfg (m # ms)" and "transmittable cfg m"
  shows "r = Inr (length (encoded_bytes cfg m)) \<and> q = p + length (encoded_bytes cfg m) \<and> same_fields cfg m m' \<and>
    drop q S = encodings cfg ms"
proof -
  let ?e = "encoded_bytes cfg m"
  have "encodable m" using assms(6) by (simp add: transmittable_def)
  note size = encoded_size [OF assms(3) this]
  from assms(5) have len: "length ?e \<le> length S - p" by (metis encodings_simps(2) le_add1 length_append length_drop)
  have dec: "\<exists>m'. nexusrv_msg_decode cfg (drop p S) (length S - p) m0 = (Inr (length ?e), m') \<and> same_fields cfg m m'" for m0
    using decode_encoded [OF assms(3,6) len, of "encodings cfg ms" m0] by (simp add: assms(5))
  have rest: "drop (p + length ?e) S = encodings cfg ms"
    using assms(5) by (metis drop_drop add.commute append_eq_conv_conj encodings_simps(2))
  from assms(1) show ?thesis
  proof cases
    case at_eof
    with len size show ?thesis by simp
  next
    case (deliver m0 n)
    with dec [of m0] rest show ?thesis by auto
  next
    case (skip m0 n u)
    with assms(2) show ?thesis by (simp add: skips_def)
  next
    case (refuse m0 e)
    with dec [of m0] show ?thesis by auto
  qed
qed

text \<open>A decoder at the position of such a file, over a buffer that holds every message.\<close>

definition reads_encodings :: "nexusrv_hw_cfg \<Rightarrow> u8 list \<Rightarrow> nexusrv_msg list \<Rightarrow> nexusrv_msg_decoder \<Rightarrow> bool" where
  "reads_encodings cfg S ms d \<longleftrightarrow> stream_ok S d \<and> md_cfg d = cfg \<and> md_src_filter d < 0 \<and> 38 \<le> md_bufsz d \<and>
     drop (at_pos d) S = encodings cfg ms \<and>
     (\<forall>p < length S. \<exists>i < 38. p + i < length S \<and> mseo (S ! (p + i)) = 3)"

lemma decoder_next_encoded:
  assumes "src_bits cfg \<le> 16" and "reads_encodings cfg S (m # ms) d" and "transmittable cfg m"
    and "nexusrv_msg_decoder_next d w = (r, d', m')"
  shows "r = Inr (length (encoded_bytes cfg m)) \<and> at_pos d' = at_pos d + length (encoded_bytes cfg m) \<and>
    same_fields cfg m m' \<and> reads_encodings cfg S ms d'"
proof -
  note rd = assms(2) [unfolded reads_encodings_def]
  note del = decoder_next_delivers [OF rd [THEN conjunct1], of w, unfolded assms(4) delivers_def prod.case]
  have "r \<noteq> Inl (Code nexus_buffer_too_small)"
  proof
    assume "r = Inl (Code nexus_buffer_too_small)"
    with del rd have b: "38 \<le> md_bufsz d" "md_bufsz d \<le> length S - at_pos d'" "\<forall>i < md_bufsz d. mseo (S ! (at_pos d' + i)) \<noteq> 3"
      by auto
    then have "at_pos d' < length S" by linarith
    with rd obtain i where "i < 38" "mseo (S ! (at_pos d' + i)) = 3" by blast
    with b show False by auto
  qed
  with del have nx: "stream_next (md_cfg d) (md_src_filter d) S (at_pos d) w r (at_pos d') m'" by blast
  have "at_pos d \<le> length S" using rd by (simp add: at_pos_le)
  from next_encoded [OF nx [unfolded rd [THEN conjunct2, THEN conjunct1]] _ assms(1) this _ assms(3), of ms] rd del
  show ?thesis unfolding reads_encodings_def by auto
qed

lemma decoder_next_end:
  assumes "reads_encodings cfg S [] d" and "nexusrv_msg_decoder_next d w = (r, d', m')"
  shows "r = Inr 0"
proof -
  note rd = assms(1) [unfolded reads_encodings_def]
  have at: "at_pos d = length S" using rd at_pos_le [of S d] by simp
  note del = decoder_next_delivers [OF rd [THEN conjunct1], of w, unfolded assms(2) delivers_def prod.case]
  then consider "stream_next (md_cfg d) (md_src_filter d) S (at_pos d) w r (at_pos d') m'"
    | "md_bufsz d' \<le> length S - at_pos d'" "at_pos d \<le> at_pos d'" "md_bufsz d' = md_bufsz d" by blast
  then show ?thesis
  proof cases
    case 1
    then show ?thesis using at by cases auto
  next
    case 2
    with at rd show ?thesis by simp
  qed
qed

text \<open>The loop of the utilities delivers exactly the messages, if its body goes on.\<close>

fun placed :: "nat \<Rightarrow> nat list \<Rightarrow> nexusrv_msg list \<Rightarrow> found list" where
  "placed p (n # ns) (m # ms) = (p, n, m) # placed (p + n) ns ms"
| "placed p _ _ = []"

lemma msg_loop_encoded:
  assumes cfg: "src_bits cfg \<le> 16" and body: "on_found S step body" and go: "\<And>i x st. fst (step i x st) = Inr ()"
  shows "reads_encodings cfg S ms d \<Longrightarrow> \<forall>m \<in> set ms. transmittable cfg m \<Longrightarrow>
    \<exists>ms'. list_all2 (same_fields cfg) ms ms' \<and>
      (case msg_loop w body i tot d st of (r, st') \<Rightarrow>
         r = Inr (i + length ms, tot + length (encodings cfg ms)) \<and>
         run_steps step i (placed (at_pos d) (map (\<lambda>m. length (encoded_bytes cfg m)) ms) ms') st = (Inr (), st'))"
proof (induction ms arbitrary: i tot d st)
  case Nil
  obtain r d' m where nx: "nexusrv_msg_decoder_next d (w i) = (r, d', m)" by (metis surj_pair)
  with decoder_next_end [OF Nil.prems(1) nx] show ?case by (simp add: msg_loop.simps [of w] retS_def)
next
  case (Cons m ms)
  let ?n = "length (encoded_bytes cfg m)"
  obtain r d' m' where nx: "nexusrv_msg_decoder_next d (w i) = (r, d', m')" by (metis surj_pair)
  have t: "transmittable cfg m" and ts: "\<forall>m \<in> set ms. transmittable cfg m" using Cons.prems(2) by simp_all
  then have "encodable m" by (simp add: transmittable_def)
  note size = encoded_size [OF cfg this]
  from decoder_next_encoded [OF cfg Cons.prems(1) t nx]
  have r: "r = Inr ?n" "at_pos d' = at_pos d + ?n" "same_fields cfg m m'" "reads_encodings cfg S ms d'" by simp_all
  have "stream_ok S d" using Cons.prems(1) by (simp add: reads_encodings_def)
  note spec = next_spec [OF this nx [unfolded r(1)]]
  have b: "body i ?n d' m' = step i (at_pos d, ?n, m')"
    using body [unfolded on_found_def, rule_format, of d' ?n i m'] spec(2-4) size r(2) by simp
  obtain st1 where st1: "step i (at_pos d, ?n, m') st = (Inr (), st1)" using go [of i "(at_pos d, ?n, m')" st] by (metis prod.exhaust_sel)
  let ?next = "msg_loop w body (i + 1) (tot + ?n) d' st1"
  obtain q st' where q: "?next = (q, st')" by (metis surj_pair)
  from Cons.IH [OF r(4) ts, of "i + 1" "tot + ?n" st1] obtain ms' where
    ih: "list_all2 (same_fields cfg) ms ms'" "q = Inr (i + 1 + length ms, tot + ?n + length (encodings cfg ms))"
      "run_steps step (i + 1) (placed (at_pos d + ?n) (map (\<lambda>m. length (encoded_bytes cfg m)) ms) ms') st1 = (Inr (), st')"
    unfolding q r(2) prod.case by blast
  have "msg_loop w body i tot d st = ?next"
    using size by (subst msg_loop.simps) (simp add: nx r(1) b st1)
  with q ih r(3) st1 show ?case
    by (intro exI [of _ "m' # ms'"]) (simp add: thenS_def bindS_def)
qed

lemma start_reads_encodings:
  assumes "src_bits cfg \<le> 16" and "\<forall>m \<in> set ms. transmittable cfg m" and "length buf = bufsz" and "38 \<le> bufsz"
    and "6 * bufsz < 4294967296" and "flt < 0"
  shows "reads_encodings cfg (encodings cfg ms) ms (nexusrv_msg_decoder_init cfg [Data (encodings cfg ms)] flt buf bufsz)"
    and "at_pos (nexusrv_msg_decoder_init cfg [Data (encodings cfg ms)] flt buf bufsz) = 0"
proof -
  let ?S = "encodings cfg ms"
  have "regular [Data ?S]" by (simp add: regular_def)
  from init_stream_ok [OF this assms(3) _ assms(5), of cfg flt] assms(4)
  have "stream_ok ?S (nexusrv_msg_decoder_init cfg [Data ?S] flt buf bufsz)" by simp
  moreover show at: "at_pos (nexusrv_msg_decoder_init cfg [Data ?S] flt buf bufsz) = 0"
    by (simp add: at_pos_def nexusrv_msg_decoder_init_def)
  ultimately show "reads_encodings cfg ?S ms (nexusrv_msg_decoder_init cfg [Data ?S] flt buf bufsz)"
    using ends_everywhere [OF assms(1,2)] assms(4,6)
    unfolding reads_encodings_def by (simp add: nexusrv_msg_decoder_init_def)
qed

section \<open>Properties\<close>

text \<open>
  C4. The size of a message is bounded. The encoder never takes more than the 38 bytes of \<^verbatim>\<open>NEXUS_RV_MSG_MAX_BYTES\<close>, whatever
  the message and the room it is given, if the source is no wider than its field in the struct; with 38 bytes of room no message
  that can be encoded is truncated; and the bound is sharp.
\<close>

theorem encode_bounded:
  assumes "src_bits cfg \<le> 16" and "limit \<le> length buf" and "encodable msg"
  shows "(\<forall>n out. nexusrv_msg_encode cfg buf limit msg = (Inr n, out) \<longrightarrow> 0 < n \<and> n \<le> NEXUS_RV_MSG_MAX_BYTES) \<and>
    (NEXUS_RV_MSG_MAX_BYTES \<le> limit \<longrightarrow> (\<exists>n out. nexusrv_msg_encode cfg buf limit msg = (Inr n, out))) \<and>
    (\<exists>cfg' msg'. src_bits cfg' \<le> 16 \<and> fst (nexusrv_msg_encode cfg' (replicate 38 0) 38 msg') = Inr NEXUS_RV_MSG_MAX_BYTES)"
proof -
  have s: "src_bits cfg \<le> 64" using assms(1) by unat_arith
  note spec = encode_run_spec [OF assms(2,3) s]
  have fit: "0 < length (wire (layout cfg msg))" "length (wire (layout cfg msg)) \<le> NEXUS_RV_MSG_MAX_BYTES"
    using wire_nonempty [OF s, of msg] wire_size [OF assms(1), of msg] by (simp_all add: NEXUS_RV_MSG_MAX_BYTES_def)
  have "fst (nexusrv_msg_encode (wit_cfg\<lparr>src_bits := 16, ts_bits := 64\<rparr>) (replicate 38 0) 38
      \<lparr>timestamp = - 1, src = - 1, tcode = TCODE_IndirectBranchHistSync, tagbits = 0, word0 = - 1, hist = - 1, hrepeat = 0,
       dword1 = 0x5555555555555555\<rparr>) = Inr 38" by code_simp
  then have "\<exists>cfg' msg'. src_bits cfg' \<le> 16 \<and> fst (nexusrv_msg_encode cfg' (replicate 38 0) 38 msg') = Inr NEXUS_RV_MSG_MAX_BYTES"
    unfolding NEXUS_RV_MSG_MAX_BYTES_def by (rule_tac exI, rule_tac exI, rule_tac conjI [rotated], assumption) simp
  with spec fit show ?thesis by (auto simp: encode_spec_def Let_def split: if_splits)
qed

text \<open>
  C28. What is assembled is what is dumped. From lines of messages that survive the round trip the assembler writes a file from
  which the dumper, with any buffer of at least 38 bytes, lists these messages again: it ends with success, counts them and
  their bytes, and has a line for each with the offset of its encoding and the same fields.
\<close>

theorem assembled_dump:
  fixes xs :: "(nat \<times> nexusrv_msg) list"
  assumes "src_bits cfg \<le> 16" and "\<And>i. ok i" and "list_all (\<lambda>(i, m). i < 2 ^ 64 \<and> transmittable cfg m) xs"
    and "length buf = bufsz" and "38 \<le> bufsz" and "6 * bufsz < 4294967296" and "flt < 0"
  shows "\<exists>st f ms. assemble cfg False w ok (asm_text xs) = (Inr (), st) \<and>
    dump_tool v True cfg [Data (as_bytes st)] flt buf bufsz \<lparr>of_text = [], of_calls = []\<rparr> =
      (Inr (length xs, length (as_bytes st)), f) \<and>
    list_all2 (same_fields cfg) (map snd xs) ms \<and>
    of_text f = concat (map dump_line (enumerate 0 (placed 0 (map (\<lambda>m. length (encoded_bytes cfg m)) (map snd xs)) ms)))"
proof -
  let ?ms = "map snd xs"
  have ms: "\<forall>m \<in> set ?ms. transmittable cfg m" using assms(3) by (auto simp: list_all_iff)
  have "list_all (\<lambda>(i, m). i < 2 ^ 64 \<and> assemblable m) xs"
    using assms(3) by (auto simp: list_all_iff transmittable_def assemblable_def)
  with asm_loop_lines [of cfg ok xs "[]" w 0 asm_start] assms(1,2) obtain k where
    asm: "assemble cfg False w ok (asm_text xs) = (Inr (), \<lparr>as_msgid = k,
      as_emitted = of_nat (length (encodings cfg ?ms)), as_text = [], as_bytes = encodings cfg ?ms\<rparr>)"
    by (auto simp: assemble_def asm_start_def encodings_def comp_def)
  let ?d = "nexusrv_msg_decoder_init cfg [Data (encodings cfg ?ms)] flt buf bufsz"
  let ?f = "\<lparr>of_text = [], of_calls = []\<rparr>"
  note start = start_reads_encodings [OF assms(1) ms assms(4-7)]
  have go: "fst (dump_step i x st) = Inr ()" for i x st by (cases x) (simp add: dump_step_def modS_def)
  obtain q f where q: "msg_loop v dump_msg 0 0 ?d ?f = (q, f)" by (metis surj_pair)
  from msg_loop_encoded [OF assms(1) dump_on_found go start(1) ms, where w = v and i = 0 and tot = 0 and st = ?f, unfolded q prod.case start(2)]
  obtain ms' where ms': "list_all2 (same_fields cfg) ?ms ms'" "q = Inr (0 + length ?ms, 0 + length (encodings cfg ?ms))"
    "run_steps dump_step 0 (placed 0 (map (\<lambda>m. length (encoded_bytes cfg m)) ?ms) ms') ?f = (Inr (), f)" by blast
  have "of_text f = concat (map dump_line (enumerate 0 (placed 0 (map (\<lambda>m. length (encoded_bytes cfg m)) ?ms) ms')))"
    using ms'(3) unfolding run_dump by auto
  with asm q ms' show ?thesis by (auto simp: dump_tool_def)
qed

lemma encode_bounded_witness:
  "\<exists>n out. nexusrv_msg_encode wit_cfg (replicate 40 0) 40 wit_msg = (Inr n, out) \<and> 0 < n \<and> n \<le> 38"
  using encode_bounded [of wit_cfg 40 "replicate 40 0" wit_msg]
  by (auto simp: wit_cfg_def wit_msg_def encodable_def NEXUS_RV_MSG_MAX_BYTES_def)

lemma assembled_dump_witness:
  "\<exists>st f. assemble wit_dump_cfg False (\<lambda>i. wit_msg) (\<lambda>i. True) (asm_text [(7, text_msg), (0, text_msg)]) = (Inr (), st) \<and>
    dump_tool (\<lambda>i. wit_msg) True wit_dump_cfg [Data (as_bytes st)] (- 1) (replicate 38 0) 38 \<lparr>of_text = [], of_calls = []\<rparr> =
      (Inr (2, length (as_bytes st)), f)"
proof -
  have "list_all (\<lambda>(i, m). i < 2 ^ 64 \<and> transmittable wit_dump_cfg m) [(7 :: nat, text_msg), (0, text_msg)]"
    by (simp add: wit_dump_cfg_def wit_cfg_def transmittable_def text_msg_def encodable_def fits_src_def take_bit_eq_mod)
  with assembled_dump [of wit_dump_cfg "\<lambda>i. True" "[(7, text_msg), (0, text_msg)]" "replicate 38 0" 38 "- 1" "\<lambda>i. wit_msg" "\<lambda>i. wit_msg"]
  show ?thesis by (auto simp: wit_dump_cfg_def wit_cfg_def)
qed

end
