(* ===== verification/MainProgs.thy ===== *)
theory MainProgs
  imports ReplayTool PatchTool LinuxProps
begin

text \<open>
  The options of the utilities, which \<^verbatim>\<open>util/opts-def.h\<close> puts together from macros, and their main functions.
\<close>

section \<open>Arguments\<close>

text \<open>
  The words of the command line as \<^verbatim>\<open>getopt_long\<close> takes them: the table of the short options, where a colon says that
  an option has an argument, and the one of the long options with this mark. A long option can be cut
  short if one option only begins like that. An argument is the rest of the word, or the next word. What is no option, or has
  no argument where it takes one or one where it takes none, is reported with a question mark. Two dashes end the options; the words
  that are no options are collected, wherever they stand.
\<close>

type_synonym long_opt = "string \<times> bool \<times> char"

fun short_option :: "char \<Rightarrow> string \<Rightarrow> bool option" where
  "short_option c [] = None"
| "short_option c (x # xs) =
     (if x = c \<and> c \<noteq> CHR '':'' then Some (take 1 xs = '':'') else short_option c xs)"

definition long_option :: "long_opt list \<Rightarrow> string \<Rightarrow> (bool \<times> char) option" where
  "long_option longs n =
     (case map_of longs n of
        Some x \<Rightarrow> Some x
      | None \<Rightarrow> (case filter (\<lambda>(m, x). take (length n) m = n) longs of [(m, x)] \<Rightarrow> Some x | _ \<Rightarrow> None))"

definition next_word :: "char \<Rightarrow> string list \<Rightarrow> (char \<times> string) list \<times> string list" where
  "next_word c words = (case words of [] \<Rightarrow> ([(CHR ''?'', [])], []) | a # words' \<Rightarrow> ([(c, a)], words'))"

fun short_options :: "string \<Rightarrow> string \<Rightarrow> string list \<Rightarrow> (char \<times> string) list \<times> string list" where
  "short_options shorts [] words = ([], words)"
| "short_options shorts (c # cs) words =
     (case short_option c shorts of
        None \<Rightarrow> apfst (Cons (CHR ''?'', [])) (short_options shorts cs words)
      | Some False \<Rightarrow> apfst (Cons (c, [])) (short_options shorts cs words)
      | Some True \<Rightarrow> if cs = [] then next_word c words else ([(c, cs)], words))"

definition long_options :: "long_opt list \<Rightarrow> string \<Rightarrow> string list \<Rightarrow> (char \<times> string) list \<times> string list" where
  "long_options longs body words =
     (let name = takeWhile (\<lambda>c. c \<noteq> CHR ''='') body; equals = (CHR ''='' \<in> set body); arg = drop (length name + 1) body in
      case long_option longs name of
        None \<Rightarrow> ([(CHR ''?'', [])], words)
      | Some (has_arg, c) \<Rightarrow>
          if equals then ([if has_arg then (c, arg) else (CHR ''?'', [])], words)
          else if has_arg then next_word c words else ([(c, [])], words))"

lemma next_word_length: "length (snd (next_word c words)) \<le> length words"
  by (simp add: next_word_def split: list.split)

lemma short_options_length: "length (snd (short_options shorts cs words)) \<le> length words"
  by (induction cs) (auto simp: next_word_length split: option.split bool.split)

lemma long_options_length: "length (snd (long_options longs body words)) \<le> length words"
  by (auto simp: long_options_def Let_def next_word_length split: option.split)

function getopt_long :: "string \<Rightarrow> long_opt list \<Rightarrow> string list \<Rightarrow> (char \<times> string) list \<times> string list" where
  "getopt_long shorts longs [] = ([], [])"
| "getopt_long shorts longs (word # words) =
     (if word = ''--'' then ([], words)
      else if take 2 word = ''--'' then
        apfst (append (fst (long_options longs (drop 2 word) words)))
          (getopt_long shorts longs (snd (long_options longs (drop 2 word) words)))
      else if take 1 word = ''-'' \<and> word \<noteq> ''-'' then
        apfst (append (fst (short_options shorts (drop 1 word) words)))
          (getopt_long shorts longs (snd (short_options shorts (drop 1 word) words)))
      else apsnd (Cons word) (getopt_long shorts longs words))"
  by pat_completeness auto
termination
  by (relation "measure (\<lambda>(shorts, longs, words). length words)")
    (auto simp: le_imp_less_Suc short_options_length long_options_length)

declare getopt_long.simps [simp del]

section \<open>Settings\<close>

text \<open>The locals of the main functions that the options set.\<close>

record settings =
  hwcfg_str :: string
  o_cpu :: "16 word"
  o_bufsz :: u64
  text_mode :: bool
  name_prefix :: "string option"
  sysroot_dirs :: "string list"
  dbg_dirs :: "string list"
  procfs :: string
  sysfs :: string
  o_vm :: memory_view
  o_kinds :: "core_kind list"

definition DEFAULT_BUFFER_SIZE :: u64 where "DEFAULT_BUFFER_SIZE = 4096"

definition settings_start :: settings where
  "settings_start = \<lparr>hwcfg_str = ''generic64'', o_cpu = - 1, o_bufsz = DEFAULT_BUFFER_SIZE, text_mode = False,
     name_prefix = None, sysroot_dirs = [''/''], dbg_dirs = [''/usr/lib/debug''], procfs = ''/proc'', sysfs = ''/sys'',
     o_vm = \<lparr>loaded_sections = [], cores = []\<rparr>, o_kinds = []\<rparr>"

text \<open>
  The system: the files and the standard input, core files read by libbfd with their architecture and the contents of their
  sections, and the directories of the modules.
\<close>

record main_env =
  me_null_ok :: bool
  me_stdin :: opened
  me_files :: "string \<Rightarrow> opened option"
  me_malloc :: bool
  me_host :: host
  me_core :: "string \<Rightarrow> stop + obj_file"
  me_march :: "string \<Rightarrow> march"
  me_contents :: "string \<Rightarrow> asection \<Rightarrow> u8 list option"
  me_modules :: "string \<Rightarrow> module_dir list option"

section \<open>The cases of the options\<close>

type_synonym opt_case = "char \<times> (string \<Rightarrow> settings \<Rightarrow> stop + settings)"

definition OPT_PARSE_H_HELP :: opt_case where
  "OPT_PARSE_H_HELP = (CHR ''h'', \<lambda>a st. Inl (Exit (- 1)))"

definition OPT_PARSE_W_HWCFG :: opt_case where
  "OPT_PARSE_W_HWCFG = (CHR ''w'', \<lambda>a st. Inr (st\<lparr>hwcfg_str := a\<rparr>))"

definition OPT_PARSE_C_CPU :: opt_case where
  "OPT_PARSE_C_CPU = (CHR ''c'', \<lambda>a st.
     case atoi a of Inl e \<Rightarrow> Inl (fault_stop e) | Inr n \<Rightarrow> Inr (st\<lparr>o_cpu := word_of_int n\<rparr>))"

definition OPT_PARSE_B_BUFSZ :: opt_case where
  "OPT_PARSE_B_BUFSZ = (CHR ''b'', \<lambda>a st.
     let bufsz = strtoul_auto a in
     if unat bufsz < NEXUS_RV_MSG_MAX_BYTES then Inl (Exit (- 1)) else Inr (st\<lparr>o_bufsz := bufsz\<rparr>))"

definition OPT_PARSE_X_TEXT :: opt_case where
  "OPT_PARSE_X_TEXT = (CHR ''x'', \<lambda>a st. Inr (st\<lparr>text_mode := True\<rparr>))"

definition OPT_PARSE_P_PREFIX :: opt_case where
  "OPT_PARSE_P_PREFIX = (CHR ''p'', \<lambda>a st. Inr (st\<lparr>name_prefix := Some a\<rparr>))"

definition add_core :: "obj_file \<Rightarrow> core_kind \<Rightarrow> settings \<Rightarrow> stop + settings" where
  "add_core obj kind st =
     (case load_core obj (o_vm st) of
        (Inl e, v) \<Rightarrow> Inl e
      | (Inr _, v) \<Rightarrow> Inr (st\<lparr>o_vm := v, o_kinds := o_kinds st @ [kind]\<rparr>))"

definition OPT_PARSE_U_UCORE :: "main_env \<Rightarrow> opt_case" where
  "OPT_PARSE_U_UCORE E = (CHR ''u'', \<lambda>a st.
     bindR (me_core E a) (\<lambda>obj.
     bindR (linux_ucore_new (me_contents E a) (me_march E a) obj) (\<lambda>m.
     add_core obj (User_core m (File_store (sysroot_dirs st) (dbg_dirs st))) st)))"

definition OPT_PARSE_R_SYSROOT :: opt_case where
  "OPT_PARSE_R_SYSROOT = (CHR ''r'', \<lambda>a st. Inr (st\<lparr>sysroot_dirs := split_dirs a\<rparr>))"

definition OPT_PARSE_D_DEBUGDIR :: opt_case where
  "OPT_PARSE_D_DEBUGDIR = (CHR ''d'', \<lambda>a st. Inr (st\<lparr>dbg_dirs := split_dirs a\<rparr>))"

definition OPT_PARSE_P_PROCFS :: opt_case where
  "OPT_PARSE_P_PROCFS = (CHR ''p'', \<lambda>a st. Inr (st\<lparr>procfs := a\<rparr>))"

definition OPT_PARSE_Y_SYSFS :: opt_case where
  "OPT_PARSE_Y_SYSFS = (CHR ''y'', \<lambda>a st. Inr (st\<lparr>sysfs := a\<rparr>))"

definition OPT_PARSE_K_KCORE :: "main_env \<Rightarrow> opt_case" where
  "OPT_PARSE_K_KCORE E = (CHR ''k'', \<lambda>a st.
     bindR (me_core E (procfs st @ ''/kcore'')) (\<lambda>obj.
     bindR (linux_kcore_new (me_host E) (procfs st) (me_modules E (sysfs st @ ''/module'')) (sysroot_dirs st) (dbg_dirs st)) (\<lambda>k.
     add_core obj (Kernel_core k) st)))"

definition OPT_PARSE_E_ELF :: "main_env \<Rightarrow> opt_case" where
  "OPT_PARSE_E_ELF E = (CHR ''e'', \<lambda>a st.
     bindR (h_obj (me_host E) a) (\<lambda>obj. add_core obj (Elf_core a) st))"

text \<open>The loop over the options; another character makes the program return 1.\<close>

fun opt_parse :: "opt_case list \<Rightarrow> (char \<times> string) list \<Rightarrow> settings \<Rightarrow> stop + settings" where
  "opt_parse cases [] st = Inr st"
| "opt_parse cases ((c, a) # opts) st =
     (case map_of cases c of
        None \<Rightarrow> Inl (Exit 1)
      | Some f \<Rightarrow> bindR (f a st) (opt_parse cases opts))"

section \<open>The main functions\<close>

definition dump_short_opts :: string where "dump_short_opts = ''hw:s:c:''"
definition dump_long_opts :: "long_opt list" where
  "dump_long_opts = [(''help'', False, CHR ''h''), (''hwcfg'', True, CHR ''w''), (''filter'', True, CHR ''c''), (''buffersz'', True, CHR ''b'')]"

definition split_short_opts :: string where "split_short_opts = ''hw:b:p:''"
definition split_long_opts :: "long_opt list" where
  "split_long_opts = [(''help'', False, CHR ''h''), (''hwcfg'', True, CHR ''w''), (''buffersz'', True, CHR ''b''), (''prefix'', True, CHR ''p'')]"

definition patch_short_opts :: string where "patch_short_opts = ''hw:s:c:''"
definition patch_long_opts :: "long_opt list" where
  "patch_long_opts = [(''help'', False, CHR ''h''), (''hwcfg'', True, CHR ''w''), (''buffersz'', True, CHR ''b'')]"

definition assemble_short_opts :: string where "assemble_short_opts = ''hxw:''"
definition assemble_long_opts :: "long_opt list" where
  "assemble_long_opts = [(''help'', False, CHR ''h''), (''text'', False, CHR ''x''), (''hwcfg'', True, CHR ''w'')]"

definition replay_short_opts :: string where "replay_short_opts = ''hw:s:c:b:e:r:d:p:y:u:k''"
definition replay_long_opts :: "long_opt list" where
  "replay_long_opts = [(''help'', False, CHR ''h''), (''hwcfg'', True, CHR ''w''), (''filter'', True, CHR ''c''), (''buffersz'', True, CHR ''b''),
     (''elf'', True, CHR ''e''), (''sysroot'', True, CHR ''r''), (''debugdir'', True, CHR ''d''), (''procfs'', True, CHR ''p''), (''sysfs'', True, CHR ''y''),
     (''ucore'', True, CHR ''u''), (''kcore'', False, CHR ''k'')]"

text \<open>The configuration, and the file behind the options. The name is cut at the offset when the file is opened.\<close>

definition main_hwcfg :: "settings \<Rightarrow> stop + nexusrv_hw_cfg" where
  "main_hwcfg st = (case nexusrv_hwcfg_parse (hwcfg_str st) of (Inl e, c) \<Rightarrow> Inl (Exit (- 1)) | (Inr _, c) \<Rightarrow> Inr c)"

definition main_open :: "main_env \<Rightarrow> string \<Rightarrow> stop + fd_state" where
  "main_open E filename = open_seek_file (me_null_ok E) (me_stdin E) (me_files E) filename"

definition file_part :: "string \<Rightarrow> string" where
  "file_part filename = takeWhile (\<lambda>c. c \<noteq> CHR '':'') filename"

text \<open>The cases of the options in the main functions.\<close>

definition dump_cases :: "opt_case list" where
  "dump_cases = [OPT_PARSE_H_HELP, OPT_PARSE_W_HWCFG, OPT_PARSE_C_CPU, OPT_PARSE_B_BUFSZ]"

definition split_cases :: "opt_case list" where
  "split_cases = [OPT_PARSE_H_HELP, OPT_PARSE_W_HWCFG, OPT_PARSE_B_BUFSZ, OPT_PARSE_P_PREFIX]"

definition patch_cases :: "opt_case list" where
  "patch_cases = [OPT_PARSE_H_HELP, OPT_PARSE_W_HWCFG, OPT_PARSE_B_BUFSZ]"

definition assemble_cases :: "opt_case list" where
  "assemble_cases = [OPT_PARSE_H_HELP, OPT_PARSE_W_HWCFG, OPT_PARSE_X_TEXT]"

definition replay_cases :: "main_env \<Rightarrow> opt_case list" where
  "replay_cases E = [OPT_PARSE_H_HELP, OPT_PARSE_W_HWCFG, OPT_PARSE_C_CPU, OPT_PARSE_B_BUFSZ, OPT_PARSE_U_UCORE E, OPT_PARSE_R_SYSROOT,
     OPT_PARSE_D_DEBUGDIR, OPT_PARSE_P_PROCFS, OPT_PARSE_Y_SYSFS, OPT_PARSE_K_KCORE E, OPT_PARSE_E_ELF E]"

text \<open>The check that there are words behind the options.\<close>

definition need_words :: "nat \<Rightarrow> string list \<Rightarrow> stop + unit" where
  "need_words n words = (if length words < n then Inl (Exit (- 1)) else Inr ())"

definition dump_main :: "main_env \<Rightarrow> (nat \<Rightarrow> nexusrv_msg) \<Rightarrow> u8 list \<Rightarrow> ofile \<Rightarrow> string list \<Rightarrow> (stop + nat \<times> nat) \<times> ofile" where
  "dump_main E w buf out args =
     (case getopt_long dump_short_opts dump_long_opts args of (opts, words) \<Rightarrow>
      case bindR (opt_parse dump_cases opts settings_start) (\<lambda>st.
            bindR (need_words 1 words) (\<lambda>_.
            bindR (main_hwcfg st) (\<lambda>cfg.
            bindR (main_open E (hd words)) (\<lambda>fd. Inr (st, cfg, fd))))) of
        Inl e \<Rightarrow> (Inl e, out)
      | Inr (st, cfg, fd) \<Rightarrow> dump_tool w (me_malloc E) cfg fd (sint (o_cpu st)) buf (unat (o_bufsz st)) out)"

definition split_prefix :: "settings \<Rightarrow> string \<Rightarrow> stop + string" where
  "split_prefix st filename =
     (case name_prefix st of
        Some p \<Rightarrow> Inr p
      | None \<Rightarrow> if file_part filename = ''-'' then Inl (Exit (- 1)) else Inr (file_part filename))"

definition split_main :: "main_env \<Rightarrow> (nat \<Rightarrow> nexusrv_msg) \<Rightarrow> split_os \<Rightarrow> u8 list \<Rightarrow> string list \<Rightarrow>
    (stop + nat \<times> nat) \<times> split_state option" where
  "split_main E w os buf args =
     (case getopt_long split_short_opts split_long_opts args of (opts, words) \<Rightarrow>
      case bindR (opt_parse split_cases opts settings_start) (\<lambda>st.
            bindR (need_words 1 words) (\<lambda>_.
            bindR (main_hwcfg st) (\<lambda>cfg.
            bindR (main_open E (hd words)) (\<lambda>fd.
            bindR (split_prefix st (hd words)) (\<lambda>pfx. Inr (st, cfg, fd, pfx)))))) of
        Inl e \<Rightarrow> (Inl e, None)
      | Inr (st, cfg, fd, pfx) \<Rightarrow>
          (case split_tool w os cfg fd buf (unat (o_bufsz st)) pfx of (r, s) \<Rightarrow> (r, Some s)))"

text \<open>The patcher works on a regular file.\<close>

definition patch_main :: "main_env \<Rightarrow> (string \<Rightarrow> u8 list option) \<Rightarrow> u8 list \<Rightarrow> (nat \<Rightarrow> nat option) \<Rightarrow> (nat \<Rightarrow> nexusrv_msg) \<Rightarrow> u8 list \<Rightarrow>
    string list \<Rightarrow> (stop + unit) \<times> patch_state option" where
  "patch_main E files input ok w buf args =
     (case getopt_long patch_short_opts patch_long_opts args of (opts, words) \<Rightarrow>
      case bindR (opt_parse patch_cases opts settings_start) (\<lambda>st.
            bindR (need_words 2 words) (\<lambda>_.
            bindR (main_hwcfg st) (\<lambda>cfg.
            bindR (open_seek_file (me_null_ok E) (Seekable input) (\<lambda>n. map_option Seekable (files n)) (words ! 0)) (\<lambda>fd.
            Inr (st, cfg))))) of
        Inl e \<Rightarrow> (Inl e, None)
      | Inr (st, cfg) \<Rightarrow>
          let name = file_part (words ! 0);
              file = (if name = ''-'' then input else case files name of None \<Rightarrow> [] | Some f \<Rightarrow> f);
              start = (if name = words ! 0 then 0 else unat (strtoul_auto (drop (length name + 1) (words ! 0))))
          in case patch_tool ok w (me_malloc E) cfg file start buf (unat (o_bufsz st)) (words ! 1) of (r, s) \<Rightarrow> (r, Some s))"

text \<open>The assembler; \<open>opens\<close> says whether the output can be opened, \<open>tty\<close> whether it is a terminal.\<close>

definition assemble_main :: "bool \<Rightarrow> bool \<Rightarrow> (nat \<Rightarrow> nexusrv_msg) \<Rightarrow> (nat \<Rightarrow> bool) \<Rightarrow> string \<Rightarrow> string list \<Rightarrow>
    (stop + unit) \<times> asm_state" where
  "assemble_main opens tty w ok inp args =
     (case getopt_long assemble_short_opts assemble_long_opts args of (opts, words) \<Rightarrow>
      case bindR (opt_parse assemble_cases opts settings_start) (\<lambda>st.
            bindR (main_hwcfg st) (\<lambda>cfg.
            if \<not> opens then Inl (Exit (- 1)) else if tty then Inl (Exit (- 1)) else Inr (st, cfg))) of
        Inl e \<Rightarrow> (Inl e, asm_start)
      | Inr (st, cfg) \<Rightarrow> assemble cfg (text_mode st) w ok inp)"

text \<open>The replay utility, with the fuel of its loop.\<close>

definition replay_main :: "main_env \<Rightarrow> replay_env \<Rightarrow> nat \<Rightarrow> bool \<Rightarrow> bool \<Rightarrow> string \<Rightarrow> string list \<Rightarrow>
    (stop + unit) option \<times> replay_state option" where
  "replay_main E R fuel a1 a2 out args =
     (case getopt_long replay_short_opts replay_long_opts args of (opts, words) \<Rightarrow>
      case bindR (opt_parse (replay_cases E) opts settings_start) (\<lambda>st.
            bindR (need_words 1 words) (\<lambda>_.
            bindR (main_hwcfg st) (\<lambda>cfg.
            bindR (main_open E (hd words)) (\<lambda>fd. Inr (st, cfg, fd))))) of
        Inl e \<Rightarrow> (Some (Inl e), None)
      | Inr (st, cfg, fd) \<Rightarrow>
          (case replay R fuel a1 a2 (o_vm st) \<lparr>sy_kinds = o_kinds st, sy_objs = [], sy_cache = [], sy_servers = []\<rparr>
             (nexusrv_msg_decoder_init cfg fd (sint (o_cpu st)) (replicate (unat (o_bufsz st)) 0) (unat (o_bufsz st))) out of
             (r, s) \<Rightarrow> (r, Some s)))"

section \<open>Properties\<close>

text \<open>No option of the command line sets the hardware configuration.\<close>

definition no_hwcfg :: "string \<Rightarrow> long_opt list \<Rightarrow> string list \<Rightarrow> bool" where
  "no_hwcfg shorts longs args \<longleftrightarrow> CHR ''w'' \<notin> fst ` set (fst (getopt_long shorts longs args))"

definition keeps_case :: "opt_case \<Rightarrow> bool" where
  "keeps_case x \<longleftrightarrow> fst x = CHR ''w'' \<or> (\<forall>a st st'. snd x a st = Inr st' \<longrightarrow> hwcfg_str st' = hwcfg_str st)"

definition keeps_hwcfg :: "opt_case list \<Rightarrow> bool" where
  "keeps_hwcfg cases \<longleftrightarrow> (\<forall>x \<in> set cases. keeps_case x)"

lemma opt_parse_keeps:
  assumes "keeps_hwcfg cases"
  shows "\<forall>(c, a) \<in> set opts. c \<noteq> CHR ''w'' \<Longrightarrow> opt_parse cases opts st = Inr st' \<Longrightarrow> hwcfg_str st' = hwcfg_str st"
proof (induction opts arbitrary: st)
  case (Cons x opts)
  obtain c a where x: "x = (c, a)" by (cases x)
  with Cons.prems obtain f st1 where f: "map_of cases c = Some f" "f a st = Inr st1" "opt_parse cases opts st1 = Inr st'"
    by (auto split: option.splits)
  have "hwcfg_str st1 = hwcfg_str st"
    using assms map_of_SomeD [OF f(1)] f(2) Cons.prems(1) x by (fastforce simp: keeps_hwcfg_def keeps_case_def)
  with Cons.IH [OF _ f(3)] Cons.prems(1) show ?case by simp
qed simp

lemma default_config: "main_hwcfg st = Inl (Exit (- 1))" if "hwcfg_str st = ''generic64''"
proof -
  have "(case nexusrv_hwcfg_parse ''generic64'' of (r, c) \<Rightarrow> (case r of Inl e \<Rightarrow> True | Inr u \<Rightarrow> False))" by code_simp
  with that show ?thesis by (auto simp: main_hwcfg_def split: prod.splits sum.splits)
qed

lemma keeps_simple [simp]:
  "keeps_case OPT_PARSE_H_HELP" "keeps_case OPT_PARSE_W_HWCFG" "keeps_case OPT_PARSE_X_TEXT" "keeps_case OPT_PARSE_P_PREFIX"
  "keeps_case OPT_PARSE_R_SYSROOT" "keeps_case OPT_PARSE_D_DEBUGDIR" "keeps_case OPT_PARSE_P_PROCFS" "keeps_case OPT_PARSE_Y_SYSFS"
  by (simp_all add: keeps_case_def OPT_PARSE_H_HELP_def OPT_PARSE_W_HWCFG_def OPT_PARSE_X_TEXT_def OPT_PARSE_P_PREFIX_def
      OPT_PARSE_R_SYSROOT_def OPT_PARSE_D_DEBUGDIR_def OPT_PARSE_P_PROCFS_def OPT_PARSE_Y_SYSFS_def)

lemma keeps_number [simp]: "keeps_case OPT_PARSE_C_CPU" "keeps_case OPT_PARSE_B_BUFSZ"
  by (auto simp: keeps_case_def OPT_PARSE_C_CPU_def OPT_PARSE_B_BUFSZ_def Let_def split: sum.splits if_splits)

lemma add_core_keeps: "add_core obj kind st = Inr st' \<Longrightarrow> hwcfg_str st' = hwcfg_str st"
  by (auto simp: add_core_def split: prod.splits sum.splits)

lemma keeps_coreI:
  assumes "\<And>a st st'. f a st = Inr st' \<Longrightarrow> \<exists>obj kind. add_core obj kind st = Inr st'"
  shows "keeps_case (c, f)"
  unfolding keeps_case_def
proof (intro disjI2 allI impI)
  fix a st st'
  assume "snd (c, f) a st = Inr st'"
  then have "f a st = Inr st'" by simp
  from assms [OF this] show "hwcfg_str st' = hwcfg_str st" by (elim exE) (rule add_core_keeps)
qed

lemma keeps_core [simp]: "keeps_case (OPT_PARSE_U_UCORE E)" "keeps_case (OPT_PARSE_K_KCORE E)" "keeps_case (OPT_PARSE_E_ELF E)"
  unfolding OPT_PARSE_U_UCORE_def OPT_PARSE_K_KCORE_def OPT_PARSE_E_ELF_def
  by (rule keeps_coreI, simp only: bindR_eq_Inr, blast)+

lemma no_hwcfg_opts: "no_hwcfg shorts longs args \<Longrightarrow> CHR ''w'' \<notin> fst ` set (fst (getopt_long shorts longs args))"
  by (simp add: no_hwcfg_def)

lemma core_cases_trace [simp]:
  "OPT_PARSE_U_UCORE (E\<lparr>me_files := files, me_stdin := input\<rparr>) = OPT_PARSE_U_UCORE E"
  "OPT_PARSE_K_KCORE (E\<lparr>me_files := files, me_stdin := input\<rparr>) = OPT_PARSE_K_KCORE E"
  "OPT_PARSE_E_ELF (E\<lparr>me_files := files, me_stdin := input\<rparr>) = OPT_PARSE_E_ELF E"
  by (simp_all add: OPT_PARSE_U_UCORE_def OPT_PARSE_K_KCORE_def OPT_PARSE_E_ELF_def)

lemma atoi_fails: "atoi a = Inl e \<Longrightarrow> e = Undef"
  by (auto simp: atoi_def split: if_splits option.splits)

text \<open>The cases do not exit with 0.\<close>

definition fails_case :: "opt_case \<Rightarrow> bool" where
  "fails_case x \<longleftrightarrow> (\<forall>a st. snd x a st \<noteq> Inl (Exit 0))"

lemma fails_simple [simp]:
  "fails_case OPT_PARSE_H_HELP" "fails_case OPT_PARSE_W_HWCFG" "fails_case OPT_PARSE_X_TEXT" "fails_case OPT_PARSE_P_PREFIX"
  "fails_case OPT_PARSE_C_CPU" "fails_case OPT_PARSE_B_BUFSZ"
  by (auto simp: fails_case_def OPT_PARSE_H_HELP_def OPT_PARSE_W_HWCFG_def OPT_PARSE_X_TEXT_def OPT_PARSE_P_PREFIX_def
      OPT_PARSE_C_CPU_def OPT_PARSE_B_BUFSZ_def Let_def split: sum.splits dest: atoi_fails)

lemma opt_parse_fails:
  assumes "\<forall>x \<in> set cases. fails_case x"
  shows "opt_parse cases opts st \<noteq> Inl (Exit 0)"
proof (induction opts arbitrary: st)
  case (Cons x opts)
  obtain c a where x: "x = (c, a)" by (cases x)
  show ?case
  proof (cases "map_of cases c")
    case (Some f)
    then have "f a st \<noteq> Inl (Exit 0)" using assms map_of_SomeD [OF Some] by (force simp: fails_case_def)
    with Some x Cons.IH show ?thesis by (cases "f a st") auto
  qed (simp add: x)
qed simp

text \<open>The part of a main function up to the configuration, whatever comes behind it, and its error.\<close>

definition config_error :: "opt_case list \<Rightarrow> (char \<times> string) list \<Rightarrow> (stop + unit) \<Rightarrow> stop" where
  "config_error cases opts words_ok =
     (case opt_parse cases opts settings_start of Inl e \<Rightarrow> e | Inr _ \<Rightarrow> (case words_ok of Inl e \<Rightarrow> e | Inr _ \<Rightarrow> Exit (- 1)))"

lemma stops_at_config:
  assumes "CHR ''w'' \<notin> fst ` set opts" and "keeps_hwcfg cases"
  shows "bindR (opt_parse cases opts settings_start) (\<lambda>st. bindR ok (\<lambda>_. bindR (main_hwcfg st) (k st))) =
      Inl (config_error cases opts ok)"
    and "bindR (opt_parse cases opts settings_start) (\<lambda>st. bindR (main_hwcfg st) (l st)) =
      Inl (config_error cases opts (Inr ()))"
proof -
  have "hwcfg_str st = ''generic64''" if "opt_parse cases opts settings_start = Inr st" for st
  proof -
    have "\<forall>(c, a) \<in> set opts. c \<noteq> CHR ''w''" using assms(1) by force
    from opt_parse_keeps [OF assms(2) this that] show ?thesis by (simp add: settings_start_def)
  qed
  then show "bindR (opt_parse cases opts settings_start) (\<lambda>st. bindR ok (\<lambda>_. bindR (main_hwcfg st) (k st))) =
      Inl (config_error cases opts ok)"
    "bindR (opt_parse cases opts settings_start) (\<lambda>st. bindR (main_hwcfg st) (l st)) =
      Inl (config_error cases opts (Inr ()))"
    by (cases "opt_parse cases opts settings_start"; cases ok; simp add: config_error_def default_config)+
qed

lemma config_error_nonzero:
  assumes "\<forall>x \<in> set cases. fails_case x"
  shows "config_error cases opts (need_words n words) \<noteq> Exit 0" and "config_error cases opts (Inr ()) \<noteq> Exit 0"
  using opt_parse_fails [OF assms, of opts settings_start]
  by (auto simp: config_error_def need_words_def split: sum.split)

lemmas cases_defs = dump_cases_def split_cases_def patch_cases_def assemble_cases_def replay_cases_def

lemma keeps_cases [simp]:
  "keeps_hwcfg dump_cases" "keeps_hwcfg split_cases" "keeps_hwcfg patch_cases" "keeps_hwcfg assemble_cases" "keeps_hwcfg (replay_cases E)"
  by (simp_all add: keeps_hwcfg_def cases_defs)

lemma fails_cases [simp]:
  "\<forall>x \<in> set dump_cases. fails_case x" "\<forall>x \<in> set split_cases. fails_case x" "\<forall>x \<in> set patch_cases. fails_case x"
  "\<forall>x \<in> set assemble_cases. fails_case x"
  by (simp_all add: cases_defs)

lemma replay_cases_trace [simp]: "replay_cases (E\<lparr>me_files := files, me_stdin := input\<rparr>) = replay_cases E"
  by (simp add: replay_cases_def)

text \<open>Each main function without a configuration.\<close>

lemma mains_refused:
  "no_hwcfg dump_short_opts dump_long_opts args \<Longrightarrow> dump_main E w buf out args =
     (case getopt_long dump_short_opts dump_long_opts args of (opts, words) \<Rightarrow>
        (Inl (config_error dump_cases opts (need_words 1 words)), out))"
  "no_hwcfg split_short_opts split_long_opts args \<Longrightarrow> split_main E w os buf args =
     (case getopt_long split_short_opts split_long_opts args of (opts, words) \<Rightarrow>
        (Inl (config_error split_cases opts (need_words 1 words)), None))"
  "no_hwcfg patch_short_opts patch_long_opts args \<Longrightarrow> patch_main E files input ok w buf args =
     (case getopt_long patch_short_opts patch_long_opts args of (opts, words) \<Rightarrow>
        (Inl (config_error patch_cases opts (need_words 2 words)), None))"
  "no_hwcfg assemble_short_opts assemble_long_opts args \<Longrightarrow> assemble_main opens tty w written inp args =
     (case getopt_long assemble_short_opts assemble_long_opts args of (opts, words) \<Rightarrow>
        (Inl (config_error assemble_cases opts (Inr ())), asm_start))"
  "no_hwcfg replay_short_opts replay_long_opts args \<Longrightarrow> replay_main E R fuel a1 a2 log args =
     (case getopt_long replay_short_opts replay_long_opts args of (opts, words) \<Rightarrow>
        (Some (Inl (config_error (replay_cases E) opts (need_words 1 words))), None))"
  by (simp_all only: no_hwcfg_def dump_main_def split_main_def patch_main_def assemble_main_def replay_main_def
      case_prod_unfold stops_at_config keeps_cases sum.case not_False_eq_True)


definition ex_main_env :: main_env where
  "ex_main_env = \<lparr>me_null_ok = True, me_stdin = Seekable [], me_files = (\<lambda>n. Some (Seekable [0xFF])), me_malloc = True,
     me_host = ex_host, me_core = (\<lambda>n. Inl Crash), me_march = (\<lambda>n. Mach_other), me_contents = (\<lambda>n s. None), me_modules = (\<lambda>n. None)\<rparr>"


text \<open>An option that is cut short sets the configuration, too, if one name only begins like that.\<close>

lemma hwcfg_abbreviated:
  "\<not> no_hwcfg dump_short_opts dump_long_opts [''trace'', ''--hw'', ''model=p550x4'', ''-c1'']"
  "no_hwcfg dump_short_opts dump_long_opts [''--h'', ''--'', ''-w'']"
  by code_simp+

text \<open>
  The dumper and the patcher describe an option \<^verbatim>\<open>-b\<close>, but the table of their short options does not have it; it has \<^verbatim>\<open>-s\<close>, which
  they do not handle. With either of them they end.
\<close>

lemma short_option_unknown:
  assumes "c \<in> {CHR ''b'', CHR ''s''}" and "shorts = ''hw:s:c:''"
  shows "\<exists>d a opts. fst (getopt_long shorts longs ([CHR ''-'', c] # args)) = (d, a) # opts \<and> d \<in> {CHR ''?'', CHR ''s''}"
  using assms by (auto simp: getopt_long.simps(2) next_word_def split: list.split)

lemma short_option_refused:
  assumes "c \<in> {CHR ''b'', CHR ''s''}"
  shows "dump_main E w buf out ([CHR ''-'', c] # args) = (Inl (Exit 1), out)"
    and "patch_main E files input ok w buf ([CHR ''-'', c] # args) = (Inl (Exit 1), None)"
  using short_option_unknown [OF assms dump_short_opts_def, of dump_long_opts args]
    short_option_unknown [OF assms patch_short_opts_def, of patch_long_opts args]
  by (auto simp: dump_main_def patch_main_def case_prod_unfold dump_cases_def patch_cases_def OPT_PARSE_H_HELP_def
      OPT_PARSE_W_HWCFG_def OPT_PARSE_C_CPU_def OPT_PARSE_B_BUFSZ_def)

end
