(* ===== verification/TrigModule.thy ===== *)
theory TrigModule
  imports ToolBase
begin

text \<open>
  The kernel module of \<^verbatim>\<open>contrib/p550/rvtrigger/rvtrace-trigger.c\<close>, which sets a hardware trigger at the addresses
  of some functions so that the trace is synchronised there. The firmware (SBI) and the functions of the kernel are arguments;
  a \<open>Crash\<close> is an invalid access of the kernel.
\<close>

section \<open>State\<close>

text \<open>An entry of the memory shared with the firmware, \<^verbatim>\<open>struct sbi_dbtr_shmem_msg_v1_6\<close>.\<close>

record sbi_dbtr_shmem_msg =
  sm_state :: u64
  sm_tdata1 :: u64
  sm_tdata2 :: u64
  sm_tdata3 :: u64
  sm_idx :: u64

type_synonym sbi_call = "u64 \<times> u64 \<times> u64"

text \<open>A call of the firmware with the shared memory as the firmware found it, and its result.\<close>

type_synonym sbi_event = "sbi_call \<times> sbi_dbtr_shmem_msg list option \<times> int"

text \<open>The calls of the firmware so far, the shared memory of the CPU, the resolved addresses and the number of triggers.\<close>

record trig_module =
  tg_calls :: "sbi_event list"
  shmem_msgs :: "sbi_dbtr_shmem_msg list option"
  resolved_addrs :: "u64 list"
  num_trig :: nat

text \<open>
  \<open>te_sbi\<close> gives error and value of a call after others, with the shared memory it finds; \<open>te_shmem\<close> is the entry of the
  memory the call leaves at an index. \<open>te_errno\<close> is \<^verbatim>\<open>sbi_err_map_linux_errno\<close>.
  \<open>te_kstrtoul\<close> converts a string, or gives a positive error number. \<open>te_kln\<close> is \<^verbatim>\<open>kallsyms_lookup_name\<close>, \<open>te_setup\<close>
  the result of \<^verbatim>\<open>cpuhp_setup_state\<close>.
\<close>

record trig_env =
  te_probe :: bool
  te_sbi :: "sbi_event list \<Rightarrow> sbi_dbtr_shmem_msg list option \<Rightarrow> sbi_call \<Rightarrow> int \<times> int"
  te_shmem :: "sbi_event list \<Rightarrow> sbi_dbtr_shmem_msg list \<Rightarrow> sbi_call \<Rightarrow> nat \<Rightarrow> sbi_dbtr_shmem_msg"
  te_errno :: "int \<Rightarrow> int"
  te_addrs :: "string list"
  te_kstrtoul :: "string \<Rightarrow> int + u64"
  te_kln :: "string \<Rightarrow> u64"
  te_kzalloc :: bool
  te_pa :: u64
  te_setup :: int

type_synonym 'a tm = "(trig_module, 'a) tool"

definition NUM_TRIGGERS :: u64 where "NUM_TRIGGERS = 0"
definition SET_SHMEM :: u64 where "SET_SHMEM = 1"
definition TRIG_READ :: u64 where "TRIG_READ = 2"
definition TRIG_INSTALL :: u64 where "TRIG_INSTALL = 3"
definition TRIG_UPDATE :: u64 where "TRIG_UPDATE = 4"
definition TRIGSET_UNINSTALL :: u64 where "TRIGSET_UNINSTALL = 5"
definition TRIGSET_ENABLE :: u64 where "TRIGSET_ENABLE = 6"
definition TRIGSET_DISABLE :: u64 where "TRIGSET_DISABLE = 7"

text \<open>The bit-fields of \<^verbatim>\<open>union csr_mcontrol6\<close> that are set: type, action, and execution in the modes S and VS.\<close>

definition csr_mcontrol6 :: "u64 \<Rightarrow> u64 \<Rightarrow> u64 \<Rightarrow> u64 \<Rightarrow> u64 \<Rightarrow> u64" where
  "csr_mcontrol6 type action execute s vs =
     push_bit 60 type OR push_bit 24 vs OR push_bit 12 action OR push_bit 4 s OR push_bit 2 execute"

section \<open>Operations\<close>

text \<open>What a call leaves in the shared memory.\<close>

definition written :: "trig_env \<Rightarrow> trig_module \<Rightarrow> sbi_call \<Rightarrow> sbi_dbtr_shmem_msg list option" where
  "written E s call = map_option (\<lambda>ms. map (te_shmem E (tg_calls s) ms call) [0..<length ms]) (shmem_msgs s)"

definition sbi_dbtr_call :: "trig_env \<Rightarrow> u64 \<Rightarrow> u64 \<Rightarrow> u64 \<Rightarrow> int tm" where
  "sbi_dbtr_call E fid arg0 arg1 = (\<lambda>s.
     case te_sbi E (tg_calls s) (shmem_msgs s) (fid, arg0, arg1) of (err, val) \<Rightarrow>
       let ret = sint (word_of_int (if err \<noteq> 0 then te_errno E err else val) :: 32 word) in
       (Inr ret,
        s\<lparr>tg_calls := tg_calls s @ [((fid, arg0, arg1), shmem_msgs s, ret)], shmem_msgs := written E s (fid, arg0, arg1)\<rparr>))"

definition rvtrigger_cpu_release :: "trig_env \<Rightarrow> unit tm" where
  "rvtrigger_cpu_release E =
     bindS (sbi_dbtr_call E SET_SHMEM (- 1) (- 1)) (\<lambda>ret.
     whenS (ret = 0) (modS (\<lambda>s. s\<lparr>shmem_msgs := None\<rparr>)))"

fun uninstall_all :: "trig_env \<Rightarrow> nat \<Rightarrow> nat \<Rightarrow> unit tm" where
  "uninstall_all E i 0 = retS ()"
| "uninstall_all E i (Suc n) = bindS (sbi_dbtr_call E TRIGSET_UNINSTALL (of_nat i) 1) (\<lambda>ret. uninstall_all E (i + 1) n)"

definition put_msg :: "nat \<Rightarrow> u64 \<Rightarrow> u64 \<Rightarrow> unit tm" where
  "put_msg k tdata1 addr = (\<lambda>s.
     case shmem_msgs s of
       None \<Rightarrow> (Inl Crash, s)
     | Some ms \<Rightarrow>
         if k < length ms then
           (Inr (), s\<lparr>shmem_msgs := Some (ms[k := (ms ! k)\<lparr>sm_tdata1 := tdata1, sm_tdata2 := addr, sm_tdata3 := 0\<rparr>])\<rparr>)
         else (Inl Crash, s))"

text \<open>The loop over the addresses; the result is the number of triggers and the set of their bits.\<close>

fun put_msgs :: "u64 \<Rightarrow> u64 list \<Rightarrow> nat \<Rightarrow> u64 \<Rightarrow> (nat \<times> u64) tm" where
  "put_msgs tdata1 [] k trig_set = retS (k, trig_set)"
| "put_msgs tdata1 (a # as) k trig_set =
     (if a = 0 then put_msgs tdata1 as k trig_set
      else thenS (put_msg k tdata1 a) (put_msgs tdata1 as (k + 1) (trig_set OR push_bit k 1)))"

definition cpu_fail :: "trig_env \<Rightarrow> int \<Rightarrow> int tm" where
  "cpu_fail E ret = thenS (rvtrigger_cpu_release E) (retS ret)"

text \<open>The calls for the triggers in the shared memory.\<close>

definition cpu_install :: "trig_env \<Rightarrow> nat \<Rightarrow> u64 \<Rightarrow> int tm" where
  "cpu_install E trig_idx trig_set =
     bindS (sbi_dbtr_call E TRIG_INSTALL (of_nat trig_idx) 0) (\<lambda>ret.
     if ret \<noteq> 0 then cpu_fail E ret
     else
       bindS (sbi_dbtr_call E TRIGSET_ENABLE 0 trig_set) (\<lambda>ret.
       if ret \<noteq> 0 then bindS (sbi_dbtr_call E TRIGSET_DISABLE 0 trig_set) (\<lambda>_. cpu_fail E ret)
       else
         bindS (sbi_dbtr_call E TRIG_READ 0 (of_nat trig_idx)) (\<lambda>ret.
         if ret \<noteq> 0 then cpu_fail E ret else retS 0)))"

definition rvtrigger_cpu_online :: "trig_env \<Rightarrow> int tm" where
  "rvtrigger_cpu_online E =
     (if \<not> te_kzalloc E then retS (- 12)
      else
        thenS (modS (\<lambda>s. s\<lparr>shmem_msgs := Some (replicate (num_trig s)
           \<lparr>sm_state = 0, sm_tdata1 = 0, sm_tdata2 = 0, sm_tdata3 = 0, sm_idx = 0\<rparr>)\<rparr>))
       (bindS (sbi_dbtr_call E SET_SHMEM (te_pa E) 0) (\<lambda>ret.
        if ret \<noteq> 0 then cpu_fail E ret
        else
          bindS (readS (\<lambda>s. (num_trig s, take (length (te_addrs E)) (resolved_addrs s)))) (\<lambda>(n, addrs).
          thenS (uninstall_all E 0 n)
         (bindS (put_msgs (csr_mcontrol6 6 4 1 1 1) addrs 0 0) (\<lambda>(trig_idx, trig_set).
          cpu_install E trig_idx trig_set))))))"

fun trigger_set :: "u64 list \<Rightarrow> nat \<Rightarrow> u64 \<Rightarrow> u64" where
  "trigger_set [] k trig_set = trig_set"
| "trigger_set (a # as) k trig_set =
     (if a = 0 then trigger_set as k trig_set else trigger_set as (k + 1) (trig_set OR push_bit k 1))"

definition rvtrigger_cpu_offline :: "trig_env \<Rightarrow> int tm" where
  "rvtrigger_cpu_offline E =
     bindS (readS (\<lambda>s. trigger_set (take (length (te_addrs E)) (resolved_addrs s)) 0 0)) (\<lambda>trig_set.
     bindS (sbi_dbtr_call E TRIGSET_DISABLE 0 trig_set) (\<lambda>_.
     bindS (sbi_dbtr_call E TRIGSET_UNINSTALL 0 trig_set) (\<lambda>_.
     thenS (rvtrigger_cpu_release E) (retS 0))))"

text \<open>
  The string is converted with \<^verbatim>\<open>kstrtoul(addrs[i], NULL, 0)\<close>: the base is 0 and the pointer to the result is null. The
  function returns 0 or a negative error number; a number is written through the pointer.
\<close>

definition set_addr :: "nat \<Rightarrow> u64 \<Rightarrow> unit tm" where
  "set_addr i a = modS (\<lambda>s. s\<lparr>resolved_addrs := (resolved_addrs s)[i := a]\<rparr>)"

definition resolve_addr :: "trig_env \<Rightarrow> nat \<Rightarrow> string \<Rightarrow> unit tm" where
  "resolve_addr E i addr =
     (case te_kstrtoul E addr of
        Inr v \<Rightarrow> throwS Crash
      | Inl err \<Rightarrow>
          thenS (set_addr i (word_of_int (- err)))
            (whenS ((word_of_int (- err) :: u64) = 0) (set_addr i (te_kln E addr))))"

fun resolve_all :: "trig_env \<Rightarrow> nat \<Rightarrow> string list \<Rightarrow> unit tm" where
  "resolve_all E i [] = retS ()"
| "resolve_all E i (a # as) = thenS (resolve_addr E i a) (resolve_all E (i + 1) as)"

definition rvtrigger_init :: "trig_env \<Rightarrow> int tm" where
  "rvtrigger_init E =
     (if \<not> te_probe E then retS (- 19)
      else
        bindS (sbi_dbtr_call E NUM_TRIGGERS (csr_mcontrol6 6 0 0 0 0) 0) (\<lambda>ret.
        if ret < 0 then retS ret
        else
          thenS (modS (\<lambda>s. s\<lparr>num_trig := nat ret\<rparr>))
            (if ret < int (length (te_addrs E)) then retS (- 7)
             else
               thenS (resolve_all E 0 (te_addrs E))
                 (retS (if te_setup E < 0 then te_setup E else 0)))))"

section \<open>Properties\<close>

subsection \<open>Setting up a CPU\<close>

text \<open>
  The state after some calls, with the memory they have left. The firmware can change the entries of the memory,
  not their number.
\<close>

definition after :: "trig_module \<Rightarrow> sbi_event list \<Rightarrow> sbi_dbtr_shmem_msg list option \<Rightarrow> trig_module" where
  "after s evs mem = s\<lparr>tg_calls := tg_calls s @ evs, shmem_msgs := mem\<rparr>"

lemma after_simps [simp]:
  "shmem_msgs (after s evs mem) = mem" "tg_calls (after s evs mem) = tg_calls s @ evs"
  "resolved_addrs (after s evs mem) = resolved_addrs s" "num_trig (after s evs mem) = num_trig s"
  "(after s evs mem)\<lparr>shmem_msgs := mem'\<rparr> = after s evs mem'" "after (after s evs mem) evs' mem' = after s (evs @ evs') mem'"
  by (simp_all add: after_def)

lemma call_run:
  obtains ret mem' where
    "sbi_dbtr_call E fid a b (after s evs mem) = (Inr ret, after s (evs @ [((fid, a, b), mem, ret)]) mem')"
    and "map_option length mem' = map_option length mem"
proof -
  obtain err val where r: "te_sbi E (tg_calls s @ evs) mem (fid, a, b) = (err, val)" by (metis surj_pair)
  have "map_option length (written E (after s evs mem) (fid, a, b)) = map_option length mem"
    by (simp add: written_def option.map_comp comp_def)
  with r that show thesis by (simp add: sbi_dbtr_call_def Let_def after_def)
qed

lemma cpu_fail_run:
  obtains r mem' where
    "cpu_fail E ret (after s evs mem) = (Inr ret, after s (evs @ [((SET_SHMEM, - 1, - 1), mem, r)]) mem')"
    and "mem \<noteq> None \<Longrightarrow> mem' = None \<longleftrightarrow> r = 0"
proof -
  obtain r mem' where c: "sbi_dbtr_call E SET_SHMEM (- 1) (- 1) (after s evs mem) =
      (Inr r, after s (evs @ [((SET_SHMEM, - 1, - 1), mem, r)]) mem')" "map_option length mem' = map_option length mem"
    by (rule call_run)
  show thesis
  proof (rule that)
    show "cpu_fail E ret (after s evs mem) =
      (Inr ret, after s (evs @ [((SET_SHMEM, - 1, - 1), mem, r)]) (if r = 0 then None else mem'))"
      using c by (simp add: cpu_fail_def rvtrigger_cpu_release_def thenS_def bindS_def whenS_def modS_def retS_def)
    show "mem \<noteq> None \<Longrightarrow> (if r = 0 then None else mem') = None \<longleftrightarrow> r = 0" using c(2) by auto
  qed
qed

text \<open>The entries for the triggers, as the loop over the addresses leaves them.\<close>

definition is_trigger :: "u64 \<Rightarrow> sbi_dbtr_shmem_msg \<Rightarrow> bool" where
  "is_trigger a m \<longleftrightarrow> sm_tdata1 m = 0x6000000001004014 \<and> sm_tdata2 m = a \<and> sm_tdata3 m = 0"

definition real_addrs :: "trig_env \<Rightarrow> trig_module \<Rightarrow> u64 list" where
  "real_addrs E s = filter (\<lambda>a. a \<noteq> 0) (take (length (te_addrs E)) (resolved_addrs s))"

lemma put_msgs_filter: "put_msgs tdata1 as k ts = put_msgs tdata1 (filter (\<lambda>a. a \<noteq> 0) as) k ts"
  by (induction as arbitrary: k ts) auto

lemma trigger_set_mask: "trigger_set as k (mask k) = mask (k + length (filter (\<lambda>a. a \<noteq> 0) as))"
proof (induction as arbitrary: k)
  case (Cons a as)
  have "mask k OR push_bit k (1 :: u64) = mask (k + 1)" by (simp add: mask_Suc_exp push_bit_eq_mult or.commute)
  with Cons.IH [of k] Cons.IH [of "k + 1"] show ?case by simp
qed simp

lemma put_msgs_run:
  assumes "0 \<notin> set as" and "k + length as \<le> length ms"
  shows "\<exists>ms'. put_msgs (csr_mcontrol6 6 4 1 1 1) as k ts (after s evs (Some ms)) =
      (Inr (k + length as, trigger_set as k ts), after s evs (Some ms')) \<and>
    length ms' = length ms \<and> take k ms' = take k ms \<and> (\<forall>i < length as. is_trigger (as ! i) (ms' ! (k + i)))"
  using assms
proof (induction as arbitrary: ms k ts)
  case (Cons a as)
  let ?ms = "ms[k := (ms ! k)\<lparr>sm_tdata1 := csr_mcontrol6 6 4 1 1 1, sm_tdata2 := a, sm_tdata3 := 0\<rparr>]"
  have put: "put_msg k (csr_mcontrol6 6 4 1 1 1) a (after s evs (Some ms)) = (Inr (), after s evs (Some ?ms))"
    using Cons.prems by (simp add: put_msg_def)
  from Cons.IH [of "k + 1" ?ms "ts OR push_bit k 1"] Cons.prems obtain ms' where
    run: "put_msgs (csr_mcontrol6 6 4 1 1 1) as (k + 1) (ts OR push_bit k 1) (after s evs (Some ?ms)) =
      (Inr (k + 1 + length as, trigger_set as (k + 1) (ts OR push_bit k 1)), after s evs (Some ms'))" and
    ms': "length ms' = length ms" "take (k + 1) ms' = take (k + 1) ?ms" "\<forall>i < length as. is_trigger (as ! i) (ms' ! (k + 1 + i))"
    by auto
  have "take (k + 1) ms' ! k = take (k + 1) ?ms ! k" by (simp only: ms'(2))
  then have "ms' ! k = ?ms ! k" by simp
  then have "is_trigger a (ms' ! k)" using Cons.prems by (simp add: is_trigger_def csr_mcontrol6_def)
  with ms'(3) have "is_trigger ((a # as) ! i) (ms' ! (k + i))" if "i < length (a # as)" for i
    using that by (cases i) auto
  moreover have "take k ms' = take k ms"
    using arg_cong [OF ms'(2), of "take k"] by (simp add: min_def)
  ultimately show ?case using put run ms'(1) Cons.prems(1) by (auto simp: comp_simps)
qed (auto simp: retS_def)

lemma uninstall_all_run:
  "\<exists>evs' mem'. uninstall_all E i n (after s evs mem) = (Inr (), after s (evs @ evs') mem') \<and>
    map fst evs' = map (\<lambda>j. (TRIGSET_UNINSTALL, of_nat j, 1)) [i..<i + n] \<and> map_option length mem' = map_option length mem"
proof (induction n arbitrary: i evs mem)
  case 0
  show ?case by (rule exI [of _ "[]"], rule exI [of _ mem]) (simp add: retS_def)
next
  case (Suc n)
  obtain r mem1 where c: "sbi_dbtr_call E TRIGSET_UNINSTALL (of_nat i) 1 (after s evs mem) =
      (Inr r, after s (evs @ [((TRIGSET_UNINSTALL, of_nat i, 1), mem, r)]) mem1)"
    and mem: "map_option length mem1 = map_option length mem"
    by (rule call_run)
  let ?ev = "((TRIGSET_UNINSTALL, of_nat i, 1), mem, r)"
  from Suc.IH [of "i + 1" "evs @ [?ev]" mem1] obtain evs' mem' where
    "uninstall_all E (i + 1) n (after s (evs @ [?ev]) mem1) = (Inr (), after s (evs @ ?ev # evs') mem')"
    "map fst evs' = map (\<lambda>j. (TRIGSET_UNINSTALL, of_nat j, 1)) [i + 1..<i + 1 + n]" "map_option length mem' = map_option length mem"
    using mem by auto
  with c show ?case
    by (intro exI [of _ "?ev # evs'"] exI [of _ mem']) (simp add: comp_simps upt_conv_Cons del: upt_Suc)
qed

text \<open>
  The calls that set up a CPU, the ones whose result counts, and the ones that follow when one of these fails. An event passes if
  its call has succeeded or its result does not count.
\<close>

definition online_script :: "trig_env \<Rightarrow> trig_module \<Rightarrow> sbi_call list" where
  "online_script E s =
     (let n = length (real_addrs E s) in
      (SET_SHMEM, te_pa E, 0) # map (\<lambda>j. (TRIGSET_UNINSTALL, of_nat j, 1)) [0..<num_trig s] @
      [(TRIG_INSTALL, of_nat n, 0), (TRIGSET_ENABLE, 0, mask n), (TRIG_READ, 0, of_nat n)])"

definition clean_up :: "nat \<Rightarrow> sbi_call \<Rightarrow> sbi_call list" where
  "clean_up n call = (if fst call = TRIGSET_ENABLE then [(TRIGSET_DISABLE, 0, mask n)] else []) @ [(SET_SHMEM, - 1, - 1)]"

definition passes :: "sbi_event \<Rightarrow> bool" where
  "passes ev \<longleftrightarrow> fst (fst ev) = TRIGSET_UNINSTALL \<or> snd (snd ev) = 0"

definition online_fails :: "trig_env \<Rightarrow> trig_module \<Rightarrow> int \<Rightarrow> sbi_event list \<Rightarrow> bool" where
  "online_fails E s ret evs \<longleftrightarrow>
     (\<exists>before ev behind undone. evs = before @ ev # behind \<and> online_script E s = map fst before @ fst ev # undone \<and>
        (\<forall>x \<in> set before. passes x) \<and> \<not> passes ev \<and> snd (snd ev) = ret \<and>
        map fst behind = clean_up (length (real_addrs E s)) (fst ev))"

text \<open>The memory in which the triggers are installed.\<close>

definition installs :: "u64 list \<Rightarrow> sbi_event \<Rightarrow> bool" where
  "installs addrs ev \<longleftrightarrow> fst (fst ev) = TRIG_INSTALL \<longrightarrow>
     (\<exists>ms. fst (snd ev) = Some ms \<and> length addrs \<le> length ms \<and> (\<forall>i < length addrs. is_trigger (addrs ! i) (ms ! i)))"

lemmas fid_defs = NUM_TRIGGERS_def SET_SHMEM_def TRIG_READ_def TRIG_INSTALL_def TRIG_UPDATE_def TRIGSET_UNINSTALL_def
  TRIGSET_ENABLE_def TRIGSET_DISABLE_def

text \<open>What setting up a CPU comes to.\<close>

definition online_result :: "trig_env \<Rightarrow> trig_module \<Rightarrow> int \<Rightarrow> sbi_event list \<Rightarrow> sbi_dbtr_shmem_msg list option \<Rightarrow> bool" where
  "online_result E s ret evs mem \<longleftrightarrow>
     (\<forall>x \<in> set evs. installs (real_addrs E s) x) \<and>
     (if ret = 0 then map fst evs = online_script E s \<and> (\<forall>x \<in> set evs. passes x) \<and> map_option length mem = Some (num_trig s)
      else online_fails E s ret evs \<and> (mem = None \<longleftrightarrow> snd (snd (last evs)) = 0))"

lemma installs_other [simp]:
  "installs as ((SET_SHMEM, x), y)" "installs as ((TRIGSET_UNINSTALL, x), y)" "installs as ((TRIGSET_ENABLE, x), y)"
  "installs as ((TRIGSET_DISABLE, x), y)" "installs as ((TRIG_READ, x), y)"
  by (simp_all add: installs_def fid_defs)

lemma clean_up_other [simp]:
  "clean_up n (SET_SHMEM, x) = [(SET_SHMEM, - 1, - 1)]" "clean_up n (TRIG_INSTALL, x) = [(SET_SHMEM, - 1, - 1)]"
  "clean_up n (TRIG_READ, x) = [(SET_SHMEM, - 1, - 1)]"
  "clean_up n (TRIGSET_ENABLE, x) = [(TRIGSET_DISABLE, 0, mask n), (SET_SHMEM, - 1, - 1)]"
  by (simp_all add: clean_up_def fid_defs)

lemma fids_differ [simp]:
  "SET_SHMEM \<noteq> TRIGSET_UNINSTALL" "TRIG_INSTALL \<noteq> TRIGSET_UNINSTALL" "TRIGSET_ENABLE \<noteq> TRIGSET_UNINSTALL"
  "TRIG_READ \<noteq> TRIGSET_UNINSTALL"
  by (simp_all add: fid_defs)

text \<open>A call that counts fails.\<close>

lemma fails_result:
  assumes run: "res = cpu_fail E ret (after s (before @ ((fid, x, y), m0, ret) # behind) mem)" and "mem \<noteq> None"
    and script: "online_script E s = map fst before @ (fid, x, y) # undone" and before: "\<forall>x \<in> set before. passes x"
    and fails: "fid \<noteq> TRIGSET_UNINSTALL" "ret \<noteq> 0"
    and behind: "clean_up (length (real_addrs E s)) (fid, x, y) = map fst behind @ [(SET_SHMEM, - 1, - 1)]"
    and inst: "\<forall>x \<in> set (before @ ((fid, x, y), m0, ret) # behind). installs (real_addrs E s) x"
  shows "\<exists>ret evs mem. res = (Inr ret, after s evs mem) \<and> online_result E s ret evs mem"
proof -
  let ?ev = "((fid, x, y), m0, ret)"
  obtain r mem' where f: "res = (Inr ret, after s ((before @ ?ev # behind) @ [((SET_SHMEM, - 1, - 1), mem, r)]) mem')"
    "mem' = None \<longleftrightarrow> r = 0"
    unfolding run using cpu_fail_run \<open>mem \<noteq> None\<close> by metis
  have "online_fails E s ret (before @ ?ev # behind @ [((SET_SHMEM, - 1, - 1), mem, r)])"
    unfolding online_fails_def using script before fails behind
    by (intro exI [of _ before] exI [of _ ?ev] exI [of _ "behind @ [((SET_SHMEM, - 1, - 1), mem, r)]"] exI [of _ undone])
      (simp add: passes_def)
  then have "online_result E s ret ((before @ ?ev # behind) @ [((SET_SHMEM, - 1, - 1), mem, r)]) mem'"
    using f(2) inst fails(2) by (simp add: online_result_def ball_Un)
  with f(1) show ?thesis by blast
qed

lemma install_run:
  fixes as :: "u64 list" and n :: nat and E s
  defines "as \<equiv> real_addrs E s" and "n \<equiv> length (real_addrs E s)"
  assumes script: "online_script E s = map fst evs @ [(TRIG_INSTALL, of_nat n, 0), (TRIGSET_ENABLE, 0, mask n), (TRIG_READ, 0, of_nat n)]"
    and evs: "\<forall>x \<in> set evs. passes x \<and> installs as x" and ms: "length ms = num_trig s" "n \<le> length ms" "\<forall>i < n. is_trigger (as ! i) (ms ! i)"
  shows "\<exists>ret evs' mem. cpu_install E n (mask n) (after s evs (Some ms)) = (Inr ret, after s evs' mem) \<and> online_result E s ret evs' mem"
proof -
  obtain r1 m1 where c1: "sbi_dbtr_call E TRIG_INSTALL (of_nat n) 0 (after s evs (Some ms)) =
      (Inr r1, after s (evs @ [((TRIG_INSTALL, of_nat n, 0), Some ms, r1)]) m1)" "map_option length m1 = Some (num_trig s)"
    using call_run [of E TRIG_INSTALL "of_nat n" 0 s evs "Some ms"] ms(1) by (metis option.map(2))
  let ?evs1 = "evs @ [((TRIG_INSTALL, of_nat n, 0), Some ms, r1)]"
  obtain r2 m2 where c2: "sbi_dbtr_call E TRIGSET_ENABLE 0 (mask n) (after s ?evs1 m1) =
      (Inr r2, after s (?evs1 @ [((TRIGSET_ENABLE, 0, mask n), m1, r2)]) m2)" "map_option length m2 = Some (num_trig s)"
    using call_run [of E TRIGSET_ENABLE 0 "mask n" s ?evs1 m1] c1(2) by metis
  let ?evs2 = "?evs1 @ [((TRIGSET_ENABLE, 0, mask n), m1, r2)]"
  obtain r3 m3 where c3: "sbi_dbtr_call E TRIG_READ 0 (of_nat n) (after s ?evs2 m2) =
      (Inr r3, after s (?evs2 @ [((TRIG_READ, 0, of_nat n), m2, r3)]) m3)" "map_option length m3 = Some (num_trig s)"
    using call_run [of E TRIG_READ 0 "of_nat n" s ?evs2 m2] c2(2) by metis
  let ?evs3 = "?evs2 @ [((TRIG_READ, 0, of_nat n), m2, r3)]"
  have inst: "\<forall>x \<in> set ?evs3. installs as x" using evs ms(2,3) by (auto simp: installs_def as_def n_def fid_defs)
  have "m1 \<noteq> None" "m2 \<noteq> None" "m3 \<noteq> None" using c1(2) c2(2) c3(2) by auto
  consider "r1 \<noteq> 0" | "r1 = 0" "r2 \<noteq> 0" | "r1 = 0" "r2 = 0" "r3 \<noteq> 0" | "r1 = 0" "r2 = 0" "r3 = 0" by blast
  then show ?thesis
  proof cases
    case 1
    then have "cpu_install E n (mask n) (after s evs (Some ms)) = cpu_fail E r1 (after s ?evs1 m1)"
      by (simp add: cpu_install_def comp_simps c1(1))
    from fails_result [OF this \<open>m1 \<noteq> None\<close> script] show ?thesis using evs inst 1 by (simp add: as_def)
  next
    case 2
    obtain r m where d: "sbi_dbtr_call E TRIGSET_DISABLE 0 (mask n) (after s ?evs2 m2) =
      (Inr r, after s (?evs2 @ [((TRIGSET_DISABLE, 0, mask n), m2, r)]) m)" "map_option length m = map_option length m2"
      by (rule call_run)
    let ?dis = "((TRIGSET_DISABLE, 0, mask n), m2, r)"
    have run: "cpu_install E n (mask n) (after s evs (Some ms)) =
        cpu_fail E r2 (after s (?evs1 @ ((TRIGSET_ENABLE, 0, mask n), m1, r2) # [?dis]) m)"
      using 2 c2(1) d(1) by (simp add: cpu_install_def comp_simps c1(1))
    have "m \<noteq> None" using c2(2) d(2) by auto
    from fails_result [OF run \<open>m \<noteq> None\<close>] show ?thesis using script evs inst 2 by (simp add: as_def n_def passes_def)
  next
    case 3
    then have "cpu_install E n (mask n) (after s evs (Some ms)) = cpu_fail E r3 (after s ?evs3 m3)"
      using c2(1) c3(1) by (simp add: cpu_install_def comp_simps c1(1))
    from fails_result [OF this \<open>m3 \<noteq> None\<close>] show ?thesis using script evs inst 3 by (simp add: as_def passes_def)
  next
    case 4
    then have "online_result E s 0 ?evs3 m3" using script evs inst c3(2) by (auto simp: online_result_def as_def passes_def)
    moreover have "cpu_install E n (mask n) (after s evs (Some ms)) = (Inr 0, after s ?evs3 m3)"
      using 4 c2(1) c3(1) by (simp add: cpu_install_def comp_simps c1(1))
    ultimately show ?thesis by blast
  qed
qed

lemma cpu_online_run:
  assumes alloc: "te_kzalloc E" and enough: "length (real_addrs E s) \<le> num_trig s"
  shows "\<exists>ret evs mem. rvtrigger_cpu_online E s = (Inr ret, after s evs mem) \<and> online_result E s ret evs mem"
proof -
  let ?as = "real_addrs E s" and ?n = "length (real_addrs E s)" and ?N = "num_trig s"
  let ?un = "map (\<lambda>j. (TRIGSET_UNINSTALL, of_nat j, 1)) [0..<?N] :: sbi_call list"
  let ?mem = "Some (replicate ?N \<lparr>sm_state = 0, sm_tdata1 = 0, sm_tdata2 = 0, sm_tdata3 = 0, sm_idx = 0\<rparr>)"
  have start: "s\<lparr>shmem_msgs := ?mem\<rparr> = after s [] ?mem" by (simp add: after_def)
  obtain r m1 where c: "sbi_dbtr_call E SET_SHMEM (te_pa E) 0 (after s [] ?mem) =
      (Inr r, after s [((SET_SHMEM, te_pa E, 0), ?mem, r)] m1)" "map_option length m1 = Some ?N"
    using call_run [of E SET_SHMEM "te_pa E" 0 s "[]" ?mem] by (metis append_Nil length_replicate option.map(2))
  let ?ev = "((SET_SHMEM, te_pa E, 0), ?mem, r)"
  show ?thesis
  proof (cases "r = 0")
    case False
    have run: "rvtrigger_cpu_online E s = cpu_fail E r (after s ([] @ [?ev]) m1)"
      using alloc False c(1) by (simp add: rvtrigger_cpu_online_def comp_simps start)
    have "m1 \<noteq> None" using c(2) by auto
    from fails_result [OF run this] show ?thesis using False by (simp add: online_script_def Let_def)
  next
    case True
    obtain evs m2 where un: "uninstall_all E 0 ?N (after s [?ev] m1) = (Inr (), after s (?ev # evs) m2)" and
      evs: "map fst evs = ?un" and m2: "map_option length m2 = Some ?N"
      using uninstall_all_run [of E 0 ?N s "[?ev]" m1] c(2) by auto
    then obtain ms2 where ms2: "m2 = Some ms2" "length ms2 = ?N" by auto
    have "0 \<notin> set ?as" by (simp add: real_addrs_def)
    from put_msgs_run [OF this, of 0 ms2 0 s "?ev # evs"] enough ms2(2) obtain ms where
      put: "put_msgs (csr_mcontrol6 6 4 1 1 1) ?as 0 0 (after s (?ev # evs) (Some ms2)) =
        (Inr (?n, trigger_set ?as 0 0), after s (?ev # evs) (Some ms))" and
      ms: "length ms = ?N" "\<forall>i < ?n. is_trigger (?as ! i) (ms ! i)" by auto
    have "trigger_set ?as 0 0 = mask ?n" using trigger_set_mask [of ?as 0] by (simp add: real_addrs_def)
    then have "rvtrigger_cpu_online E s = cpu_install E ?n (mask ?n) (after s (?ev # evs) (Some ms))"
      using alloc True c(1) un put ms2(1) put_msgs_filter [of "csr_mcontrol6 6 4 1 1 1" "take (length (te_addrs E)) (resolved_addrs s)"]
      by (simp add: rvtrigger_cpu_online_def comp_simps start real_addrs_def)
    moreover have "passes x \<and> installs ?as x" if "x \<in> set evs" for x
    proof -
      have "fst x \<in> set (map fst evs)" using that by simp
      with evs have "fst (fst x) = TRIGSET_UNINSTALL" by auto
      then show ?thesis by (simp add: passes_def installs_def fids_differ(2) [symmetric])
    qed
    then have "\<forall>x \<in> set (?ev # evs). passes x \<and> installs ?as x" using True by (simp add: passes_def)
    ultimately show ?thesis using install_run [of E s "?ev # evs" ms] evs ms enough by (simp add: online_script_def Let_def)
  qed
qed

lemma cpu_offline_run:
  "\<exists>off u. rvtrigger_cpu_offline E s = (Inr 0, u) \<and> tg_calls u = tg_calls s @ off \<and>
    map fst off = [(TRIGSET_DISABLE, 0, mask (length (real_addrs E s))), (TRIGSET_UNINSTALL, 0, mask (length (real_addrs E s))),
      (SET_SHMEM, - 1, - 1)]"
proof -
  let ?m = "mask (length (real_addrs E s)) :: u64"
  have start: "after s [] (shmem_msgs s) = s" by (simp add: after_def)
  have set: "trigger_set (take (length (te_addrs E)) (resolved_addrs s)) 0 0 = ?m"
    using trigger_set_mask [of "take (length (te_addrs E)) (resolved_addrs s)" 0] by (simp add: real_addrs_def)
  obtain r1 m1 where c1: "sbi_dbtr_call E TRIGSET_DISABLE 0 ?m s = (Inr r1, after s [((TRIGSET_DISABLE, 0, ?m), shmem_msgs s, r1)] m1)"
    using call_run [of E TRIGSET_DISABLE 0 ?m s "[]" "shmem_msgs s"] start by (metis append_Nil)
  let ?evs = "[((TRIGSET_DISABLE, 0, ?m), shmem_msgs s, r1)]"
  obtain r2 m2 where c2: "sbi_dbtr_call E TRIGSET_UNINSTALL 0 ?m (after s ?evs m1) =
      (Inr r2, after s (?evs @ [((TRIGSET_UNINSTALL, 0, ?m), m1, r2)]) m2)"
    by (rule call_run)
  obtain r3 m3 where c3: "cpu_fail E 0 (after s (?evs @ [((TRIGSET_UNINSTALL, 0, ?m), m1, r2)]) m2) =
      (Inr 0, after s ((?evs @ [((TRIGSET_UNINSTALL, 0, ?m), m1, r2)]) @ [((SET_SHMEM, - 1, - 1), m2, r3)]) m3)"
    by (rule cpu_fail_run)
  have "rvtrigger_cpu_offline E s = cpu_fail E 0 (after s (?evs @ [((TRIGSET_UNINSTALL, 0, ?m), m1, r2)]) m2)"
    using c2 by (simp add: rvtrigger_cpu_offline_def comp_simps set c1 cpu_fail_def)
  with c3 show ?thesis by (intro exI) (auto intro: refl)
qed

text \<open>
  C40. Setting up a CPU. If there are triggers enough, the calls of the firmware are, in this order: the shared memory is set, every
  trigger uninstalled, the triggers in the memory are installed, enabled and read back. When they are installed the memory holds, in
  order, an entry for each address that has been resolved: an execution trigger with the action 4 (trace synchronisation) in S and
  VS mode. The result is 0 exactly if no call has failed, those that uninstall apart; otherwise it is the error of the first that has, which is followed by the
  clean-up calls only, and the memory is freed if the firmware has given it back. Without memory nothing is called. Taking the CPU
  offline disables and uninstalls the same set of triggers and gives the memory back.
\<close>

theorem cpu_online_installs:
  assumes "length (real_addrs E s) \<le> num_trig s"
  shows "if te_kzalloc E then
      \<exists>ret evs t. rvtrigger_cpu_online E s = (Inr ret, t) \<and> tg_calls t = tg_calls s @ evs \<and> real_addrs E t = real_addrs E s \<and>
        (\<forall>x \<in> set evs. installs (real_addrs E s) x) \<and>
        (if ret = 0 then map fst evs = online_script E s \<and> (\<forall>x \<in> set evs. passes x) \<and> shmem_msgs t \<noteq> None
         else online_fails E s ret evs \<and> (shmem_msgs t = None \<longleftrightarrow> snd (snd (last evs)) = 0)) \<and>
        (\<exists>off u. rvtrigger_cpu_offline E t = (Inr 0, u) \<and> tg_calls u = tg_calls t @ off \<and>
           map fst off = [(TRIGSET_DISABLE, 0, mask (length (real_addrs E s))),
             (TRIGSET_UNINSTALL, 0, mask (length (real_addrs E s))), (SET_SHMEM, - 1, - 1)])
    else rvtrigger_cpu_online E s = (Inr (- 12), s)"
proof (cases "te_kzalloc E")
  case True
  from cpu_online_run [OF True assms] obtain ret evs mem where
    run: "rvtrigger_cpu_online E s = (Inr ret, after s evs mem)" and res: "online_result E s ret evs mem" by blast
  have same: "real_addrs E (after s evs mem) = real_addrs E s" by (simp add: real_addrs_def)
  note cpu_offline_run [of E "after s evs mem", unfolded same]
  with True run res same show ?thesis
    by (auto simp: online_result_def intro!: exI [of _ ret] exI [of _ evs] exI [of _ "after s evs mem"])
qed (simp add: rvtrigger_cpu_online_def retS_def)

text \<open>A firmware with four triggers that installs and reads them, and the addresses of the description of the platform.\<close>

definition ex_trig :: trig_env where
  "ex_trig = \<lparr>te_probe = True, te_sbi = (\<lambda>evs mem (fid, a, b). (0, if fid = NUM_TRIGGERS then 4 else 0)),
     te_shmem = (\<lambda>evs ms (fid, a, b) i. if fid = TRIG_READ \<and> i < unat b then (ms ! i)\<lparr>sm_state := push_bit 8 (of_nat i) OR 0x15\<rparr> else ms ! i),
     te_errno = id, te_addrs = [''__switch_to'', ''__kvm_switch_resume'', ''__kvm_switch_return''], te_kstrtoul = (\<lambda>a. Inl 22),
     te_kln = (\<lambda>a. 0xFFFFFFFF80001000), te_kzalloc = True, te_pa = 0x80000000, te_setup = 0\<rparr>"

definition ex_module :: trig_module where
  "ex_module = \<lparr>tg_calls = [], shmem_msgs = None, resolved_addrs = [0xFFFFFFFFB7E0A700, 0xFFFFFFFFB722C7A6, 0xFFFFFFFFB722C7AC, 0],
     num_trig = 4\<rparr>"

lemma cpu_online_installs_witness:
  "(\<exists>ret evs t. rvtrigger_cpu_online ex_trig ex_module = (Inr ret, t) \<and> tg_calls t = evs \<and>
     (\<forall>x \<in> set evs. installs [0xFFFFFFFFB7E0A700, 0xFFFFFFFFB722C7A6, 0xFFFFFFFFB722C7AC] x) \<and>
     (ret = 0 \<longrightarrow> map fst evs = online_script ex_trig ex_module)) \<and>
   map_option (map (\<lambda>m. (sm_state m, sm_tdata1 m, sm_tdata2 m, sm_tdata3 m)))
     (shmem_msgs (snd (rvtrigger_cpu_online ex_trig ex_module))) =
   Some [(0x15, 0x6000000001004014, 0xFFFFFFFFB7E0A700, 0), (0x115, 0x6000000001004014, 0xFFFFFFFFB722C7A6, 0),
     (0x215, 0x6000000001004014, 0xFFFFFFFFB722C7AC, 0), (0, 0, 0, 0)]"
proof (rule conjI)
  have "real_addrs ex_trig ex_module = [0xFFFFFFFFB7E0A700, 0xFFFFFFFFB722C7A6, 0xFFFFFFFFB722C7AC]"
    by (simp add: real_addrs_def ex_trig_def ex_module_def)
  moreover have "te_kzalloc ex_trig" "num_trig ex_module = 4" "tg_calls ex_module = []"
    by (simp_all add: ex_trig_def ex_module_def)
  ultimately show "\<exists>ret evs t. rvtrigger_cpu_online ex_trig ex_module = (Inr ret, t) \<and> tg_calls t = evs \<and>
     (\<forall>x \<in> set evs. installs [0xFFFFFFFFB7E0A700, 0xFFFFFFFFB722C7A6, 0xFFFFFFFFB722C7AC] x) \<and>
     (ret = 0 \<longrightarrow> map fst evs = online_script ex_trig ex_module)"
    using cpu_online_installs [of ex_trig ex_module] by auto
qed code_simp

subsection \<open>Resolving the addresses\<close>

text \<open>What is stored for a string that is no number.\<close>

definition stored_errno :: "trig_env \<Rightarrow> string \<Rightarrow> u64" where
  "stored_errno E a = (case te_kstrtoul E a of Inl err \<Rightarrow> word_of_int (- err) | Inr v \<Rightarrow> 0)"

definition refused :: "trig_env \<Rightarrow> string \<Rightarrow> bool" where
  "refused E a \<longleftrightarrow> (\<exists>err. te_kstrtoul E a = Inl err \<and> 0 < err \<and> err < 4096)"

lemma stored_errno_nonzero: "refused E a \<Longrightarrow> stored_errno E a \<noteq> 0"
proof -
  assume "refused E a"
  then obtain err where e: "te_kstrtoul E a = Inl err" "0 < err" "err < 4096" by (auto simp: refused_def)
  then have "uint (word_of_int err :: u64) = err" by (simp add: uint_word_of_int)
  with e(2) have "(word_of_int err :: u64) \<noteq> 0" by auto
  with e(1) show ?thesis by (simp add: stored_errno_def)
qed

lemma resolve_all_run:
  assumes "\<forall>a \<in> set as. refused E a" and "i + length as \<le> length (resolved_addrs s)"
  shows "resolve_all E i as s = (Inr (), s\<lparr>resolved_addrs :=
    take i (resolved_addrs s) @ map (stored_errno E) as @ drop (i + length as) (resolved_addrs s)\<rparr>)"
  using assms
proof (induction as arbitrary: i s)
  case (Cons a as)
  obtain err where e: "te_kstrtoul E a = Inl err" using Cons.prems(1) by (auto simp: refused_def)
  have "stored_errno E a \<noteq> 0" using Cons.prems(1) by (simp add: stored_errno_nonzero)
  then have "resolve_addr E i a s = (Inr (), s\<lparr>resolved_addrs := (resolved_addrs s)[i := stored_errno E a]\<rparr>)"
    using e by (simp add: resolve_addr_def stored_errno_def set_addr_def comp_simps thenS_def modS_def)
  moreover have "take (Suc i) ((resolved_addrs s)[i := x]) = take i (resolved_addrs s) @ [x]" for x
    using Cons.prems(2) by (simp add: take_Suc_conv_app_nth)
  ultimately show ?case using Cons by (simp add: comp_simps)
qed (simp add: retS_def)

text \<open>
  The module sets its triggers at error numbers. The symbols it is given are passed to \<^verbatim>\<open>kstrtoul\<close> with the arguments in the
  wrong order and its result is taken for the address: for strings that are no numbers the module is initialised without an error, no
  symbol is looked up, and every trigger that is installed is at the negative error number.
\<close>

definition has_triggers :: "trig_env \<Rightarrow> nat \<Rightarrow> bool" where
  "has_triggers E n \<longleftrightarrow> n < 2 ^ 31 \<and> (\<forall>evs mem a b. te_sbi E evs mem (NUM_TRIGGERS, a, b) = (0, int n))"

lemma num_triggers_call:
  assumes "has_triggers E n"
  shows "sbi_dbtr_call E NUM_TRIGGERS a b s = (Inr (int n),
    s\<lparr>tg_calls := tg_calls s @ [((NUM_TRIGGERS, a, b), shmem_msgs s, int n)], shmem_msgs := written E s (NUM_TRIGGERS, a, b)\<rparr>)"
  using assms by (simp add: sbi_dbtr_call_def has_triggers_def Let_def signed_of_nat signed_take_bit_int_eq_self)

theorem triggers_at_error_numbers:
  assumes "te_probe E" and trigs: "has_triggers E n" and "te_kzalloc E" and "0 \<le> te_setup E"
    and addrs: "length (te_addrs E) \<le> n" "length (te_addrs E) \<le> length (resolved_addrs s)" "\<forall>a \<in> set (te_addrs E). refused E a"
  shows "\<exists>t ret evs u. rvtrigger_init E s = (Inr 0, t) \<and> rvtrigger_cpu_online E t = (Inr ret, u) \<and> tg_calls u = tg_calls t @ evs \<and>
    (\<forall>x \<in> set evs. installs (map (stored_errno E) (te_addrs E)) x) \<and> (ret = 0 \<longrightarrow> map fst evs = online_script E t)"
proof -
  let ?as = "te_addrs E" and ?es = "map (stored_errno E) (te_addrs E)"
  let ?r = "?es @ drop (length ?as) (resolved_addrs s)"
  let ?call = "(NUM_TRIGGERS, csr_mcontrol6 6 0 0 0 0, 0)"
  let ?t = "s\<lparr>tg_calls := tg_calls s @ [(?call, shmem_msgs s, int n)], shmem_msgs := written E s ?call, num_trig := n, resolved_addrs := ?r\<rparr>"
  have "resolve_all E 0 ?as u = (Inr (), u\<lparr>resolved_addrs := ?r\<rparr>)" if "resolved_addrs u = resolved_addrs s" for u
    using resolve_all_run [OF addrs(3), of 0 u] addrs(2) that by simp
  then have init: "rvtrigger_init E s = (Inr 0, ?t)"
    using assms(1,4) addrs(1) num_triggers_call [OF trigs]
    by (simp add: rvtrigger_init_def comp_simps bindS_def thenS_def modS_def retS_def)
  have "filter (\<lambda>a. a \<noteq> 0) ?es = ?es" using stored_errno_nonzero addrs(3) by (auto simp: filter_id_conv)
  then have real: "real_addrs E ?t = ?es" by (simp add: real_addrs_def)
  with addrs(1) cpu_online_run [OF assms(3), of ?t] obtain ret evs mem where
    "rvtrigger_cpu_online E ?t = (Inr ret, after ?t evs mem)" "online_result E ?t ret evs mem" by auto
  with init real show ?thesis
    by (intro exI [of _ ?t] exI [of _ ret] exI [of _ evs] exI [of _ "after ?t evs mem"]) (auto simp: online_result_def)
qed

text \<open>A string that is a number is written through a null pointer.\<close>

lemma number_crashes:
  assumes "te_probe E" "has_triggers E n" "length (te_addrs E) \<le> n" "te_addrs E = a # as" "te_kstrtoul E a = Inr v"
  shows "fst (rvtrigger_init E s) = Inl Crash"
  using assms num_triggers_call [OF assms(2)]
  by (simp add: rvtrigger_init_def comp_simps resolve_addr_def bindS_def thenS_def modS_def throwS_def)

end
