(* ===== verification/Spec2Isabelle.thy ===== *)
theory Spec2Isabelle
  imports Codec MsgStream RetStack HistArray InstHelper TraceLimits HwCfg SplitTool TextTools PatchTool ObjProps InstFetch
    ReplayProps LinuxProps SymProps ToolTrip MainProgs TrigModule
begin

text \<open>
  A verification development of libnexus-rv: the codec and trace decoder for RISC-V Nexus trace messages under
  \<^verbatim>\<open>lib/\<close> and \<^verbatim>\<open>include/\<close>, the utilities under \<^verbatim>\<open>util/\<close> built on it, and the
  kernel module \<^verbatim>\<open>contrib/p550/rvtrigger\<close>.

  \<^bold>\<open>The program.\<close> A trace file is a sequence of messages, each a run of bytes with two framing bits per byte. The message
  decoder and encoder translate between bytes and a struct; the stream decoder reads a file descriptor through a buffer and
  decodes one message after the other; the trace decoder turns messages into what a processor did: instructions retired, branch
  outcomes, targets of indirect branches, and events. On top of it the replay utility follows the code in memory: it fetches
  blocks of instructions, retires them against the trace decoder, looks up symbols and writes a log. The other utilities list
  (\<^verbatim>\<open>dump\<close>), assemble, split and patch trace files.

  \<^bold>\<open>How it is modelled.\<close> A C function that changes a struct is a function from the record of the struct to a result and the
  changed record (\<open>comp\<close> in Prelude); the result is an error or a value. Errors are data: a negative error code, a failed
  assertion (\<open>Abort\<close>), and a read or write that C leaves undefined (\<open>Undef\<close>); for the utilities (\<open>stop\<close> in ToolBase) an
  exit with its status, a failed assertion and a crash. Machine integers are words of their width. File descriptors are the bytes
  left and the sizes of the reads to come; memory allocation, \<^verbatim>\<open>fwrite\<close>, the memory that an uninitialised local
  holds, the file system, libbfd, capstone, \<^verbatim>\<open>addr2line\<close>, the firmware and the kernel are arguments.

  \<^bold>\<open>Theories.\<close>
  \<^item> Prelude: integer types, the error and state discipline, invariants and simulations for it, bit lists.
    OrdMap: \<^verbatim>\<open>std::map\<close> as an ordered list, and the locale \<open>interval_map\<close> of the maps from start addresses to
    disjoint intervals, interpreted for the loaded sections, for the sections of a file and for the files mapped into a process.
  \<^item> Errors, MsgTypes: \<^verbatim>\<open>error.h\<close>, \<^verbatim>\<open>msg-types.h\<close> and the configuration struct.
  \<^item> MsgBytes, BitPack, MsgDecode, MsgEncode: the bytes, \<^verbatim>\<open>unpack_bits\<close> and \<^verbatim>\<open>pack_bits\<close>, and
    \<^verbatim>\<open>nexusrv_msg_decode\<close> and \<^verbatim>\<open>nexusrv_msg_encode\<close> with one definition for every macro. WireFormat is
    the abstract format, a list of fields; MsgDecodeProps, MsgEncodeProps, MsgRoundtrip and Codec show that the encoder writes it,
    that the decoder reads it back, that the decoder is safe on any bytes, and which messages do not survive.
  \<^item> MsgDecoder, MsgStream: \<^verbatim>\<open>read_all\<close> and the stream decoder. A state stands for a position in the file (\<open>at_pos\<close>);
    the calls refine decoding the whole file in memory, rewinding is exact (locale \<open>rewindable\<close>), and no sequence of calls that
    deliver messages is endless.
  \<^item> RetStack, HistArray: the return stack, which refines a bounded stack (locale \<open>bounded_stack\<close>), and the history queue.
  \<^item> TraceDecoder: every function of \<^verbatim>\<open>trace-decoder.c\<close>. TraceQueue and TracePull give the pending branch
    outcomes as a list and the pending instructions as a number; TraceReach and TraceEvents follow the loops over ResourceFull
    messages; TraceProps, TraceSync and TraceLeave state what each call does; TraceCalls is the interface as a step relation with
    its invariant, which goes on behind the errors of single calls; TraceLimits has the branches that synchronise, and the runs
    that fail an assertion on a correct trace.
  \<^item> TextNum, HwCfg, MsgText, MsgTextProps: numbers in text, the configuration string, the printer and the reader of messages.
    InstHelper: the classification of jumps.
  \<^item> ToolBase, SplitTool, TextTools, PatchTool: the utilities \<^verbatim>\<open>split.c\<close>, \<^verbatim>\<open>dump.c\<close>,
    \<^verbatim>\<open>assemble.c\<close>, \<^verbatim>\<open>patch.c\<close> and the opening of files at an offset in \<^verbatim>\<open>misc.c\<close>.
    ToolTrip composes them: the dumper lists, message for message, what the assembler wrote.
  \<^item> ObjFile, ObjProps: \<^verbatim>\<open>objfile.cpp\<close> and the memory of \<^verbatim>\<open>vm.cpp\<close>: the bytes at an address are those of
    the section that covers it, and closing a file unmaps every section that was mapped.
  \<^item> InstBlock, InstRetire, InstFetch: \<^verbatim>\<open>inst.cpp\<close>: every class of blocks as a kind of one record, what retiring a
    block does in every case (the relation \<open>block_behind\<close> has a rule for each), and what is fetched.
  \<^item> LinuxFiles, LinuxCore, LinuxProps: \<^verbatim>\<open>linux.cpp\<close>: file stores, core files of processes and of the kernel,
    kernel symbols. SymTool: \<^verbatim>\<open>sym.cpp\<close>, with the command line
    of \<^verbatim>\<open>addr2line\<close>, and the symbol queries of \<^verbatim>\<open>vm.cpp\<close>; SymProps: the queries with their caches answer
    as the queries without (locale \<open>memo_table\<close>, interpreted for both caches).
  \<^item> Logger, ReplayTool, ReplayProps: \<^verbatim>\<open>logger.cpp\<close> and \<^verbatim>\<open>replay.cpp\<close>.
  \<^item> MainProgs: \<^verbatim>\<open>opts-def.h\<close> over \<^verbatim>\<open>getopt_long\<close>, and the five main functions. TrigModule:
    \<^verbatim>\<open>rvtrace-trigger.c\<close>, with a log of the calls of the firmware, each with the shared memory as the firmware found it.

  \<^bold>\<open>Loops.\<close> Loops are recursive functions with a measure, so that they return: the bytes not yet decoded for the loops of the
  stream decoder and of the utilities (\<open>backlog\<close>), with the buffered message for those of the trace decoder (\<open>todo\<close>), the
  length of the queue, of the code or of the text for the others. Only the replay loop may not end; it takes the number of rounds,
  and is \<open>None\<close> when they do not suffice: \<open>replay_hangs\<close> gives states from which no number does.

  \<^bold>\<open>Not modelled.\<close> The child process, pipes and descriptors by which the constructor of \<^verbatim>\<open>sym_server\<close> runs \<^verbatim>\<open>addr2line\<close>,
  the file helpers of \<^verbatim>\<open>misc.h\<close>, help texts and messages on the standard error output, what \<^verbatim>\<open>fscanf\<close> leaves in
  the stream after an error, the removal of the kernel module (one call of the kernel), the test program for the depth of the
  stack, scripts and build files. The caches that are keyed by pointers are keyed by the names the pointers stand for.
\<close>

end
